(* ===== verification/Prelude.thy ===== *)
theory Prelude
  imports Main "HOL-Library.Word"
begin

text \<open>
  Shared vocabulary of the development: the integer types of \<^verbatim>\<open>inc/types.h\<close> as words,
  the page size, the error numbers of \<^verbatim>\<open>inc/errno.h\<close> that the modelled code returns,
  the theorem collections used as simplifier and rule sets by the component theories, and the
  generic facts on words and lists they share.

  Conventions. Unsigned C integers are words, so that \<open>+\<close>, \<open>-\<close> and \<open>*\<close> wrap. A C function
  that returns \<^verbatim>\<open>int32_t\<close> or \<^verbatim>\<open>int64_t\<close> error codes returns an \<open>int\<close> here,
  \<open>0\<close> for success and \<open>- E...\<close> for an error, as in the source.
\<close>

unbundle bit_operations_syntax

section \<open>Machine integers\<close>

type_synonym u8 = "8 word"
type_synonym u16 = "16 word"
type_synonym u32 = "32 word"
type_synonym u64 = "64 word"
type_synonym i64 = "64 word"
type_synonym errcode = int

section \<open>Theorem collections\<close>

named_theorems kernel_simps \<open>unfoldings the component proofs rewrite with\<close>
named_theorems kernel_inv \<open>preservation lemmas of the component invariants\<close>

section \<open>Constants of inc/limits.h and inc/errno.h\<close>

abbreviation PAGE_SIZE :: u64 where "PAGE_SIZE \<equiv> 4096"
abbreviation NAME_MAX :: nat where "NAME_MAX \<equiv> 255"

abbreviation (input) ENOENT :: int where "ENOENT \<equiv> 2"
abbreviation (input) EIO :: int where "EIO \<equiv> 5"
abbreviation (input) E2BIG :: int where "E2BIG \<equiv> 7"
abbreviation (input) ENOEXEC :: int where "ENOEXEC \<equiv> 8"
abbreviation (input) EBADF :: int where "EBADF \<equiv> 9"
abbreviation (input) ECHILD :: int where "ECHILD \<equiv> 10"
abbreviation (input) ENOMEM :: int where "ENOMEM \<equiv> 12"
abbreviation (input) EACCES :: int where "EACCES \<equiv> 13"
abbreviation (input) EFAULT :: int where "EFAULT \<equiv> 14"
abbreviation (input) EBUSY :: int where "EBUSY \<equiv> 16"
abbreviation (input) ENODEV :: int where "ENODEV \<equiv> 19"
abbreviation (input) EISDIR :: int where "EISDIR \<equiv> 21"
abbreviation (input) EINVAL :: int where "EINVAL \<equiv> 22"
abbreviation (input) EMFILE :: int where "EMFILE \<equiv> 24"
abbreviation (input) ERANGE :: int where "ERANGE \<equiv> 34"
abbreviation (input) ENAMETOOLONG :: int where "ENAMETOOLONG \<equiv> 36"
abbreviation (input) ENOSYS :: int where "ENOSYS \<equiv> 38"
abbreviation (input) EOVERFLOW :: int where "EOVERFLOW \<equiv> 75"

section \<open>Generic facts on words\<close>

lemma unat_of_nat64 [simp]: "n < 2 ^ 64 \<Longrightarrow> unat (of_nat n :: u64) = n"
  by (simp add: unat_of_nat take_bit_nat_eq_self)

lemma unat_lt64: "unat (x :: u64) < 2 ^ 64"
  using unsigned_less [of x] by simp

lemma unat_Suc_less: "(c :: u64) < n \<Longrightarrow> unat (c + 1) = Suc (unat c)"
  by unat_arith

lemma unat_plus64: "unat x + unat y < 2 ^ 64 \<Longrightarrow> unat (x + y :: u64) = unat x + unat y"
  by (simp add: unat_word_ariths)

lemma unat_mult64: "unat x * unat y < 2 ^ 64 \<Longrightarrow> unat (x * y :: u64) = unat x * unat y"
  by (simp add: unat_word_ariths)

lemma unat_minus64: "(y :: u64) \<le> x \<Longrightarrow> unat (x - y) = unat x - unat y"
  by (rule unat_sub)

lemmas u64_arith = unat_plus64 unat_mult64 unat_minus64 unat_div_distrib unat_mod_distrib

lemma word_eq_unatI: "unat x = unat y \<Longrightarrow> x = (y :: u64)"
  by (simp add: word_unat_eq_iff)

lemma word_take_bit_self: "unat (w :: 'a::len word) < 2 ^ n \<Longrightarrow> take_bit n w = w"
  by (simp add: word_unat_eq_iff unsigned_take_bit_eq take_bit_nat_eq_self)

lemma bit_lt_of_less: "unat (w :: 'a::len word) < 2 ^ n \<Longrightarrow> bit w k \<Longrightarrow> k < n"
  using word_take_bit_self [of w n] by (metis bit_take_bit_iff)

end
