(* ===== verification/Math_Util.thy ===== *)
theory Math_Util
  imports Prelude
begin

text \<open>
  The integer helpers of \<^verbatim>\<open>kernel/util/math.c\<close> and the page-count macros of
  \<^verbatim>\<open>kernel/inc/mm/vmm.h\<close> built on them. A division by zero traps on the machine, so
  \<open>div_ceil\<close> and \<open>div_floor\<close> return an option; the loops of \<open>gd\<close>, \<open>gdu\<close> and \<open>pow\<close> are
  recursive functions.
\<close>

section \<open>Definitions\<close>

definition abs_c :: "i64 \<Rightarrow> u64" where
  "abs_c val = (if 0 \<le>s val then val else - val)"

text \<open>C's integer division truncates towards zero.\<close>

definition cdiv10 :: "int \<Rightarrow> int" where
  "cdiv10 v = (if 0 \<le> v then v div 10 else - ((- v) div 10))"

function gd :: "int \<Rightarrow> nat" where
  "gd val =
     (if val < 10 \<and> val \<ge> 0 then 1
      else if val > -10 \<and> val < 0 then 2
      else 1 + gd (cdiv10 val))"
  by pat_completeness auto
termination
  by (relation "measure (\<lambda>v. nat \<bar>v\<bar>)") (auto simp: cdiv10_def)

function gdu :: "u64 \<Rightarrow> nat" where
  "gdu val = (if val < 10 then 1 else 1 + gdu (val div 10))"
  by pat_completeness auto
termination
  by (relation "measure unat") (auto simp: unat_div_distrib word_less_nat_alt not_less)

declare gd.simps [simp del] gdu.simps [simp del]

definition div_ceil :: "u64 \<Rightarrow> u64 \<Rightarrow> u64 option" where
  "div_ceil x y = (if y = 0 then None else Some (1 + ((x - 1) div y)))"

definition div_floor :: "u64 \<Rightarrow> u64 \<Rightarrow> u64 option" where
  "div_floor x y = (if y = 0 then None else Some (x div y))"

function pow_loop :: "u64 \<Rightarrow> u64 \<Rightarrow> u64 \<Rightarrow> u64" where
  "pow_loop n r e = (if e > 1 then pow_loop n (r * n) (e - 1) else r)"
  by pat_completeness auto
termination
  by (relation "measure (\<lambda>(n, r, e). unat e)") (simp_all, unat_arith)

declare pow_loop.simps [simp del]

definition pow :: "u64 \<Rightarrow> u64 \<Rightarrow> u64" where
  "pow n e = (if e = 0 then 1 else pow_loop n n e)"

definition round_up :: "u64 \<Rightarrow> u64 \<Rightarrow> u64" where
  "round_up x f = (if f = 0 then x else (x + f - 1) div f * f)"

definition round_down :: "u64 \<Rightarrow> u64 \<Rightarrow> u64" where
  "round_down x f = (if f = 0 then x else x div f * f)"

definition vmm_calc :: "u64 \<Rightarrow> u64" where
  "vmm_calc sz = the (div_ceil sz PAGE_SIZE)"

definition vmm_align :: "u64 \<Rightarrow> u64" where
  "vmm_align sz = round_up sz PAGE_SIZE"

section \<open>Rounding\<close>

lemma unat_round_down: "f \<noteq> 0 \<Longrightarrow> unat (round_down x f) = unat x div unat f * unat f"
proof -
  assume f: "f \<noteq> 0"
  have "unat x div unat f * unat f \<le> unat x" by simp
  then have "unat x div unat f * unat f < 2 ^ 64"
    using unat_lt64 [of x] by linarith
  then show ?thesis
    using f by (simp add: round_down_def unat_mult64 unat_div_distrib)
qed

lemma unat_round_up:
  assumes "f \<noteq> 0" and "unat x + unat f - 1 < 2 ^ 64"
  shows "unat (round_up x f) = (unat x + unat f - 1) div unat f * unat f"
proof -
  have f0: "0 < unat f" using assms(1) by (simp add: unat_gt_0)
  have e: "unat (x + f - 1) = unat x + unat f - 1"
  proof -
    have f1: "unat (f - 1) = unat f - 1"
      using assms(1) by (rule unat_minus_one)
    have "unat (x + (f - 1)) = unat x + unat f - 1"
      using assms(2) f0 f1 unat_plus64 [of x "f - 1"] by simp
    then show ?thesis by (simp only: add_diff_eq)
  qed
  have "(unat x + unat f - 1) div unat f * unat f \<le> unat x + unat f - 1" by simp
  then have "(unat x + unat f - 1) div unat f * unat f < 2 ^ 64"
    using assms(2) by linarith
  then show ?thesis
    using assms(1) e by (simp add: round_up_def unat_mult64 unat_div_distrib)
qed

lemma round_up_bounds:
  assumes "0 < (f::nat)"
  shows "x \<le> (x + f - 1) div f * f \<and> (x + f - 1) div f * f < x + f"
proof -
  let ?q = "(x + f - 1) div f"
  have "x + f - 1 = ?q * f + (x + f - 1) mod f" by simp
  moreover have "(x + f - 1) mod f < f" using assms by simp
  ultimately show ?thesis using assms by linarith
qed

text \<open>
  \<^verbatim>\<open>round_up(x, f)\<close> is the least multiple of \<open>f\<close> that is not below \<open>x\<close> whenever
  \<open>x + f - 1\<close> does not wrap around 64 bits.
\<close>

theorem round_up_least_multiple:
  assumes "f \<noteq> 0" and "unat x + unat f - 1 < 2 ^ 64"
  shows "unat f dvd unat (round_up x f) \<and> unat x \<le> unat (round_up x f) \<and>
    (\<forall>m. unat f dvd m \<and> unat x \<le> m \<longrightarrow> unat (round_up x f) \<le> m)"
proof (intro conjI allI impI)
  let ?r = "(unat x + unat f - 1) div unat f * unat f"
  have f0: "0 < unat f" using assms(1) by (simp add: unat_gt_0)
  note r = unat_round_up [OF assms] and b = round_up_bounds [OF f0, of "unat x"]
  show "unat f dvd unat (round_up x f)" by (simp add: r)
  show "unat x \<le> unat (round_up x f)" using b by (simp add: r)
  fix m assume m: "unat f dvd m \<and> unat x \<le> m"
  then obtain k where k: "m = unat f * k" by (auto elim: dvdE)
  have "unat f * ((unat x + unat f - 1) div unat f) < unat f * (k + 1)"
    using b m k by (simp add: mult.commute)
  then have "(unat x + unat f - 1) div unat f \<le> k"
    using f0 by (metis Suc_eq_plus1 less_Suc_eq_le mult_less_cancel1)
  then show "unat (round_up x f) \<le> m"
    using k by (simp add: r mult.commute)
qed

theorem round_up_least_multiple_witness:
  "unat (4096::u64) dvd unat (round_up 5000 4096) \<and> unat (5000::u64) \<le> unat (round_up 5000 4096)"
  using round_up_least_multiple [of 4096 5000] by simp

section \<open>Page counts\<close>

lemma div_ceil_ceiling:
  assumes "x \<noteq> 0" and "y \<noteq> 0"
  shows "\<exists>q. div_ceil x y = Some q \<and> unat q = 1 + (unat x - 1) div unat y"
proof -
  have u: "unat (x - 1) = unat x - 1" using assms(1) by (rule unat_minus_one)
  have "(unat x - 1) div unat y \<le> unat x - 1" by simp
  moreover have "0 < unat x" using assms(1) by (simp add: unat_gt_0)
  ultimately have "1 + (unat x - 1) div unat y < 2 ^ 64"
    using unat_lt64 [of x] by linarith
  then show ?thesis
    using assms u by (simp add: div_ceil_def unat_plus64 unat_div_distrib)
qed

text \<open>
  \<^verbatim>\<open>vmm_calc(size)\<close> is the number of pages that hold \<open>size\<close> bytes: the least page count
  whose byte size reaches it, for every non-zero size.
\<close>

theorem vmm_calc_least_pages:
  assumes "sz \<noteq> 0"
  shows "unat sz \<le> 4096 * unat (vmm_calc sz) \<and>
    (\<forall>n. unat sz \<le> 4096 * n \<longrightarrow> unat (vmm_calc sz) \<le> n)"
proof -
  obtain q where q: "div_ceil sz PAGE_SIZE = Some q" "unat q = 1 + (unat sz - 1) div 4096"
    using div_ceil_ceiling [of sz PAGE_SIZE] assms by auto
  have "0 < unat sz" using assms by (simp add: unat_gt_0)
  then show ?thesis using q by (auto simp: vmm_calc_def)
qed

theorem vmm_calc_least_pages_witness:
  "unat (4097::u64) \<le> 4096 * unat (vmm_calc 4097) \<and> unat (vmm_calc 4097) \<le> 2"
  using vmm_calc_least_pages [of 4097] by simp

text \<open>
  For size 0 the subtraction in \<^verbatim>\<open>div_ceil\<close> wraps around: zero bytes need \<open>2\<^sup>52\<close> pages.
\<close>

lemma vmm_calc_zero: "vmm_calc 0 = 2 ^ 52"
  by (simp add: vmm_calc_def div_ceil_def)

section \<open>Powers and digit counts\<close>

lemma pow_loop_power: "0 < e \<Longrightarrow> pow_loop n r e = r * n ^ (unat e - 1)"
proof (induction n r e rule: pow_loop.induct)
  case (1 n r e)
  show ?case
  proof (cases "e > 1")
    case True
    have e1: "unat (e - 1) = unat e - 1" using True by (intro unat_minus_one) auto
    have pos: "1 < unat e" using True by (simp add: word_less_nat_alt)
    then have "0 < e - 1" using e1 by (simp add: word_less_nat_alt)
    then have "pow_loop n (r * n) (e - 1) = r * n * n ^ (unat e - 1 - 1)"
      using "1.IH" [OF True] e1 by simp
    also have "\<dots> = r * n ^ Suc (unat e - 1 - 1)" by (simp add: mult.assoc)
    also have "Suc (unat e - 1 - 1) = unat e - 1" using pos by simp
    finally show ?thesis using True by (simp add: pow_loop.simps [of n r e])
  next
    case False
    then have "unat e = 1" using "1.prems" by (simp add: word_less_nat_alt)
    then show ?thesis using False by (simp add: pow_loop.simps [of n r e])
  qed
qed

lemma pow_power: "pow n e = n ^ unat e"
proof (cases "e = 0")
  case False
  then have "0 < e" by (simp add: word_neq_0_conv)
  moreover have "0 < unat e" using False by (simp add: unat_gt_0)
  ultimately show ?thesis
    by (simp add: pow_def pow_loop_power flip: power_Suc)
qed (simp add: pow_def)

lemma gdu_bounds: "10 ^ (gdu v - 1) \<le> max 1 (unat v) \<and> unat v < 10 ^ gdu v"
proof (induction v rule: gdu.induct)
  case (1 v)
  show ?case
  proof (cases "v < 10")
    case True
    then show ?thesis by (simp add: gdu.simps [of v] word_less_nat_alt)
  next
    case False
    let ?d = "gdu (v div 10)"
    have d: "10 ^ (?d - 1) \<le> max 1 (unat v div 10)" "unat v div 10 < 10 ^ ?d"
      using "1.IH" [OF False] by (simp_all add: unat_div_distrib)
    have big: "10 \<le> unat v" using False by (simp add: word_less_nat_alt)
    have pos: "0 < ?d" by (subst gdu.simps) simp
    have "(10::nat) ^ ?d = 10 * 10 ^ (?d - 1)" using pos by (simp flip: power_Suc)
    then have "10 ^ ?d \<le> 10 * (unat v div 10)" using d(1) big by simp
    then have "10 ^ ?d \<le> unat v" by linarith
    moreover have "unat v < 10 * 10 ^ ?d" using d(2) by linarith
    ultimately show ?thesis using False by (simp add: gdu.simps [of v])
  qed
qed

lemma gdu_pos [simp]: "0 < gdu v"
  by (subst gdu.simps) simp

lemma top_bit_unat: "bit (v :: u64) 63 \<longleftrightarrow> 2 ^ 63 \<le> unat v"
proof -
  have "bit v 63 = bit (unat v) 63" by (simp add: bit_unsigned_iff)
  also have "\<dots> = odd (unat v div 2 ^ 63)" by (rule bit_iff_odd)
  also have "\<dots> \<longleftrightarrow> unat v div 2 ^ 63 = 1"
  proof -
    have "unat v div 2 ^ 63 < 2" using unat_lt64 [of v] by (simp add: less_mult_imp_div_less)
    then show ?thesis by (cases "unat v div 2 ^ 63 = 0") (auto simp: less_2_cases_iff)
  qed
  also have "\<dots> \<longleftrightarrow> 2 ^ 63 \<le> unat v"
    using unat_lt64 [of v] by (simp add: div_nat_eqI) linarith
  finally show ?thesis .
qed

lemma sge0_unat: "0 \<le>s v \<longleftrightarrow> unat (v :: u64) < 2 ^ 63"
  using top_bit_unat [of v] by (simp add: word_sle_eq not_le sint_uint bit_simps del: power_numeral)

lemma unat_uminus: "v \<noteq> 0 \<Longrightarrow> unat (- v :: u64) = 2 ^ 64 - unat v"
proof -
  assume "v \<noteq> 0"
  then have p: "0 < unat v" by (simp add: unat_gt_0)
  have "(of_nat (2 ^ 64 - unat v) :: u64) = of_nat (2 ^ 64) - of_nat (unat v)"
    using unat_lt64 [of v] by (intro of_nat_diff) simp
  then have "- v = of_nat (2 ^ 64 - unat v)" by simp
  moreover have "2 ^ 64 - unat v < 2 ^ 64" using p by simp
  ultimately show ?thesis by simp
qed

lemma abs_c_unat: "unat (abs_c v) = (if unat v < 2 ^ 63 then unat v else 2 ^ 64 - unat v)"
proof (cases "unat v < 2 ^ 63")
  case False
  then have "v \<noteq> 0" by auto
  then show ?thesis using False unat_uminus [of v] sge0_unat [of v] by (simp add: abs_c_def)
next
  case True
  then show ?thesis using sge0_unat [of v] by (simp add: abs_c_def)
qed

lemma gdu_mono: "unat a \<le> unat b \<Longrightarrow> gdu a \<le> gdu b"
proof -
  assume ab: "unat a \<le> unat b"
  have "(1::nat) < 10 ^ gdu b" by (rule one_less_power) simp_all
  then have "max 1 (unat b) < 10 ^ gdu b" using gdu_bounds [of b] by simp
  moreover have "10 ^ (gdu a - 1) \<le> max 1 (unat b)" using gdu_bounds [of a] ab by linarith
  ultimately have "(10::nat) ^ (gdu a - 1) < 10 ^ gdu b" by linarith
  then have "gdu a - 1 < gdu b" by simp
  then show ?thesis by simp
qed

text \<open>The signed digit count is the unsigned one of the magnitude, and one more for a sign.\<close>

lemma of_int_div10:
  assumes "0 \<le> k" and "k < 2 ^ 64"
  shows "(of_int (k div 10) :: u64) = of_int k div 10"
proof (rule word_uint_eqI)
  have "k mod 18446744073709551616 = k" "k div 10 mod 18446744073709551616 = k div 10"
    using assms by simp_all
  then show "uint (of_int (k div 10) :: u64) = uint ((of_int k :: u64) div 10)"
    by (simp add: uint_div uint_word_of_int)
qed

lemma gd_nonneg: "0 \<le> k \<Longrightarrow> k < 2 ^ 64 \<Longrightarrow> gd k = gdu (of_int k)"
proof (induction k rule: gd.induct)
  case (1 k)
  have u: "unat (of_int k :: u64) = nat k"
    using "1.prems" by (simp add: unat_eq_nat_uint take_bit_int_eq_self uint_word_of_int_eq)
  show ?case
  proof (cases "k < 10")
    case True
    then have "nat k < 10" by simp
    then show ?thesis using True "1.prems" u by (simp add: gd.simps [of k] gdu.simps [of "of_int k"] word_less_nat_alt)
  next
    case False
    have "(of_int (k div 10) :: u64) = of_int k div 10"
      using "1.prems" by (rule of_int_div10)
    moreover have "\<not> nat k < 10" using False by simp
    ultimately show ?thesis
      using False "1.prems" "1.IH" u
      by (simp add: gd.simps [of k] gdu.simps [of "of_int k"] word_less_nat_alt cdiv10_def)
  qed
qed

lemma gd_neg: "k < 0 \<Longrightarrow> gd k = 1 + gd (- k)"
proof (induction k rule: gd.induct)
  case (1 k)
  show ?case
  proof (cases "k > -10")
    case True
    then show ?thesis using "1.prems" by (simp add: gd.simps [of k] gd.simps [of "- k"])
  next
    case False
    then have "gd (cdiv10 k) = 1 + gd (- cdiv10 k)" using "1.IH" "1.prems" by (simp add: cdiv10_def)
    then show ?thesis using False "1.prems"
      by (simp add: gd.simps [of k] gd.simps [of "- k"] cdiv10_def)
  qed
qed

lemma gd_sint: "gd (sint (v :: i64)) = gdu (abs_c v) + (if v <s 0 then 1 else 0)"
proof -
  have a: "of_int (sint v) = v" by simp
  have r: "sint v < 2 ^ 63" "- (2 ^ 63) \<le> sint v"
    using sint_lt [of v] sint_ge [of v] by simp_all
  show ?thesis
  proof (cases "0 \<le> sint v")
    case True
    then show ?thesis using gd_nonneg [of "sint v"] r a by (simp add: abs_c_def word_sle_eq word_sless_alt)
  next
    case False
    then show ?thesis using gd_neg [of "sint v"] gd_nonneg [of "- sint v"] r a
      by (simp add: abs_c_def word_sle_eq word_sless_alt)
  qed
qed

lemma sint_u64: "sint (v :: u64) = (if unat v < 2 ^ 63 then int (unat v) else int (unat v) - 2 ^ 64)"
proof -
  have "bit (uint v) 63 = bit v 63" by (simp add: bit_unsigned_iff)
  moreover have "take_bit 64 (uint v) = uint v" using uint_lt2p [of v] by (simp add: take_bit_int_eq_self)
  ultimately show ?thesis
    using top_bit_unat [of v] by (simp add: sint_uint signed_take_bit_eq_take_bit_minus)
qed

end
