(* ===== verification/Heap.thy ===== *)
theory Heap
  imports Math_Util
begin

text \<open>
  The kernel heap, \<^verbatim>\<open>kernel/mm/heap.c\<close>. Free memory is a doubly linked list of 32-byte chunks
  whose two meta words hold the next and the previous chunk; an allocation is a run of adjacent
  chunks whose first meta word is a magic number and whose second one is the size.

  The state is a record of the global variables and of the memory, read as 64-bit words, that the
  chunks live in: \<^verbatim>\<open>chunk->meta[0]\<close> is the word at the chunk's address and
  \<^verbatim>\<open>chunk->meta[1]\<close> the one 8 bytes behind it. A page comes from \<^verbatim>\<open>vmm_map(1, 0, 0)\<close>, whose
  successive results are the list \<open>heap_pages\<close> (an exhausted list and 0 are \<^verbatim>\<open>NULL\<close>).
  A call ends with a value, with a fault, or, when the fuel that bounds its list walks is used up,
  with \<open>Diverge\<close>; the theorems give fuel in terms of the length of the free list and the pages.
\<close>

section \<open>State and chunk fields\<close>

record heap =
  heap_mem :: "u64 \<Rightarrow> u64"
  heap_chunk_first :: u64
  heap_chunk_last :: u64
  heap_pages :: "u64 list"

datatype heap_fault = NullDeref | Panic | Diverge

type_synonym 'a heap_result = "heap_fault + 'a"

abbreviation (input) HEAP_CHUNK_MAGIC :: u64 where "HEAP_CHUNK_MAGIC \<equiv> 0xa71e394b53a81759"
abbreviation (input) HEAP_CHUNK_DATA_SIZE :: u64 where "HEAP_CHUNK_DATA_SIZE \<equiv> 16"
abbreviation (input) HEAP_CHUNK_META_SIZE :: u64 where "HEAP_CHUNK_META_SIZE \<equiv> 16"
abbreviation (input) HEAP_CHUNK_SIZE :: u64 where "HEAP_CHUNK_SIZE \<equiv> 32"

definition HEAP_CHUNK_PER_PAGE :: nat where
  "HEAP_CHUNK_PER_PAGE = 128"

definition heap_chunk_meta_next :: "heap \<Rightarrow> u64 \<Rightarrow> u64" where
  "heap_chunk_meta_next h c = heap_mem h c"

definition heap_chunk_meta_next_set :: "u64 \<Rightarrow> u64 \<Rightarrow> heap \<Rightarrow> heap" where
  "heap_chunk_meta_next_set c v h = h\<lparr>heap_mem := (heap_mem h)(c := v)\<rparr>"

definition heap_chunk_meta_prev :: "heap \<Rightarrow> u64 \<Rightarrow> u64" where
  "heap_chunk_meta_prev h c = heap_mem h (c + 8)"

definition heap_chunk_meta_prev_set :: "u64 \<Rightarrow> u64 \<Rightarrow> heap \<Rightarrow> heap" where
  "heap_chunk_meta_prev_set c v h = h\<lparr>heap_mem := (heap_mem h)(c + 8 := v)\<rparr>"

definition heap_chunk_meta_size :: "heap \<Rightarrow> u64 \<Rightarrow> u64" where
  "heap_chunk_meta_size h c = heap_mem h (c + 8)"

definition heap_chunk_is_magical :: "heap \<Rightarrow> u64 \<Rightarrow> bool" where
  "heap_chunk_is_magical h c \<longleftrightarrow> heap_mem h c = HEAP_CHUNK_MAGIC"

definition heap_chunk_data_clear :: "u64 \<Rightarrow> heap \<Rightarrow> heap" where
  "heap_chunk_data_clear c h = h\<lparr>heap_mem := (heap_mem h)(c + 16 := 0, c + 24 := 0)\<rparr>"

section \<open>Operations\<close>

text \<open>One round of the loop in \<^verbatim>\<open>__heap_extend\<close>, for chunk \<open>i\<close> of the page at \<open>p\<close>.\<close>

definition heap_extend_chunk :: "u64 \<Rightarrow> nat \<Rightarrow> heap \<Rightarrow> heap" where
  "heap_extend_chunk p i h =
     (let cur = p + HEAP_CHUNK_SIZE * of_nat i;
          h1 = heap_chunk_data_clear cur h;
          h2 = (if i \<noteq> 0 then heap_chunk_meta_prev_set cur (cur - HEAP_CHUNK_SIZE) h1 else h1)
      in heap_chunk_meta_next_set cur (cur + HEAP_CHUNK_SIZE) h2)"

definition heap_extend :: "heap \<Rightarrow> errcode \<times> heap" where
  "heap_extend h =
     (case heap_pages h of
        [] \<Rightarrow> (- EFAULT, h)
      | p # ps \<Rightarrow>
          (let h0 = h\<lparr>heap_pages := ps\<rparr>
           in if p = 0 then (- EFAULT, h0)
           else let h1 = (if heap_chunk_first h0 = 0 then h0\<lparr>heap_chunk_first := p\<rparr> else h0);
                    h2 = (if heap_chunk_last h1 \<noteq> 0
                          then heap_chunk_meta_next_set (heap_chunk_last h1) p h1 else h1);
                    h3 = heap_chunk_meta_prev_set p (heap_chunk_last h2) h2;
                    h4 = fold (heap_extend_chunk p) [0..<HEAP_CHUNK_PER_PAGE] h3;
                    last_chunk = p + HEAP_CHUNK_SIZE * of_nat HEAP_CHUNK_PER_PAGE - HEAP_CHUNK_SIZE
                in (0, heap_chunk_meta_next_set last_chunk 0 (h4\<lparr>heap_chunk_last := last_chunk\<rparr>))))"

definition heap_chunk_next :: "heap \<Rightarrow> u64 \<Rightarrow> u64 \<times> heap" where
  "heap_chunk_next h cur =
     (let h1 = (if heap_chunk_first h = 0 \<or> heap_chunk_last h = 0 then snd (heap_extend h) else h)
      in if cur = 0 then (heap_chunk_first h1, h1)
      else let h2 = (if heap_chunk_meta_next h1 cur = 0 then snd (heap_extend h1) else h1)
           in (heap_chunk_meta_next h2 cur, h2))"

text \<open>The search loop of \<^verbatim>\<open>heap_alloc\<close>: the final \<^verbatim>\<open>cur\<close>, \<^verbatim>\<open>start\<close>, \<^verbatim>\<open>end\<close>,
  \<^verbatim>\<open>total_size\<close> and the heap.\<close>

fun heap_alloc_loop ::
    "nat \<Rightarrow> heap \<Rightarrow> u64 \<Rightarrow> u64 \<Rightarrow> u64 \<Rightarrow> u64 \<Rightarrow> u64 \<Rightarrow> (u64 \<times> u64 \<times> u64 \<times> u64 \<times> heap) option" where
  "heap_alloc_loop 0 h sz cur start ende tot = None"
| "heap_alloc_loop (Suc fuel) h sz cur start ende tot =
     (if \<not> (cur \<noteq> 0 \<and> tot < sz) then Some (cur, start, ende, tot, h)
      else let (start', tot') =
                 (if start = 0 then (cur, tot + HEAP_CHUNK_DATA_SIZE)
                  else if ende + HEAP_CHUNK_SIZE \<noteq> cur then (0, 0)
                  else (start, tot + HEAP_CHUNK_SIZE));
               (cur', h') = heap_chunk_next h cur
           in heap_alloc_loop fuel h' sz cur' start' cur tot')"

text \<open>The unlinking that \<^verbatim>\<open>heap_alloc\<close> and \<^verbatim>\<open>heap_realloc\<close> share: the neighbours of the run
  from \<open>s\<close> to \<open>e\<close> are joined.\<close>

definition heap_unlink :: "u64 \<Rightarrow> u64 \<Rightarrow> heap \<Rightarrow> heap" where
  "heap_unlink s e h =
     (let cur = heap_chunk_meta_prev h s;
          h1 = (if cur \<noteq> 0 then heap_chunk_meta_next_set cur (heap_chunk_meta_next h e) h else h);
          cur2 = heap_chunk_meta_next h1 e
      in if cur2 \<noteq> 0 then heap_chunk_meta_prev_set cur2 (heap_chunk_meta_prev h1 s) h1 else h1)"

definition heap_alloc :: "nat \<Rightarrow> heap \<Rightarrow> u64 \<Rightarrow> (u64 \<times> heap) heap_result" where
  "heap_alloc fuel h sz =
     (let (cur0, h0) = heap_chunk_next h 0 in
      case heap_alloc_loop fuel h0 sz cur0 0 0 0 of
        None \<Rightarrow> Inl Diverge
      | Some (cur, start, ende, tot, h1) \<Rightarrow>
          if cur = 0 \<or> sz > tot then Inr (0, h1)
          else if start = 0 then Inl NullDeref
          else let h2 = heap_unlink start ende h1;
                   h3 = (if heap_chunk_first h2 = start
                         then h2\<lparr>heap_chunk_first := heap_chunk_meta_next h2 ende\<rparr> else h2);
                   h4 = (if heap_chunk_last h3 = ende
                         then h3\<lparr>heap_chunk_last := heap_chunk_meta_prev h3 start\<rparr> else h3);
                   h5 = h4\<lparr>heap_mem := (heap_mem h4)(start := HEAP_CHUNK_MAGIC, start + 8 := tot)\<rparr>
               in Inr (start + HEAP_CHUNK_META_SIZE, h5))"

text \<open>The two loops of \<^verbatim>\<open>heap_free\<close>: relink the chunks of the block, then walk the free list to
  find its neighbours.\<close>

fun heap_free_relink :: "nat \<Rightarrow> heap \<Rightarrow> u64 \<Rightarrow> u64 \<Rightarrow> u64 \<Rightarrow> heap option" where
  "heap_free_relink 0 h start ende cur = None"
| "heap_free_relink (Suc fuel) h start ende cur =
     (if \<not> cur \<le> ende then Some h
      else let h1 = (if cur \<noteq> start then heap_chunk_meta_prev_set cur (cur - HEAP_CHUNK_SIZE) h else h)
           in heap_free_relink fuel (heap_chunk_meta_next_set cur (cur + HEAP_CHUNK_SIZE) h1)
                start ende (cur + HEAP_CHUNK_SIZE))"

fun heap_free_search :: "nat \<Rightarrow> heap \<Rightarrow> u64 \<Rightarrow> u64 \<Rightarrow> u64 \<Rightarrow> heap option" where
  "heap_free_search 0 h start ende cur = None"
| "heap_free_search (Suc fuel) h start ende cur =
     (if cur = 0 then Some h
      else let h1 = (if start > cur then heap_chunk_meta_prev_set start cur h else h);
               h2 = (if heap_chunk_meta_prev h1 start = heap_chunk_meta_prev h1 cur \<and> ende < cur
                     then heap_chunk_meta_next_set ende cur h1 else h1)
           in heap_free_search fuel h2 start ende (heap_chunk_meta_next h2 cur))"

definition heap_free :: "nat \<Rightarrow> heap \<Rightarrow> u64 \<Rightarrow> heap heap_result" where
  "heap_free fuel h m =
     (if m = 0 then Inr h
      else let start = m - HEAP_CHUNK_META_SIZE;
               ende = m + heap_chunk_meta_size h start - HEAP_CHUNK_SIZE
           in if HEAP_CHUNK_META_SIZE > m \<or> \<not> heap_chunk_is_magical h start then Inl Panic
           else case heap_free_relink fuel h start ende start of
             None \<Rightarrow> Inl Diverge
           | Some h1 \<Rightarrow>
               let h2 = heap_chunk_meta_next_set ende 0 (heap_chunk_meta_prev_set start 0 h1) in
               case heap_free_search fuel h2 start ende (heap_chunk_first h2) of
                 None \<Rightarrow> Inl Diverge
               | Some h3 \<Rightarrow>
                   let cur = heap_chunk_meta_prev h3 start;
                       h4 = (if cur \<noteq> 0 then heap_chunk_meta_next_set cur start h3
                             else h3\<lparr>heap_chunk_first := start\<rparr>);
                       cur2 = heap_chunk_meta_next h4 ende;
                       h5 = (if cur2 \<noteq> 0 then heap_chunk_meta_prev_set cur2 ende h4
                             else h4\<lparr>heap_chunk_last := ende\<rparr>)
                   in Inr h5)"

text \<open>The extension loop of \<^verbatim>\<open>heap_realloc\<close>: \<^verbatim>\<open>realloc_start\<close>, \<^verbatim>\<open>realloc_end\<close> and
  \<^verbatim>\<open>total_size\<close>.\<close>

fun heap_realloc_loop :: "nat \<Rightarrow> heap \<Rightarrow> u64 \<Rightarrow> u64 \<Rightarrow> u64 \<Rightarrow> u64 \<Rightarrow> u64 \<Rightarrow> (u64 \<times> u64 \<times> u64) option" where
  "heap_realloc_loop 0 h sz cur rs re tot = None"
| "heap_realloc_loop (Suc fuel) h sz cur rs re tot =
     (if \<not> (sz > tot \<and> cur \<noteq> 0) then Some (rs, re, tot)
      else if re + HEAP_CHUNK_SIZE \<noteq> cur
      then heap_realloc_loop fuel h sz (heap_chunk_meta_next h cur) rs re tot
      else heap_realloc_loop fuel h sz (heap_chunk_meta_next h cur)
             (if rs = 0 then cur else rs) cur (tot + HEAP_CHUNK_SIZE))"

text \<open>\<^verbatim>\<open>memcpy\<close> between two heap blocks; block sizes are multiples of 8.\<close>

fun heap_memcpy :: "nat \<Rightarrow> u64 \<Rightarrow> u64 \<Rightarrow> heap \<Rightarrow> heap" where
  "heap_memcpy 0 dst src h = h"
| "heap_memcpy (Suc n) dst src h =
     heap_memcpy n (dst + 8) (src + 8) (h\<lparr>heap_mem := (heap_mem h)(dst := heap_mem h src)\<rparr>)"

definition heap_realloc :: "nat \<Rightarrow> heap \<Rightarrow> u64 \<Rightarrow> u64 \<Rightarrow> (u64 \<times> heap) heap_result" where
  "heap_realloc fuel h m sz =
     (let start = m - HEAP_CHUNK_META_SIZE;
          old = heap_chunk_meta_size h start;
          re0 = m + old - HEAP_CHUNK_SIZE
      in if HEAP_CHUNK_META_SIZE > m \<or> \<not> heap_chunk_is_magical h start then Inl Panic
      else if old \<ge> sz then Inr (m, h)
      else case heap_realloc_loop fuel h sz (heap_chunk_first h) 0 re0 old of
        None \<Rightarrow> Inl Diverge
      | Some (rs, re, tot) \<Rightarrow>
          if sz > tot then
            (case heap_alloc fuel h sz of
               Inl e \<Rightarrow> Inl e
             | Inr (cur, h1) \<Rightarrow>
                 let h2 = (if cur = 0 then h1
                           else heap_memcpy (unat (heap_chunk_meta_size h1 start) div 8) cur m h1)
                 in (case heap_free fuel h2 m of Inl e \<Rightarrow> Inl e | Inr h3 \<Rightarrow> Inr (cur, h3)))
          else let h1 = heap_unlink rs re h;
                   h2 = (if heap_chunk_first h1 = re
                         then h1\<lparr>heap_chunk_first := heap_chunk_meta_next h1 re\<rparr> else h1);
                   h3 = (if heap_chunk_last h2 = rs
                         then h2\<lparr>heap_chunk_last := heap_chunk_meta_prev h2 rs\<rparr> else h2)
               in Inr (m, h3\<lparr>heap_mem := (heap_mem h3)(start + 8 := tot)\<rparr>))"

section \<open>Chunk addresses\<close>

text \<open>Chunk number \<open>k\<close> is the one at address \<open>32 * k\<close>; the bound keeps the whole chunk and its
  successor's address inside 64 bits.\<close>

definition caddr :: "nat \<Rightarrow> u64" where
  "caddr k = of_nat (32 * k)"

definition chunk_ok :: "nat \<Rightarrow> bool" where
  "chunk_ok k \<longleftrightarrow> 0 < k \<and> 32 * k + 32 < 2 ^ 64"

lemma unat_caddr_off: "chunk_ok k \<Longrightarrow> d < 32 \<Longrightarrow> unat (caddr k + of_nat d) = 32 * k + d"
proof -
  assume a: "chunk_ok k" "d < 32"
  then have "unat (of_nat (32 * k + d) :: u64) = 32 * k + d"
    by (intro unat_of_nat64) (simp add: chunk_ok_def)
  then show ?thesis by (simp add: caddr_def)
qed

lemma caddr_off_eq:
  assumes "chunk_ok j" "chunk_ok k" "d < 32" "e < 32"
  shows "caddr j + of_nat d = caddr k + of_nat e \<longleftrightarrow> j = k \<and> d = e"
proof
  assume "caddr j + of_nat d = caddr k + of_nat e"
  then have "32 * j + d = 32 * k + e"
    using unat_caddr_off [of j d] unat_caddr_off [of k e] assms by simp
  moreover from this have "(32 * j + d) div 32 = (32 * k + e) div 32" by simp
  then have "j = k" using assms(3,4) by simp
  ultimately show "j = k \<and> d = e" by simp
qed simp

lemma unat_caddr: "chunk_ok k \<Longrightarrow> unat (caddr k) = 32 * k"
  using unat_caddr_off [of k 0] by simp

lemma caddr_eq [simp]: "chunk_ok j \<Longrightarrow> chunk_ok k \<Longrightarrow> caddr j = caddr k \<longleftrightarrow> j = k"
  using caddr_off_eq [of j k 0 0] by simp

lemma caddr_nonzero [simp]: "chunk_ok k \<Longrightarrow> caddr k \<noteq> 0"
  using unat_caddr [of k] by (auto simp: chunk_ok_def)

lemma caddr_less: "chunk_ok j \<Longrightarrow> chunk_ok k \<Longrightarrow> caddr j < caddr k \<longleftrightarrow> j < k"
  by (simp add: word_less_nat_alt unat_caddr)

lemma caddr_Suc: "caddr k + 32 = caddr (Suc k)"
  by (simp add: caddr_def)

lemma caddr_add: "caddr k + 32 * of_nat i = caddr (k + i)"
  by (simp add: caddr_def algebra_simps)

lemma caddr_words_ne:
  assumes "chunk_ok j" "chunk_ok k"
  shows "caddr j + 8 \<noteq> caddr k" "caddr k \<noteq> caddr j + 8" "caddr j + 16 \<noteq> caddr k" "caddr j + 24 \<noteq> caddr k"
    "caddr k \<noteq> caddr j + 16" "caddr k \<noteq> caddr j + 24"
    "caddr k + 8 \<noteq> caddr j + 16" "caddr k + 8 \<noteq> caddr j + 24"
    "caddr j + 8 = caddr k + 8 \<longleftrightarrow> j = k"
proof -
  note e = caddr_off_eq [OF assms]
  show "caddr j + 8 \<noteq> caddr k" "caddr j + 16 \<noteq> caddr k" "caddr j + 24 \<noteq> caddr k"
    "caddr k \<noteq> caddr j + 8" "caddr k \<noteq> caddr j + 16" "caddr k \<noteq> caddr j + 24"
    using e [of 8 0] e [of 16 0] e [of 24 0] by auto
  show "caddr k + 8 \<noteq> caddr j + 16" "caddr k + 8 \<noteq> caddr j + 24"
    using e [of 16 8] e [of 24 8] by auto
  show "caddr j + 8 = caddr k + 8 \<longleftrightarrow> j = k" using assms by simp
qed

section \<open>Doubly linked segments\<close>

text \<open>The address of the first chunk of a list, or what follows it; the address of the last one, or
  what precedes the list.\<close>

definition hdn :: "nat list \<Rightarrow> u64 \<Rightarrow> u64" where
  "hdn ks n = (if ks = [] then n else caddr (hd ks))"

definition lstp :: "u64 \<Rightarrow> nat list \<Rightarrow> u64" where
  "lstp p ks = (if ks = [] then p else caddr (last ks))"

lemma hdn_simps [simp]: "hdn [] n = n" "hdn (k # ks) n = caddr k"
  by (simp_all add: hdn_def)

lemma lstp_simps [simp]: "lstp p [] = p" "lstp p (ks @ [k]) = caddr k" "lstp p (k # ks) = lstp (caddr k) ks"
  by (simp_all add: lstp_def)

lemma hdn_append: "hdn (xs @ ys) n = hdn xs (hdn ys n)"
  by (cases xs) simp_all

lemma lstp_append: "lstp p (xs @ ys) = lstp (lstp p xs) ys"
  by (cases ys rule: rev_cases) (simp_all flip: append_assoc)

fun dlseg :: "(u64 \<Rightarrow> u64) \<Rightarrow> u64 \<Rightarrow> nat list \<Rightarrow> u64 \<Rightarrow> bool" where
  "dlseg m p [] n \<longleftrightarrow> True"
| "dlseg m p (k # ks) n \<longleftrightarrow>
     m (caddr k) = hdn ks n \<and> m (caddr k + 8) = p \<and> dlseg m (caddr k) ks n"

lemma dlseg_append: "dlseg m p (xs @ ys) n \<longleftrightarrow> dlseg m p xs (hdn ys n) \<and> dlseg m (lstp p xs) ys n"
  by (induction xs arbitrary: p) (auto simp: hdn_append)

lemma dlseg_cong:
  "(\<And>k. k \<in> set ks \<Longrightarrow> m (caddr k) = m' (caddr k) \<and> m (caddr k + 8) = m' (caddr k + 8)) \<Longrightarrow>
   dlseg m p ks n = dlseg m' p ks n"
  by (induction ks arbitrary: p) auto

lemma dlseg_upd_next:
  assumes "\<forall>k \<in> set ks. chunk_ok k" and "chunk_ok c" and "c \<notin> set ks"
  shows "dlseg (m(caddr c := v)) p ks n = dlseg m p ks n"
  using assms by (intro dlseg_cong) (auto simp: caddr_words_ne)

lemma dlseg_upd_prev:
  assumes "\<forall>k \<in> set ks. chunk_ok k" and "chunk_ok c" and "c \<notin> set ks"
  shows "dlseg (m(caddr c + 8 := v)) p ks n = dlseg m p ks n"
  using assms by (intro dlseg_cong) (auto simp: caddr_words_ne)

lemma dlseg_set_last:
  assumes "\<forall>k \<in> set (xs @ [c]). chunk_ok k" and "distinct (xs @ [c])" and "dlseg m p (xs @ [c]) n"
  shows "dlseg (m(caddr c := n')) p (xs @ [c]) n'"
  using assms by (auto simp: dlseg_append dlseg_upd_next caddr_words_ne)

lemma dlseg_set_first:
  assumes "\<forall>k \<in> set (c # xs). chunk_ok k" and "distinct (c # xs)" and "dlseg m p (c # xs) n"
  shows "dlseg (m(caddr c + 8 := p')) p' (c # xs) n"
  using assms by (auto simp: dlseg_upd_prev caddr_words_ne)

section \<open>The heap invariant\<close>

text \<open>
  The free list holds the chunks \<open>ks\<close> in ascending order; \<open>B\<close> are the allocated blocks, each the
  number of its first chunk and its chunk count. No chunk is at or above \<open>K\<close>, where the pages that
  \<^verbatim>\<open>vmm_map\<close> is still to give begin; those are ascending and do not overlap.
\<close>

fun pages_from :: "nat \<Rightarrow> u64 list \<Rightarrow> bool" where
  "pages_from K [] \<longleftrightarrow> True"
| "pages_from K (p # ps) \<longleftrightarrow>
     (\<exists>q. p = caddr q \<and> K \<le> q \<and> 0 < q \<and> 32 * (q + 129) < 2 ^ 64 \<and>
        pages_from (q + HEAP_CHUNK_PER_PAGE) ps)"

definition free_list :: "heap \<Rightarrow> nat list \<Rightarrow> bool" where
  "free_list h ks \<longleftrightarrow> sorted_wrt (<) ks \<and> (\<forall>k \<in> set ks. chunk_ok k) \<and> dlseg (heap_mem h) 0 ks 0 \<and>
     heap_chunk_first h = hdn ks 0 \<and> heap_chunk_last h = lstp 0 ks"

definition block_size :: "nat \<Rightarrow> nat" where
  "block_size n = 32 * n - 16"

definition block_chunks :: "nat \<times> nat \<Rightarrow> nat set" where
  "block_chunks b = {fst b..<fst b + snd b}"

definition block_ok :: "heap \<Rightarrow> nat list \<Rightarrow> nat \<Rightarrow> nat \<times> nat \<Rightarrow> bool" where
  "block_ok h ks K b \<longleftrightarrow> 0 < snd b \<and> fst b + snd b \<le> K \<and> (\<forall>k \<in> block_chunks b. chunk_ok k) \<and>
     block_chunks b \<inter> set ks = {} \<and>
     heap_mem h (caddr (fst b)) = HEAP_CHUNK_MAGIC \<and> heap_mem h (caddr (fst b) + 8) = of_nat (block_size (snd b))"

definition heap_inv :: "heap \<Rightarrow> nat list \<Rightarrow> (nat \<times> nat) set \<Rightarrow> nat \<Rightarrow> bool" where
  "heap_inv h ks B K \<longleftrightarrow> free_list h ks \<and> pages_from K (heap_pages h) \<and> (\<forall>k \<in> set ks. k < K) \<and>
     (\<forall>b \<in> B. block_ok h ks K b) \<and>
     (\<forall>b \<in> B. \<forall>b' \<in> B. b \<noteq> b' \<longrightarrow> block_chunks b \<inter> block_chunks b' = {})"

lemmas heap_fields = heap_chunk_meta_next_def heap_chunk_meta_next_set_def heap_chunk_meta_prev_def
  heap_chunk_meta_prev_set_def heap_chunk_meta_size_def heap_chunk_is_magical_def
  heap_chunk_data_clear_def

lemma sorted_strict_distinct: "sorted_wrt (<) (ks :: nat list) \<Longrightarrow> distinct ks"
  by (simp add: strict_sorted_iff)

subsection \<open>Extending the heap\<close>

definition page_words :: "nat \<Rightarrow> nat \<Rightarrow> u64 set" where
  "page_words q n = {caddr (q + i) + of_nat d | i d. i < n \<and> d < 32}"

lemma heap_extend_chunk_fields [simp]:
  "heap_chunk_first (heap_extend_chunk p i h) = heap_chunk_first h"
  "heap_chunk_last (heap_extend_chunk p i h) = heap_chunk_last h"
  "heap_pages (heap_extend_chunk p i h) = heap_pages h"
  by (simp_all add: heap_extend_chunk_def heap_fields Let_def)

lemma heap_extend_fold_fields [simp]:
  "heap_chunk_first (fold (heap_extend_chunk p) is h) = heap_chunk_first h"
  "heap_chunk_last (fold (heap_extend_chunk p) is h) = heap_chunk_last h"
  "heap_pages (fold (heap_extend_chunk p) is h) = heap_pages h"
  by (induction "is" arbitrary: h) simp_all

lemma page_wordsI: "i < n \<Longrightarrow> d < 32 \<Longrightarrow> caddr (q + i) + of_nat d \<in> page_words q n"
  unfolding page_words_def by blast

lemma page_words_mem:
  assumes "i < n"
  shows "caddr (q + i) \<in> page_words q n" "caddr (q + i) + 8 \<in> page_words q n"
    "caddr (q + i) + 16 \<in> page_words q n" "caddr (q + i) + 24 \<in> page_words q n"
  using page_wordsI [OF assms, of 0 q] page_wordsI [OF assms, of 8 q]
    page_wordsI [OF assms, of 16 q] page_wordsI [OF assms, of 24 q] by simp_all

lemma page_words_mono: "a \<notin> page_words q (Suc n) \<Longrightarrow> a \<notin> page_words q n"
  unfolding page_words_def using less_Suc_eq by blast

lemma heap_extend_chunk_mem:
  "heap_mem (heap_extend_chunk (caddr q) i h) =
     (heap_mem h)(caddr (q + i) + 16 := 0, caddr (q + i) + 24 := 0,
        caddr (q + i) + 8 := (if i = 0 then heap_mem (heap_chunk_data_clear (caddr q) h) (caddr q + 8)
                              else caddr (q + i - 1)),
        caddr (q + i) := caddr (q + i + 1))"
proof -
  have a: "caddr q + 32 * of_nat i = caddr (q + i)" by (rule caddr_add)
  have b: "caddr (q + i) + 32 = caddr (q + i + 1)" by (simp add: caddr_Suc)
  have c: "i \<noteq> 0 \<Longrightarrow> caddr (q + i) - 32 = caddr (q + i - 1)"
    using caddr_Suc [of "q + i - 1"] by (simp add: eq_diff_eq [symmetric])
  show ?thesis
    by (cases "i = 0") (simp_all add: heap_extend_chunk_def heap_fields Let_def a b c fun_upd_idem caddr_Suc)
qed

lemma heap_extend_chunks:
  assumes "0 < q" and "32 * (q + n + 1) < 2 ^ 64"
  shows "dlseg (heap_mem (fold (heap_extend_chunk (caddr q)) [0..<n] h))
      (heap_mem h (caddr q + 8)) [q..<q + n] (caddr (q + n)) \<and>
    (\<forall>a. a \<notin> page_words q n \<longrightarrow> heap_mem (fold (heap_extend_chunk (caddr q)) [0..<n] h) a = heap_mem h a)"
  using assms(2)
proof (induction n)
  case (Suc n)
  let ?h = "fold (heap_extend_chunk (caddr q)) [0..<n] h"
  let ?m = "heap_mem (heap_extend_chunk (caddr q) n ?h)"
  let ?p = "heap_mem h (caddr q + 8)"
  have ok: "chunk_ok k" if "k \<in> {q..q + n}" for k using that Suc.prems assms(1) by (auto simp: chunk_ok_def)
  have IH: "dlseg (heap_mem ?h) ?p [q..<q + n] (caddr (q + n))"
    "\<And>a. a \<notin> page_words q n \<Longrightarrow> heap_mem ?h a = heap_mem h a"
    using Suc by simp_all
  have frame: "?m a = heap_mem h a" if "a \<notin> page_words q (Suc n)" for a
  proof -
    have "a \<noteq> caddr (q + n)" "a \<noteq> caddr (q + n) + 8" "a \<noteq> caddr (q + n) + 16" "a \<noteq> caddr (q + n) + 24"
      using that page_words_mem [of n "Suc n" q] by auto
    then show ?thesis using IH(2) [OF page_words_mono [OF that]] by (simp add: heap_extend_chunk_mem)
  qed
  have seg: "dlseg ?m ?p [q..<q + n] (caddr (q + n))"
  proof -
    have "dlseg ?m ?p [q..<q + n] (caddr (q + n)) = dlseg (heap_mem ?h) ?p [q..<q + n] (caddr (q + n))"
    proof (rule dlseg_cong)
      fix k assume "k \<in> set [q..<q + n]"
      then have "chunk_ok k" "chunk_ok (q + n)" "k \<noteq> q + n" using ok by auto
      then show "?m (caddr k) = heap_mem ?h (caddr k) \<and> ?m (caddr k + 8) = heap_mem ?h (caddr k + 8)"
        by (simp add: heap_extend_chunk_mem caddr_words_ne)
    qed
    then show ?thesis using IH(1) by simp
  qed
  have okn: "chunk_ok (q + n)" using ok by simp
  have "?m (caddr (q + n) + 8) = lstp ?p [q..<q + n]"
  proof (cases "n = 0")
    case True
    then show ?thesis using okn by (simp add: heap_extend_chunk_mem heap_fields caddr_words_ne)
  next
    case False
    then show ?thesis using okn
      by (simp add: heap_extend_chunk_mem caddr_words_ne lstp_def last_upt)
  qed
  then have "dlseg ?m ?p ([q..<q + n] @ [q + n]) (caddr (q + Suc n))"
    using seg by (simp add: dlseg_append heap_extend_chunk_mem)
  then show ?case using frame by (simp add: fold_append)
qed simp

lemma heap_extend_none: "heap_pages h = [] \<Longrightarrow> heap_extend h = (- EFAULT, h)"
  by (simp add: heap_extend_def)

lemma heap_extend_page:
  assumes "heap_pages h = caddr q # ps" and "0 < q" and "32 * (q + 129) < 2 ^ 64"
    and "free_list h ks" and "\<forall>k \<in> set ks. k < q"
  shows "\<exists>h'. heap_extend h = (0, h') \<and> free_list h' (ks @ [q..<q + HEAP_CHUNK_PER_PAGE]) \<and>
    heap_pages h' = ps \<and>
    (\<forall>a. a \<notin> page_words q HEAP_CHUNK_PER_PAGE \<and> (\<forall>k \<in> set ks. a \<noteq> caddr k) \<longrightarrow>
       heap_mem h' a = heap_mem h a)"
proof -
  define P where "P = HEAP_CHUNK_PER_PAGE"
  let ?l = "lstp 0 ks"
  have P: "0 < P" "32 * (q + P + 1) < 2 ^ 64"
    using assms(3) by (simp_all add: P_def HEAP_CHUNK_PER_PAGE_def)
  have ok: "chunk_ok k" if "k \<in> {q..q + P - 1}" for k using that P assms(2) by (auto simp: chunk_ok_def)
  have ksok: "\<forall>k \<in> set ks. chunk_ok k" and fl: "heap_chunk_first h = hdn ks 0" "heap_chunk_last h = ?l"
    and dl: "dlseg (heap_mem h) 0 ks 0" and srt: "sorted_wrt (<) ks"
    using assms(4) by (simp_all add: free_list_def)
  have okq: "chunk_ok q" and okl: "chunk_ok (q + P - 1)" using ok P by simp_all
  define m1 where "m1 = (if ks \<noteq> [] then (heap_mem h)(?l := caddr q) else heap_mem h)(caddr q + 8 := ?l)"
  define h1 where "h1 = (if ks = [] then h\<lparr>heap_pages := ps, heap_chunk_first := caddr q, heap_mem := m1\<rparr>
    else h\<lparr>heap_pages := ps, heap_mem := m1\<rparr>)"
  have h1: "heap_mem h1 = m1" "heap_pages h1 = ps" "heap_chunk_first h1 = hdn ks (caddr q)"
    using fl(1) by (simp_all add: h1_def hdn_def)
  define m2 where "m2 = heap_mem (fold (heap_extend_chunk (caddr q)) [0..<P] h1)"
  define h' where "h' = h1\<lparr>heap_mem := m2(caddr (q + P - 1) := 0), heap_chunk_last := caddr (q + P - 1)\<rparr>"
  have fst0: "(hdn ks 0 = 0) = (ks = [])" "(?l = 0) = (ks = [])"
    using ksok by (auto simp: hdn_def lstp_def)
  have lc: "caddr q + 32 * of_nat P - 32 = caddr (q + P - 1)"
    using caddr_add [of q P] caddr_Suc [of "q + P - 1"] P(1) by (simp add: diff_eq_eq)
  have fold: "fold (heap_extend_chunk (caddr q)) [0..<P] h1 = h1\<lparr>heap_mem := m2\<rparr>"
    by (rule heap.equality) (simp_all add: m2_def)
  have ext: "heap_extend h = (0, h')"
  proof -
    let ?c = "caddr q + 32 * of_nat P - 32"
    have "heap_extend h = (0, heap_chunk_meta_next_set ?c 0
        ((fold (heap_extend_chunk (caddr q)) [0..<P] h1)\<lparr>heap_chunk_last := ?c\<rparr>))"
      unfolding heap_extend_def assms(1) list.case Let_def P_def
      using okq fst0 fl by (cases "ks = []") (simp_all add: heap_fields h1_def m1_def)
    then show ?thesis unfolding fold lc by (simp add: heap_fields h'_def)
  qed
  have seg: "dlseg m2 ?l [q..<q + P] (caddr (q + P))"
    and fr: "\<And>a. a \<notin> page_words q P \<Longrightarrow> m2 a = m1 a"
    using heap_extend_chunks [of q P h1] assms(2) P(2) by (simp_all add: h1 m1_def m2_def)
  have out: "caddr k + of_nat d \<notin> page_words q P" if "k \<in> set ks" "d < 32" for k d
  proof
    assume "caddr k + of_nat d \<in> page_words q P"
    then obtain i e where i: "i < P" "e < 32" "caddr k + of_nat d = caddr (q + i) + of_nat e"
      unfolding page_words_def by blast
    have "k = q + i" using caddr_off_eq [OF _ ok, of k "q + i" d e] i that ksok by auto
    then show False using assms(5) that(1) by auto
  qed
  have segks: "dlseg (m2(caddr (q + P - 1) := 0)) 0 ks (caddr q)"
  proof -
    have "dlseg (m2(caddr (q + P - 1) := 0)) 0 ks (caddr q) = dlseg m1 0 ks (caddr q)"
    proof (rule dlseg_cong)
      fix k assume k: "k \<in> set ks"
      then have "k \<noteq> q + P - 1" using assms(5) P(1) by fastforce
      then show "(m2(caddr (q + P - 1) := 0)) (caddr k) = m1 (caddr k) \<and>
          (m2(caddr (q + P - 1) := 0)) (caddr k + 8) = m1 (caddr k + 8)"
        using fr [of "caddr k"] fr [of "caddr k + 8"] out [OF k, of 0] out [OF k, of 8] k ksok okl
        by (simp add: caddr_words_ne)
    qed
    also have "dlseg m1 0 ks (caddr q)"
    proof (cases ks rule: rev_cases)
      case (snoc ys y)
      have "dlseg ((heap_mem h)(caddr y := caddr q)) 0 (ys @ [y]) (caddr q)"
        using dlseg_set_last [of ys y "heap_mem h" 0 0 "caddr q"] ksok dl sorted_strict_distinct [OF srt]
        by (simp add: snoc)
      moreover have "q \<notin> set ks" using assms(5) by auto
      ultimately show ?thesis
        using dlseg_upd_prev [OF ksok okq, of "(heap_mem h)(caddr y := caddr q)" "caddr y" 0 "caddr q"]
        by (simp add: m1_def snoc)
    qed simp
    finally show ?thesis .
  qed
  have segP: "dlseg (m2(caddr (q + P - 1) := 0)) ?l [q..<q + P] 0"
  proof -
    have up: "[q..<q + P] = [q..<q + P - 1] @ [q + P - 1]"
      using P(1) upt_Suc_append [of q "q + P - 1"] by simp
    show ?thesis unfolding up
    proof (rule dlseg_set_last)
      show "\<forall>k \<in> set ([q..<q + P - 1] @ [q + P - 1]). chunk_ok k" using ok P(1) by simp
      show "dlseg m2 ?l ([q..<q + P - 1] @ [q + P - 1]) (caddr (q + P))" using seg up by simp
    qed simp
  qed
  have "free_list h' (ks @ [q..<q + P])"
    unfolding free_list_def
  proof (intro conjI)
    show "sorted_wrt (<) (ks @ [q..<q + P])" using srt assms(5) by (auto simp: sorted_wrt_append)
    show "\<forall>k \<in> set (ks @ [q..<q + P]). chunk_ok k" using ksok ok by auto
    show "dlseg (heap_mem h') 0 (ks @ [q..<q + P]) 0"
      using segks segP P(1) by (simp add: h'_def dlseg_append hdn_def)
    show "heap_chunk_first h' = hdn (ks @ [q..<q + P]) 0"
      using P(1) by (simp add: h'_def h1 hdn_append) (simp add: hdn_def)
    show "heap_chunk_last h' = lstp 0 (ks @ [q..<q + P])"
      using P(1) by (simp add: h'_def lstp_def)
  qed
  moreover have "heap_mem h' a = heap_mem h a" if "a \<notin> page_words q P" "\<forall>k \<in> set ks. a \<noteq> caddr k" for a
  proof -
    have "a \<noteq> caddr (q + P - 1)" using that(1) page_words_mem(1) [of "P - 1" P q] P(1) by auto
    moreover have "a \<noteq> caddr q + 8" using that(1) page_words_mem(2) [of 0 P q] P(1) by auto
    moreover have "ks \<noteq> [] \<Longrightarrow> a \<noteq> ?l" using that(2) by (simp add: lstp_def)
    ultimately show ?thesis using fr [OF that(1)] by (simp add: h'_def h1 m1_def)
  qed
  moreover have "heap_pages h' = ps" by (simp add: h'_def h1)
  ultimately show ?thesis using ext by (auto simp: P_def)
qed

lemma page_words_chunk:
  assumes "chunk_ok k" and "d < 32" and "caddr k + of_nat d \<in> page_words q n"
    and "0 < q" and "32 * (q + n) < 2 ^ 64"
  shows "q \<le> k \<and> k < q + n"
proof -
  obtain i e where i: "i < n" "e < 32" "caddr k + of_nat d = caddr (q + i) + of_nat e"
    using assms(3) unfolding page_words_def by blast
  have "chunk_ok (q + i)" using i(1) assms(4,5) by (simp add: chunk_ok_def)
  then have "k = q + i" using caddr_off_eq [OF assms(1), of "q + i" d e] i assms(2) by simp
  then show ?thesis using i(1) by simp
qed

lemma block_ok_frame:
  assumes "block_ok h ks K b" and "K \<le> K'"
    and "block_chunks b \<inter> set ks' = {}"
    and "heap_mem h' (caddr (fst b)) = heap_mem h (caddr (fst b))"
    and "heap_mem h' (caddr (fst b) + 8) = heap_mem h (caddr (fst b) + 8)"
  shows "block_ok h' ks' K' b"
  using assms by (auto simp: block_ok_def)

lemma block_first: "block_ok h ks K b \<Longrightarrow> fst b \<in> block_chunks b \<and> chunk_ok (fst b) \<and> fst b < K"
  by (auto simp: block_ok_def block_chunks_def)

lemma heap_extend_inv:
  assumes inv: "heap_inv h ks B K" and pg: "heap_pages h \<noteq> []"
  shows "\<exists>q h'. heap_extend h = (0, h') \<and>
    heap_inv h' (ks @ [q..<q + HEAP_CHUNK_PER_PAGE]) B (q + HEAP_CHUNK_PER_PAGE) \<and>
    heap_pages h = caddr q # heap_pages h' \<and> K \<le> q"
proof -
  obtain p ps where ps: "heap_pages h = p # ps" using pg by (cases "heap_pages h") auto
  then obtain q where q: "heap_pages h = caddr q # ps" "K \<le> q" "0 < q" "32 * (q + 129) < 2 ^ 64"
    "pages_from (q + HEAP_CHUNK_PER_PAGE) ps"
    using inv by (auto simp: heap_inv_def)
  have fl: "free_list h ks" "\<forall>k \<in> set ks. k < q"
    using inv q(2) by (auto simp: heap_inv_def intro: less_le_trans)
  obtain h' where h': "heap_extend h = (0, h')" "free_list h' (ks @ [q..<q + HEAP_CHUNK_PER_PAGE])"
    "heap_pages h' = ps"
    "\<forall>a. a \<notin> page_words q HEAP_CHUNK_PER_PAGE \<and> (\<forall>k \<in> set ks. a \<noteq> caddr k) \<longrightarrow> heap_mem h' a = heap_mem h a"
    using heap_extend_page [OF q(1,3,4) fl] by blast
  have ksok: "\<forall>k \<in> set ks. chunk_ok k" using fl(1) by (simp add: free_list_def)
  have bl: "block_ok h' (ks @ [q..<q + HEAP_CHUNK_PER_PAGE]) (q + HEAP_CHUNK_PER_PAGE) b" if "b \<in> B" for b
  proof -
    have b: "block_ok h ks K b" using inv that by (simp add: heap_inv_def)
    note f = block_first [OF b]
    have b32: "32 * (q + HEAP_CHUNK_PER_PAGE) < 2 ^ 64" using q(4) by (simp add: HEAP_CHUNK_PER_PAGE_def)
    have out: "caddr (fst b) + of_nat d \<notin> page_words q HEAP_CHUNK_PER_PAGE" if "d < 32" for d
      using page_words_chunk [OF _ that _ q(3) b32, of "fst b"] f q(2) by auto
    have nk: "fst b \<notin> set ks" using b f by (auto simp: block_ok_def)
    then have ne: "\<forall>k \<in> set ks. caddr (fst b) \<noteq> caddr k \<and> caddr (fst b) + 8 \<noteq> caddr k"
      using ksok f by (auto simp: caddr_words_ne)
    have "block_chunks b \<inter> set (ks @ [q..<q + HEAP_CHUNK_PER_PAGE]) = {}"
      using b q(2) by (auto simp: block_ok_def block_chunks_def)
    then show ?thesis
      using block_ok_frame [OF b] h'(4) out [of 0] out [of 8] ne q(2) by simp
  qed
  show ?thesis
  proof (intro exI conjI)
    show "heap_inv h' (ks @ [q..<q + HEAP_CHUNK_PER_PAGE]) B (q + HEAP_CHUNK_PER_PAGE)"
      using h'(2,3) q(5) fl(2) bl inv by (auto simp: heap_inv_def)
  qed (use h' q in auto)
qed

subsection \<open>Walking the free list\<close>

lemma hdn_zero: "\<forall>k \<in> set ks. chunk_ok k \<Longrightarrow> hdn ks 0 = 0 \<longleftrightarrow> ks = []"
  by (auto simp: hdn_def)

lemma lstp_zero: "\<forall>k \<in> set ks. chunk_ok k \<Longrightarrow> lstp 0 ks = 0 \<longleftrightarrow> ks = []"
  by (auto simp: lstp_def)

lemma free_list_ends:
  "free_list h ks \<Longrightarrow> (heap_chunk_first h = 0 \<longleftrightarrow> ks = []) \<and> (heap_chunk_last h = 0 \<longleftrightarrow> ks = [])"
  by (simp add: free_list_def hdn_zero lstp_zero)

definition heap_budget :: "heap \<Rightarrow> nat list \<Rightarrow> nat" where
  "heap_budget h ks = length ks + HEAP_CHUNK_PER_PAGE * length (heap_pages h)"

lemma heap_chunk_next_first:
  assumes inv: "heap_inv h ks B K"
  shows "\<exists>h' ks' K'. heap_chunk_next h 0 = (hdn ks' 0, h') \<and> heap_inv h' ks' B K' \<and>
    (ks' = [] \<longrightarrow> heap_pages h' = []) \<and> heap_budget h' ks' = heap_budget h ks"
proof -
  have fl: "free_list h ks" using inv by (simp add: heap_inv_def)
  show ?thesis
  proof (cases "ks = [] \<and> heap_pages h \<noteq> []")
    case True
    then obtain q h' where e: "heap_extend h = (0, h')"
      "heap_inv h' ([q..<q + HEAP_CHUNK_PER_PAGE]) B (q + HEAP_CHUNK_PER_PAGE)"
      "heap_pages h = caddr q # heap_pages h'"
      using heap_extend_inv [OF inv] by auto
    then have "heap_chunk_next h 0 = (hdn [q..<q + HEAP_CHUNK_PER_PAGE] 0, h')"
      using True free_list_ends [OF fl]
      by (simp add: heap_chunk_next_def heap_inv_def free_list_def)
    then show ?thesis using e True
      by (intro exI [of _ h'] exI [of _ "[q..<q + HEAP_CHUNK_PER_PAGE]"] exI)
        (auto simp: heap_budget_def HEAP_CHUNK_PER_PAGE_def)
  next
    case False
    then have "heap_chunk_next h 0 = (hdn ks 0, h)"
      using free_list_ends [OF fl] fl heap_extend_none [of h]
      by (auto simp: heap_chunk_next_def free_list_def)
    then show ?thesis using inv False by blast
  qed
qed

lemma heap_chunk_next_step:
  assumes inv: "heap_inv h (us @ c # vs) B K"
  shows "\<exists>h' vs' K'. heap_chunk_next h (caddr c) = (hdn vs' 0, h') \<and> heap_inv h' (us @ c # vs') B K' \<and>
    (vs' = [] \<longrightarrow> heap_pages h' = []) \<and> heap_budget h' vs' = heap_budget h vs"
proof -
  have fl: "free_list h (us @ c # vs)" using inv by (simp add: heap_inv_def)
  then have ok: "chunk_ok c" "\<forall>k \<in> set vs. chunk_ok k" and nx: "heap_chunk_meta_next h (caddr c) = hdn vs 0"
    by (auto simp: free_list_def dlseg_append heap_fields)
  have ends: "heap_chunk_first h \<noteq> 0" "heap_chunk_last h \<noteq> 0"
    using free_list_ends [OF fl] by auto
  show ?thesis
  proof (cases "vs = [] \<and> heap_pages h \<noteq> []")
    case True
    then obtain q h' where e: "heap_extend h = (0, h')"
      "heap_inv h' (us @ c # [q..<q + HEAP_CHUNK_PER_PAGE]) B (q + HEAP_CHUNK_PER_PAGE)"
      "heap_pages h = caddr q # heap_pages h'"
      using heap_extend_inv [OF inv] by auto
    then have "heap_chunk_next h (caddr c) = (hdn [q..<q + HEAP_CHUNK_PER_PAGE] 0, h')"
      using True ends ok nx by (simp add: heap_chunk_next_def heap_inv_def free_list_def dlseg_append heap_fields)
    then show ?thesis using e True
      by (intro exI [of _ h'] exI [of _ "[q..<q + HEAP_CHUNK_PER_PAGE]"] exI)
        (auto simp: heap_budget_def HEAP_CHUNK_PER_PAGE_def)
  next
    case False
    then have "heap_chunk_next h (caddr c) = (hdn vs 0, h)"
      using ends ok nx heap_extend_none [of h] hdn_zero [OF ok(2)]
      by (auto simp: heap_chunk_next_def Let_def)
    then show ?thesis using inv False by blast
  qed
qed

subsection \<open>The search of \<^verbatim>\<open>heap_alloc\<close>\<close>

text \<open>The search stands at chunk \<open>c\<close>, with the run of \<open>n\<close> adjacent chunks from \<open>s\<close> right before it.\<close>

definition alloc_at :: "nat list \<Rightarrow> nat list \<Rightarrow> nat \<Rightarrow> nat \<Rightarrow> nat \<Rightarrow> nat list \<Rightarrow> u64 \<Rightarrow> u64 \<Rightarrow> u64 \<Rightarrow> u64 \<Rightarrow> bool" where
  "alloc_at ks pre s n c post start ende tot sz \<longleftrightarrow> ks = pre @ [s..<s + n] @ c # post \<and>
     start = (if n = 0 then 0 else caddr s) \<and> (0 < n \<longrightarrow> ende = caddr (s + n - 1)) \<and>
     tot = (if n = 0 then 0 else of_nat (block_size n)) \<and> (1 < n \<longrightarrow> block_size (n - 1) < unat sz)"

lemma chunk_ok_end: "chunk_ok (s + n - 1) \<Longrightarrow> 0 < n \<Longrightarrow> 32 * (s + n) < 2 ^ 64"
  by (cases "s + n") (simp_all add: chunk_ok_def)

lemma unat_block_size:
  assumes "chunk_ok (s + n - 1)" and "0 < n"
  shows "unat (of_nat (block_size n) :: u64) = block_size n"
proof (rule unat_of_nat64)
  have "block_size n \<le> 32 * (s + n)" by (simp add: block_size_def)
  then show "block_size n < 2 ^ 64" using chunk_ok_end [OF assms] by (rule le_less_trans)
qed

lemma block_size_Suc: "0 < n \<Longrightarrow> block_size (Suc n) = block_size n + 32"
  by (simp add: block_size_def)

lemma alloc_at_step:
  assumes at: "alloc_at (pre @ [s..<s + n] @ c # post) pre s n c post start ende tot sz"
    and ok: "\<forall>k \<in> set (pre @ [s..<s + n] @ c # post). chunk_ok k" and lt: "tot < sz"
    and ks': "ks' = pre @ [s..<s + n] @ c # c' # post'"
    and st: "(start', tot') = (if start = 0 then (caddr c, tot + 16)
               else if ende + 32 \<noteq> caddr c then (0, 0) else (start, tot + 32))"
  shows "\<exists>pre' s' n'. alloc_at ks' pre' s' n' c' post' start' (caddr c) tot' sz"
proof -
  have okc: "chunk_ok c" using ok by simp
  consider "n = 0" | "0 < n" "s + n = c" | "0 < n" "s + n \<noteq> c" by blast
  then show ?thesis
  proof cases
    case 1
    then have "alloc_at ks' pre c 1 c' post' start' (caddr c) tot' sz"
      using at ks' st by (simp add: alloc_at_def block_size_def)
    then show ?thesis by blast
  next
    case 2
    have oks: "chunk_ok s" "chunk_ok (s + n - 1)" using ok 2(1) by auto
    have e: "ende + 32 = caddr c" "start = caddr s" "start \<noteq> 0"
      using at 2 oks caddr_Suc [of "s + n - 1"] by (auto simp: alloc_at_def)
    have "unat tot = block_size n"
      using at 2 unat_block_size [OF oks(2) 2(1)] by (simp add: alloc_at_def)
    then have "block_size n < unat sz" using lt by (simp add: word_less_nat_alt)
    moreover have "tot + 32 = of_nat (block_size (Suc n))"
      using at 2(1) by (simp add: alloc_at_def block_size_Suc)
    moreover have "[s..<s + n] @ [c] = [s..<s + Suc n]" using 2(2) by simp
    ultimately have "alloc_at ks' pre s (Suc n) c' post' start' (caddr c) tot' sz"
      using ks' st e 2 by (auto simp: alloc_at_def)
    then show ?thesis by blast
  next
    case 3
    have oks: "chunk_ok s" "chunk_ok (s + n - 1)" using ok 3(1) by auto
    then have "start \<noteq> 0" using at 3 by (simp add: alloc_at_def)
    moreover have "ende + 32 \<noteq> caddr c"
    proof
      assume "ende + 32 = caddr c"
      then have "caddr (s + n) = caddr c" using at 3 caddr_Suc [of "s + n - 1"] by (simp add: alloc_at_def)
      moreover have "unat (caddr (s + n)) = 32 * (s + n)"
        unfolding caddr_def by (rule unat_of_nat64) (rule chunk_ok_end [OF oks(2) 3(1)])
      ultimately show False using unat_caddr [OF okc] 3(2) by simp
    qed
    ultimately have "alloc_at ks' (pre @ [s..<s + n] @ [c]) 0 0 c' post' start' (caddr c) tot' sz"
      using ks' st by (simp add: alloc_at_def)
    then show ?thesis by blast
  qed
qed

lemma heap_alloc_loop_spec:
  assumes "heap_inv h ks B K" and "alloc_at ks pre s n c post start ende tot sz"
    and "heap_budget h (c # post) < fuel" and "0 < sz"
  shows "\<exists>cur' start' ende' tot' h' ks' K'.
    heap_alloc_loop fuel h sz (caddr c) start ende tot = Some (cur', start', ende', tot', h') \<and>
    heap_inv h' ks' B K' \<and>
    (cur' = 0 \<and> heap_pages h' = [] \<or>
     (\<exists>pre' s' n' c' post'. alloc_at ks' pre' s' n' c' post' start' ende' tot' sz \<and>
        cur' = caddr c' \<and> 0 < n' \<and> sz \<le> tot'))"
  using assms
proof (induction fuel arbitrary: h ks K pre s n c post start ende tot)
  case (Suc fuel)
  have ks: "ks = pre @ [s..<s + n] @ c # post" using Suc.prems(2) by (simp add: alloc_at_def)
  have ok: "\<forall>k \<in> set ks. chunk_ok k" using Suc.prems(1) by (simp add: heap_inv_def free_list_def)
  then have c0: "caddr c \<noteq> 0" using ks by simp
  show ?case
  proof (cases "tot < sz")
    case False
    then have "0 < n" using Suc.prems(2,4) by (cases "n = 0") (auto simp: alloc_at_def)
    moreover have "heap_alloc_loop (Suc fuel) h sz (caddr c) start ende tot = Some (caddr c, start, ende, tot, h)"
      using False by simp
    ultimately show ?thesis using False Suc.prems unfolding not_less by blast
  next
    case True
    obtain h' vs' K' where nx: "heap_chunk_next h (caddr c) = (hdn vs' 0, h')"
      "heap_inv h' ((pre @ [s..<s + n]) @ c # vs') B K'" "vs' = [] \<longrightarrow> heap_pages h' = []"
      "heap_budget h' vs' = heap_budget h post"
      using heap_chunk_next_step [of h "pre @ [s..<s + n]" c post B K] Suc.prems(1) ks by auto
    obtain start' tot' where st: "(start', tot') = (if start = 0 then (caddr c, tot + 16)
        else if ende + 32 \<noteq> caddr c then (0, 0) else (start, tot + 32))"
      by (metis surj_pair)
    have run: "heap_alloc_loop (Suc fuel) h sz (caddr c) start ende tot =
        heap_alloc_loop fuel h' sz (hdn vs' 0) start' (caddr c) tot'"
      using True c0 nx(1) st by (auto split: if_splits)
    have bud: "heap_budget h' vs' < fuel" using Suc.prems(3) nx(4) by (simp add: heap_budget_def)
    show ?thesis
    proof (cases vs')
      case Nil
      then have "heap_alloc_loop fuel h' sz (hdn vs' 0) start' (caddr c) tot' = Some (0, start', caddr c, tot', h')"
        using bud by (cases fuel) simp_all
      then show ?thesis using run nx Nil by auto
    next
      case (Cons c' post')
      have at: "alloc_at (pre @ [s..<s + n] @ c # post) pre s n c post start ende tot sz"
        using Suc.prems(2) ks by simp
      obtain pre2 s2 n2 where
        "alloc_at ((pre @ [s..<s + n]) @ c # vs') pre2 s2 n2 c' post' start' (caddr c) tot' sz"
        using alloc_at_step [OF at ok [unfolded ks] True refl st, of c' post'] Cons by auto
      from Suc.IH [OF nx(2) this _ Suc.prems(4)] bud Cons run show ?thesis by simp
    qed
  qed
qed simp

subsection \<open>Taking a run out of the list\<close>

lemma dlseg_remove:
  assumes ok: "\<forall>k \<in> set (pre @ run @ c # post). chunk_ok k" and dist: "distinct (pre @ run @ c # post)"
    and dl: "dlseg m 0 (pre @ run @ c # post) 0"
  shows "dlseg ((if pre = [] then m else m(lstp 0 pre := caddr c))(caddr c + 8 := lstp 0 pre))
    0 (pre @ c # post) 0"
proof -
  have tail: "dlseg m (lstp (lstp 0 pre) run) (c # post) 0" and front: "dlseg m 0 pre (hdn (run @ [c]) 0)"
    using dl by (auto simp: dlseg_append lstp_append hdn_append)
  show ?thesis
  proof (cases pre rule: rev_cases)
    case Nil
    then show ?thesis using dlseg_set_first [OF _ _ tail] ok dist by simp
  next
    case (snoc ys y)
    let ?m = "m(caddr y := caddr c)"
    have "dlseg ?m 0 (ys @ [y]) (caddr c)"
      using dlseg_set_last [of ys y m 0 "hdn (run @ [c]) 0"] front ok dist snoc by simp
    then have f: "dlseg (?m(caddr c + 8 := caddr y)) 0 (ys @ [y]) (caddr c)"
      using dlseg_upd_prev [of "ys @ [y]" c ?m "caddr y" 0 "caddr c"] ok dist snoc by auto
    have "dlseg ?m (lstp (lstp 0 pre) run) (c # post) 0 = dlseg m (lstp (lstp 0 pre) run) (c # post) 0"
      by (rule dlseg_upd_next) (use ok dist snoc in auto)
    then have "dlseg ?m (lstp (lstp 0 pre) run) (c # post) 0" using tail by simp
    then have "dlseg (?m(caddr c + 8 := caddr y)) (caddr y) (c # post) 0"
      using dlseg_set_first [of c post ?m] ok dist by auto
    then show ?thesis using f snoc dlseg_append [of _ 0 "ys @ [y]" "c # post" 0] by simp
  qed
qed

definition heap_take_run :: "nat \<Rightarrow> nat \<Rightarrow> u64 \<Rightarrow> heap \<Rightarrow> heap" where
  "heap_take_run s n tot h1 =
     (let h2 = heap_unlink (caddr s) (caddr (s + n - 1)) h1;
          h3 = (if heap_chunk_first h2 = caddr s
                then h2\<lparr>heap_chunk_first := heap_chunk_meta_next h2 (caddr (s + n - 1))\<rparr> else h2);
          h4 = (if heap_chunk_last h3 = caddr (s + n - 1)
                then h3\<lparr>heap_chunk_last := heap_chunk_meta_prev h3 (caddr s)\<rparr> else h3)
      in h4\<lparr>heap_mem := (heap_mem h4)(caddr s := HEAP_CHUNK_MAGIC, caddr s + 8 := tot)\<rparr>)"

lemma run_split: "0 < n \<Longrightarrow> [s..<s + n] = [s..<s + n - 1] @ [s + n - 1]"
  using upt_Suc_append [of s "s + n - 1"] by simp

lemma run_split_first: "0 < n \<Longrightarrow> [s..<s + n] = s # [Suc s..<s + n]"
  by (simp add: upt_conv_Cons)

lemma heap_take_run_mem:
  assumes fl: "free_list h (pre @ [s..<s + n] @ c # post)" and n: "0 < n"
  shows "heap_take_run s n tot h = h\<lparr>heap_chunk_first := hdn (pre @ c # post) 0,
    heap_mem := (if pre = [] then heap_mem h else (heap_mem h)(lstp 0 pre := caddr c))
      (caddr c + 8 := lstp 0 pre, caddr s := HEAP_CHUNK_MAGIC, caddr s + 8 := tot)\<rparr>"
proof -
  let ?e = "s + n - 1" and ?m = "heap_mem h"
  have ok: "\<forall>k \<in> set (pre @ [s..<s + n] @ c # post). chunk_ok k"
    and dist: "distinct (pre @ [s..<s + n] @ c # post)"
    and dl: "dlseg ?m 0 (pre @ [s..<s + n] @ c # post) 0"
    and first: "heap_chunk_first h = hdn (pre @ [s..<s + n] @ c # post) 0"
    and last: "heap_chunk_last h = lstp 0 (pre @ [s..<s + n] @ c # post)"
    using fl unfolding free_list_def by (blast dest: sorted_strict_distinct)+
  have oks: "chunk_ok s" "chunk_ok ?e" "chunk_ok c" using ok n by auto
  have prev: "?m (caddr s + 8) = lstp 0 pre"
    using dl n by (simp add: dlseg_append run_split_first)
  have "dlseg ?m (lstp 0 pre) [s..<s + n] (caddr c)" using dl by (simp add: dlseg_append)
  then have nxt: "?m (caddr ?e) = caddr c" unfolding run_split [OF n] by (simp add: dlseg_append)
  have pz: "lstp 0 pre = 0 \<longleftrightarrow> pre = []" using ok by (intro lstp_zero) auto
  have ne: "pre \<noteq> [] \<Longrightarrow> lstp 0 pre \<noteq> caddr s + 8 \<and> lstp 0 pre \<noteq> caddr ?e \<and>
      caddr s + 8 \<noteq> lstp 0 pre \<and> caddr ?e \<noteq> lstp 0 pre"
  proof -
    assume p: "pre \<noteq> []"
    then have l: "last pre \<in> set pre" "chunk_ok (last pre)" using ok by auto
    then have "last pre \<noteq> ?e" using dist n by auto
    then show ?thesis using l oks p by (auto simp: lstp_def caddr_words_ne)
  qed
  have cne: "caddr c + 8 \<noteq> caddr ?e" "caddr c + 8 \<noteq> caddr s + 8" "caddr c \<noteq> 0"
    using oks dist n by (auto simp: caddr_words_ne)
  have fs: "heap_chunk_first h = caddr s \<longleftrightarrow> pre = []"
  proof (cases pre)
    case Nil
    then show ?thesis using first n by (simp add: run_split_first)
  next
    case (Cons a as)
    then have "a \<noteq> s" "chunk_ok a" using dist ok n by auto
    then show ?thesis using first Cons oks by simp
  qed
  have ls: "heap_chunk_last h \<noteq> caddr ?e"
  proof -
    have l: "last (c # post) \<in> set (c # post)" by (rule last_in_set) simp
    have "?e \<in> set [s..<s + n]" and "set [s..<s + n] \<inter> set (c # post) = {}" using n dist by auto
    then have "last (c # post) \<noteq> ?e" using l by (metis disjoint_iff)
    moreover have "chunk_ok (last (c # post))" using ok l by auto
    ultimately have "caddr (last (c # post)) \<noteq> caddr ?e" using oks by simp
    then show ?thesis using last by (simp add: lstp_def)
  qed
  have un: "heap_unlink (caddr s) (caddr ?e) h = h\<lparr>heap_mem :=
      (if pre = [] then ?m else ?m(lstp 0 pre := caddr c))(caddr c + 8 := lstp 0 pre)\<rparr>"
    using prev nxt pz ne cne by (cases "pre = []") (simp_all add: heap_unlink_def heap_fields Let_def)
  show ?thesis
    using un fs ls nxt first ne cne
    by (cases "pre = []") (simp_all add: heap_take_run_def heap_fields Let_def hdn_append hdn_def)
qed

lemma heap_take_run_inv:
  assumes inv: "heap_inv h (pre @ [s..<s + n] @ c # post) B K" and n: "0 < n"
  shows "heap_inv (heap_take_run s n (of_nat (block_size n)) h) (pre @ c # post) (insert (s, n) B) K \<and>
    (\<forall>b \<in> B. block_chunks b \<inter> block_chunks (s, n) = {})"
proof -
  let ?h = "heap_take_run s n (of_nat (block_size n)) h" and ?ks = "pre @ [s..<s + n] @ c # post"
  have fl: "free_list h ?ks" using inv by (simp add: heap_inv_def)
  have ok: "\<forall>k \<in> set ?ks. chunk_ok k" and srt: "sorted_wrt (<) ?ks" and dl: "dlseg (heap_mem h) 0 ?ks 0"
    and last: "heap_chunk_last h = lstp 0 ?ks"
    using fl unfolding free_list_def by blast+
  have dist: "distinct ?ks" using srt by (rule sorted_strict_distinct)
  note mem = heap_take_run_mem [OF fl n, of "of_nat (block_size n)"]
  have oks: "chunk_ok s" and okc: "chunk_ok c" using ok n by auto
  have okl: "\<forall>k \<in> set (pre @ c # post). chunk_ok k" using ok by auto
  have sn: "s \<notin> set (pre @ c # post)" using dist n run_split_first [OF n, of s] by simp
  have seg: "dlseg (heap_mem ?h) 0 (pre @ c # post) 0"
    using dlseg_remove [OF ok dist dl] dlseg_upd_next [OF okl oks sn] dlseg_upd_prev [OF okl oks sn]
    unfolding mem by simp
  have fl': "free_list ?h (pre @ c # post)"
    unfolding free_list_def
  proof (intro conjI)
    show "sorted_wrt (<) (pre @ c # post)" using srt by (auto simp: sorted_wrt_append)
    show "heap_chunk_last ?h = lstp 0 (pre @ c # post)" using last mem by (simp add: lstp_append)
    show "heap_chunk_first ?h = hdn (pre @ c # post) 0" using mem by simp
  qed (rule okl, rule seg)
  have disj: "block_chunks b \<inter> block_chunks (s, n) = {}" if "b \<in> B" for b
  proof -
    have "block_chunks b \<inter> set ?ks = {}" using inv that by (simp only: heap_inv_def block_ok_def)
    moreover have "block_chunks (s, n) \<subseteq> set ?ks" by (auto simp: block_chunks_def)
    ultimately show ?thesis by blast
  qed
  have old: "block_ok ?h (pre @ c # post) K b" if "b \<in> B" for b
  proof -
    have b: "block_ok h ?ks K b" using inv that by (simp add: heap_inv_def)
    note f = block_first [OF b]
    have nin: "fst b \<notin> set ?ks" using b f by (auto simp: block_ok_def)
    then have ne: "fst b \<noteq> s" "fst b \<noteq> c" "pre \<noteq> [] \<Longrightarrow> fst b \<noteq> last pre"
      using n by auto
    have "pre \<noteq> [] \<Longrightarrow> chunk_ok (last pre)" using ok by simp
    then have "heap_mem ?h (caddr (fst b)) = heap_mem h (caddr (fst b))"
      "heap_mem ?h (caddr (fst b) + 8) = heap_mem h (caddr (fst b) + 8)"
      using ne f oks okc unfolding mem by (auto simp: lstp_def caddr_words_ne)
    moreover have "block_chunks b \<inter> set (pre @ c # post) = {}" using b by (auto simp: block_ok_def)
    ultimately show ?thesis using block_ok_frame [OF b le_refl] by blast
  qed
  have new: "block_ok ?h (pre @ c # post) K (s, n)"
  proof -
    have "s + n - 1 \<in> set [s..<s + n]" using n by auto
    then have "s + n - 1 \<in> set ?ks" by simp
    then have "s + n - 1 < K" using inv unfolding heap_inv_def by blast
    moreover have "block_chunks (s, n) \<inter> set (pre @ c # post) = {}"
      using dist by (auto simp: block_chunks_def)
    moreover have "\<forall>k \<in> block_chunks (s, n). chunk_ok k" using ok by (auto simp: block_chunks_def)
    moreover have "heap_mem ?h (caddr s) = HEAP_CHUNK_MAGIC" "heap_mem ?h (caddr s + 8) = of_nat (block_size n)"
      using oks unfolding mem by (simp_all add: caddr_words_ne)
    ultimately show ?thesis using n by (simp add: block_ok_def)
  qed
  have pg: "heap_pages ?h = heap_pages h" using mem by simp
  have pw: "\<forall>b \<in> insert (s, n) B. \<forall>b' \<in> insert (s, n) B. b \<noteq> b' \<longrightarrow> block_chunks b \<inter> block_chunks b' = {}"
    using inv disj unfolding heap_inv_def by (metis Int_commute insert_iff)
  have "\<forall>k \<in> set (pre @ c # post). k < K" using inv unfolding heap_inv_def by auto
  then show ?thesis
    using inv fl' pg disj old new pw by (simp add: heap_inv_def del: Int_insert_left)
qed

lemma heap_alloc_inv:
  assumes inv: "heap_inv h ks B K" and sz: "0 < sz" and fuel: "heap_budget h ks < fuel"
  shows "\<exists>a h' ks' K'. heap_alloc fuel h sz = Inr (a, h') \<and>
    (a = 0 \<and> heap_inv h' ks' B K' \<and> heap_pages h' = [] \<or>
     (\<exists>s n. a = caddr s + 16 \<and> 0 < n \<and> unat sz \<le> block_size n \<and> (1 < n \<longrightarrow> block_size (n - 1) < unat sz) \<and>
        (\<forall>b \<in> B. block_chunks b \<inter> block_chunks (s, n) = {}) \<and> heap_inv h' ks' (insert (s, n) B) K'))"
proof -
  obtain h0 ks0 K0 where n0: "heap_chunk_next h 0 = (hdn ks0 0, h0)" "heap_inv h0 ks0 B K0"
    "ks0 = [] \<longrightarrow> heap_pages h0 = []" "heap_budget h0 ks0 = heap_budget h ks"
    using heap_chunk_next_first [OF inv] by blast
  show ?thesis
  proof (cases ks0)
    case Nil
    then have "heap_alloc_loop fuel h0 sz 0 0 0 0 = Some (0, 0, 0, 0, h0)"
      using fuel by (cases fuel) simp_all
    then have "heap_alloc fuel h sz = Inr (0, h0)" using n0(1) Nil by (simp add: heap_alloc_def)
    then show ?thesis using n0 Nil by blast
  next
    case (Cons c post)
    have at: "alloc_at ks0 [] 0 0 c post 0 0 0 sz" using Cons by (simp add: alloc_at_def)
    have bud: "heap_budget h0 (c # post) < fuel" using fuel n0(4) Cons by simp
    obtain cur st en tot h1 ks1 K1 where r:
      "heap_alloc_loop fuel h0 sz (caddr c) 0 0 0 = Some (cur, st, en, tot, h1)" "heap_inv h1 ks1 B K1"
      "cur = 0 \<and> heap_pages h1 = [] \<or> (\<exists>pre s n c' post'. alloc_at ks1 pre s n c' post' st en tot sz \<and>
        cur = caddr c' \<and> 0 < n \<and> sz \<le> tot)"
      using heap_alloc_loop_spec [OF n0(2) at bud sz] by metis
    have run: "heap_alloc fuel h sz = (if cur = 0 \<or> sz > tot then Inr (0, h1) else if st = 0 then Inl NullDeref
        else let h2 = heap_unlink st en h1;
                 h3 = (if heap_chunk_first h2 = st then h2\<lparr>heap_chunk_first := heap_chunk_meta_next h2 en\<rparr> else h2);
                 h4 = (if heap_chunk_last h3 = en then h3\<lparr>heap_chunk_last := heap_chunk_meta_prev h3 st\<rparr> else h3)
             in Inr (st + 16, h4\<lparr>heap_mem := (heap_mem h4)(st := HEAP_CHUNK_MAGIC, st + 8 := tot)\<rparr>))"
      using n0(1) r(1) Cons by (simp add: heap_alloc_def Let_def)
    from r(3) show ?thesis
    proof (elim disjE conjE exE)
      assume "cur = 0" "heap_pages h1 = []"
      then show ?thesis using run r(2) by auto
    next
      fix pre s n c' post'
      assume at': "alloc_at ks1 pre s n c' post' st en tot sz" and cur: "cur = caddr c'" and n: "0 < n"
        and le: "sz \<le> tot"
      have ks1: "ks1 = pre @ [s..<s + n] @ c' # post'" and st: "st = caddr s" "en = caddr (s + n - 1)"
        and tot: "tot = of_nat (block_size n)" and min: "1 < n \<longrightarrow> block_size (n - 1) < unat sz"
        using at' n by (simp_all add: alloc_at_def)
      have "\<forall>k \<in> set ks1. chunk_ok k" using r(2) by (simp add: heap_inv_def free_list_def)
      then have ok: "chunk_ok c'" "chunk_ok s" "chunk_ok (s + n - 1)" using ks1 n by auto
      have "unat tot = block_size n" using tot unat_block_size [OF ok(3) n] by simp
      then have "unat sz \<le> block_size n" using le by (simp add: word_le_nat_alt)
      moreover have "heap_alloc fuel h sz = Inr (caddr s + 16, heap_take_run s n (of_nat (block_size n)) h1)"
      proof -
        have "\<not> (cur = 0 \<or> sz > tot)" "st \<noteq> 0" using ok cur le st by auto
        then show ?thesis using run unfolding st tot by (simp add: heap_take_run_def Let_def)
      qed
      moreover have "heap_inv (heap_take_run s n (of_nat (block_size n)) h1) (pre @ c' # post') (insert (s, n) B) K1 \<and>
          (\<forall>b \<in> B. block_chunks b \<inter> block_chunks (s, n) = {})"
        using heap_take_run_inv r(2) n unfolding ks1 by blast
      ultimately show ?thesis using min n by blast
    qed
  qed
qed

subsection \<open>Putting a block back\<close>

lemma heap_free_relink_spec:
  assumes "0 < s" and "32 * (s + n) < 2 ^ 64" and "i \<le> n" and "0 < n"
    and "n - i < fuel"
    and "dlseg (heap_mem h) (heap_mem h (caddr s + 8)) [s..<s + i] (caddr (s + i))"
  shows "\<exists>m. heap_free_relink fuel h (caddr s) (caddr (s + n - 1)) (caddr (s + i)) = Some (h\<lparr>heap_mem := m\<rparr>) \<and>
    dlseg m (m (caddr s + 8)) [s..<s + n] (caddr (s + n)) \<and>
    (\<forall>a. (\<forall>k \<in> {s..<s + n}. a \<noteq> caddr k \<and> a \<noteq> caddr k + 8) \<longrightarrow> m a = heap_mem h a)"
  using assms(3,5,6)
proof (induction fuel arbitrary: i h)
  case (Suc fuel)
  have ok: "chunk_ok k" if "k \<in> {s..<s + n}" for k using that assms(1,2) by (auto simp: chunk_ok_def)
  have ua: "unat (caddr (s + i)) = 32 * (s + i)"
    unfolding caddr_def using assms(2) Suc.prems(1) by (intro unat_of_nat64) simp
  have ue: "unat (caddr (s + n - 1)) = 32 * (s + n - 1)" using ok assms(4) by (intro unat_caddr) simp
  have le: "caddr (s + i) \<le> caddr (s + n - 1) \<longleftrightarrow> i < n"
    unfolding word_le_nat_alt ua ue using Suc.prems(1) assms(4) by auto
  show ?case
  proof (cases "i < n")
    case False
    then have "i = n" using Suc.prems(1) by simp
    then show ?thesis using le Suc.prems(3) by (auto intro: exI [of _ "heap_mem h"])
  next
    case True
    have oki: "chunk_ok (s + i)" and oks: "chunk_ok s" using ok True by auto
    define m1 where "m1 = (if i = 0 then heap_mem h else (heap_mem h)(caddr (s + i) + 8 := caddr (s + i - 1)))
      (caddr (s + i) := caddr (s + Suc i))"
    have pv: "i \<noteq> 0 \<Longrightarrow> caddr (s + i) - 32 = caddr (s + i - 1)"
      using caddr_Suc [of "s + i - 1"] by (simp add: diff_eq_eq)
    have "caddr (s + i) \<noteq> caddr s \<longleftrightarrow> i \<noteq> 0" using oki oks by simp
    then have step: "heap_free_relink (Suc fuel) h (caddr s) (caddr (s + n - 1)) (caddr (s + i)) =
        heap_free_relink fuel (h\<lparr>heap_mem := m1\<rparr>) (caddr s) (caddr (s + n - 1)) (caddr (s + Suc i))"
      using True le pv caddr_Suc [of "s + i"]
      by (cases "i = 0") (simp_all add: heap_fields m1_def)
    have nin: "s + i \<notin> set [s..<s + i]" and okl: "\<forall>k \<in> set [s..<s + i]. chunk_ok k" using ok True by auto
    have keep: "m1 (caddr s + 8) = heap_mem h (caddr s + 8)"
      using oki oks by (cases "i = 0") (simp_all add: m1_def caddr_words_ne)
    have "dlseg m1 (heap_mem h (caddr s + 8)) [s..<s + i] (caddr (s + i))"
      using Suc.prems(3) dlseg_upd_next [OF okl oki nin] dlseg_upd_prev [OF okl oki nin]
      by (simp add: m1_def)
    moreover have "m1 (caddr (s + i) + 8) = lstp (heap_mem h (caddr s + 8)) [s..<s + i]"
      using oki by (cases "i = 0") (simp_all add: m1_def caddr_words_ne lstp_def last_upt)
    ultimately have "dlseg m1 (heap_mem h (caddr s + 8)) ([s..<s + i] @ [s + i]) (caddr (s + Suc i))"
      by (simp add: dlseg_append m1_def)
    then have seg: "dlseg m1 (m1 (caddr s + 8)) [s..<s + Suc i] (caddr (s + Suc i))"
      using keep by simp
    have nf: "n - Suc i < fuel" using True Suc.prems(2) by linarith
    obtain m where m: "heap_free_relink fuel (h\<lparr>heap_mem := m1\<rparr>) (caddr s) (caddr (s + n - 1)) (caddr (s + Suc i)) =
        Some (h\<lparr>heap_mem := m\<rparr>)" "dlseg m (m (caddr s + 8)) [s..<s + n] (caddr (s + n))"
      "\<forall>a. (\<forall>k \<in> {s..<s + n}. a \<noteq> caddr k \<and> a \<noteq> caddr k + 8) \<longrightarrow> m a = m1 a"
      using Suc.IH [of "Suc i" "h\<lparr>heap_mem := m1\<rparr>"] True seg nf by auto
    have "m a = heap_mem h a" if "\<forall>k \<in> {s..<s + n}. a \<noteq> caddr k \<and> a \<noteq> caddr k + 8" for a
    proof -
      have "s + i \<in> {s..<s + n}" using True by simp
      then have "a \<noteq> caddr (s + i)" "a \<noteq> caddr (s + i) + 8" using that by blast+
      then show ?thesis using m(3) that by (simp add: m1_def)
    qed
    then show ?thesis using step m by auto
  qed
qed simp

text \<open>The walk over the free list, for a block whose chunks lie between those of \<open>pre\<close> and those of
  \<open>post\<close>.\<close>

definition free_gap :: "nat list \<Rightarrow> nat \<Rightarrow> nat \<Rightarrow> nat list \<Rightarrow> bool" where
  "free_gap pre s n post \<longleftrightarrow> sorted_wrt (<) (pre @ [s..<s + n] @ post) \<and> 0 < n \<and>
     (\<forall>k \<in> set (pre @ [s..<s + n] @ post). chunk_ok k)"

lemma heap_free_search_pre:
  assumes "free_gap (pre @ vs) s n post" and "dlseg (heap_mem h) 0 ((pre @ vs) @ post) 0"
    and "length vs + length post < fuel" and "heap_mem h (caddr s + 8) = lstp 0 pre"
  shows "heap_free_search fuel h (caddr s) (caddr (s + n - 1)) (hdn (vs @ post) 0) =
    heap_free_search (fuel - length vs) (h\<lparr>heap_mem := (heap_mem h)(caddr s + 8 := lstp 0 (pre @ vs))\<rparr>)
      (caddr s) (caddr (s + n - 1)) (hdn post 0)"
  using assms
proof (induction vs arbitrary: pre h fuel)
  case Nil
  then have "(heap_mem h)(caddr s + 8 := lstp 0 (pre @ [])) = heap_mem h" by (simp add: fun_upd_idem)
  then show ?case by (cases h) simp
next
  case (Cons v vs)
  let ?h = "h\<lparr>heap_mem := (heap_mem h)(caddr s + 8 := caddr v)\<rparr>"
  obtain fuel' where fuel': "fuel = Suc fuel'" using Cons.prems(3) by (cases fuel) auto
  have n: "0 < n" and srt: "sorted_wrt (<) ((pre @ v # vs) @ [s..<s + n] @ post)"
    and ok: "\<forall>k \<in> set ((pre @ v # vs) @ [s..<s + n] @ post). chunk_ok k"
    using Cons.prems(1) unfolding free_gap_def by blast+
  have oks: "chunk_ok v" "chunk_ok s" "chunk_ok (s + n - 1)" using ok n by auto
  have lt: "v < s" using srt unfolding run_split_first [OF n] by (simp add: sorted_wrt_append)
  have nxt: "heap_mem h (caddr v) = hdn (vs @ post) 0" using Cons.prems(2) by (simp add: dlseg_append)
  have "\<not> caddr (s + n - 1) < caddr v" using oks lt n by (simp add: caddr_less)
  moreover have "caddr s > caddr v" using oks lt by (simp add: caddr_less)
  moreover have "caddr v \<noteq> 0" "caddr v \<noteq> caddr s + 8" using oks by (auto simp: caddr_words_ne)
  ultimately have step: "heap_free_search fuel h (caddr s) (caddr (s + n - 1)) (hdn ((v # vs) @ post) 0) =
      heap_free_search fuel' ?h (caddr s) (caddr (s + n - 1)) (hdn (vs @ post) 0)"
    using nxt by (simp add: fuel' heap_fields)
  have nin: "s \<notin> set ((pre @ v # vs) @ post)"
  proof -
    have "distinct ((pre @ v # vs) @ [s..<s + n] @ post)" using srt by (rule sorted_strict_distinct)
    then show ?thesis using run_split_first [OF n, of s] by simp
  qed
  have okl: "\<forall>k \<in> set ((pre @ v # vs) @ post). chunk_ok k" using ok by auto
  have "dlseg (heap_mem ?h) 0 (((pre @ [v]) @ vs) @ post) 0"
    using dlseg_upd_prev [OF okl oks(2) nin, of "heap_mem h" "caddr v" 0 0] Cons.prems(2) by simp
  then have "heap_free_search fuel' ?h (caddr s) (caddr (s + n - 1)) (hdn (vs @ post) 0) =
      heap_free_search (fuel' - length vs) (?h\<lparr>heap_mem := (heap_mem ?h)(caddr s + 8 := lstp 0 ((pre @ [v]) @ vs))\<rparr>)
        (caddr s) (caddr (s + n - 1)) (hdn post 0)"
    using Cons.prems(1,3) fuel' by (intro Cons.IH) (simp_all add: fun_upd_def)
  then show ?case unfolding step by (simp add: fuel' fun_upd_def cong: if_cong)
qed

lemma heap_free_search_post:
  assumes "free_gap pre s n (us @ vs)" and "us \<noteq> []" and "dlseg (heap_mem h) 0 (pre @ us @ vs) 0"
    and "length vs < fuel" and "heap_mem h (caddr s + 8) = lstp 0 pre"
  shows "heap_free_search fuel h (caddr s) (caddr (s + n - 1)) (hdn vs 0) = Some h"
  using assms
proof (induction vs arbitrary: us fuel)
  case Nil
  then show ?case by (cases fuel) simp_all
next
  case (Cons v vs)
  obtain fuel' where fuel': "fuel = Suc fuel'" using Cons.prems(4) by (cases fuel) auto
  have n: "0 < n" and srt: "sorted_wrt (<) (pre @ [s..<s + n] @ us @ v # vs)"
    and ok: "\<forall>k \<in> set (pre @ [s..<s + n] @ us @ v # vs). chunk_ok k"
    using Cons.prems(1) unfolding free_gap_def by blast+
  have oks: "chunk_ok v" "chunk_ok s" using ok n by auto
  have "s < v" using srt unfolding run_split_first [OF n] by (simp add: sorted_wrt_append)
  then have "\<not> caddr s > caddr v" "caddr v \<noteq> 0" using oks by (auto simp: caddr_less not_less)
  moreover have "heap_mem h (caddr v + 8) = caddr (last us)" "heap_mem h (caddr v) = hdn vs 0"
    using Cons.prems(2,3) by (auto simp: dlseg_append lstp_def)
  moreover have "lstp 0 pre \<noteq> caddr (last us)"
  proof -
    have l: "last us \<in> set us" "chunk_ok (last us)" using Cons.prems(2) ok by auto
    have "distinct (pre @ [s..<s + n] @ us @ v # vs)" using srt by (rule sorted_strict_distinct)
    then have "set pre \<inter> set us = {}" by (simp add: Int_Un_distrib)
    then have d: "pre \<noteq> [] \<Longrightarrow> last pre \<noteq> last us" using l(1) by (metis disjoint_iff last_in_set)
    show ?thesis
    proof (cases "pre = []")
      case False
      then have "chunk_ok (last pre)" using ok by simp
      then show ?thesis using d False l by (simp add: lstp_def)
    qed (use l in \<open>simp add: lstp_def not_sym [OF caddr_nonzero]\<close>)
  qed
  ultimately have "heap_free_search fuel h (caddr s) (caddr (s + n - 1)) (hdn (v # vs) 0) =
      heap_free_search fuel' h (caddr s) (caddr (s + n - 1)) (hdn vs 0)"
    using Cons.prems(5) by (simp add: fuel' heap_fields)
  also have "\<dots> = Some h"
    by (rule Cons.IH [of "us @ [v]"]) (use Cons.prems fuel' in simp_all)
  finally show ?case .
qed

lemma dlseg_insert:
  assumes ok: "\<forall>k \<in> set (pre @ run @ post). chunk_ok k" and dist: "distinct (pre @ run @ post)"
    and run: "run \<noteq> []" and dl: "dlseg m 0 (pre @ post) 0"
    and seg: "dlseg m (lstp 0 pre) run (hdn post 0)"
    and m1: "m1 = (if pre = [] then m else m(lstp 0 pre := caddr (hd run)))"
    and m2: "m2 = (if post = [] then m1 else m1(caddr (hd post) + 8 := caddr (last run)))"
  shows "dlseg m2 0 (pre @ run @ post) 0"
proof -
  have front: "dlseg m 0 pre (hdn post 0)" and tail: "dlseg m (lstp 0 pre) post 0"
    using dl by (simp_all add: dlseg_append)
  have disj: "set pre \<inter> set run = {}" "set pre \<inter> set post = {}" "set run \<inter> set post = {}"
    using dist by (simp_all add: Int_Un_distrib)
  have pl: "pre \<noteq> [] \<Longrightarrow> chunk_ok (last pre) \<and> last pre \<notin> set run \<and> last pre \<notin> set post"
    using ok disj by (metis Un_iff disjoint_iff last_in_set set_append)
  have ph: "post \<noteq> [] \<Longrightarrow> chunk_ok (hd post) \<and> hd post \<notin> set pre \<and> hd post \<notin> set run"
    using ok disj by (metis Un_iff disjoint_iff hd_in_set set_append)
  have oks: "\<forall>k \<in> set pre. chunk_ok k" "\<forall>k \<in> set run. chunk_ok k" "\<forall>k \<in> set post. chunk_ok k"
    using ok by auto
  have "dlseg m1 0 pre (caddr (hd run))"
  proof (cases pre rule: rev_cases)
    case (snoc ys y)
    then show ?thesis using dlseg_set_last [of ys y m 0] front oks dist by (auto simp: m1)
  qed simp
  then have a: "dlseg m2 0 pre (caddr (hd run))"
    using dlseg_upd_prev [OF oks(1)] ph by (simp add: m2)
  have "dlseg m1 (lstp 0 pre) run (hdn post 0)"
    using dlseg_upd_next [OF oks(2)] pl seg by (cases "pre = []") (simp_all add: m1 lstp_def)
  then have b: "dlseg m2 (lstp 0 pre) run (hdn post 0)"
    using dlseg_upd_prev [OF oks(2)] ph by (cases "post = []") (simp_all add: m2)
  have rest: "dlseg m1 (lstp 0 pre) post 0"
    using dlseg_upd_next [OF oks(3)] pl tail by (cases "pre = []") (simp_all add: m1 lstp_def)
  have c: "dlseg m2 (caddr (last run)) post 0"
  proof (cases post)
    case (Cons p ps)
    have "distinct (p # ps)" "\<forall>k \<in> set (p # ps). chunk_ok k" "dlseg m1 (lstp 0 pre) (p # ps) 0"
      using dist oks rest Cons by auto
    from dlseg_set_first [OF this(2,1,3)] show ?thesis using Cons by (simp add: m2)
  qed simp
  show ?thesis using a b c run by (simp add: dlseg_append hdn_def lstp_def)
qed

lemma free_gap_exists:
  assumes "sorted_wrt (<) ks" and "\<forall>k \<in> set ks. chunk_ok k" and "0 < n"
    and "\<forall>k \<in> {s..<s + n}. chunk_ok k" and "{s..<s + n} \<inter> set ks = {}"
  obtains pre post where "ks = pre @ post" "free_gap pre s n post"
proof
  let ?pre = "takeWhile (\<lambda>k. k < s) ks" and ?post = "dropWhile (\<lambda>k. k < s) ks"
  show ks: "ks = ?pre @ ?post" by simp
  have pre: "k < s" if "k \<in> set ?pre" for k using that by (rule set_takeWhileD [THEN conjunct2])
  have post: "s + n \<le> k" if k: "k \<in> set ?post" for k
  proof -
    have srt: "sorted_wrt (<) ?post" using assms(1) ks by (metis sorted_wrt_append)
    have "?post \<noteq> []" using k by (metis empty_iff list.set(1))
    then have "\<not> hd ?post < s" by (rule hd_dropWhile)
    moreover have "hd ?post \<le> k" using srt k by (cases ?post) auto
    moreover have "k \<in> set ks" using k by (rule set_dropWhileD)
    ultimately show ?thesis using assms(5) by (meson atLeastLessThan_iff disjoint_iff leI le_trans not_le_imp_less)
  qed
  have "sorted_wrt (<) ?pre" "sorted_wrt (<) ?post" using assms(1) ks by (metis sorted_wrt_append)+
  then have "sorted_wrt (<) (?pre @ [s..<s + n] @ ?post)"
    using pre post by (fastforce simp: sorted_wrt_append)
  moreover have "\<forall>k \<in> set (?pre @ [s..<s + n] @ ?post). chunk_ok k"
    using assms(2,4) by (auto dest: set_takeWhileD set_dropWhileD)
  ultimately show "free_gap ?pre s n ?post" using assms(3) by (simp add: free_gap_def)
qed

text \<open>After both loops of \<^verbatim>\<open>heap_free\<close> the block is a linked segment that already points at its
  future neighbours, and nothing else has changed.\<close>

lemma heap_free_search_spec:
  assumes gap: "free_gap pre s n post" and dl: "dlseg (heap_mem h) 0 (pre @ post) 0"
    and fuel: "length pre + length post < fuel"
    and hdr: "heap_mem h (caddr s + 8) = 0" "heap_mem h (caddr (s + n - 1)) = 0"
  shows "heap_free_search fuel h (caddr s) (caddr (s + n - 1)) (hdn (pre @ post) 0) =
    Some (h\<lparr>heap_mem := (heap_mem h)(caddr s + 8 := lstp 0 pre, caddr (s + n - 1) := hdn post 0)\<rparr>)"
proof -
  let ?e = "s + n - 1"
  let ?h = "h\<lparr>heap_mem := (heap_mem h)(caddr s + 8 := lstp 0 pre)\<rparr>"
  have n: "0 < n" and srt: "sorted_wrt (<) (pre @ [s..<s + n] @ post)"
    and ok: "\<forall>k \<in> set (pre @ [s..<s + n] @ post). chunk_ok k"
    using gap unfolding free_gap_def by blast+
  have oks: "chunk_ok s" "chunk_ok ?e" using ok n by auto
  have dist: "distinct (pre @ [s..<s + n] @ post)" using srt by (rule sorted_strict_distinct)
  have okl: "\<forall>k \<in> set (pre @ post). chunk_ok k" using ok by auto
  have sn: "s \<notin> set (pre @ post)" using dist unfolding run_split_first [OF n] by simp
  have en: "?e \<notin> set (pre @ post)" using dist unfolding run_split [OF n] by simp
  have first: "heap_free_search fuel h (caddr s) (caddr ?e) (hdn (pre @ post) 0) =
      heap_free_search (fuel - length pre) ?h (caddr s) (caddr ?e) (hdn post 0)"
    using heap_free_search_pre [of "[]" pre s n post h fuel] gap dl fuel hdr by simp
  have dlh: "dlseg (heap_mem ?h) 0 (pre @ post) 0"
    using dlseg_upd_prev [OF okl oks(1) sn] dl by simp
  have eh: "heap_mem ?h (caddr ?e) = 0" using hdr(2) oks by (simp add: caddr_words_ne)
  show ?thesis
  proof (cases post)
    case Nil
    then have "heap_free_search (fuel - length pre) ?h (caddr s) (caddr ?e) (hdn post 0) = Some ?h"
      using fuel by (cases "fuel - length pre") simp_all
    moreover have "(heap_mem ?h)(caddr ?e := 0) = heap_mem ?h" using eh by (simp add: fun_upd_idem)
    ultimately show ?thesis using first Nil by simp
  next
    case (Cons p ps)
    let ?h2 = "?h\<lparr>heap_mem := (heap_mem ?h)(caddr ?e := caddr p)\<rparr>"
    obtain f where f: "fuel - length pre = Suc f" "length ps < f"
      using fuel Cons by (cases "fuel - length pre") auto
    have okp: "chunk_ok p" using ok Cons by simp
    have lt: "?e < p" using srt Cons unfolding run_split [OF n] by (simp add: sorted_wrt_append)
    then have "\<not> caddr s > caddr p" "caddr ?e < caddr p" "caddr p \<noteq> 0"
      using okp oks n by (auto simp: caddr_less not_less)
    moreover have "heap_mem ?h (caddr p + 8) = lstp 0 pre" "heap_mem ?h (caddr p) = hdn ps 0"
      using dlh Cons by (simp_all add: dlseg_append)
    moreover have "caddr p \<noteq> caddr ?e" using lt okp oks by simp
    ultimately have "heap_free_search (Suc f) ?h (caddr s) (caddr ?e) (hdn post 0) =
        heap_free_search f ?h2 (caddr s) (caddr ?e) (hdn ps 0)"
      using Cons by (simp add: heap_fields)
    also have "\<dots> = Some ?h2"
    proof (rule heap_free_search_post [of pre s n "[p]"])
      show "dlseg (heap_mem ?h2) 0 (pre @ [p] @ ps) 0"
        using dlseg_upd_next [OF okl oks(2) en] dlh Cons by simp
      show "heap_mem ?h2 (caddr s + 8) = lstp 0 pre" using oks by (simp add: caddr_words_ne)
    qed (use gap Cons f in simp_all)
    finally show ?thesis using first f Cons by simp
  qed
qed

lemma dlseg_run_ends:
  assumes ok: "\<forall>k \<in> set [s..<s + n]. chunk_ok k" and n: "0 < n" and dl: "dlseg m p [s..<s + n] q"
  shows "dlseg (m(caddr s + 8 := p', caddr (s + n - 1) := q')) p' [s..<s + n] q'"
proof -
  have d: "distinct [s..<s + n]" by simp
  have "dlseg (m(caddr s + 8 := p')) p' [s..<s + n] q"
    using dlseg_set_first ok d dl unfolding run_split_first [OF n] by blast
  then show ?thesis
    using dlseg_set_last ok d unfolding run_split [OF n] by blast
qed

lemma block_end_addr: "0 < n \<Longrightarrow> caddr s + 16 + of_nat (block_size n) - 32 = caddr (s + n - 1)"
proof -
  assume n: "0 < n"
  then have "(of_nat (16 + block_size n) :: u64) = 32 * of_nat n" by (simp add: block_size_def)
  then have "caddr s + 16 + of_nat (block_size n) = caddr (s + n)"
    using caddr_add [of s n] by (simp add: add.assoc)
  then show ?thesis using n caddr_Suc [of "s + n - 1"] by (simp add: diff_eq_eq)
qed

lemma heap_free_links:
  assumes gap: "free_gap pre s n post" and dl: "dlseg (heap_mem h) 0 (pre @ post) 0"
    and fuel: "length pre + length post + n < fuel"
    and first: "heap_chunk_first h = hdn (pre @ post) 0" and last: "heap_chunk_last h = lstp 0 (pre @ post)"
    and magic: "heap_mem h (caddr s) = HEAP_CHUNK_MAGIC"
    and sz: "heap_mem h (caddr s + 8) = of_nat (block_size n)"
  shows "\<exists>h'. heap_free fuel h (caddr s + 16) = Inr h' \<and> free_list h' (pre @ [s..<s + n] @ post) \<and>
    heap_pages h' = heap_pages h \<and>
    (\<forall>a. (\<forall>k \<in> set (pre @ [s..<s + n] @ post). a \<noteq> caddr k \<and> a \<noteq> caddr k + 8) \<longrightarrow>
       heap_mem h' a = heap_mem h a)"
proof -
  let ?e = "s + n - 1" and ?run = "[s..<s + n]"
  have n: "0 < n" and srt: "sorted_wrt (<) (pre @ ?run @ post)"
    and ok: "\<forall>k \<in> set (pre @ ?run @ post). chunk_ok k"
    using gap unfolding free_gap_def by blast+
  have oks: "chunk_ok s" "chunk_ok ?e" using ok n by auto
  have s0: "0 < s" and bound: "32 * (s + n) < 2 ^ 64"
    using oks chunk_ok_end [OF oks(2) n] by (auto simp: chunk_ok_def)
  have dist: "distinct (pre @ ?run @ post)" using srt by (rule sorted_strict_distinct)
  have okl: "\<forall>k \<in> set (pre @ post). chunk_ok k" using ok by auto
  obtain m1 where m1: "heap_free_relink fuel h (caddr s) (caddr ?e) (caddr s) = Some (h\<lparr>heap_mem := m1\<rparr>)"
    "dlseg m1 (m1 (caddr s + 8)) ?run (caddr (s + n))"
    "\<forall>a. (\<forall>k \<in> {s..<s + n}. a \<noteq> caddr k \<and> a \<noteq> caddr k + 8) \<longrightarrow> m1 a = heap_mem h a"
    using heap_free_relink_spec [OF s0 bound, of 0 fuel h] n fuel by auto
  define m2 where "m2 = m1(caddr s + 8 := 0, caddr ?e := 0)"
  define m3 where "m3 = m2(caddr s + 8 := lstp 0 pre, caddr ?e := hdn post 0)"
  define m4 where "m4 = (if pre = [] then m3 else m3(lstp 0 pre := caddr (hd ?run)))"
  define m5 where "m5 = (if post = [] then m4 else m4(caddr (hd post) + 8 := caddr (List.last ?run)))"
  have fr: "(m2 (caddr k) = heap_mem h (caddr k) \<and> m2 (caddr k + 8) = heap_mem h (caddr k + 8)) \<and>
      m3 (caddr k) = heap_mem h (caddr k) \<and> m3 (caddr k + 8) = heap_mem h (caddr k + 8)"
    if k: "k \<in> set (pre @ post)" for k
  proof -
    have ne: "\<forall>j \<in> {s..<s + n}. k \<noteq> j" "chunk_ok k" and okr: "\<forall>j \<in> {s..<s + n}. chunk_ok j"
      using k dist ok by auto
    then have "m1 (caddr k) = heap_mem h (caddr k)" "m1 (caddr k + 8) = heap_mem h (caddr k + 8)"
      by (intro m1(3) [rule_format] conjI; simp add: caddr_words_ne)+
    moreover have "s \<in> {s..<s + n}" "?e \<in> {s..<s + n}" using n by auto
    ultimately show ?thesis using ne oks by (auto simp: m2_def m3_def caddr_words_ne)
  qed
  have dl2: "dlseg m2 0 (pre @ post) 0" and dl3: "dlseg m3 0 (pre @ post) 0"
    using dlseg_cong [of "pre @ post" m2 "heap_mem h"] dlseg_cong [of "pre @ post" m3 "heap_mem h"] fr dl
    by blast+
  have seg3: "dlseg m3 (lstp 0 pre) ?run (hdn post 0)"
  proof -
    have "\<forall>k \<in> set ?run. chunk_ok k" using ok by auto
    moreover have "m3 = m1(caddr s + 8 := lstp 0 pre, caddr ?e := hdn post 0)"
      using oks by (auto simp: m3_def m2_def fun_eq_iff caddr_words_ne)
    ultimately show ?thesis using dlseg_run_ends [OF _ n m1(2)] by simp
  qed
  have run: "?run \<noteq> []" using n by simp
  have dl5: "dlseg m5 0 (pre @ ?run @ post) 0"
    by (rule dlseg_insert [OF ok dist run dl3 seg3 m4_def m5_def])
  have ptr: "caddr s + 16 \<noteq> 0" "\<not> 16 > caddr s + 16"
    using unat_caddr_off [OF oks(1), of 16] by (auto simp: word_less_nat_alt)
  have search: "heap_free_search fuel (h\<lparr>heap_mem := m2\<rparr>) (caddr s) (caddr ?e) (heap_chunk_first h) =
      Some (h\<lparr>heap_mem := m3\<rparr>)"
    using heap_free_search_spec [OF gap, of "h\<lparr>heap_mem := m2\<rparr>" fuel] dl2 fuel first oks
    by (simp add: m3_def m2_def caddr_words_ne)
  define h4 where "h4 = (if pre \<noteq> [] then h\<lparr>heap_mem := m4\<rparr> else h\<lparr>heap_mem := m4, heap_chunk_first := caddr s\<rparr>)"
  define h5 where "h5 = (if post \<noteq> [] then h4\<lparr>heap_mem := m5\<rparr> else h4\<lparr>heap_chunk_last := caddr ?e\<rparr>)"
  have pz: "lstp 0 pre = 0 \<longleftrightarrow> pre = []" and hz: "hdn post 0 = 0 \<longleftrightarrow> post = []"
    using okl by (intro lstp_zero hdn_zero; simp)+
  have v3: "m3 (caddr s + 8) = lstp 0 pre" using oks by (simp add: m3_def caddr_words_ne)
  have v4: "m4 (caddr ?e) = hdn post 0"
  proof (cases "pre = []")
    case False
    have "?e \<in> set ?run" "set pre \<inter> set ?run = {}" using n dist by auto
    then have "last pre \<noteq> ?e" using False by (metis disjoint_iff last_in_set)
    moreover have "chunk_ok (last pre)" using False okl by simp
    ultimately show ?thesis using False oks by (simp add: m4_def m3_def lstp_def)
  qed (simp add: m4_def m3_def)
  have eval: "heap_free fuel h (caddr s + 16) = Inr h5"
  proof -
    have ende: "caddr s + 16 + heap_chunk_meta_size h (caddr s) - 32 = caddr ?e"
      using block_end_addr [OF n, of s] sz by (simp add: heap_fields)
    have mag: "heap_chunk_is_magical h (caddr s)" using magic by (simp add: heap_fields)
    have h2: "heap_chunk_meta_next_set (caddr ?e) 0 (heap_chunk_meta_prev_set (caddr s) 0 (h\<lparr>heap_mem := m1\<rparr>)) =
        h\<lparr>heap_mem := m2\<rparr>" by (simp add: heap_fields m2_def)
    have start: "caddr s + 16 - 16 = caddr s" by simp
    have "heap_free fuel h (caddr s + 16) =
       (let h3 = h\<lparr>heap_mem := m3\<rparr>;
            cur = heap_chunk_meta_prev h3 (caddr s);
            h4 = (if cur \<noteq> 0 then heap_chunk_meta_next_set cur (caddr s) h3
                  else h3\<lparr>heap_chunk_first := caddr s\<rparr>);
            cur2 = heap_chunk_meta_next h4 (caddr ?e);
            h5 = (if cur2 \<noteq> 0 then heap_chunk_meta_prev_set cur2 (caddr ?e) h4
                  else h4\<lparr>heap_chunk_last := caddr ?e\<rparr>)
        in Inr h5)"
      unfolding heap_free_def Let_def start ende using ptr mag m1(1) search h2 by (simp add: Let_def)
    also have "\<dots> = Inr h5"
    proof -
      have "(if lstp 0 pre \<noteq> 0 then heap_chunk_meta_next_set (lstp 0 pre) (caddr s) (h\<lparr>heap_mem := m3\<rparr>)
          else h\<lparr>heap_mem := m3, heap_chunk_first := caddr s\<rparr>) = h4"
        using pz n by (simp add: h4_def m4_def heap_fields)
      moreover have "heap_mem h4 = m4" by (simp add: h4_def)
      moreover have "post \<noteq> [] \<Longrightarrow> hdn post 0 = caddr (hd post)" by (simp add: hdn_def)
      moreover have "List.last ?run = ?e" using n by (simp add: last_upt)
      ultimately show ?thesis using v3 v4 hz
        by (simp add: Let_def heap_fields h5_def m5_def cong: if_cong)
    qed
    finally show ?thesis .
  qed
  have "free_list h5 (pre @ ?run @ post)"
    unfolding free_list_def
  proof (intro conjI)
    show "heap_chunk_first h5 = hdn (pre @ ?run @ post) 0"
      using first n by (cases pre) (simp_all add: h5_def h4_def hdn_append hdn_def)
    show "heap_chunk_last h5 = lstp 0 (pre @ ?run @ post)"
      using last n by (cases post rule: rev_cases) (simp_all add: h5_def h4_def lstp_def last_upt)
    show "dlseg (heap_mem h5) 0 (pre @ ?run @ post) 0"
    proof -
      have "heap_mem h5 = m5" by (simp add: h5_def h4_def m5_def)
      then show ?thesis using dl5 by simp
    qed
  qed (rule srt, rule ok)
  moreover have "heap_pages h5 = heap_pages h" by (simp add: h5_def h4_def)
  moreover have "heap_mem h5 a = heap_mem h a"
    if a: "\<forall>k \<in> set (pre @ ?run @ post). a \<noteq> caddr k \<and> a \<noteq> caddr k + 8" for a
  proof -
    have "s \<in> set ?run" "?e \<in> set ?run" using n by auto
    then have "a \<noteq> caddr s + 8" "a \<noteq> caddr ?e" using a by auto
    moreover have "pre \<noteq> [] \<Longrightarrow> a \<noteq> lstp 0 pre" "post \<noteq> [] \<Longrightarrow> a \<noteq> caddr (hd post) + 8"
      using a by (auto simp: lstp_def)
    moreover have "m1 a = heap_mem h a" using a by (intro m1(3) [rule_format]) auto
    ultimately show ?thesis by (auto simp: h5_def h4_def m5_def m4_def m3_def m2_def)
  qed
  ultimately show ?thesis using eval by blast
qed

lemma heap_free_inv:
  assumes inv: "heap_inv h ks B K" and b: "(s, n) \<in> B" and fuel: "length ks + n < fuel"
  shows "\<exists>h' ks'. heap_free fuel h (caddr s + 16) = Inr h' \<and> heap_inv h' ks' (B - {(s, n)}) K \<and>
    set ks' = set ks \<union> {s..<s + n} \<and> heap_pages h' = heap_pages h"
proof -
  have fl: "free_list h ks" using inv by (simp add: heap_inv_def)
  have blk: "block_ok h ks K (s, n)" using inv b by (simp add: heap_inv_def)
  have ok: "\<forall>k \<in> set ks. chunk_ok k" "sorted_wrt (<) ks" using fl by (simp_all add: free_list_def)
  have B: "0 < n" "\<forall>k \<in> {s..<s + n}. chunk_ok k" "{s..<s + n} \<inter> set ks = {}" "s + n \<le> K"
    "heap_mem h (caddr s) = HEAP_CHUNK_MAGIC" "heap_mem h (caddr s + 8) = of_nat (block_size n)"
    using blk by (simp_all add: block_ok_def block_chunks_def)
  obtain pre post where ks: "ks = pre @ post" and gap: "free_gap pre s n post"
    using free_gap_exists [OF ok(2,1) B(1,2,3)] by blast
  let ?ks = "pre @ [s..<s + n] @ post"
  have "dlseg (heap_mem h) 0 (pre @ post) 0" "heap_chunk_first h = hdn (pre @ post) 0"
    "heap_chunk_last h = lstp 0 (pre @ post)" "length pre + length post + n < fuel"
    using fl fuel by (simp_all add: free_list_def ks)
  then obtain h' where h': "heap_free fuel h (caddr s + 16) = Inr h'" "free_list h' ?ks"
    "heap_pages h' = heap_pages h"
    "\<forall>a. (\<forall>k \<in> set ?ks. a \<noteq> caddr k \<and> a \<noteq> caddr k + 8) \<longrightarrow> heap_mem h' a = heap_mem h a"
    using heap_free_links [OF gap _ _ _ _ B(5,6)] by blast
  have rest: "block_ok h' ?ks K b'" if b': "b' \<in> B - {(s, n)}" for b'
  proof -
    have bo: "block_ok h ks K b'" using inv b' by (simp add: heap_inv_def)
    note f = block_first [OF bo]
    have "block_chunks b' \<inter> block_chunks (s, n) = {}"
      using inv b b' unfolding heap_inv_def by blast
    then have d: "block_chunks b' \<inter> set ?ks = {}"
      using bo unfolding block_ok_def block_chunks_def ks by auto
    then have "fst b' \<notin> set ?ks" using f by blast
    moreover have "\<forall>k \<in> set ?ks. chunk_ok k" using h'(2) unfolding free_list_def by blast
    ultimately have "\<forall>k \<in> set ?ks. caddr (fst b') \<noteq> caddr k \<and> caddr (fst b') \<noteq> caddr k + 8 \<and>
        caddr (fst b') + 8 \<noteq> caddr k \<and> caddr (fst b') + 8 \<noteq> caddr k + 8"
      using f by (metis caddr_eq caddr_words_ne(1,2,9))
    then show ?thesis using block_ok_frame [OF bo le_refl d] h'(4) by blast
  qed
  have "\<forall>k \<in> set ?ks. k < K" using inv B(4) ks by (auto simp: heap_inv_def)
  then have "heap_inv h' ?ks (B - {(s, n)}) K"
    using h'(2,3) rest inv unfolding heap_inv_def by auto
  then show ?thesis using h' ks by (intro exI [of _ h'] exI [of _ ?ks]) auto
qed

section \<open>The block-allocator interface\<close>

text \<open>
  What the clients of the heap rely on. Calls end once their fuel reaches some bound; a granted
  block is not in use and large enough, the blocks in use never overlap, and a block in use can be
  released.
\<close>

locale block_allocator =
  fixes inv :: "'s \<Rightarrow> 'b set \<Rightarrow> bool"
    and ptr :: "'b \<Rightarrow> u64"
    and room :: "'b \<Rightarrow> nat"
    and footprint :: "'b \<Rightarrow> nat set"
    and alloc :: "nat \<Rightarrow> 's \<Rightarrow> u64 \<Rightarrow> 'e + (u64 \<times> 's)"
    and free :: "nat \<Rightarrow> 's \<Rightarrow> u64 \<Rightarrow> 'e + 's"
  assumes separate: "inv s B \<Longrightarrow> b \<in> B \<Longrightarrow> b' \<in> B \<Longrightarrow> b \<noteq> b' \<Longrightarrow> footprint b \<inter> footprint b' = {}"
    and alloc_ends: "inv s B \<Longrightarrow> 0 < sz \<Longrightarrow> \<exists>N. \<forall>fuel \<ge> N. \<exists>a s'. alloc fuel s sz = Inr (a, s') \<and>
      (a = 0 \<and> inv s' B \<or> (\<exists>b. a = ptr b \<and> b \<notin> B \<and> unat sz \<le> room b \<and> inv s' (insert b B)))"
    and free_ends: "inv s B \<Longrightarrow> b \<in> B \<Longrightarrow>
      \<exists>N. \<forall>fuel \<ge> N. \<exists>s'. free fuel s (ptr b) = Inr s' \<and> inv s' (B - {b})"
begin

lemma alloc_free_restores:
  assumes "inv s B" and "0 < sz"
  shows "\<exists>N. \<forall>fuel \<ge> N. \<exists>a s'. alloc fuel s sz = Inr (a, s') \<and>
    (a \<noteq> 0 \<longrightarrow> (\<exists>M. \<forall>fuel' \<ge> M. \<exists>s''. free fuel' s' a = Inr s'' \<and> inv s'' B))"
proof -
  obtain N where N: "\<forall>fuel \<ge> N. \<exists>a s'. alloc fuel s sz = Inr (a, s') \<and>
      (a = 0 \<and> inv s' B \<or> (\<exists>b. a = ptr b \<and> b \<notin> B \<and> unat sz \<le> room b \<and> inv s' (insert b B)))"
    using alloc_ends [OF assms] by blast
  have "\<exists>a s'. alloc fuel s sz = Inr (a, s') \<and>
      (a \<noteq> 0 \<longrightarrow> (\<exists>M. \<forall>fuel' \<ge> M. \<exists>s''. free fuel' s' a = Inr s'' \<and> inv s'' B))" if le: "N \<le> fuel" for fuel
  proof -
    obtain a s' where a: "alloc fuel s sz = Inr (a, s')"
      "a = 0 \<and> inv s' B \<or> (\<exists>b. a = ptr b \<and> b \<notin> B \<and> unat sz \<le> room b \<and> inv s' (insert b B))"
      using N le by blast
    have "\<exists>M. \<forall>fuel' \<ge> M. \<exists>s''. free fuel' s' a = Inr s'' \<and> inv s'' B" if nz: "a \<noteq> 0"
    proof -
      obtain b where b: "a = ptr b" "b \<notin> B" "inv s' (insert b B)" using a(2) nz by blast
      have "insert b B - {b} = B" using b(2) by blast
      then show ?thesis using free_ends [OF b(3) insertI1] b(1) by metis
    qed
    then show ?thesis using a(1) by blast
  qed
  then show ?thesis by blast
qed

end

definition heap_ok :: "heap \<Rightarrow> (nat \<times> nat) set \<Rightarrow> bool" where
  "heap_ok h B \<longleftrightarrow> (\<exists>ks K. heap_inv h ks B K)"

definition block_ptr :: "nat \<times> nat \<Rightarrow> u64" where
  "block_ptr b = caddr (fst b) + 16"

lemma heap_alloc_ends:
  assumes "heap_ok h B" and "0 < sz"
  shows "\<exists>N. \<forall>fuel \<ge> N. \<exists>a h'. heap_alloc fuel h sz = Inr (a, h') \<and>
    (a = 0 \<and> heap_ok h' B \<or>
     (\<exists>b. a = block_ptr b \<and> b \<notin> B \<and> unat sz \<le> block_size (snd b) \<and> heap_ok h' (insert b B)))"
proof -
  obtain ks K where inv: "heap_inv h ks B K" using assms(1) by (auto simp: heap_ok_def)
  have "\<exists>a h'. heap_alloc fuel h sz = Inr (a, h') \<and>
    (a = 0 \<and> heap_ok h' B \<or>
     (\<exists>b. a = block_ptr b \<and> b \<notin> B \<and> unat sz \<le> block_size (snd b) \<and> heap_ok h' (insert b B)))"
    if fuel: "Suc (heap_budget h ks) \<le> fuel" for fuel
  proof -
    obtain a h' ks' K' where r: "heap_alloc fuel h sz = Inr (a, h')"
      "a = 0 \<and> heap_inv h' ks' B K' \<and> heap_pages h' = [] \<or>
       (\<exists>s n. a = caddr s + 16 \<and> 0 < n \<and> unat sz \<le> block_size n \<and> (1 < n \<longrightarrow> block_size (n - 1) < unat sz) \<and>
        (\<forall>b \<in> B. block_chunks b \<inter> block_chunks (s, n) = {}) \<and> heap_inv h' ks' (insert (s, n) B) K')"
      using heap_alloc_inv [OF inv assms(2)] fuel by (metis Suc_le_eq)
    from r(2) show ?thesis
    proof (elim disjE conjE exE)
      assume "a = 0" "heap_inv h' ks' B K'" "heap_pages h' = []"
      then show ?thesis using r(1) unfolding heap_ok_def by blast
    next
      fix s n
      assume a: "a = caddr s + 16" "0 < n" "unat sz \<le> block_size n"
        "\<forall>b \<in> B. block_chunks b \<inter> block_chunks (s, n) = {}" "heap_inv h' ks' (insert (s, n) B) K'"
      have "s \<in> block_chunks (s, n)" using a(2) by (simp add: block_chunks_def)
      then have "(s, n) \<notin> B" using a(4) by blast
      then show ?thesis using r(1) a
        by (intro exI [of _ a] exI [of _ h'] conjI disjI2 exI [of _ "(s, n)"])
          (auto simp: heap_ok_def block_ptr_def)
    qed
  qed
  then show ?thesis by blast
qed

lemma heap_free_ends:
  assumes "heap_ok h B" and "b \<in> B"
  shows "\<exists>N. \<forall>fuel \<ge> N. \<exists>h'. heap_free fuel h (block_ptr b) = Inr h' \<and> heap_ok h' (B - {b})"
proof -
  obtain ks K where inv: "heap_inv h ks B K" using assms(1) by (auto simp: heap_ok_def)
  obtain s n where b: "b = (s, n)" by (cases b)
  have "\<exists>h'. heap_free fuel h (block_ptr b) = Inr h' \<and> heap_ok h' (B - {b})"
    if "Suc (length ks + n) \<le> fuel" for fuel
    using heap_free_inv [OF inv, of s n fuel] assms(2) that
    unfolding b heap_ok_def block_ptr_def by (auto simp: Suc_le_eq)
  then show ?thesis by blast
qed

interpretation ha: block_allocator heap_ok block_ptr "\<lambda>b. block_size (snd b)" block_chunks heap_alloc heap_free
proof unfold_locales
  fix h B b b' assume "heap_ok h B" "b \<in> B" "b' \<in> B" "b \<noteq> b'"
  then show "block_chunks b \<inter> block_chunks b' = {}" unfolding heap_ok_def heap_inv_def by blast
next
  fix h :: heap and B and sz :: u64 assume "heap_ok h B" "0 < sz"
  then show "\<exists>N. \<forall>fuel \<ge> N. \<exists>a h'. heap_alloc fuel h sz = Inr (a, h') \<and>
      (a = 0 \<and> heap_ok h' B \<or> (\<exists>b. a = block_ptr b \<and> b \<notin> B \<and> unat sz \<le> block_size (snd b) \<and> heap_ok h' (insert b B)))"
    by (rule heap_alloc_ends)
next
  fix h :: heap and B b assume "heap_ok h B" "b \<in> B"
  then show "\<exists>N. \<forall>fuel \<ge> N. \<exists>h'. heap_free fuel h (block_ptr b) = Inr h' \<and> heap_ok h' (B - {b})"
    by (rule heap_free_ends)
qed

section \<open>Properties\<close>

text \<open>
  C2. In every heap state that satisfies the invariant, \<^verbatim>\<open>heap_alloc\<close> of a non-zero size returns
  after finitely many steps. Either it returns \<^verbatim>\<open>NULL\<close>, and then \<^verbatim>\<open>vmm_map\<close> has no page left, or it
  returns a block that is large enough, is aligned to its chunks, overlaps no block in use and no
  free chunk, and the invariant holds again with the block added.
\<close>

theorem heap_alloc_grants:
  assumes "heap_inv h ks B K" and "0 < sz" and "heap_budget h ks < fuel"
  shows "\<exists>a h' ks' K'. heap_alloc fuel h sz = Inr (a, h') \<and>
    (a = 0 \<and> heap_inv h' ks' B K' \<and> heap_pages h' = [] \<or>
     (\<exists>s n. a = caddr s + 16 \<and> 0 < n \<and> unat sz \<le> block_size n \<and> (1 < n \<longrightarrow> block_size (n - 1) < unat sz) \<and>
        (\<forall>b \<in> B. block_chunks b \<inter> block_chunks (s, n) = {}) \<and> heap_inv h' ks' (insert (s, n) B) K'))"
  using assms by (rule heap_alloc_inv)

definition heap_example :: heap where
  "heap_example = \<lparr>heap_mem = (\<lambda>_. 0), heap_chunk_first = 0, heap_chunk_last = 0, heap_pages = [caddr 128]\<rparr>"

lemma heap_example_inv: "heap_inv heap_example [] {} 1" "heap_budget heap_example [] < 129"
  by (auto simp: heap_inv_def free_list_def heap_example_def heap_budget_def HEAP_CHUNK_PER_PAGE_def
      intro!: exI [of _ 128])

theorem heap_alloc_grants_witness:
  "\<exists>a h'. heap_alloc 129 heap_example 100 = Inr (a, h')"
  using heap_alloc_grants [OF heap_example_inv(1) _ heap_example_inv(2), of 100] by auto


definition heap_example2 :: heap where
  "heap_example2 = \<lparr>heap_mem = (\<lambda>_. 0)(caddr 128 := HEAP_CHUNK_MAGIC, caddr 128 + 8 := of_nat (block_size 2)),
     heap_chunk_first = 0, heap_chunk_last = 0, heap_pages = []\<rparr>"

lemma heap_example2_inv: "heap_inv heap_example2 [] {(128, 2)} 130"
proof -
  have "chunk_ok 128" by (simp add: chunk_ok_def)
  then show ?thesis
    by (auto simp: heap_inv_def free_list_def heap_example2_def block_ok_def block_chunks_def
        caddr_words_ne) (simp add: chunk_ok_def)
qed




text \<open>
  A zero-size request leaves the search with no start chunk: the first thing that follows is a read
  through the null pointer.
\<close>

lemma heap_alloc_zero_faults:
  assumes "heap_chunk_first h \<noteq> 0" and "heap_chunk_last h \<noteq> 0"
  shows "heap_alloc (Suc fuel) h 0 = Inl NullDeref"
  using assms by (simp add: heap_alloc_def heap_chunk_next_def)

section \<open>Growing a block in place\<close>

text \<open>
  A heap whose free list is chunks 11, 12 and 13, right behind a one-chunk block at chunk 10.
\<close>

definition realloc_example :: heap where
  "realloc_example = \<lparr>heap_mem = (\<lambda>_. 0)
     (320 := HEAP_CHUNK_MAGIC, 328 := 16, 352 := 384, 360 := 0, 384 := 416, 392 := 352, 416 := 0, 424 := 384),
     heap_chunk_first = 352, heap_chunk_last = 416, heap_pages = []\<rparr>"

text \<open>
  \<^verbatim>\<open>heap_realloc\<close> that grows a block by several chunks at the head of the free list does not move
  \<^verbatim>\<open>heap_chunk_first\<close>: it compares it with the end of the taken run instead of its start. The list
  head is left inside the grown block, and the next \<^verbatim>\<open>heap_alloc\<close> hands out memory of that block again.
\<close>

theorem heap_realloc_keeps_stale_first:
  "\<exists>h' h''. heap_inv realloc_example [11, 12, 13] {(10, 1)} 14 \<and>
     heap_realloc 10 realloc_example 336 80 = Inr (336, h') \<and>
     heap_chunk_first h' = 352 \<and> heap_chunk_meta_size h' 320 = 80 \<and>
     heap_alloc 10 h' 16 = Inr (368, h'')"
proof -
  have "heap_inv realloc_example [11, 12, 13] {(10, 1)} 14"
    by (simp add: heap_inv_def free_list_def realloc_example_def block_ok_def block_chunks_def chunk_ok_def
        caddr_def block_size_def hdn_def lstp_def)
  moreover have eval: "case heap_realloc 10 realloc_example 336 80 of Inl _ \<Rightarrow> False
      | Inr (a, h') \<Rightarrow> a = 336 \<and> heap_chunk_first h' = 352 \<and> heap_chunk_meta_size h' 320 = 80 \<and>
          (case heap_alloc 10 h' 16 of Inl _ \<Rightarrow> False | Inr (b, _) \<Rightarrow> b = 368)"
    by code_simp
  moreover obtain a h' where r: "heap_realloc 10 realloc_example 336 80 = Inr (a, h')"
    using eval by (auto split: sum.splits)
  moreover obtain b h'' where "heap_alloc 10 h' 16 = Inr (b, h'')"
    using eval r by (cases "heap_alloc 10 h' 16") auto
  ultimately show ?thesis by auto
qed

end
