(* ===== verification/Pmm.thy ===== *)
theory Pmm
  imports Math_Util
begin

text \<open>
  The physical memory manager, \<^verbatim>\<open>kernel/mm/pmm.c\<close>. One bit per page records which
  pages between \<^verbatim>\<open>pmm_reg_free.start\<close> and the end of the bitmap are allocated; before
  the bitmap exists, pages are handed out by moving \<^verbatim>\<open>pmm_reg_free.pos\<close> forward.

  The state is the record \<open>pmm\<close>: the multiboot memory map, the bitmap with its byte size, the
  free region, and the boot-time address ranges that \<^verbatim>\<open>boot/boot.h\<close> names. The bitmap is
  the memory from \<^verbatim>\<open>pmm_bm\<close> on, read as 64-bit words and not cut at its end: what a stray
  access would hit is part of the model, and the lemmas show that no operation makes one.
  Bitmap positions are natural numbers; \<open>index\<close> stays below \<^verbatim>\<open>pmm_bm_size / 8\<close> and
  \<open>bit\<close> below 64, so their C widths never matter.
\<close>

section \<open>State\<close>

record mmap_entry =
  map_addr :: u64
  map_len :: u64
  map_type :: u32

text \<open>
  A multiboot memory map tag: its \<^verbatim>\<open>size\<close> field and the 24-byte slots of memory that start
  at \<^verbatim>\<open>entries[0]\<close>, including the slots behind the end of the tag.
\<close>

record mmap_tag =
  tag_size :: u32
  tag_entry :: "nat \<Rightarrow> mmap_entry"

record pmm_bm_pos =
  pos_bit :: nat
  pos_index :: nat

record pmm_reg =
  reg_start :: u64
  reg_end :: u64
  reg_pos :: u64

record boot_ranges =
  kernel_start :: u64
  kernel_end :: u64
  mb_info_start :: u64
  mb_info_end :: u64

record pmm =
  pmm_mmap_tag :: "mmap_tag option"
  pmm_bm :: "(nat \<Rightarrow> u64) option"
  pmm_bm_size :: u64
  pmm_reg_free :: pmm_reg
  pmm_boot :: boot_ranges

section \<open>Operations\<close>

definition pmm_reg_known :: "pmm_reg list" where
  "pmm_reg_known = [\<lparr>reg_start = 0xA0000, reg_end = 0xBFFFF, reg_pos = 0\<rparr>]"

definition pmm_reg_contains :: "pmm_reg \<Rightarrow> u64 \<Rightarrow> bool" where
  "pmm_reg_contains r addr \<longleftrightarrow> reg_end r > addr \<and> addr \<ge> reg_start r"

definition pmm_reg_is_valid :: "pmm_reg \<Rightarrow> bool" where
  "pmm_reg_is_valid r \<longleftrightarrow> reg_end r > reg_start r \<and> reg_end r \<ge> reg_pos r \<and> reg_pos r \<ge> reg_start r"

definition pmm_reg_align :: "pmm_reg \<Rightarrow> pmm_reg" where
  "pmm_reg_align r =
     r\<lparr>reg_start := round_up (reg_start r) PAGE_SIZE, reg_end := round_down (reg_end r) PAGE_SIZE\<rparr>"

text \<open>The entries that \<^verbatim>\<open>__pmm_foreach_mb_mmap_entry\<close> visits: slot \<open>k\<close> as long as
  the tag's size is above \<open>24 * k\<close>, the distance of the slot from \<^verbatim>\<open>entries[0]\<close>.\<close>

definition mmap_visited :: "mmap_tag \<Rightarrow> mmap_entry list" where
  "mmap_visited t = map (tag_entry t) [0 ..< (unat (tag_size t) + 23) div 24]"

definition pmm_mmap_entries :: "pmm \<Rightarrow> mmap_entry list" where
  "pmm_mmap_entries p = (case pmm_mmap_tag p of None \<Rightarrow> [] | Some t \<Rightarrow> mmap_visited t)"

definition pmm_bm_is_ready :: "pmm \<Rightarrow> bool" where
  "pmm_bm_is_ready p \<longleftrightarrow> pmm_bm p \<noteq> None \<and> pmm_bm_size p \<noteq> 0"

definition pmm_bm_get_max_index :: "pmm \<Rightarrow> nat" where
  "pmm_bm_get_max_index p = unat (pmm_bm_size p div 8)"

definition pmm_bm_pos_to_addr :: "pmm \<Rightarrow> pmm_bm_pos \<Rightarrow> u64" where
  "pmm_bm_pos_to_addr p pos =
     reg_start (pmm_reg_free p) + (of_nat (pos_bit pos) + of_nat (pos_index pos) * 64) * PAGE_SIZE"

definition pmm_bm_word :: "pmm \<Rightarrow> nat \<Rightarrow> u64" where
  "pmm_bm_word p i = (case pmm_bm p of None \<Rightarrow> 0 | Some bm \<Rightarrow> bm i)"

definition pmm_bm_put :: "pmm \<Rightarrow> nat \<Rightarrow> u64 \<Rightarrow> pmm" where
  "pmm_bm_put p i w = p\<lparr>pmm_bm := map_option (\<lambda>bm. bm(i := w)) (pmm_bm p)\<rparr>"

definition pmm_bm_pos_set :: "pmm \<Rightarrow> pmm_bm_pos \<Rightarrow> pmm" where
  "pmm_bm_pos_set p pos =
     pmm_bm_put p (pos_index pos) (pmm_bm_word p (pos_index pos) OR push_bit (pos_bit pos) 1)"

definition pmm_bm_pos_clear :: "pmm \<Rightarrow> pmm_bm_pos \<Rightarrow> pmm" where
  "pmm_bm_pos_clear p pos =
     pmm_bm_put p (pos_index pos) (pmm_bm_word p (pos_index pos) AND NOT (push_bit (pos_bit pos) 1))"

definition pmm_bm_pos_get :: "pmm \<Rightarrow> pmm_bm_pos \<Rightarrow> int" where
  "pmm_bm_pos_get p pos = uint (drop_bit (pos_bit pos) (pmm_bm_word p (pos_index pos)) AND 1)"

definition pmm_bm_pos_is_valid :: "pmm \<Rightarrow> pmm_bm_pos \<Rightarrow> bool" where
  "pmm_bm_pos_is_valid p pos \<longleftrightarrow> pmm_bm_get_max_index p > pos_index pos"

text \<open>\<^verbatim>\<open>__pmm_bm_pos_from_addr\<close>: the result and the position it leaves in \<^verbatim>\<open>*pos\<close>.\<close>

definition pmm_bm_pos_from_addr :: "pmm \<Rightarrow> pmm_bm_pos \<Rightarrow> u64 \<Rightarrow> bool \<times> pmm_bm_pos" where
  "pmm_bm_pos_from_addr p pos addr =
     (if \<not> pmm_bm_is_ready p then (False, pos)
      else let a = (addr - reg_start (pmm_reg_free p)) div PAGE_SIZE;
               pos' = \<lparr>pos_bit = unat (a mod 64), pos_index = unat (a div 64)\<rparr>
           in (pmm_bm_pos_is_valid p pos', pos'))"

definition pmm_bm_pos_next :: "pmm \<Rightarrow> pmm_bm_pos \<Rightarrow> int \<times> pmm_bm_pos" where
  "pmm_bm_pos_next p pos =
     (if \<not> pmm_bm_is_ready p then (- EFAULT, pos)
      else let pos' = (if pos_bit pos + 1 \<ge> 64 then \<lparr>pos_bit = 0, pos_index = pos_index pos + 1\<rparr>
                       else pos\<lparr>pos_bit := pos_bit pos + 1\<rparr>)
           in if pos_index pos' \<ge> pmm_bm_get_max_index p then (- ERANGE, pos')
              else (pmm_bm_pos_get p pos', pos'))"

definition pmm_is_free_memory :: "pmm \<Rightarrow> u64 \<Rightarrow> bool" where
  "pmm_is_free_memory p addr =
     (if list_ex (\<lambda>r. pmm_reg_contains r addr) pmm_reg_known then False
      else if kernel_start (pmm_boot p) \<le> addr \<and> kernel_end (pmm_boot p) > addr then False
      else if mb_info_start (pmm_boot p) \<le> addr \<and> mb_info_end (pmm_boot p) > addr then False
      else list_ex (\<lambda>m. map_type m = 1 \<and>
             \<not> (addr < map_addr m \<or> addr + PAGE_SIZE > map_addr m + map_len m)) (pmm_mmap_entries p))"

text \<open>The loop of \<^verbatim>\<open>__pmm_alloc_no_bm\<close>: the final values of \<^verbatim>\<open>pos\<close>, \<^verbatim>\<open>start\<close>
  and \<^verbatim>\<open>cur\<close>.\<close>

text \<open>The loop leaves as soon as \<^verbatim>\<open>pos\<close> reaches the end of the region. Its recursion carries
  fuel; \<open>pmm_alloc_no_bm\<close> gives it one unit per page up to the end and two more, which
  \<open>pmm_no_bm_scan_enough\<close> below shows to be enough.\<close>

fun pmm_no_bm_scan :: "nat \<Rightarrow> pmm \<Rightarrow> u64 \<Rightarrow> u64 \<Rightarrow> u64 \<Rightarrow> u64 \<Rightarrow> u64 \<Rightarrow> (u64 \<times> u64 \<times> u64) option" where
  "pmm_no_bm_scan 0 p num align pos start cur = None"
| "pmm_no_bm_scan (Suc fuel) p num align pos start cur =
     (if \<not> num > cur then Some (pos, start, cur)
      else if pos \<ge> reg_end (pmm_reg_free p) then Some (pos, start, cur)
      else let start' = (if cur = 0 then pos else start) in
           if cur = 0 \<and> start' mod (if align = 0 then 1 else align) \<noteq> 0
           then pmm_no_bm_scan fuel p num align (pos + PAGE_SIZE) start' cur
           else pmm_no_bm_scan fuel p num align (pos + PAGE_SIZE) start'
                  (if \<not> pmm_is_free_memory p pos then 0 else cur + 1))"

definition pmm_no_bm_fuel :: "pmm \<Rightarrow> nat" where
  "pmm_no_bm_fuel p =
     (unat (reg_end (pmm_reg_free p)) - unat (reg_pos (pmm_reg_free p))) div 4096 + 3"

definition pmm_alloc_no_bm :: "pmm \<Rightarrow> u64 \<Rightarrow> u64 \<Rightarrow> (u64 \<times> pmm) option" where
  "pmm_alloc_no_bm p num align =
     (case pmm_no_bm_scan (pmm_no_bm_fuel p) p num align (reg_pos (pmm_reg_free p)) 0 0 of
        None \<Rightarrow> None
      | Some (pos, start, cur) \<Rightarrow>
          if cur \<noteq> num then Some (0, p)
          else Some (start, p\<lparr>pmm_reg_free := (pmm_reg_free p)\<lparr>reg_pos := pos\<rparr>\<rparr>))"

text \<open>What remains of the bitmap behind a position; a negative value ends the loop.\<close>

definition pmm_scan_measure :: "pmm \<Rightarrow> pmm_bm_pos \<Rightarrow> int \<Rightarrow> nat" where
  "pmm_scan_measure p pos val =
     (if val < 0 then 0 else Suc ((pmm_bm_get_max_index p - pos_index pos) * 65 + (64 - pos_bit pos)))"

lemma pmm_bm_pos_next_decreases:
  assumes "pmm_bm_pos_next p pos = (val', pos')" and "\<not> val < 0"
  shows "pmm_scan_measure p pos' val' < pmm_scan_measure p pos val"
  using assms
  by (auto simp: pmm_bm_pos_next_def pmm_scan_measure_def Let_def diff_mult_distrib
      split: if_splits)

text \<open>The search loop of \<^verbatim>\<open>pmm_alloc\<close>: the final values of \<^verbatim>\<open>start\<close> and
  \<^verbatim>\<open>cur\<close>.\<close>

function pmm_alloc_scan ::
    "pmm \<Rightarrow> u64 \<Rightarrow> u64 \<Rightarrow> pmm_bm_pos \<Rightarrow> int \<Rightarrow> u64 \<Rightarrow> u64 \<Rightarrow> u64 \<times> u64" where
  "pmm_alloc_scan p num align pos val start cur =
     (if \<not> num > cur then (start, cur)
      else if val < 0 then (start, cur)
      else let start' = (if cur = 0 then pmm_bm_pos_to_addr p pos else start);
               (val', pos') = pmm_bm_pos_next p pos
           in if cur = 0 \<and> start' mod (if align = 0 then 1 else align) \<noteq> 0
              then pmm_alloc_scan p num align pos' val' start' cur
              else pmm_alloc_scan p num align pos' val' start'
                     (if val \<noteq> 0 \<or> \<not> pmm_is_free_memory p (pmm_bm_pos_to_addr p pos) then 0
                      else cur + 1))"
  by pat_completeness auto
termination
  by (relation "measure (\<lambda>(p, num, align, pos, val, start, cur). pmm_scan_measure p pos val)")
    (auto simp: pmm_bm_pos_next_decreases)

declare pmm_alloc_scan.simps [simp del]

text \<open>The loop that marks \<open>n\<close> pages from \<open>pos\<close> on as allocated.\<close>

fun pmm_bm_mark :: "nat \<Rightarrow> pmm \<Rightarrow> pmm_bm_pos \<Rightarrow> pmm" where
  "pmm_bm_mark 0 p pos = p"
| "pmm_bm_mark (Suc n) p pos =
     (let p' = pmm_bm_pos_set p pos in pmm_bm_mark n p' (snd (pmm_bm_pos_next p' pos)))"

definition pmm_pos0 :: pmm_bm_pos where
  "pmm_pos0 = \<lparr>pos_bit = 0, pos_index = 0\<rparr>"

definition pmm_align_is_invalid :: "u64 \<Rightarrow> bool" where
  "pmm_align_is_invalid align \<longleftrightarrow> align \<noteq> 0 \<and>
     ((PAGE_SIZE > align \<and> PAGE_SIZE mod align \<noteq> 0) \<or> (align > PAGE_SIZE \<and> align mod PAGE_SIZE \<noteq> 0))"

definition pmm_alloc :: "pmm \<Rightarrow> u64 \<Rightarrow> u64 \<Rightarrow> (u64 \<times> pmm) option" where
  "pmm_alloc p num align =
     (if pmm_align_is_invalid align then Some (0, p)
      else if \<not> pmm_bm_is_ready p then pmm_alloc_no_bm p num align
      else let (start, cur) = pmm_alloc_scan p num align pmm_pos0 (pmm_bm_pos_get p pmm_pos0) 0 0
           in if cur \<noteq> num then Some (0, p)
              else Some (start, pmm_bm_mark (unat num) p (snd (pmm_bm_pos_from_addr p pmm_pos0 start))))"

definition pmm_is_allocated :: "pmm \<Rightarrow> u64 \<Rightarrow> bool" where
  "pmm_is_allocated p paddr =
     (let (ok, pos) = pmm_bm_pos_from_addr p pmm_pos0 paddr
      in if \<not> ok then False else pmm_bm_pos_get p pos \<noteq> 0)"

text \<open>The loop of \<^verbatim>\<open>pmm_free\<close> over the remaining page count.\<close>

fun pmm_free_loop :: "nat \<Rightarrow> pmm \<Rightarrow> pmm_bm_pos \<Rightarrow> int \<Rightarrow> errcode \<times> pmm" where
  "pmm_free_loop 0 p pos val = (0, p)"
| "pmm_free_loop (Suc n) p pos val =
     (if val < 0 then (- ERANGE, p)
      else if val = 0 then (- EFAULT, p)
      else let p' = pmm_bm_pos_clear p pos; (val', pos') = pmm_bm_pos_next p' pos
           in pmm_free_loop n p' pos' val')"

definition pmm_free :: "pmm \<Rightarrow> u64 \<Rightarrow> u64 \<Rightarrow> errcode \<times> pmm" where
  "pmm_free p paddr num =
     (let (ok, pos) = pmm_bm_pos_from_addr p pmm_pos0 paddr
      in if \<not> ok then (- EFAULT, p)
         else pmm_free_loop (unat num) p pos (pmm_bm_pos_get p pos))"

text \<open>
  \<^verbatim>\<open>pmm_init\<close>. The multiboot tag lookup gives \<open>tag\<close>; \<open>vmm_map\<close> is the mapping call of
  \<^verbatim>\<open>vmm.c\<close>, which allocates the pages of the bitmap from this very manager (still without
  a bitmap) and returns the memory it mapped, or \<open>None\<close> for \<^verbatim>\<open>NULL\<close>.
\<close>

definition pmm_init_region :: "mmap_entry list \<Rightarrow> pmm_reg \<Rightarrow> pmm_reg" where
  "pmm_init_region ms r =
     fold (\<lambda>m r. if map_type m \<noteq> 1 then r
        else let r1 = (if map_addr m < reg_start r then r\<lparr>reg_start := map_addr m\<rparr> else r)
             in if map_addr m + map_len m > reg_end r1 then r1\<lparr>reg_end := map_addr m + map_len m\<rparr>
                else r1) ms r"

text \<open>The closing loop of \<^verbatim>\<open>pmm_init\<close>: mark the pages below \<^verbatim>\<open>pmm_reg_free.pos\<close>.
  One round per page, so the page count bounds it.\<close>

fun pmm_init_mark :: "nat \<Rightarrow> pmm \<Rightarrow> pmm_bm_pos \<Rightarrow> pmm option" where
  "pmm_init_mark 0 p pos = None"
| "pmm_init_mark (Suc fuel) p pos =
     (if \<not> reg_pos (pmm_reg_free p) > pmm_bm_pos_to_addr p pos then Some p
      else let p' = pmm_bm_pos_set p pos in pmm_init_mark fuel p' (snd (pmm_bm_pos_next p' pos)))"

definition pmm_init ::
    "mmap_tag option \<Rightarrow> (u64 \<Rightarrow> pmm \<Rightarrow> (nat \<Rightarrow> u64) option \<times> pmm) \<Rightarrow> pmm \<Rightarrow> (errcode \<times> pmm) option"
  where
  "pmm_init tag vmm_map p0 =
     (let p1 = p0\<lparr>pmm_reg_free := \<lparr>reg_start = 0, reg_end = 0, reg_pos = 0\<rparr>, pmm_mmap_tag := tag\<rparr>
      in if tag = None then Some (- EFAULT, p1)
      else let r1 = pmm_init_region (pmm_mmap_entries p1) (pmm_reg_free p1);
               r2 = (if kernel_end (pmm_boot p1) > reg_start r1
                     then r1\<lparr>reg_start := kernel_end (pmm_boot p1)\<rparr> else r1);
               r3 = pmm_reg_align r2;
               r4 = r3\<lparr>reg_pos := reg_start r3\<rparr>;
               p2 = p1\<lparr>pmm_reg_free := r4\<rparr>
           in if \<not> pmm_reg_is_valid r4 then Some (- ENOMEM, p2)
           else let sz = round_up ((reg_end r4 - reg_start r4) div PAGE_SIZE div 8) PAGE_SIZE;
                    p3 = p2\<lparr>pmm_bm_size := sz\<rparr>
                in case vmm_map (sz div PAGE_SIZE) p3 of
                     (None, p4) \<Rightarrow> Some (- EFAULT, p4\<lparr>pmm_bm := None\<rparr>)
                   | (Some mem, p4) \<Rightarrow>
                       let p5 = p4\<lparr>pmm_bm := Some (\<lambda>i. if i < unat sz div 8 then 0 else mem i)\<rparr>
                       in map_option (\<lambda>p. (0, p)) (pmm_init_mark (unat sz * 8 + 1) p5 pmm_pos0))"

section \<open>Pages instead of bitmap positions\<close>

text \<open>The specification counts pages: page \<open>k\<close> is bit \<open>k mod 64\<close> of word \<open>k div 64\<close>.\<close>

definition pmm_pos :: "nat \<Rightarrow> pmm_bm_pos" where
  "pmm_pos k = \<lparr>pos_bit = k mod 64, pos_index = k div 64\<rparr>"

definition pmm_pages :: "pmm \<Rightarrow> nat" where
  "pmm_pages p = 64 * pmm_bm_get_max_index p"

definition pmm_page_addr :: "pmm \<Rightarrow> nat \<Rightarrow> u64" where
  "pmm_page_addr p k = reg_start (pmm_reg_free p) + of_nat k * PAGE_SIZE"

definition pmm_bit :: "pmm \<Rightarrow> nat \<Rightarrow> bool" where
  "pmm_bit p k = bit (pmm_bm_word p (k div 64)) (k mod 64)"

definition pmm_used :: "pmm \<Rightarrow> nat set" where
  "pmm_used p = {k. k < pmm_pages p \<and> pmm_bit p k}"

definition pmm_avail :: "pmm \<Rightarrow> nat \<Rightarrow> bool" where
  "pmm_avail p k \<longleftrightarrow> \<not> pmm_bit p k \<and> pmm_is_free_memory p (pmm_page_addr p k)"

definition pmm_aligned :: "pmm \<Rightarrow> u64 \<Rightarrow> nat \<Rightarrow> bool" where
  "pmm_aligned p align k \<longleftrightarrow> pmm_page_addr p k mod (if align = 0 then 1 else align) = 0"

definition pmm_run :: "pmm \<Rightarrow> u64 \<Rightarrow> u64 \<Rightarrow> nat \<Rightarrow> bool" where
  "pmm_run p num align m \<longleftrightarrow> m + unat num \<le> pmm_pages p \<and> pmm_aligned p align m \<and>
     (\<forall>j\<in>{m..<m + unat num}. pmm_avail p j)"

definition pmm_wf :: "pmm \<Rightarrow> bool" where
  "pmm_wf p \<longleftrightarrow> pmm_bm_is_ready p \<and> 0 < pmm_pages p \<and> reg_start (pmm_reg_free p) \<noteq> 0 \<and>
     unat (reg_start (pmm_reg_free p)) + pmm_pages p * 4096 \<le> 2 ^ 64"

definition pmm_val :: "pmm \<Rightarrow> nat \<Rightarrow> int" where
  "pmm_val p k = (if k < pmm_pages p then of_bool (pmm_bit p k) else - ERANGE)"

lemma pmm_pos0_eq: "pmm_pos0 = pmm_pos 0"
  by (simp add: pmm_pos0_def pmm_pos_def)

lemma pmm_pos_sel [simp]:
  "pos_bit (pmm_pos k) = k mod 64" "pos_index (pmm_pos k) = k div 64"
  by (simp_all add: pmm_pos_def)

lemma div_mod_word: "of_nat (k mod 64) + of_nat (k div 64) * 64 = (of_nat k :: u64)"
proof -
  have "(of_nat (k mod 64 + k div 64 * 64) :: u64) = of_nat k" by simp
  then show ?thesis by (simp only: of_nat_add of_nat_mult of_nat_numeral)
qed

lemma pmm_bm_pos_to_addr_pos [simp]: "pmm_bm_pos_to_addr p (pmm_pos k) = pmm_page_addr p k"
  by (simp add: pmm_bm_pos_to_addr_def pmm_page_addr_def div_mod_word)

lemma pmm_bm_pos_get_pos [simp]: "pmm_bm_pos_get p (pmm_pos k) = of_bool (pmm_bit p k)"
  by (simp add: pmm_bm_pos_get_def pmm_bit_def and_one_eq bit_iff_odd_drop_bit [of "pmm_bm_word p (k div 64)"]
      mod_2_eq_odd)

lemma pmm_pages_div: "k div 64 < pmm_bm_get_max_index p \<longleftrightarrow> k < pmm_pages p"
  by (auto simp: pmm_pages_def div_less_iff_less_mult mult.commute)

lemma pmm_pos_Suc:
  "(if Suc (k mod 64) \<ge> 64 then \<lparr>pos_bit = 0, pos_index = Suc (k div 64)\<rparr>
    else (pmm_pos k)\<lparr>pos_bit := Suc (k mod 64)\<rparr>) = pmm_pos (Suc k)"
proof (cases "Suc (k mod 64) \<ge> 64")
  case True
  then have "k mod 64 = 63" by (simp add: not_less)
  then have "Suc k mod 64 = 0" "Suc k div 64 = Suc (k div 64)" by (simp_all add: mod_Suc div_Suc)
  then show ?thesis using True by (simp add: pmm_pos_def)
next
  case False
  then have "Suc k mod 64 = Suc (k mod 64)" "Suc k div 64 = k div 64" by (simp_all add: mod_Suc div_Suc)
  then show ?thesis using False by (simp add: pmm_pos_def)
qed

lemma pmm_bm_pos_next_pos:
  "pmm_bm_is_ready p \<Longrightarrow> pmm_bm_pos_next p (pmm_pos k) = (pmm_val p (Suc k), pmm_pos (Suc k))"
  unfolding pmm_bm_pos_next_def pmm_pos_sel Suc_eq_plus1 [symmetric] pmm_pos_Suc Let_def pmm_val_def
  by (simp add: pmm_pages_div not_le flip: not_less)

lemma pmm_bm_pos_from_addr_page:
  assumes "pmm_bm_is_ready p" and "k * 4096 < 2 ^ 64"
  shows "pmm_bm_pos_from_addr p pos (pmm_page_addr p k) = (k < pmm_pages p, pmm_pos k)"
proof -
  have k: "unat (of_nat k :: u64) = k" using assms(2) by simp
  then have "unat (of_nat k * PAGE_SIZE) = k * 4096"
    using assms(2) by (simp add: unat_mult64)
  then have a: "(of_nat k * PAGE_SIZE) div PAGE_SIZE = (of_nat k :: u64)"
    using k by (simp add: word_unat_eq_iff unat_div_distrib)
  show ?thesis
    using assms(1) k
    by (simp add: pmm_bm_pos_from_addr_def pmm_page_addr_def a pmm_pos_def pmm_bm_pos_is_valid_def
        pmm_pages_div unat_div_distrib unat_mod_distrib)
qed

subsection \<open>Setting and clearing bits\<close>

lemma pmm_bm_put_simps [simp]:
  "pmm_bm_is_ready (pmm_bm_put p i w) = pmm_bm_is_ready p"
  "pmm_pages (pmm_bm_put p i w) = pmm_pages p"
  "pmm_reg_free (pmm_bm_put p i w) = pmm_reg_free p"
  "pmm_page_addr (pmm_bm_put p i w) k = pmm_page_addr p k"
  "pmm_is_free_memory (pmm_bm_put p i w) a = pmm_is_free_memory p a"
  by (simp_all add: pmm_bm_put_def pmm_bm_is_ready_def pmm_pages_def pmm_bm_get_max_index_def
      pmm_page_addr_def pmm_is_free_memory_def pmm_mmap_entries_def)

lemma pmm_bm_word_put:
  "pmm_bm_is_ready p \<Longrightarrow> pmm_bm_word (pmm_bm_put p i w) j = (if j = i then w else pmm_bm_word p j)"
  by (auto simp: pmm_bm_word_def pmm_bm_put_def pmm_bm_is_ready_def)

lemma div_mod_inj: "j div 64 = k div 64 \<Longrightarrow> j mod 64 = k mod 64 \<Longrightarrow> j = (k::nat)"
  by (metis div_mult_mod_eq)

lemma pmm_bit_set:
  "pmm_bm_is_ready p \<Longrightarrow> pmm_bit (pmm_bm_pos_set p (pmm_pos k)) j = (j = k \<or> pmm_bit p j)"
  by (auto simp: pmm_bit_def pmm_bm_pos_set_def pmm_bm_word_put bit_or_iff bit_exp_iff
      dest: div_mod_inj)

lemma pmm_bit_clear:
  "pmm_bm_is_ready p \<Longrightarrow> pmm_bit (pmm_bm_pos_clear p (pmm_pos k)) j = (j \<noteq> k \<and> pmm_bit p j)"
  by (auto simp: pmm_bit_def pmm_bm_pos_clear_def pmm_bm_word_put bit_and_iff bit_not_iff
      bit_exp_iff dest: div_mod_inj)

lemma pmm_set_clear_simps [simp]:
  "pmm_bm_is_ready (pmm_bm_pos_set p pos) = pmm_bm_is_ready p"
  "pmm_pages (pmm_bm_pos_set p pos) = pmm_pages p"
  "pmm_reg_free (pmm_bm_pos_set p pos) = pmm_reg_free p"
  "pmm_page_addr (pmm_bm_pos_set p pos) k = pmm_page_addr p k"
  "pmm_is_free_memory (pmm_bm_pos_set p pos) a = pmm_is_free_memory p a"
  "pmm_bm_is_ready (pmm_bm_pos_clear p pos) = pmm_bm_is_ready p"
  "pmm_pages (pmm_bm_pos_clear p pos) = pmm_pages p"
  "pmm_reg_free (pmm_bm_pos_clear p pos) = pmm_reg_free p"
  "pmm_page_addr (pmm_bm_pos_clear p pos) k = pmm_page_addr p k"
  "pmm_is_free_memory (pmm_bm_pos_clear p pos) a = pmm_is_free_memory p a"
  by (simp_all add: pmm_bm_pos_set_def pmm_bm_pos_clear_def)

section \<open>The first-fit search\<close>

lemma pmm_alloc_scan_stop:
  "\<not> num > cur \<or> val < 0 \<Longrightarrow> pmm_alloc_scan p num align pos val start cur = (start, cur)"
  by (subst pmm_alloc_scan.simps) auto

lemma pmm_alloc_scan_step:
  assumes "pmm_bm_is_ready p" and "cur < num" and "k < pmm_pages p"
  shows "pmm_alloc_scan p num align (pmm_pos k) (pmm_val p k) start cur =
    pmm_alloc_scan p num align (pmm_pos (Suc k)) (pmm_val p (Suc k))
      (if cur = 0 then pmm_page_addr p k else start)
      (if cur = 0 \<and> \<not> pmm_aligned p align k then 0 else if pmm_avail p k then cur + 1 else 0)"
  by (subst pmm_alloc_scan.simps)
    (use assms in \<open>auto simp: pmm_bm_pos_next_pos pmm_val_def [of p k] pmm_aligned_def pmm_avail_def\<close>)

text \<open>What the search knows after looking at the pages below \<open>k\<close>: the last \<open>cur\<close> of them are
  available, the first of these is aligned, and \<open>start\<close> is its address.\<close>

definition pmm_scan_inv :: "pmm \<Rightarrow> u64 \<Rightarrow> nat \<Rightarrow> u64 \<Rightarrow> u64 \<Rightarrow> bool" where
  "pmm_scan_inv p align k start cur \<longleftrightarrow> unat cur \<le> k \<and>
     (cur \<noteq> 0 \<longrightarrow> start = pmm_page_addr p (k - unat cur) \<and> pmm_aligned p align (k - unat cur) \<and>
        (\<forall>j\<in>{k - unat cur..<k}. pmm_avail p j))"

text \<open>The result for the pages from \<open>lo\<close> on: the first run, or none.\<close>

definition pmm_scan_post :: "pmm \<Rightarrow> u64 \<Rightarrow> u64 \<Rightarrow> nat \<Rightarrow> u64 \<times> u64 \<Rightarrow> bool" where
  "pmm_scan_post p num align lo r \<longleftrightarrow>
     (if snd r = num
      then \<exists>m\<ge>lo. fst r = pmm_page_addr p m \<and> pmm_run p num align m \<and>
             (\<forall>m'\<in>{lo..<m}. \<not> pmm_run p num align m')
      else \<forall>m\<ge>lo. \<not> pmm_run p num align m)"

lemma pmm_scan_post_shift:
  assumes "pmm_scan_post p num align lo' r" and "lo \<le> lo'"
    and "\<And>m. lo \<le> m \<Longrightarrow> m < lo' \<Longrightarrow> \<not> pmm_run p num align m"
  shows "pmm_scan_post p num align lo r"
proof (cases "snd r = num")
  case True
  then obtain m where "m \<ge> lo'" "fst r = pmm_page_addr p m" "pmm_run p num align m"
    "\<forall>m'\<in>{lo'..<m}. \<not> pmm_run p num align m'"
    using assms(1) by (auto simp: pmm_scan_post_def)
  then have "lo \<le> m \<and> (\<forall>m'\<in>{lo..<m}. \<not> pmm_run p num align m')"
    using assms(2,3) by (meson atLeastLessThan_iff le_less_linear le_trans)
  then show ?thesis
    using \<open>fst r = _\<close> \<open>pmm_run p num align m\<close> True by (auto simp: pmm_scan_post_def)
next
  case False
  then show ?thesis
    using assms unfolding pmm_scan_post_def by (metis le_less_linear)
qed

lemma pmm_not_run_through:
  assumes "\<not> pmm_avail p k" and "m \<le> k" and "k < m + unat num"
  shows "\<not> pmm_run p num align m"
  using assms by (auto simp: pmm_run_def)

lemma pmm_alloc_scan_first_fit:
  assumes "pmm_bm_is_ready p" and "k \<le> pmm_pages p" and "0 < num" and "cur \<le> num"
    and "pmm_scan_inv p align k start cur"
  shows "pmm_scan_post p num align (k - unat cur)
    (pmm_alloc_scan p num align (pmm_pos k) (pmm_val p k) start cur)"
  using assms(2-)
proof (induction "pmm_pages p - k" arbitrary: k start cur)
  case 0
  then have k: "k = pmm_pages p" by simp
  have stop: "pmm_alloc_scan p num align (pmm_pos k) (pmm_val p k) start cur = (start, cur)"
    by (rule pmm_alloc_scan_stop) (simp add: pmm_val_def k)
  show ?case
  proof (cases "cur = num")
    case True
    then show ?thesis using "0.prems" k stop
      by (auto simp: pmm_scan_post_def pmm_scan_inv_def pmm_run_def intro!: exI [of _ "k - unat cur"])
  next
    case False
    then have "cur < num" using "0.prems" by simp
    then have "unat cur < unat num" by (simp add: word_less_nat_alt)
    then show ?thesis using False k stop by (auto simp: pmm_scan_post_def pmm_run_def)
  qed
next
  case (Suc d)
  then have k: "k < pmm_pages p" by simp
  show ?case
  proof (cases "cur = num")
    case True
    then have "pmm_alloc_scan p num align (pmm_pos k) (pmm_val p k) start cur = (start, cur)"
      by (intro pmm_alloc_scan_stop) simp
    then show ?thesis using True Suc.prems k
      by (auto simp: pmm_scan_post_def pmm_scan_inv_def pmm_run_def intro!: exI [of _ "k - unat cur"])
  next
    case False
    then have less: "cur < num" using Suc.prems by simp
    then have ulen: "unat cur < unat num" by (simp add: word_less_nat_alt)
    let ?s = "if cur = 0 then pmm_page_addr p k else start"
    let ?c = "if cur = 0 \<and> \<not> pmm_aligned p align k then 0 else if pmm_avail p k then cur + 1 else 0"
    note step = pmm_alloc_scan_step [OF assms(1) less k, of align start]
    have c1: "unat (cur + 1) = Suc (unat cur)" using less by (rule unat_Suc_less)
    have inv: "pmm_scan_inv p align (Suc k) ?s ?c"
      using Suc.prems c1 by (auto simp: pmm_scan_inv_def less_Suc_eq unat_eq_zero)
    have cn: "?c \<le> num" using less c1 ulen by (auto simp: word_le_nat_alt)
    have IH: "pmm_scan_post p num align (Suc k - unat ?c)
        (pmm_alloc_scan p num align (pmm_pos (Suc k)) (pmm_val p (Suc k)) ?s ?c)"
      using Suc.hyps(1) [of "Suc k" ?c ?s] Suc.hyps(2) k cn inv assms(3) by simp
    show ?thesis
      unfolding step
    proof (rule pmm_scan_post_shift [OF IH])
      show "k - unat cur \<le> Suc k - unat ?c" using c1 by auto
      fix m assume m: "k - unat cur \<le> m" "m < Suc k - unat ?c"
      show "\<not> pmm_run p num align m"
      proof (cases "cur = 0 \<and> \<not> pmm_aligned p align k")
        case True
        then have "m = k" using m by simp
        then show ?thesis using True by (simp add: pmm_run_def)
      next
        case False
        then have "\<not> pmm_avail p k" using m c1 by (auto split: if_splits)
        then show ?thesis
          using m ulen False by (intro pmm_not_run_through [of p k]) auto
      qed
    qed
  qed
qed

section \<open>Marking pages\<close>

lemma pmm_bm_mark_frame [simp]:
  "pmm_bm_is_ready (pmm_bm_mark n p pos) = pmm_bm_is_ready p"
  "pmm_pages (pmm_bm_mark n p pos) = pmm_pages p"
  "pmm_reg_free (pmm_bm_mark n p pos) = pmm_reg_free p"
  "pmm_page_addr (pmm_bm_mark n p pos) k = pmm_page_addr p k"
  "pmm_is_free_memory (pmm_bm_mark n p pos) a = pmm_is_free_memory p a"
  by (induction n arbitrary: p pos) (simp_all add: Let_def)

lemma pmm_bit_mark:
  "pmm_bm_is_ready p \<Longrightarrow>
   pmm_bit (pmm_bm_mark n p (pmm_pos k)) j = (j \<in> {k..<k + n} \<or> pmm_bit p j)"
proof (induction n arbitrary: p k)
  case (Suc n)
  then show ?case
    by (auto simp: Let_def pmm_bm_pos_next_pos pmm_bit_set)
qed simp

section \<open>Allocation\<close>

lemma pmm_wf_ready: "pmm_wf p \<Longrightarrow> pmm_bm_is_ready p"
  by (simp add: pmm_wf_def)

lemma pmm_wf_page_bound: "pmm_wf p \<Longrightarrow> m < pmm_pages p \<Longrightarrow> m * 4096 < 2 ^ 64"
  by (simp add: pmm_wf_def)

lemma pmm_from_page_wf:
  "pmm_wf p \<Longrightarrow> m < pmm_pages p \<Longrightarrow>
   pmm_bm_pos_from_addr p pos (pmm_page_addr p m) = (True, pmm_pos m)"
  using pmm_bm_pos_from_addr_page [where p = p and k = m and pos = pos]
    pmm_wf_ready pmm_wf_page_bound by simp

lemma pmm_page_addr_unat:
  assumes "pmm_wf p" and "m < pmm_pages p"
  shows "unat (pmm_page_addr p m) = unat (reg_start (pmm_reg_free p)) + m * 4096"
proof -
  have b: "unat (reg_start (pmm_reg_free p)) + m * 4096 < 2 ^ 64"
    using assms by (auto simp: pmm_wf_def)
  then have "unat (of_nat m :: u64) = m" by simp
  then have "unat (of_nat m * PAGE_SIZE) = m * 4096"
    using b by (simp add: unat_mult64)
  then show ?thesis using b by (simp add: pmm_page_addr_def unat_plus64)
qed

lemma pmm_page_addr_nonzero:
  assumes "pmm_wf p" and "m < pmm_pages p"
  shows "pmm_page_addr p m \<noteq> 0"
proof
  assume "pmm_page_addr p m = 0"
  then have "unat (reg_start (pmm_reg_free p)) = 0"
    using pmm_page_addr_unat [OF assms] by simp
  then show False using assms(1) by (simp add: pmm_wf_def unat_eq_zero)
qed

lemma pmm_page_addr_inj:
  "pmm_wf p \<Longrightarrow> m < pmm_pages p \<Longrightarrow> k < pmm_pages p \<Longrightarrow>
   pmm_page_addr p m = pmm_page_addr p k \<Longrightarrow> m = k"
  by (metis pmm_page_addr_unat add_left_cancel mult_cancel2 zero_neq_numeral)

lemma pmm_bm_mark_wf [kernel_inv]: "pmm_wf p \<Longrightarrow> pmm_wf (pmm_bm_mark n p pos)"
  by (simp add: pmm_wf_def)

lemma pmm_run_bound: "pmm_run p num align m \<Longrightarrow> 0 < num \<Longrightarrow> m < pmm_pages p"
  by (auto simp: pmm_run_def word_less_nat_alt)

lemma pmm_alloc_bm_cases:
  assumes wf: "pmm_wf p" and "\<not> pmm_align_is_invalid align" and "0 < num"
  shows "(\<exists>m. pmm_alloc p num align = Some (pmm_page_addr p m, pmm_bm_mark (unat num) p (pmm_pos m)) \<and>
            pmm_run p num align m \<and> (\<forall>m'<m. \<not> pmm_run p num align m')) \<or>
         (pmm_alloc p num align = Some (0, p) \<and> (\<forall>m. \<not> pmm_run p num align m))"
proof -
  have ready: "pmm_bm_is_ready p" using wf by (rule pmm_wf_ready)
  define r where "r = pmm_alloc_scan p num align pmm_pos0 (pmm_bm_pos_get p pmm_pos0) 0 0"
  have alloc: "pmm_alloc p num align =
    (if snd r \<noteq> num then Some (0, p)
     else Some (fst r, pmm_bm_mark (unat num) p (snd (pmm_bm_pos_from_addr p pmm_pos0 (fst r)))))"
    using assms ready by (simp add: pmm_alloc_def r_def split: prod.splits)
  have post: "pmm_scan_post p num align 0 r"
    using pmm_alloc_scan_first_fit [OF ready, of 0 num 0 align 0] assms(3) wf
    by (simp add: pmm_val_def pmm_scan_inv_def r_def pmm_pos0_eq pmm_wf_def)
  show ?thesis
  proof (cases "snd r = num")
    case True
    then obtain m where m: "fst r = pmm_page_addr p m" "pmm_run p num align m"
      "\<forall>m'<m. \<not> pmm_run p num align m'"
      using post by (auto simp: pmm_scan_post_def)
    then have "pmm_bm_pos_from_addr p pmm_pos0 (fst r) = (True, pmm_pos m)"
      using wf assms(3) by (simp add: pmm_from_page_wf pmm_run_bound)
    then show ?thesis using True m alloc by (intro disjI1 exI [of _ m]) simp
  next
    case False
    then show ?thesis using post alloc by (simp add: pmm_scan_post_def)
  qed
qed

text \<open>
  C4. \<^verbatim>\<open>pmm_alloc(num, align)\<close> with a bitmap is a first-fit allocator: it returns the address of
  the first page of the lowest run of \<open>num\<close> pages whose start is aligned, whose pages are all
  unallocated and lie in usable memory, and it marks exactly these pages as allocated; if there
  is no such run it returns \<^verbatim>\<open>NULL\<close> and changes nothing.
\<close>

theorem pmm_alloc_first_fit:
  assumes "pmm_wf p" and "\<not> pmm_align_is_invalid align" and "0 < num"
  shows "\<exists>a p'. pmm_alloc p num align = Some (a, p') \<and> pmm_wf p' \<and>
    ((\<exists>m. a = pmm_page_addr p m \<and> pmm_run p num align m \<and> (\<forall>m'<m. \<not> pmm_run p num align m') \<and>
       pmm_used p' = pmm_used p \<union> {m..<m + unat num} \<and> {m..<m + unat num} \<inter> pmm_used p = {}) \<or>
     (a = 0 \<and> p' = p \<and> (\<forall>m. \<not> pmm_run p num align m)))"
proof -
  have u: "pmm_used (pmm_bm_mark (unat num) p (pmm_pos m)) = pmm_used p \<union> {m..<m + unat num}"
    "{m..<m + unat num} \<inter> pmm_used p = {}" if "pmm_run p num align m" for m
    using that assms(1) by (auto simp: pmm_used_def pmm_run_def pmm_avail_def pmm_bit_mark pmm_wf_ready)
  consider m where "pmm_alloc p num align = Some (pmm_page_addr p m, pmm_bm_mark (unat num) p (pmm_pos m))"
      "pmm_run p num align m" "\<forall>m'<m. \<not> pmm_run p num align m'"
    | "pmm_alloc p num align = Some (0, p)" "\<forall>m. \<not> pmm_run p num align m"
    using pmm_alloc_bm_cases [OF assms] by blast
  then show ?thesis
  proof cases
    case 1
    then show ?thesis using u [of m] pmm_bm_mark_wf [OF assms(1)] by blast
  next
    case 2
    then show ?thesis using assms(1) by simp
  qed
qed

section \<open>Releasing pages\<close>

lemma pmm_used_clear:
  "pmm_bm_is_ready p \<Longrightarrow> pmm_used (pmm_bm_pos_clear p (pmm_pos k)) = pmm_used p - {k}"
  by (auto simp: pmm_used_def pmm_bit_clear)

lemma pmm_val_clear:
  "pmm_bm_is_ready p \<Longrightarrow> j \<noteq> k \<Longrightarrow> pmm_val (pmm_bm_pos_clear p (pmm_pos k)) j = pmm_val p j"
  by (simp add: pmm_val_def pmm_bit_clear)

lemma pmm_free_loop_ok:
  assumes "pmm_bm_is_ready p" and "{k..<k + n} \<subseteq> pmm_used p"
  shows "\<exists>p'. pmm_free_loop n p (pmm_pos k) (pmm_val p k) = (0, p') \<and>
    pmm_used p' = pmm_used p - {k..<k + n} \<and> pmm_bm_is_ready p' \<and> pmm_pages p' = pmm_pages p \<and>
    pmm_reg_free p' = pmm_reg_free p"
  using assms
proof (induction n arbitrary: p k)
  case (Suc n)
  let ?p = "pmm_bm_pos_clear p (pmm_pos k)"
  have k: "k \<in> pmm_used p" using Suc.prems by auto
  then have v: "pmm_val p k = 1" by (simp add: pmm_val_def pmm_used_def)
  have used: "pmm_used ?p = pmm_used p - {k}" using Suc.prems by (intro pmm_used_clear)
  then have "{Suc k..<Suc k + n} \<subseteq> pmm_used ?p" using Suc.prems(2) by auto
  moreover have "pmm_used p - {k} - {Suc k..<Suc k + n} = pmm_used p - {k..<k + Suc n}" by auto
  ultimately show ?case
    using Suc.IH [of ?p "Suc k"] Suc.prems(1) v used
    by (simp add: pmm_bm_pos_next_pos Let_def)
qed simp

lemma pmm_free_page:
  "pmm_wf p \<Longrightarrow> m < pmm_pages p \<Longrightarrow>
   pmm_free p (pmm_page_addr p m) num = pmm_free_loop (unat num) p (pmm_pos m) (pmm_val p m)"
  by (simp add: pmm_free_def pmm_from_page_wf pmm_val_def)

lemma pmm_free_held:
  assumes "pmm_wf p" and "0 < num" and "{m..<m + unat num} \<subseteq> pmm_used p"
  shows "\<exists>p'. pmm_free p (pmm_page_addr p m) num = (0, p') \<and>
    pmm_used p' = pmm_used p - {m..<m + unat num} \<and> pmm_wf p'"
proof -
  have "m \<in> {m..<m + unat num}" using assms(2) by (simp add: word_less_nat_alt)
  then have "m \<in> pmm_used p" using assms(3) by blast
  then have "m < pmm_pages p" by (simp add: pmm_used_def)
  then show ?thesis
    using pmm_free_loop_ok [OF pmm_wf_ready [OF assms(1)] assms(3)] assms(1)
    by (auto simp: pmm_free_page pmm_wf_def)
qed

text \<open>
  C10. \<^verbatim>\<open>pmm_free(paddr, num)\<close> of \<open>num\<close> allocated pages succeeds and makes exactly these pages
  unallocated again.
\<close>

theorem pmm_free_releases:
  assumes "pmm_wf p" and "0 < num" and "{m..<m + unat num} \<subseteq> pmm_used p"
  shows "\<exists>p'. pmm_free p (pmm_page_addr p m) num = (0, p') \<and>
    pmm_used p' = pmm_used p - {m..<m + unat num} \<and> pmm_wf p'"
  using assms by (rule pmm_free_held)

text \<open>A concrete manager for the witnesses: 512 pages from \<open>2\<^sup>20\<close> on, none allocated, all usable.\<close>

definition pmm_example :: pmm where
  "pmm_example =
     \<lparr>pmm_mmap_tag = Some \<lparr>tag_size = 24,
        tag_entry = (\<lambda>_. \<lparr>map_addr = 0x100000, map_len = 0x1000000, map_type = 1\<rparr>)\<rparr>,
      pmm_bm = Some (\<lambda>_. 0), pmm_bm_size = 64,
      pmm_reg_free = \<lparr>reg_start = 0x100000, reg_end = 0x300000, reg_pos = 0x100000\<rparr>,
      pmm_boot = \<lparr>kernel_start = 0, kernel_end = 0, mb_info_start = 0, mb_info_end = 0\<rparr>\<rparr>"

lemma pmm_example_pages [simp]: "pmm_pages pmm_example = 512"
  by (simp add: pmm_example_def pmm_pages_def pmm_bm_get_max_index_def)

lemma pmm_example_wf [simp]: "pmm_wf pmm_example"
  by (simp add: pmm_wf_def pmm_bm_is_ready_def) (simp add: pmm_example_def)

lemma pmm_example_unused [simp]: "pmm_used pmm_example = {}" "\<not> pmm_bit pmm_example k"
  by (simp_all add: pmm_used_def pmm_bit_def pmm_bm_word_def pmm_example_def)

lemma pmm_example_entries:
  "pmm_mmap_entries pmm_example = [\<lparr>map_addr = 0x100000, map_len = 0x1000000, map_type = 1\<rparr>]"
  by (simp add: pmm_mmap_entries_def mmap_visited_def pmm_example_def upt_rec)

lemma pmm_example_free:
  "pmm_is_free_memory pmm_example 0x100000" "pmm_is_free_memory pmm_example 0x101000"
  by (simp_all add: pmm_is_free_memory_def pmm_reg_known_def pmm_reg_contains_def pmm_example_entries)
    (simp_all add: pmm_example_def)

lemma pmm_example_addr:
  "pmm_page_addr pmm_example 0 = 0x100000" "pmm_page_addr pmm_example 1 = 0x101000"
  by (simp_all add: pmm_page_addr_def pmm_example_def)

lemma pmm_example_run: "pmm_run pmm_example 2 0 0"
proof -
  have "pmm_avail pmm_example 0" "pmm_avail pmm_example 1"
    by (simp_all add: pmm_avail_def pmm_example_addr pmm_example_free del: One_nat_def)
  then have "\<forall>j\<in>{0..<0 + unat (2::u64)}. pmm_avail pmm_example j"
    by (auto simp: less_Suc_eq)
  then show ?thesis by (simp add: pmm_run_def pmm_aligned_def)
qed

theorem pmm_alloc_first_fit_witness:
  "\<exists>a p'. pmm_alloc pmm_example 2 0 = Some (a, p') \<and> pmm_wf p' \<and> a = 0x100000 \<and> pmm_used p' = {0, 1}"
proof -
  obtain a p' m where "pmm_alloc pmm_example 2 0 = Some (a, p')" "pmm_wf p'"
    "a = pmm_page_addr pmm_example m" "\<forall>m'<m. \<not> pmm_run pmm_example 2 0 m'"
    "pmm_used p' = pmm_used pmm_example \<union> {m..<m + unat (2::u64)}"
    using pmm_alloc_first_fit [of pmm_example 0 2] pmm_example_run
    by (auto simp: pmm_align_is_invalid_def)
  moreover from this have m: "m = 0" using pmm_example_run by (metis gr0I)
  moreover have "{0..<0 + unat (2::u64)} = {0, 1}" by auto
  ultimately have "pmm_alloc pmm_example 2 0 = Some (a, p') \<and> pmm_wf p' \<and> a = 0x100000 \<and> pmm_used p' = {0, 1}"
    by (simp only: pmm_example_addr pmm_example_unused Un_empty_left)
  then show ?thesis by blast
qed

theorem pmm_free_releases_witness:
  "\<exists>p'. pmm_free (pmm_bm_mark 2 pmm_example (pmm_pos 0)) 0x100000 2 = (0, p') \<and> pmm_used p' = {}"
proof -
  let ?p = "pmm_bm_mark 2 pmm_example (pmm_pos 0)"
  have used: "pmm_used ?p = {0..<2}"
    by (auto simp: pmm_used_def pmm_bit_mark pmm_wf_ready)
  have "\<exists>p'. pmm_free ?p (pmm_page_addr ?p 0) 2 = (0, p') \<and>
      pmm_used p' = pmm_used ?p - {0..<0 + unat (2::u64)} \<and> pmm_wf p'"
    by (rule pmm_free_releases) (simp_all only: used pmm_bm_mark_wf pmm_example_wf, simp_all)
  then show ?thesis
    by (auto simp: used pmm_example_addr)
qed

text \<open>
  \<^verbatim>\<open>pmm_free\<close> rejects what it does not own: an address outside the bitmap and a page that
  is not allocated (a double free) give \<^verbatim>\<open>-EFAULT\<close> and leave the manager unchanged.
\<close>

theorem pmm_free_rejects:
  assumes "0 < num"
    and "\<not> fst (pmm_bm_pos_from_addr p pmm_pos0 paddr) \<or> \<not> pmm_is_allocated p paddr"
  shows "pmm_free p paddr num = (- EFAULT, p)"
proof -
  obtain n where n: "unat num = Suc n"
    using assms(1) by (metis gr0_implies_Suc unat_gt_0 word_neq_0_conv)
  have "0 \<le> pmm_bm_pos_get p pos" for pos
    by (simp add: pmm_bm_pos_get_def)
  then show ?thesis
    using assms(2) n
    by (auto simp: pmm_free_def pmm_is_allocated_def Let_def not_less split: prod.splits if_splits)
qed

theorem pmm_free_rejects_witness:
  "\<not> pmm_is_allocated pmm_example 0x100000 \<and> pmm_free pmm_example 0x100000 1 = (- EFAULT, pmm_example)"
proof -
  have "\<not> pmm_is_allocated pmm_example (pmm_page_addr pmm_example 0)"
    by (simp add: pmm_is_allocated_def pmm_from_page_wf)
  then have n: "\<not> pmm_is_allocated pmm_example 0x100000" by (simp add: pmm_example_addr)
  then show ?thesis using pmm_free_rejects [of 1 pmm_example "0x100000"] by simp
qed

section \<open>The page-allocator interface\<close>

text \<open>
  What the virtual memory manager, the scheduler and the drivers rely on: allocation grants pages
  nobody holds, failure changes nothing, and releasing held pages gives them back.
\<close>

locale page_allocator =
  fixes inv :: "'s \<Rightarrow> bool"
    and used :: "'s \<Rightarrow> nat set"
    and page :: "'s \<Rightarrow> nat \<Rightarrow> u64"
    and alloc :: "'s \<Rightarrow> u64 \<Rightarrow> u64 \<Rightarrow> (u64 \<times> 's) option"
    and free :: "'s \<Rightarrow> u64 \<Rightarrow> u64 \<Rightarrow> errcode \<times> 's"
  assumes alloc_cases: "inv s \<Longrightarrow> 0 < num \<Longrightarrow> \<exists>a s'. alloc s num align = Some (a, s') \<and> inv s' \<and>
      (if a = 0 then s' = s
       else \<exists>m. a = page s m \<and> used s' = used s \<union> {m..<m + unat num} \<and>
              {m..<m + unat num} \<inter> used s = {} \<and> page s' = page s)"
    and free_held: "inv s \<Longrightarrow> 0 < num \<Longrightarrow> {m..<m + unat num} \<subseteq> used s \<Longrightarrow>
      \<exists>s'. free s (page s m) num = (0, s') \<and> inv s' \<and> used s' = used s - {m..<m + unat num}"
begin

lemma alloc_granted:
  assumes "inv s" and "0 < num" and "alloc s num align = Some (a, s')" and "a \<noteq> 0"
  obtains m where "a = page s m" "used s' = used s \<union> {m..<m + unat num}"
    "{m..<m + unat num} \<inter> used s = {}" "page s' = page s" "inv s'"
  using alloc_cases [OF assms(1,2), of align] assms(3,4) by auto

text \<open>Releasing what was just allocated restores the set of pages in use.\<close>

lemma alloc_free_restores:
  assumes "inv s" and "0 < num" and "alloc s num align = Some (a, s')" and "a \<noteq> 0"
  shows "\<exists>s''. free s' a num = (0, s'') \<and> inv s'' \<and> used s'' = used s"
proof -
  obtain m where m: "a = page s m" "used s' = used s \<union> {m..<m + unat num}"
    "{m..<m + unat num} \<inter> used s = {}" "page s' = page s" "inv s'"
    using assms by (rule alloc_granted)
  then have "{m..<m + unat num} \<subseteq> used s'" by simp
  from free_held [OF m(5) assms(2) this] show ?thesis using m by auto
qed

text \<open>Two allocations in a row never hand out the same page.\<close>

lemma alloc_alloc_disjoint:
  assumes "inv s" and "0 < n" and "0 < n'"
    and "alloc s n align = Some (a, s1)" and "a \<noteq> 0"
    and "alloc s1 n' align' = Some (b, s2)" and "b \<noteq> 0"
  shows "\<exists>m m'. a = page s m \<and> b = page s m' \<and> {m..<m + unat n} \<inter> {m'..<m' + unat n'} = {}"
proof -
  obtain m where m: "a = page s m" "used s1 = used s \<union> {m..<m + unat n}" "page s1 = page s" "inv s1"
    using alloc_granted [OF assms(1,2,4,5)] by blast
  obtain m' where b: "b = page s1 m'" "{m'..<m' + unat n'} \<inter> used s1 = {}"
    using alloc_granted [OF m(4) assms(3,6,7)] by blast
  have "{m..<m + unat n} \<subseteq> used s1" unfolding m(2) by (rule Un_upper2)
  then have "{m..<m + unat n} \<inter> {m'..<m' + unat n'} = {}" using b(2) by blast
  moreover have "b = page s m'" using b(1) m(3) by simp
  ultimately show ?thesis using m(1) by blast
qed

end

lemma pmm_alloc_invalid_align: "pmm_align_is_invalid align \<Longrightarrow> pmm_alloc p num align = Some (0, p)"
  by (simp add: pmm_alloc_def)

interpretation pa: page_allocator pmm_wf pmm_used pmm_page_addr pmm_alloc pmm_free
proof unfold_locales
  fix p and num align :: u64 assume wf: "pmm_wf p" and num: "0 < num"
  show "\<exists>a p'. pmm_alloc p num align = Some (a, p') \<and> pmm_wf p' \<and>
      (if a = 0 then p' = p
       else \<exists>m. a = pmm_page_addr p m \<and> pmm_used p' = pmm_used p \<union> {m..<m + unat num} \<and>
              {m..<m + unat num} \<inter> pmm_used p = {} \<and> pmm_page_addr p' = pmm_page_addr p)"
  proof (cases "pmm_align_is_invalid align")
    case True
    then show ?thesis using wf by (simp add: pmm_alloc_invalid_align)
  next
    case False
    consider m where "pmm_alloc p num align = Some (pmm_page_addr p m, pmm_bm_mark (unat num) p (pmm_pos m))"
        "pmm_run p num align m"
      | "pmm_alloc p num align = Some (0, p)"
      using pmm_alloc_bm_cases [OF wf False num] by blast
    then show ?thesis
    proof cases
      case 1
      have "pmm_used (pmm_bm_mark (unat num) p (pmm_pos m)) = pmm_used p \<union> {m..<m + unat num}"
        "{m..<m + unat num} \<inter> pmm_used p = {}"
        using 1(2) wf by (auto simp: pmm_used_def pmm_run_def pmm_avail_def pmm_bit_mark pmm_wf_ready)
      then show ?thesis
        using 1 wf num pmm_page_addr_nonzero [OF wf pmm_run_bound [OF 1(2) num]]
        by (auto simp: fun_eq_iff intro: pmm_bm_mark_wf)
    next
      case 2
      then show ?thesis using wf by simp
    qed
  qed
next
  fix p m and num :: u64 assume "pmm_wf p" "0 < num" "{m..<m + unat num} \<subseteq> pmm_used p"
  then show "\<exists>p'. pmm_free p (pmm_page_addr p m) num = (0, p') \<and> pmm_wf p' \<and>
      pmm_used p' = pmm_used p - {m..<m + unat num}"
    using pmm_free_held by blast
qed

text \<open>
  Round trip: releasing what \<^verbatim>\<open>pmm_alloc\<close> just returned succeeds and restores the set of
  allocated pages.
\<close>

theorem pmm_alloc_free_roundtrip:
  assumes "pmm_wf p" and "0 < num" and "pmm_alloc p num align = Some (a, p')" and "a \<noteq> 0"
  shows "\<exists>p''. pmm_free p' a num = (0, p'') \<and> pmm_wf p'' \<and> pmm_used p'' = pmm_used p"
  using assms by (rule pa.alloc_free_restores)

lemma pmm_example_alloc:
  "\<exists>p'. pmm_alloc pmm_example 2 0 = Some (0x100000, p') \<and> pmm_wf p'"
proof -
  consider m where "pmm_alloc pmm_example 2 0 =
        Some (pmm_page_addr pmm_example m, pmm_bm_mark (unat (2::u64)) pmm_example (pmm_pos m))"
      "\<forall>m'<m. \<not> pmm_run pmm_example 2 0 m'"
    | "\<forall>m. \<not> pmm_run pmm_example 2 0 m"
    using pmm_alloc_bm_cases [of pmm_example 0 2] by (auto simp: pmm_align_is_invalid_def)
  then show ?thesis
  proof cases
    case 1
    then have "m = 0" using pmm_example_run by (metis gr0I)
    then show ?thesis
      using 1(1) pmm_bm_mark_wf [OF pmm_example_wf, of "unat (2::u64)" "pmm_pos 0"]
      by (simp only: pmm_example_addr) blast
  next
    case 2
    then show ?thesis using pmm_example_run by blast
  qed
qed

theorem pmm_alloc_free_roundtrip_witness:
  "\<exists>p' p''. pmm_alloc pmm_example 2 0 = Some (0x100000, p') \<and> pmm_free p' 0x100000 2 = (0, p'') \<and>
     pmm_used p'' = {}"
proof -
  obtain p' where p': "pmm_alloc pmm_example 2 0 = Some (0x100000, p')"
    using pmm_example_alloc by blast
  have "\<exists>p''. pmm_free p' 0x100000 2 = (0, p'') \<and> pmm_wf p'' \<and> pmm_used p'' = pmm_used pmm_example"
    by (rule pmm_alloc_free_roundtrip [OF pmm_example_wf _ p']) simp_all
  then show ?thesis using p' by auto
qed

section \<open>Allocation before the bitmap exists\<close>

lemma no_bm_fuel_step:
  assumes "(x::nat) < e" and "e - x + 4096 \<le> 4096 * Suc n"
  shows "e - (x + 4096) + 4096 \<le> 4096 * n"
proof (cases "e - x \<le> 4096")
  case True
  have "0 < n" using assms by (cases n) simp_all
  then show ?thesis using True by (cases n) simp_all
next
  case False
  then show ?thesis using assms by simp
qed

lemma no_bm_fuel_start: "(d::nat) + 4096 \<le> 4096 * (d div 4096 + 3)"
proof -
  define q where "q = d div 4096"
  define r where "r = d mod 4096"
  have "d = q * 4096 + r" and "r < 4096" by (simp_all add: q_def r_def)
  then show ?thesis unfolding q_def [symmetric] by simp
qed

lemma pmm_no_bm_scan_enough:
  assumes "unat (reg_end (pmm_reg_free p)) + 4096 \<le> 2 ^ 64"
    and "unat (reg_end (pmm_reg_free p)) - unat pos + 4096 \<le> 4096 * fuel"
  shows "\<exists>r. pmm_no_bm_scan fuel p num align pos start cur = Some r"
  using assms(2)
proof (induction fuel arbitrary: pos start cur)
  case (Suc fuel)
  show ?case
  proof (cases "num > cur \<and> pos < reg_end (pmm_reg_free p)")
    case True
    then have lt: "unat pos < unat (reg_end (pmm_reg_free p))" by (simp add: word_less_nat_alt)
    then have u: "unat (pos + PAGE_SIZE) = unat pos + 4096"
      using assms(1) by (intro trans [OF unat_plus64]) simp_all
    have "unat (reg_end (pmm_reg_free p)) - unat (pos + PAGE_SIZE) + 4096 \<le> 4096 * fuel"
      using no_bm_fuel_step [OF lt] Suc.prems unfolding u by simp
    then have "\<exists>r. pmm_no_bm_scan fuel p num align (pos + PAGE_SIZE) st c = Some r" for st c
      by (rule Suc.IH)
    then show ?thesis using True by (auto simp: Let_def)
  next
    case False
    then show ?thesis by (auto simp: Let_def not_less)
  qed
qed simp

text \<open>The search invariant: the last \<open>cur\<close> pages below \<open>pos\<close> are usable and start at \<open>start\<close>.\<close>

definition pmm_no_bm_inv :: "pmm \<Rightarrow> u64 \<Rightarrow> u64 \<Rightarrow> u64 \<Rightarrow> u64 \<Rightarrow> bool" where
  "pmm_no_bm_inv p align pos start cur \<longleftrightarrow> cur \<noteq> 0 \<longrightarrow>
     pos = start + cur * PAGE_SIZE \<and> start mod (if align = 0 then 1 else align) = 0 \<and>
     (\<forall>j<unat cur. pmm_is_free_memory p (start + of_nat j * PAGE_SIZE) \<and>
        start + of_nat j * PAGE_SIZE < reg_end (pmm_reg_free p))"

lemma pmm_no_bm_scan_sound:
  assumes "pmm_no_bm_scan fuel p num align pos start cur = Some (pos', start', cur')"
    and "pmm_no_bm_inv p align pos start cur" and "cur \<le> num"
  shows "pmm_no_bm_inv p align pos' start' cur' \<and> cur' \<le> num"
  using assms
proof (induction fuel arbitrary: pos start cur)
  case (Suc fuel)
  show ?case
  proof (cases "num > cur \<and> pos < reg_end (pmm_reg_free p)")
    case True
    let ?s = "if cur = 0 then pos else start"
    let ?c = "if cur = 0 \<and> ?s mod (if align = 0 then 1 else align) \<noteq> 0 then 0
              else if \<not> pmm_is_free_memory p pos then 0 else cur + 1"
    have rec: "pmm_no_bm_scan fuel p num align (pos + PAGE_SIZE) ?s ?c = Some (pos', start', cur')"
      using Suc.prems(1) True by (auto simp: Let_def split: if_splits)
    have c1: "unat (cur + 1) = Suc (unat cur)" using True by (intro unat_Suc_less) auto
    then have le: "?c \<le> num" using True by (auto simp: word_le_nat_alt word_less_nat_alt)
    have inv: "pmm_no_bm_inv p align (pos + PAGE_SIZE) ?s ?c"
    proof (cases "cur = 0")
      case c0: True
      then show ?thesis using True by (auto simp: pmm_no_bm_inv_def)
    next
      case False
      then show ?thesis
        using True Suc.prems(2) c1
        by (auto simp: pmm_no_bm_inv_def less_Suc_eq algebra_simps)
    qed
    show ?thesis by (rule Suc.IH [OF rec inv le])
  next
    case False
    then show ?thesis using Suc.prems by (auto simp: Let_def not_less split: if_splits)
  qed
qed simp

text \<open>
  Without a bitmap, \<^verbatim>\<open>pmm_alloc\<close> always returns, and a non-null result is the aligned start of
  \<open>num\<close> consecutive usable pages inside the free region; \<^verbatim>\<open>pmm_reg_free.pos\<close> moves right
  behind them, so that no later call can return them again.
\<close>

theorem pmm_alloc_no_bm_sound:
  assumes "unat (reg_end (pmm_reg_free p)) + 4096 \<le> 2 ^ 64" and "0 < num"
  shows "\<exists>a p'. pmm_alloc_no_bm p num align = Some (a, p') \<and>
    (p' = p \<and> a = 0 \<or>
     p' = p\<lparr>pmm_reg_free := (pmm_reg_free p)\<lparr>reg_pos := a + num * PAGE_SIZE\<rparr>\<rparr> \<and>
     a mod (if align = 0 then 1 else align) = 0 \<and>
     (\<forall>j<unat num. pmm_is_free_memory p (a + of_nat j * PAGE_SIZE) \<and>
        a + of_nat j * PAGE_SIZE < reg_end (pmm_reg_free p)))"
proof -
  have "unat (reg_end (pmm_reg_free p)) - unat (reg_pos (pmm_reg_free p)) + 4096 \<le> 4096 * pmm_no_bm_fuel p"
    unfolding pmm_no_bm_fuel_def
    by (rule no_bm_fuel_start)
  note enough = pmm_no_bm_scan_enough [OF assms(1) this, of num align 0 0]
  obtain pos' start' cur' where
    r: "pmm_no_bm_scan (pmm_no_bm_fuel p) p num align (reg_pos (pmm_reg_free p)) 0 0 = Some (pos', start', cur')"
    using enough by auto
  have "pmm_no_bm_inv p align pos' start' cur'"
    using pmm_no_bm_scan_sound [OF r] by (simp add: pmm_no_bm_inv_def)
  then show ?thesis
    using r assms(2) by (cases "cur' = num") (auto simp: pmm_alloc_no_bm_def pmm_no_bm_inv_def)
qed

theorem pmm_alloc_no_bm_sound_witness:
  "\<exists>a p'. pmm_alloc_no_bm pmm_example 2 0 = Some (a, p')"
  using pmm_alloc_no_bm_sound [of pmm_example 2 0] by (auto simp: pmm_example_def)

section \<open>The memory map loop\<close>

text \<open>
  The loop over the memory map compares the distance from the first entry with the size of the
  whole tag, header included: for a well-formed tag of \<open>n\<close> entries it visits \<open>n + 1\<close> slots, one
  behind the end of the tag.
\<close>

theorem mmap_visits_one_past_end:
  assumes "unat (tag_size t) = 16 + 24 * n"
  shows "length (mmap_visited t) = n + 1 \<and> mmap_visited t ! n = tag_entry t n"
  using assms by (simp add: mmap_visited_def nth_append)

theorem mmap_visits_one_past_end_witness:
  "length (mmap_visited \<lparr>tag_size = 40, tag_entry = (\<lambda>_. \<lparr>map_addr = 0, map_len = 0, map_type = 1\<rparr>)\<rparr>) = 2"
  using mmap_visits_one_past_end
    [of "\<lparr>tag_size = 40, tag_entry = (\<lambda>_. \<lparr>map_addr = 0, map_len = 0, map_type = 1\<rparr>)\<rparr>" 1] by simp

end
