(* ===== verification/Klist.thy ===== *)
theory Klist
  imports Prelude
begin

text \<open>
  The linked-list macros of \<^verbatim>\<open>kernel/inc/util/list.h\<close>. A list node is known by its address; the
  \<^verbatim>\<open>next\<close> and \<^verbatim>\<open>prev\<close> fields of all nodes are two functions on addresses, and address 0 is
  \<^verbatim>\<open>NULL\<close>. Walks carry fuel and give \<open>None\<close> when it runs out; the macros that dereference
  \<^verbatim>\<open>NULL\<close> give \<open>None\<close> as well. \<open>chain\<close> relates a head pointer to the list of node addresses, and
  the locale \<open>node_list\<close> states what the users of the macros rely on.
\<close>

section \<open>The macros\<close>

text \<open>\<^verbatim>\<open>slist_foreach\<close>: the nodes visited, as long as the fuel lasts.\<close>

fun slist_walk :: "nat \<Rightarrow> (u64 \<Rightarrow> u64) \<Rightarrow> u64 \<Rightarrow> u64 list option" where
  "slist_walk 0 nx p = None"
| "slist_walk (Suc fuel) nx p = (if p = 0 then Some [] else map_option ((#) p) (slist_walk fuel nx (nx p)))"

text \<open>The inner loop of \<^verbatim>\<open>slist_add_end\<close>: the node without a successor.\<close>

fun slist_end :: "nat \<Rightarrow> (u64 \<Rightarrow> u64) \<Rightarrow> u64 \<Rightarrow> u64 option" where
  "slist_end 0 nx p = None"
| "slist_end (Suc fuel) nx p = (if nx p \<noteq> 0 then slist_end fuel nx (nx p) else Some p)"

definition slist_add_end :: "nat \<Rightarrow> (u64 \<Rightarrow> u64) \<Rightarrow> u64 \<Rightarrow> u64 \<Rightarrow> (u64 \<times> (u64 \<Rightarrow> u64)) option" where
  "slist_add_end fuel nx head entry =
     (if head = 0 then Some (entry, nx)
      else case slist_end fuel nx head of None \<Rightarrow> None | Some l \<Rightarrow> Some (head, nx(l := entry)))"

definition slist_add_start :: "(u64 \<Rightarrow> u64) \<Rightarrow> u64 \<Rightarrow> u64 \<Rightarrow> u64 \<times> (u64 \<Rightarrow> u64)" where
  "slist_add_start nx head entry = (entry, nx(entry := head))"

text \<open>The loop of \<^verbatim>\<open>slist_del\<close> behind the head.\<close>

fun slist_unlink :: "nat \<Rightarrow> (u64 \<Rightarrow> u64) \<Rightarrow> u64 \<Rightarrow> u64 \<Rightarrow> (u64 \<Rightarrow> u64) option" where
  "slist_unlink 0 nx cur entry = None"
| "slist_unlink (Suc fuel) nx cur entry =
     (if cur = 0 then Some nx
      else if entry \<noteq> nx cur then slist_unlink fuel nx (nx cur) entry
      else Some (nx(cur := nx (nx cur))))"

definition slist_del :: "nat \<Rightarrow> (u64 \<Rightarrow> u64) \<Rightarrow> u64 \<Rightarrow> u64 \<Rightarrow> (u64 \<times> (u64 \<Rightarrow> u64)) option" where
  "slist_del fuel nx head entry =
     (if entry = head then Some (nx head, nx)
      else if head \<noteq> 0 then map_option (Pair head) (slist_unlink fuel nx head entry)
      else Some (head, nx))"

text \<open>Doubly linked lists: head, tail, \<^verbatim>\<open>next\<close> and \<^verbatim>\<open>prev\<close>.\<close>

record dlist =
  dl_head :: u64
  dl_tail :: u64
  dl_next :: "u64 \<Rightarrow> u64"
  dl_prev :: "u64 \<Rightarrow> u64"

definition dlist_add :: "dlist \<Rightarrow> u64 \<Rightarrow> dlist" where
  "dlist_add d entry =
     (if dl_tail d = 0
      then d\<lparr>dl_head := entry, dl_tail := entry,
             dl_next := (dl_next d)(entry := 0), dl_prev := (dl_prev d)(entry := 0)\<rparr>
      else d\<lparr>dl_prev := (dl_prev d)(entry := dl_tail d),
             dl_next := (dl_next d)(dl_tail d := entry), dl_tail := entry\<rparr>)"

text \<open>The loop of \<^verbatim>\<open>dlist_del\<close>; the successor's \<^verbatim>\<open>prev\<close> is set to \<^verbatim>\<open>cur->prev\<close>.\<close>

fun dlist_unlink :: "nat \<Rightarrow> dlist \<Rightarrow> u64 \<Rightarrow> u64 \<Rightarrow> dlist option" where
  "dlist_unlink 0 d cur entry = None"
| "dlist_unlink (Suc fuel) d cur entry =
     (if cur = 0 then Some d
      else if entry \<noteq> dl_next d cur then dlist_unlink fuel d (dl_next d cur) entry
      else let n2 = dl_next d (dl_next d cur);
               d1 = (if n2 \<noteq> 0 then d\<lparr>dl_prev := (dl_prev d)(n2 := dl_prev d cur)\<rparr> else d)
           in Some (d1\<lparr>dl_next := (dl_next d1)(cur := n2)\<rparr>))"

definition dlist_del :: "nat \<Rightarrow> dlist \<Rightarrow> u64 \<Rightarrow> dlist option" where
  "dlist_del fuel d entry =
     Option.bind
       (if entry = dl_head d
        then let h = dl_next d (dl_head d)
             in if h = 0 then None else Some (d\<lparr>dl_head := h, dl_prev := (dl_prev d)(h := 0)\<rparr>)
        else Some d)
       (\<lambda>d1. if entry = dl_tail d1
             then let t = dl_prev d1 (dl_tail d1)
                  in if t = 0 then None else Some (d1\<lparr>dl_tail := t, dl_next := (dl_next d1)(t := 0)\<rparr>)
             else if dl_head d1 \<noteq> 0 then dlist_unlink fuel d1 (dl_head d1) entry
             else Some d1)"

section \<open>Chains\<close>

fun chain :: "(u64 \<Rightarrow> u64) \<Rightarrow> u64 \<Rightarrow> u64 list \<Rightarrow> bool" where
  "chain nx p [] \<longleftrightarrow> p = 0"
| "chain nx p (x # xs) \<longleftrightarrow> p = x \<and> x \<noteq> 0 \<and> chain nx (nx x) xs"

lemma chain_unique: "chain nx p xs \<Longrightarrow> chain nx p ys \<Longrightarrow> xs = ys"
proof (induction xs arbitrary: p ys)
  case Nil
  then show ?case by (cases ys) auto
next
  case (Cons x xs)
  then show ?case by (cases ys) auto
qed

lemma chain_nonzero: "chain nx p xs \<Longrightarrow> 0 \<notin> set xs"
  by (induction xs arbitrary: p) auto

lemma chain_suffix: "chain nx p (xs @ y # ys) \<Longrightarrow> chain nx y (y # ys)"
  by (induction xs arbitrary: p) auto

lemma chain_distinct: "chain nx p xs \<Longrightarrow> distinct xs"
proof (induction xs arbitrary: p)
  case (Cons x xs)
  have "x \<notin> set xs"
  proof
    assume "x \<in> set xs"
    then obtain us vs where "xs = us @ x # vs" by (meson split_list)
    then have "chain nx x (x # vs)" using Cons.prems chain_suffix [of nx p "x # us" x vs] by simp
    moreover have "chain nx x (x # xs)" using Cons.prems by simp
    ultimately have "x # vs = x # xs" by (rule chain_unique)
    then have "length vs = length xs" by simp
    then show False using \<open>xs = us @ x # vs\<close> by simp
  qed
  then show ?case using Cons by auto
qed simp

lemma chain_frame: "\<forall>x \<in> set xs. nx x = nx' x \<Longrightarrow> chain nx p xs = chain nx' p xs"
  by (induction xs arbitrary: p) auto

lemma chain_upd [simp]: "a \<notin> set xs \<Longrightarrow> chain (nx(a := v)) p xs = chain nx p xs"
  by (rule chain_frame) auto

lemma chain_append_upd:
  "chain nx p (xs @ [y]) \<Longrightarrow> chain nx q ys \<Longrightarrow> y \<notin> set ys \<Longrightarrow> chain (nx(y := q)) p (xs @ y # ys)"
proof (induction xs arbitrary: p)
  case (Cons x xs)
  have "distinct (x # xs @ [y])" using Cons.prems(1) chain_distinct by fastforce
  then show ?case using Cons by auto
qed auto

lemma slist_walk_chain: "chain nx p xs \<Longrightarrow> length xs < fuel \<Longrightarrow> slist_walk fuel nx p = Some xs"
proof (induction xs arbitrary: p fuel)
  case Nil
  then show ?case by (cases fuel) auto
next
  case (Cons x xs)
  then show ?case by (cases fuel) auto
qed

lemma slist_walk_sound: "slist_walk fuel nx p = Some xs \<Longrightarrow> chain nx p xs"
  by (induction fuel arbitrary: p xs) (auto split: if_splits)

lemma slist_end_chain: "chain nx p (xs @ [y]) \<Longrightarrow> length xs < fuel \<Longrightarrow> slist_end fuel nx p = Some y"
proof (induction xs arbitrary: p fuel)
  case Nil
  then show ?case by (cases fuel) auto
next
  case (Cons x xs)
  then obtain f where f: "fuel = Suc f" by (cases fuel) auto
  have "nx x \<noteq> 0" using Cons.prems(1) by (cases xs) auto
  then show ?case using Cons f by auto
qed

lemma slist_add_end_chain:
  assumes "chain nx head xs" and "e \<noteq> 0" and "e \<notin> set xs" and "nx e = 0" and "length xs \<le> fuel" and "0 < fuel"
  shows "\<exists>head' nx'. slist_add_end fuel nx head e = Some (head', nx') \<and> chain nx' head' (xs @ [e])"
proof (cases xs rule: rev_cases)
  case Nil
  then show ?thesis using assms by (simp add: slist_add_end_def)
next
  case (snoc ys y)
  then have "head \<noteq> 0" using assms(1) by (cases ys) auto
  moreover have "slist_end fuel nx head = Some y"
    using slist_end_chain [of nx head ys y fuel] assms snoc by simp
  moreover have "chain (nx(y := e)) head (ys @ y # [e])"
    using assms snoc by (intro chain_append_upd) auto
  ultimately show ?thesis using snoc by (simp add: slist_add_end_def)
qed

lemma slist_add_start_chain:
  "chain nx head xs \<Longrightarrow> e \<noteq> 0 \<Longrightarrow> e \<notin> set xs \<Longrightarrow>
   chain (snd (slist_add_start nx head e)) (fst (slist_add_start nx head e)) (e # xs)"
  by (simp add: slist_add_start_def)

lemma slist_unlink_chain:
  "chain nx cur (xs @ [c] @ e # ys) \<Longrightarrow> length xs < fuel \<Longrightarrow>
   slist_unlink fuel nx cur e = Some (nx(c := nx e)) \<and> chain (nx(c := nx e)) cur (xs @ [c] @ ys)"
proof (induction xs arbitrary: cur fuel)
  case Nil
  then obtain f where f: "fuel = Suc f" by (cases fuel) auto
  have "distinct (c # e # ys)" using chain_distinct [OF Nil.prems(1)] by simp
  then have "chain (nx(c := nx e)) (nx e) ys" using Nil by simp
  moreover have "nx c = e" "c \<noteq> 0" "cur = c" using Nil by simp_all
  ultimately show ?case using f by (simp del: fun_upd_apply add: fun_upd_same)
next
  case (Cons x xs)
  obtain f where f: "fuel = Suc f" using Cons.prems(2) by (cases fuel) auto
  have d: "distinct (x # xs @ [c] @ e # ys)" using chain_distinct [OF Cons.prems(1)] by simp
  have "nx x \<noteq> e" using Cons.prems(1) d by (cases xs) auto
  moreover have "slist_unlink f nx (nx x) e = Some (nx(c := nx e)) \<and> chain (nx(c := nx e)) (nx x) (xs @ [c] @ ys)"
    using Cons f by (intro Cons.IH) auto
  ultimately show ?case using Cons.prems f d by (auto simp: fun_upd_def)
qed

lemma slist_unlink_absent:
  "chain nx cur xs \<Longrightarrow> e \<notin> set xs \<Longrightarrow> e \<noteq> 0 \<Longrightarrow> length xs < fuel \<Longrightarrow> slist_unlink fuel nx cur e = Some nx"
proof (induction xs arbitrary: cur fuel)
  case Nil
  then show ?case by (cases fuel) auto
next
  case (Cons x xs)
  obtain f where f: "fuel = Suc f" using Cons.prems(4) by (cases fuel) auto
  have "nx x \<noteq> e" using Cons.prems by (cases xs) auto
  then show ?case using Cons f by auto
qed

lemma slist_del_chain:
  assumes "chain nx head xs" and "e \<in> set xs" and "length xs \<le> fuel"
  shows "\<exists>head' nx'. slist_del fuel nx head e = Some (head', nx') \<and> chain nx' head' (remove1 e xs) \<and>
    (\<forall>a. a \<notin> set xs \<longrightarrow> nx' a = nx a) \<and> nx' e = nx e"
proof (cases "e = head")
  case True
  then show ?thesis using assms by (cases xs) (auto simp: slist_del_def)
next
  case False
  obtain us vs where xs: "xs = us @ e # vs" using assms(2) by (meson split_list)
  have h0: "head \<noteq> 0" using assms(1,2) by (cases xs) auto
  have "us \<noteq> []" using False assms(1) xs by (cases us) auto
  then obtain ys c where us: "us = ys @ [c]" by (metis rev_exhaust)
  have d: "distinct xs" by (rule chain_distinct [OF assms(1)])
  have "slist_unlink fuel nx head e = Some (nx(c := nx e))" "chain (nx(c := nx e)) head (ys @ [c] @ vs)"
    using slist_unlink_chain [of nx head ys c e vs fuel] assms xs us by simp_all
  moreover have "remove1 e xs = ys @ [c] @ vs" using d xs us by (simp add: remove1_append)
  moreover have "c \<noteq> e" using d xs us by auto
  ultimately show ?thesis using False h0 xs us
    by (intro exI [of _ head] exI [of _ "nx(c := nx e)"]) (simp add: slist_del_def)
qed

lemma slist_del_absent:
  assumes "chain nx head xs" and "e \<notin> set xs" and "e \<noteq> 0" and "length xs < fuel"
  shows "slist_del fuel nx head e = Some (head, nx)"
proof -
  have "e \<noteq> head" using assms by (cases xs) auto
  then show ?thesis using slist_unlink_absent [OF assms] by (auto simp: slist_del_def)
qed

section \<open>The list interface\<close>

text \<open>
  What a component that keeps its objects in a list relies on: the list \<open>absn s\<close> of a well-formed
  state, insertion of a new node and removal of a member.
\<close>

locale node_list =
  fixes rep :: "'s \<Rightarrow> u64 list \<Rightarrow> bool"
    and ins :: "'s \<Rightarrow> u64 \<Rightarrow> 's"
    and del :: "nat \<Rightarrow> 's \<Rightarrow> u64 \<Rightarrow> 's option"
  assumes rep_distinct: "rep s xs \<Longrightarrow> distinct xs \<and> 0 \<notin> set xs"
    and ins_rep: "rep s xs \<Longrightarrow> e \<noteq> 0 \<Longrightarrow> e \<notin> set xs \<Longrightarrow> rep (ins s e) (e # xs)"
    and del_rep: "rep s xs \<Longrightarrow> e \<in> set xs \<Longrightarrow> length xs \<le> fuel \<Longrightarrow>
      \<exists>s'. del fuel s e = Some s' \<and> rep s' (remove1 e xs)"
begin

lemma ins_del:
  assumes "rep s xs" and "e \<noteq> 0" and "e \<notin> set xs" and "length xs < fuel"
  shows "\<exists>s'. del fuel (ins s e) e = Some s' \<and> rep s' xs"
proof -
  have "rep (ins s e) (e # xs)" using assms by (intro ins_rep)
  from del_rep [OF this, of e fuel] show ?thesis using assms by simp
qed

lemma del_removes:
  assumes "rep s xs" and "e \<in> set xs" and "length xs \<le> fuel"
  shows "\<exists>s'. del fuel s e = Some s' \<and> (\<exists>ys. rep s' ys \<and> set ys = set xs - {e} \<and> length ys = length xs - 1)"
proof -
  obtain s' where "del fuel s e = Some s'" "rep s' (remove1 e xs)" using del_rep [OF assms] by blast
  moreover have "distinct xs" using rep_distinct [OF assms(1)] by simp
  ultimately show ?thesis using assms(2) by (auto simp: length_remove1)
qed

end

interpretation sl: node_list "\<lambda>(head, nx) xs. chain nx head xs"
  "\<lambda>(head, nx) e. slist_add_start nx head e" "\<lambda>fuel (head, nx) e. slist_del fuel nx head e"
proof (unfold_locales, goal_cases)
  case (1 s xs)
  then show ?case by (auto dest: chain_distinct chain_nonzero)
next
  case (2 s xs e)
  then show ?case by (cases s) (auto simp: slist_add_start_def)
next
  case (3 s xs e fuel)
  then show ?case using slist_del_chain by (cases s) fastforce
qed

section \<open>Properties\<close>

text \<open>
  \<^verbatim>\<open>slist_add_end\<close> appends the new node and \<^verbatim>\<open>slist_del\<close> removes exactly the given one: a
  node that was appended and deleted again leaves the list as it was.
\<close>

theorem slist_append_delete:
  assumes "chain nx head xs" and "e \<noteq> 0" and "e \<notin> set xs" and "nx e = 0" and "length xs < fuel"
  shows "\<exists>head1 nx1 head2 nx2. slist_add_end fuel nx head e = Some (head1, nx1) \<and> chain nx1 head1 (xs @ [e]) \<and>
    slist_del fuel nx1 head1 e = Some (head2, nx2) \<and> chain nx2 head2 xs"
proof -
  obtain head1 nx1 where a: "slist_add_end fuel nx head e = Some (head1, nx1)" "chain nx1 head1 (xs @ [e])"
    using slist_add_end_chain [OF assms(1-4), of fuel] assms(5) by auto
  have "remove1 e (xs @ [e]) = xs" using assms(3) by (simp add: remove1_append)
  then show ?thesis using slist_del_chain [OF a(2), of e fuel] a assms(5) by auto
qed

theorem slist_append_delete_witness:
  "\<exists>head1 nx1 head2 nx2. slist_add_end 2 (\<lambda>_. 0) 8 16 = Some (head1, nx1) \<and> chain nx1 head1 [8, 16] \<and>
    slist_del 2 nx1 head1 16 = Some (head2, nx2) \<and> chain nx2 head2 [8]"
  using slist_append_delete [of "\<lambda>_. 0" 8 "[8]" 16 2] by simp

text \<open>
  \<^verbatim>\<open>dlist_del\<close> of an inner node \<open>b\<close> between \<open>a\<close> and \<open>c\<close> links \<open>a\<close> to \<open>c\<close>, but sets
  \<^verbatim>\<open>c->prev\<close> to \<^verbatim>\<open>a->prev\<close>: the backward chain now skips \<open>a\<close>.
\<close>

theorem dlist_del_skips_prev:
  assumes "chain (dl_next d) (dl_head d) (a # b # c # xs)" and "dl_tail d \<noteq> b" and "0 < fuel"
  shows "\<exists>d'. dlist_del fuel d b = Some d' \<and> chain (dl_next d') (dl_head d') (a # c # xs) \<and>
    dl_prev d' c = dl_prev d a"
proof -
  obtain f where f: "fuel = Suc f" using assms(3) by (cases fuel) auto
  have d: "distinct (a # b # c # xs)" using assms(1) by (rule chain_distinct)
  have n: "dl_head d = a" "dl_next d a = b" "dl_next d b = c" "a \<noteq> 0" "c \<noteq> 0" "chain (dl_next d) (dl_next d c) xs"
    using assms(1) by simp_all
  then show ?thesis using d f assms(2) by (auto simp: dlist_del_def Let_def fun_upd_def [symmetric])
qed

theorem dlist_del_skips_prev_witness:
  "\<exists>d'. dlist_del 1 \<lparr>dl_head = 1, dl_tail = 3, dl_next = (\<lambda>_. 0)(1 := 2, 2 := 3), dl_prev = (\<lambda>_. 0)(3 := 2, 2 := 1)\<rparr> 2
     = Some d' \<and> dl_prev d' 3 = 0"
  using dlist_del_skips_prev [of "\<lparr>dl_head = 1, dl_tail = 3, dl_next = (\<lambda>_. 0)(1 := 2, 2 := 3),
      dl_prev = (\<lambda>_. 0)(3 := 2, 2 := 1)\<rparr>" 1 2 3 "[]" 1] by auto

end
