(* ===== verification/Str_Util.thy ===== *)
theory Str_Util
  imports Math_Util "HOL-Library.Sublist"
begin

text \<open>
  Memory and string routines: \<^verbatim>\<open>kernel/util/mem.c\<close> and \<^verbatim>\<open>kernel/util/string.c\<close>.
  A buffer is the list of bytes from its start; a character pointer into it is the list of bytes
  from the pointer on, or, where the code writes through it, an offset. \<open>None\<close> for a pointer
  is \<^verbatim>\<open>NULL\<close>; \<open>None\<close> for a result is an access outside the buffer, so that a theorem that
  gives \<open>Some\<close> also states that no such access happens.
\<close>

section \<open>Memory routines\<close>

type_synonym buf = "u8 list"

definition store :: "buf \<Rightarrow> nat \<Rightarrow> u8 \<Rightarrow> buf option" where
  "store b i v = (if i < length b then Some (b[i := v]) else None)"

definition load :: "buf \<Rightarrow> nat \<Rightarrow> u8 option" where
  "load b i = (if i < length b then Some (b ! i) else None)"

fun bzero_loop :: "buf \<Rightarrow> nat \<Rightarrow> nat \<Rightarrow> buf option" where
  "bzero_loop b p 0 = Some b"
| "bzero_loop b p (Suc n) =
     (case store b (p + n) 0 of None \<Rightarrow> None | Some b' \<Rightarrow> bzero_loop b' p n)"

definition bzero :: "buf \<Rightarrow> nat option \<Rightarrow> int \<Rightarrow> (bool \<times> buf) option" where
  "bzero b data sz =
     (case data of None \<Rightarrow> Some (False, b)
      | Some p \<Rightarrow> if sz \<le> 0 then Some (False, b)
                  else map_option (Pair True) (bzero_loop b p (nat sz)))"

text \<open>The copying loop, front to back; the result pointer is the advanced \<^verbatim>\<open>dst\<close>.\<close>

fun memcpy_loop :: "nat \<Rightarrow> buf \<Rightarrow> nat \<Rightarrow> buf \<Rightarrow> (nat \<times> buf) option" where
  "memcpy_loop 0 b p src = Some (p, b)"
| "memcpy_loop (Suc n) b p [] = None"
| "memcpy_loop (Suc n) b p (c # src) =
     (case store b p c of None \<Rightarrow> None | Some b' \<Rightarrow> memcpy_loop n b' (Suc p) src)"

definition memcpy :: "buf \<Rightarrow> nat option \<Rightarrow> buf option \<Rightarrow> int \<Rightarrow> (nat option \<times> buf) option" where
  "memcpy b dst src sz =
     (case (dst, src) of
        (Some p, Some s) \<Rightarrow> if sz \<le> 0 then Some (None, b)
                            else map_option (\<lambda>(q, b'). (Some q, b')) (memcpy_loop (nat sz) b p s)
      | _ \<Rightarrow> Some (None, b))"

text \<open>\<^verbatim>\<open>memswap\<close> on two bytes of one buffer, by exclusive or.\<close>

definition memswap :: "buf \<Rightarrow> nat \<Rightarrow> nat \<Rightarrow> buf option" where
  "memswap b x y =
     (if x = y then Some b
      else if \<not> (x < length b \<and> y < length b) then None
      else let b1 = b[x := b ! x XOR b ! y];
               b2 = b1[y := b1 ! y XOR b1 ! x]
           in Some (b2[x := b2 ! x XOR b2 ! y]))"

section \<open>String routines\<close>

fun strcmp_loop :: "buf \<Rightarrow> buf \<Rightarrow> u8 option" where
  "strcmp_loop (a # s1) (b # s2) =
     (if a \<noteq> 0 \<and> b \<noteq> 0 \<and> a = b then strcmp_loop s1 s2 else Some (a - b))"
| "strcmp_loop _ _ = None"

definition strcmp :: "buf option \<Rightarrow> buf option \<Rightarrow> u8 option" where
  "strcmp s1 s2 =
     (case (s1, s2) of (Some a, Some b) \<Rightarrow> strcmp_loop a b | _ \<Rightarrow> Some (- 1))"

fun strncmp :: "buf \<Rightarrow> buf \<Rightarrow> nat \<Rightarrow> u64 option" where
  "strncmp s1 s2 0 = Some 0"
| "strncmp [] s2 (Suc n) = None"
| "strncmp (a # s1) s2 (Suc n) =
     (if a = 0 then Some 0
      else case s2 of [] \<Rightarrow> None
           | b # s2' \<Rightarrow> if a \<noteq> b then Some (scast a - scast b) else strncmp s1 s2' n)"

fun strlwr :: "buf \<Rightarrow> buf option" where
  "strlwr [] = None"
| "strlwr (c # s) = (if c = 0 then Some (c # s) else map_option ((#) (c OR 32)) (strlwr s))"

fun strlen_loop :: "buf \<Rightarrow> nat option" where
  "strlen_loop [] = None"
| "strlen_loop (c # s) = (if c \<noteq> 0 then map_option Suc (strlen_loop s) else Some 0)"

definition strlen :: "buf option \<Rightarrow> nat option" where
  "strlen str = (case str of None \<Rightarrow> Some 0 | Some s \<Rightarrow> strlen_loop s)"

text \<open>The swapping loop of \<^verbatim>\<open>strrev\<close>: \<open>i\<close> is the moving \<^verbatim>\<open>str\<close>, \<open>j\<close> is
  \<^verbatim>\<open>indx\<close>.\<close>

function strrev_loop :: "buf \<Rightarrow> nat \<Rightarrow> nat \<Rightarrow> buf option" where
  "strrev_loop b i j =
     (if i = j then Some b
      else if \<not> (i < length b \<and> j < length b) then None
      else let b' = b[i := b ! j, j := b ! i]
           in if Suc i = j then Some b'
              else if j = 0 then None
              else strrev_loop b' (Suc i) (j - 1))"
  by pat_completeness auto
termination
  by (relation "measure (\<lambda>(b, i, j). length b - i)") (auto simp: Let_def)

declare strrev_loop.simps [simp del]

definition strrev :: "buf option \<Rightarrow> (bool \<times> buf option) option" where
  "strrev str =
     (case str of None \<Rightarrow> Some (False, None)
      | Some s \<Rightarrow>
          (case strlen str of None \<Rightarrow> None
           | Some indx \<Rightarrow> if indx \<le> 1 then Some (True, str)
                          else map_option (\<lambda>s'. (True, Some s')) (strrev_loop s 0 (indx - 1))))"

text \<open>The digit loops: the next index and the buffer.\<close>

function itou_loop :: "u64 \<Rightarrow> nat \<Rightarrow> buf \<Rightarrow> (nat \<times> buf) option" where
  "itou_loop num i dst =
     (case store dst i (ucast (num mod 10) + 48) of None \<Rightarrow> None
      | Some dst' \<Rightarrow> if num div 10 \<noteq> 0 then itou_loop (num div 10) (Suc i) dst'
                     else Some (Suc i, dst'))"
  by pat_completeness auto
termination
  by (relation "measure (\<lambda>(num, i, dst). unat num)")
    (auto simp: unat_div_distrib word_unat_eq_iff)

definition hex_chars :: "u8 list" where
  "hex_chars = [48, 49, 50, 51, 52, 53, 54, 55, 56, 57, 65, 66, 67, 68, 69, 70]"

function itoh_loop :: "u64 \<Rightarrow> nat \<Rightarrow> buf \<Rightarrow> (nat \<times> buf) option" where
  "itoh_loop num i dst =
     (case store dst i (hex_chars ! unat (num mod 16)) of None \<Rightarrow> None
      | Some dst' \<Rightarrow> if num div 16 \<noteq> 0 then itoh_loop (num div 16) (Suc i) dst'
                     else Some (Suc i, dst'))"
  by pat_completeness auto
termination
  by (relation "measure (\<lambda>(num, i, dst). unat num)")
    (auto simp: unat_div_distrib word_unat_eq_iff)

declare itou_loop.simps [simp del] itoh_loop.simps [simp del]

text \<open>The common tail of the three conversions: terminate, reverse, return the length.\<close>

definition ito_finish :: "nat \<times> buf \<Rightarrow> (nat \<times> buf option) option" where
  "ito_finish r =
     (case r of (i, dst) \<Rightarrow>
        (case store dst i 0 of None \<Rightarrow> None
         | Some dst' \<Rightarrow> map_option (\<lambda>(_, d). (i, d)) (strrev (Some dst'))))"

definition itou :: "u64 \<Rightarrow> buf option \<Rightarrow> (nat \<times> buf option) option" where
  "itou val dst =
     (case dst of None \<Rightarrow> Some (0, None)
      | Some d \<Rightarrow> Option.bind (itou_loop (abs_c val) 0 d) ito_finish)"

definition itod :: "i64 \<Rightarrow> buf option \<Rightarrow> (nat \<times> buf option) option" where
  "itod val dst =
     (case dst of None \<Rightarrow> Some (0, None)
      | Some d \<Rightarrow>
          Option.bind (itou_loop (abs_c val) 0 d) (\<lambda>(i, d').
          if val <s 0 then Option.bind (store d' i 45) (\<lambda>d''. ito_finish (Suc i, d''))
          else ito_finish (i, d')))"

definition itoh :: "u64 \<Rightarrow> buf option \<Rightarrow> (nat \<times> buf option) option" where
  "itoh val dst =
     (case dst of None \<Rightarrow> Some (0, None)
      | Some d \<Rightarrow> Option.bind (itoh_loop val 0 d) ito_finish)"

text \<open>\<^verbatim>\<open>strchr\<close>: the inner option is the returned pointer, as an offset from \<^verbatim>\<open>s\<close>.\<close>

fun strchr_loop :: "buf \<Rightarrow> u8 \<Rightarrow> nat option option" where
  "strchr_loop [] c = None"
| "strchr_loop (a # s) c =
     (if a = 0 then Some None
      else if a = c then Some (Some 0)
      else map_option (map_option Suc) (strchr_loop s c))"

definition strchr :: "buf option \<Rightarrow> u8 \<Rightarrow> nat option option" where
  "strchr s c = (case s of None \<Rightarrow> Some None | Some b \<Rightarrow> strchr_loop b c)"

lemma strchr_loop_bound: "strchr_loop s c = Some (Some k) \<Longrightarrow> k < length s"
  by (induction s c arbitrary: k rule: strchr_loop.induct) (auto split: if_splits)

function strstr_loop :: "buf \<Rightarrow> nat \<Rightarrow> buf \<Rightarrow> nat \<Rightarrow> nat option option" where
  "strstr_loop s off s2 len =
     (case strchr_loop s (hd s2) of
        None \<Rightarrow> None
      | Some None \<Rightarrow> Some None
      | Some (Some k) \<Rightarrow>
          (case strncmp (drop k s) s2 len of
             None \<Rightarrow> None
           | Some v \<Rightarrow> if v = 0 then Some (Some (off + k))
                       else strstr_loop (drop (Suc k) s) (off + Suc k) s2 len))"
  by pat_completeness auto
termination
  by (relation "measure (\<lambda>(s, off, s2, len). length s)") (auto dest: strchr_loop_bound)

declare strstr_loop.simps [simp del]

definition strstr :: "buf \<Rightarrow> buf \<Rightarrow> nat option option" where
  "strstr s1 s2 =
     (case strlen (Some s2) of None \<Rightarrow> None
      | Some len \<Rightarrow> if len = 0 then Some (Some 0) else strstr_loop s1 0 s2 len)"

text \<open>\<^verbatim>\<open>strncpy\<close> to the start of \<open>b\<close>: the returned pointer and the buffer.\<close>

definition strncpy :: "buf \<Rightarrow> buf \<Rightarrow> nat \<Rightarrow> (nat option \<times> buf) option" where
  "strncpy b src dsize =
     Option.bind (strlen (Some src)) (\<lambda>n.
       let ssize = (if n > dsize then dsize else n) in
       Option.bind (memcpy b (Some 0) (Some src) (int ssize)) (\<lambda>(dst, b1).
       Option.bind (bzero b1 dst (int dsize - int ssize)) (\<lambda>(_, b2). Some (dst, b2))))"

section \<open>Error messages\<close>

definition error_table :: "(int \<times> string \<times> string) list" where
  "error_table =
    [(1, ''EPERM'', ''Not owner''),
     (2, ''ENOENT'', ''No such file or directory''),
     (3, ''ESRCH'', ''No such process''),
     (4, ''EINTR'', ''Interrupted system call''),
     (5, ''EIO'', ''I/O error''),
     (6, ''ENXIO'', ''No such device or address''),
     (7, ''E2BIG'', ''Arg list too long''),
     (8, ''ENOEXEC'', ''Exec format error''),
     (9, ''EBADF'', ''Bad file number''),
     (10, ''ECHILD'', ''No child processes''),
     (11, ''EWOULDBLOCK'', ''Operation would block''),
     (11, ''EAGAIN'', ''No more processes''),
     (12, ''ENOMEM'', ''Not enough space''),
     (13, ''EACCES'', ''Permission denied''),
     (14, ''EFAULT'', ''Bad address''),
     (15, ''ENOTBLK'', ''Block device required''),
     (16, ''EBUSY'', ''Device busy''),
     (17, ''EEXIST'', ''File exists''),
     (18, ''EXDEV'', ''Cross-device link''),
     (19, ''ENODEV'', ''No such device''),
     (20, ''ENOTDIR'', ''Not a directory''),
     (21, ''EISDIR'', ''Is a directory''),
     (22, ''EINVAL'', ''Invalid argument''),
     (23, ''ENFILE'', ''File table overflow''),
     (24, ''EMFILE'', ''Too many open files''),
     (25, ''ENOTTY'', ''Not a typewriter''),
     (26, ''ETXTBSY'', ''Text file busy''),
     (27, ''EFBIG'', ''File too large''),
     (28, ''ENOSPC'', ''No space left on device''),
     (29, ''ESPIPE'', ''Illegal seek''),
     (30, ''EROFS'', ''Read-only file system''),
     (31, ''EMLINK'', ''Too many links''),
     (32, ''EPIPE'', ''Broken pipe''),
     (33, ''EDOM'', ''Math argument out of domain of func''),
     (34, ''ERANGE'', ''Result too large''),
     (42, ''ENOMSG'', ''No message of desired type''),
     (43, ''EIDRM'', ''Identifier removed''),
     (44, ''ECHRNG'', ''Channel number out of range''),
     (45, ''EL2NSYNC'', ''Level 2 not synchronized''),
     (46, ''EL3HLT'', ''Level 3 halted''),
     (47, ''EL3RST'', ''Level 3 reset''),
     (48, ''ELNRNG'', ''Link number out of range''),
     (49, ''EUNATCH'', ''Protocol driver not attached''),
     (50, ''ENOCSI'', ''No CSI structure available''),
     (51, ''EL2HLT'', ''Level 2 halted''),
     (35, ''EDEADLK'', ''Deadlock condition''),
     (37, ''ENOLCK'', ''No record locks available''),
     (52, ''EBADE'', ''Invalid exchange''),
     (53, ''EBADR'', ''Invalid request descriptor''),
     (54, ''EXFULL'', ''Exchange full''),
     (55, ''ENOANO'', ''No anode''),
     (56, ''EBADRQC'', ''Invalid request code''),
     (57, ''EBADSLT'', ''Invalid slot''),
     (35, ''EDEADLOCK'', ''File locking deadlock error''),
     (59, ''EBFONT'', ''Bad font file format''),
     (60, ''ENOSTR'', ''Device not a stream''),
     (61, ''ENODATA'', ''No data available''),
     (62, ''ETIME'', ''Timer expired''),
     (63, ''ENOSR'', ''Out of streams resources''),
     (64, ''ENONET'', ''Machine is not on the network''),
     (65, ''ENOPKG'', ''Package not installed''),
     (66, ''EREMOTE'', ''Object is remote''),
     (67, ''ENOLINK'', ''Link has been severed''),
     (68, ''EADV'', ''Advertise error''),
     (69, ''ESRMNT'', ''Srmount error''),
     (70, ''ECOMM'', ''Communication error on send''),
     (71, ''EPROTO'', ''Protocol error''),
     (72, ''EMULTIHOP'', ''Multihop attempted''),
     (73, ''EDOTDOT'', ''RFS specific error''),
     (74, ''EBADMSG'', ''Not a data message''),
     (36, ''ENAMETOOLONG'', ''File name too long''),
     (75, ''EOVERFLOW'', ''Value too large for defined data type''),
     (76, ''ENOTUNIQ'', ''Name not unique on network''),
     (77, ''EBADFD'', ''File descriptor in bad state''),
     (78, ''EREMCHG'', ''Remote address changed''),
     (79, ''ELIBACC'', ''Cannot access a needed shared library''),
     (80, ''ELIBBAD'', ''Accessing a corrupted shared library''),
     (81, ''ELIBSCN'', ''.lib section in a.out corrupted''),
     (82, ''ELIBMAX'', ''Attempting to link in too many shared libraries''),
     (83, ''ELIBEXEC'', ''Cannot exec a shared library directly''),
     (84, ''EILSEQ'', ''Illegal byte sequence''),
     (38, ''ENOSYS'', ''Function not implemented''),
     (40, ''ELOOP'', ''Too many symbolic links encountered''),
     (85, ''ERESTART'', ''Interrupted system call should be restarted''),
     (86, ''ESTRPIPE'', ''Streams pipe error''),
     (39, ''ENOTEMPTY'', ''Directory not empty''),
     (87, ''EUSERS'', ''Too many users''),
     (88, ''ENOTSOCK'', ''Socket operation on non-socket''),
     (89, ''EDESTADDRREQ'', ''Destination address required''),
     (90, ''EMSGSIZE'', ''Message too long''),
     (91, ''EPROTOTYPE'', ''Protocol wrong type for socket''),
     (92, ''ENOPROTOOPT'', ''Protocol not available''),
     (93, ''EPROTONOSUPPORT'', ''Protocol not supported''),
     (94, ''ESOCKTNOSUPPORT'', ''Socket type not supported''),
     (95, ''EOPNOTSUPP'', ''Operation not supported on transport endpoint''),
     (96, ''EPFNOSUPPORT'', ''Protocol family not supported''),
     (97, ''EAFNOSUPPORT'', ''Address family not supported by protocol''),
     (98, ''EADDRINUSE'', ''Address already in use''),
     (99, ''EADDRNOTAVAIL'', ''Cannot assign requested address''),
     (100, ''ENETDOWN'', ''Network is down''),
     (101, ''ENETUNREACH'', ''Network is unreachable''),
     (102, ''ENETRESET'', ''Network dropped connection because of reset''),
     (103, ''ECONNABORTED'', ''Software caused connection abort''),
     (104, ''ECONNRESET'', ''Connection reset by peer''),
     (105, ''ENOBUFS'', ''No buffer space available''),
     (106, ''EISCONN'', ''Transport endpoint is already connected''),
     (107, ''ENOTCONN'', ''Transport endpoint is not connected''),
     (108, ''ESHUTDOWN'', ''Cannot send after transport endpoint shutdown''),
     (109, ''ETOOMANYREFS'', ''Too many references: cannot splice''),
     (110, ''ETIMEDOUT'', ''Connection timed out''),
     (111, ''ECONNREFUSED'', ''Connection refused''),
     (112, ''EHOSTDOWN'', ''Host is down''),
     (113, ''EHOSTUNREACH'', ''No route to host''),
     (114, ''EALREADY'', ''Operation already in progress''),
     (115, ''EINPROGRESS'', ''Operation now in progress''),
     (116, ''ESTALE'', ''Stale NFS file handle''),
     (117, ''EUCLEAN'', ''Structure needs cleaning''),
     (118, ''ENOTNAM'', ''Not a XENIX named type file''),
     (119, ''ENAVAIL'', ''No XENIX semaphores available''),
     (120, ''EISNAM'', ''Is a named type file''),
     (121, ''EREMOTEIO'', ''Remote I/O error'')]"

definition strerror :: "int \<Rightarrow> string" where
  "strerror err =
     (case find (\<lambda>(v, _, _). err = v \<or> err = - v) error_table of
        Some (_, _, msg) \<Rightarrow> msg
      | None \<Rightarrow> ''Unknown error code'')"

section \<open>Memory routines write the blocks they name\<close>

lemma bzero_loop_block:
  "p + n \<le> length b \<Longrightarrow> bzero_loop b p n = Some (take p b @ replicate n 0 @ drop (p + n) b)"
proof (induction n arbitrary: b)
  case (Suc n)
  have "bzero_loop b p (Suc n) = bzero_loop (b[p + n := 0]) p n"
    using Suc.prems by (simp add: store_def)
  also have "\<dots> = Some (take p b @ replicate n 0 @ 0 # drop (p + Suc n) b)"
    using Suc.prems Suc.IH [of "b[p + n := 0]"]
    by (simp add: drop_update_swap Cons_nth_drop_Suc [symmetric])
  finally show ?case by (simp add: replicate_append_same flip: append_Cons)
qed simp

lemma memcpy_loop_block:
  "n \<le> length src \<Longrightarrow> p + n \<le> length b \<Longrightarrow>
   memcpy_loop n b p src = Some (p + n, take p b @ take n src @ drop (p + n) b)"
proof (induction n b p src rule: memcpy_loop.induct)
  case (3 n b p c src)
  then show ?case
    by (simp add: store_def take_Suc_conv_app_nth drop_update_cancel)
qed simp_all

lemma memswap_swaps:
  assumes "x < length b" and "y < length b"
  shows "memswap b x y = Some (b[x := b ! y, y := b ! x])"
proof (cases "x = y")
  case True
  then show ?thesis by (simp add: memswap_def)
next
  case False
  have eq: "(b ! x XOR b ! y) XOR b ! x = b ! y"
    "b ! y XOR (b ! x XOR b ! y) = b ! x"
    by (intro bit_eqI, auto simp: bit_simps)+
  show ?thesis
    using assms False
    by (simp add: memswap_def Let_def eq list_update_swap [of x y])
qed

section \<open>Length, comparison and search\<close>

lemma strlen_cstr: "0 \<notin> set xs \<Longrightarrow> strlen (Some (xs @ 0 # r)) = Some (length xs)"
  unfolding strlen_def by (induction xs) auto

lemma strcmp_loop_zero:
  "0 \<notin> set xs \<Longrightarrow> 0 \<notin> set ys \<Longrightarrow>
   \<exists>v. strcmp_loop (xs @ 0 # r) (ys @ 0 # r') = Some v \<and> (v = 0 \<longleftrightarrow> xs = ys)"
proof (induction xs arbitrary: ys)
  case Nil
  then show ?case by (cases ys) auto
next
  case (Cons a xs)
  then show ?case by (cases ys) auto
qed

text \<open>
  \<^verbatim>\<open>strcmp\<close> on two NUL-terminated strings never reads past their ends and returns 0 exactly
  when the strings are equal.
\<close>

theorem strcmp_eq_iff:
  assumes "0 \<notin> set xs" and "0 \<notin> set ys"
  shows "\<exists>v. strcmp (Some (xs @ 0 # r)) (Some (ys @ 0 # r')) = Some v \<and> (v = 0 \<longleftrightarrow> xs = ys)"
  unfolding strcmp_def using strcmp_loop_zero [OF assms] by simp

theorem strcmp_eq_iff_witness:
  "\<exists>v. strcmp (Some [97, 98, 0]) (Some [97, 99, 0]) = Some v \<and> v \<noteq> 0"
  using strcmp_eq_iff [of "[97, 98]" "[97, 99]" "[]" "[]"] by auto

lemma ucast_scast_u8: "ucast (scast (a :: u8) :: u64) = a"
proof (rule bit_eqI)
  fix n assume "possible_bit TYPE(u8) n"
  then have "n = 7 \<or> n < 7" by auto
  then show "bit (ucast (scast a :: u64) :: u8) n = bit a n"
    by (auto simp: bit_simps min_def)
qed

lemma scast_diff_zero_iff: "(scast (a :: u8) - scast b :: u64) = 0 \<longleftrightarrow> a = b"
  by (metis ucast_scast_u8 eq_iff_diff_eq_0)

lemma strncmp_zero:
  "0 \<notin> set xs \<Longrightarrow> 0 \<notin> set ys \<Longrightarrow>
   \<exists>v. strncmp (xs @ 0 # r) (ys @ 0 # r') n = Some v \<and> (v = 0 \<longleftrightarrow> prefix (take n xs) ys)"
proof (induction n arbitrary: xs ys)
  case (Suc n)
  show ?case
  proof (cases xs)
    case (Cons a as)
    then show ?thesis
    proof (cases ys)
      case Nil
      then show ?thesis using Cons Suc.prems scast_diff_zero_iff [of a 0] by simp
    next
      case (Cons b bs)
      then show ?thesis
        using \<open>xs = a # as\<close> Suc.prems Suc.IH [of as bs]
        by (auto simp: scast_diff_zero_iff simp del: right_minus_eq)
    qed
  qed simp
qed simp

text \<open>
  \<^verbatim>\<open>strncmp(s1, s2, n)\<close> on NUL-terminated strings stays inside them and returns 0 exactly when
  the first \<open>n\<close> characters of \<^verbatim>\<open>s1\<close> are a prefix of \<^verbatim>\<open>s2\<close>. The test is not symmetric: a
  shorter \<^verbatim>\<open>s1\<close> that is a prefix of \<^verbatim>\<open>s2\<close> also compares as equal.
\<close>

theorem strncmp_zero_iff_prefix:
  assumes "0 \<notin> set xs" and "0 \<notin> set ys"
  shows "\<exists>v. strncmp (xs @ 0 # r) (ys @ 0 # r') n = Some v \<and> (v = 0 \<longleftrightarrow> prefix (take n xs) ys)"
  using assms by (rule strncmp_zero)

theorem strncmp_zero_iff_prefix_witness:
  "strncmp [97, 0] [97, 98, 99, 0] 3 = Some 0"
  using strncmp_zero_iff_prefix [of "[97]" "[97, 98, 99]" "[]" "[]" 3] by auto

section \<open>Reversal\<close>

lemma strrev_loop_nth:
  "i \<le> j \<Longrightarrow> j < length b \<Longrightarrow>
   \<exists>b'. strrev_loop b i j = Some b' \<and> length b' = length b \<and>
     (\<forall>k < length b. b' ! k = (if i \<le> k \<and> k \<le> j then b ! (i + j - k) else b ! k))"
proof (induction b i j rule: strrev_loop.induct)
  case (1 b i j)
  let ?b = "b[i := b ! j, j := b ! i]"
  show ?case
  proof (cases "i = j")
    case True
    then show ?thesis by (auto simp: strrev_loop.simps)
  next
    case False
    then have lt: "i < j" "i < length b" using "1.prems" by auto
    show ?thesis
    proof (cases "Suc i = j")
      case True
      then show ?thesis using lt "1.prems"
        by (auto simp: strrev_loop.simps [of b i j] nth_list_update le_Suc_eq)
    next
      case ne: False
      then have "Suc i \<le> j - 1" "j - 1 < length ?b" "0 < j" using lt "1.prems" by auto
      then obtain b' where b': "strrev_loop ?b (Suc i) (j - 1) = Some b'" "length b' = length b"
        "\<forall>k < length b. b' ! k = (if Suc i \<le> k \<and> k \<le> j - 1 then ?b ! (Suc i + (j - 1) - k) else ?b ! k)"
        using "1.IH" [OF False _ refl ne] lt "1.prems" by auto
      have "b' ! k = (if i \<le> k \<and> k \<le> j then b ! (i + j - k) else b ! k)" if k: "k < length b" for k
      proof -
        consider "k < i" | "k = i" | "i < k" "k < j" | "k = j" | "j < k" by linarith
        then show ?thesis
        proof cases
          case 3
          then have "Suc i + (j - 1) - k = i + j - k" "i + j - k \<noteq> i" "i + j - k \<noteq> j" by auto
          then show ?thesis using b'(3) k 3 by auto
        qed (use b'(3) k lt "1.prems" in auto)
      qed
      then show ?thesis using b' lt ne "1.prems" by (auto simp: strrev_loop.simps [of b i j] Let_def)
    qed
  qed
qed

lemma strrev_cstr:
  assumes "0 \<notin> set xs"
  shows "strrev (Some (xs @ 0 # r)) = Some (True, Some (rev xs @ 0 # r))"
proof (cases "length xs \<le> 1")
  case True
  then have "rev xs = xs" by (cases xs) auto
  then show ?thesis using True assms by (simp add: strrev_def strlen_cstr)
next
  case False
  let ?b = "xs @ 0 # r"
  have lt: "length xs - 1 < length ?b" by simp
  obtain b' where b': "strrev_loop ?b 0 (length xs - 1) = Some b'" "length b' = length ?b"
    "\<forall>k < length ?b. b' ! k =
       (if 0 \<le> k \<and> k \<le> length xs - 1 then ?b ! (0 + (length xs - 1) - k) else ?b ! k)"
    using strrev_loop_nth [OF le0 lt] by blast
  have "b' = rev xs @ 0 # r"
  proof (rule nth_equalityI)
    show "length b' = length (rev xs @ 0 # r)" using b'(2) by simp
    fix k assume "k < length b'"
    then have k: "k < length ?b" using b'(2) by simp
    show "b' ! k = (rev xs @ 0 # r) ! k"
      using b'(3) [rule_format, OF k] False by (auto simp: nth_append rev_nth)
  qed
  then show ?thesis using b'(1) False assms by (simp add: strrev_def strlen_cstr)
qed

text \<open>
  \<^verbatim>\<open>strrev\<close> reverses a NUL-terminated string in place, keeps the terminator and everything
  behind it, and touches no byte outside the buffer.
\<close>

theorem strrev_reverses:
  assumes "0 \<notin> set xs"
  shows "strrev (Some (xs @ 0 # r)) = Some (True, Some (rev xs @ 0 # r))"
  using assms by (rule strrev_cstr)

theorem strrev_reverses_witness: "strrev (Some [97, 98, 99, 0, 7]) = Some (True, Some [99, 98, 97, 0, 7])"
  using strrev_reverses [of "[97, 98, 99]" "[7]"] by simp

section \<open>Number conversion\<close>

text \<open>What a digit string denotes.\<close>

definition dec_val :: "u8 list \<Rightarrow> nat" where
  "dec_val s = foldl (\<lambda>a c. 10 * a + (unat c - 48)) 0 s"

definition is_dec :: "u8 \<Rightarrow> bool" where
  "is_dec c \<longleftrightarrow> 48 \<le> c \<and> c \<le> 57"

definition hex_digit :: "u8 \<Rightarrow> nat" where
  "hex_digit c = (if c \<le> 57 then unat c - 48 else unat c - 55)"

definition hex_val :: "u8 list \<Rightarrow> nat" where
  "hex_val s = foldl (\<lambda>a c. 16 * a + hex_digit c) 0 s"

text \<open>The digits the loops write, least significant first.\<close>

function dec_rev :: "u64 \<Rightarrow> u8 list" where
  "dec_rev n = (ucast (n mod 10) + 48) # (if n div 10 \<noteq> 0 then dec_rev (n div 10) else [])"
  by pat_completeness auto
termination
  by (relation "measure unat") (auto simp: unat_div_distrib word_unat_eq_iff)

function hex_rev :: "u64 \<Rightarrow> u8 list" where
  "hex_rev n = (hex_chars ! unat (n mod 16)) # (if n div 16 \<noteq> 0 then hex_rev (n div 16) else [])"
  by pat_completeness auto
termination
  by (relation "measure unat") (auto simp: unat_div_distrib word_unat_eq_iff)

declare dec_rev.simps [simp del] hex_rev.simps [simp del]

lemma store_block:
  "i < length d \<Longrightarrow> take (Suc i) (d[i := v]) @ xs @ drop (Suc i + k) (d[i := v]) =
     take i d @ (v # xs) @ drop (i + Suc k) d"
  by (simp add: take_Suc_conv_app_nth)

lemma itou_loop_digits:
  "i + length (dec_rev n) \<le> length d \<Longrightarrow>
   itou_loop n i d = Some (i + length (dec_rev n), take i d @ dec_rev n @ drop (i + length (dec_rev n)) d)"
proof (induction n i d rule: itou_loop.induct)
  case (1 n i d)
  let ?d = "d[i := ucast (n mod 10) + 48]"
  have st: "store d i (ucast (n mod 10) + 48) = Some ?d" and i: "i < length d"
    using "1.prems" by (auto simp: store_def dec_rev.simps [of n])
  show ?case
  proof (cases "n div 10 \<noteq> 0")
    case True
    have dr: "dec_rev n = (ucast (n mod 10) + 48) # dec_rev (n div 10)"
      using True by (simp add: dec_rev.simps [of n])
    show ?thesis
      using "1.IH" [OF st True] "1.prems" st True i store_block [OF i]
      by (simp add: itou_loop.simps [of n i d] dr)
  next
    case False
    then show ?thesis
      using st i upd_conv_take_nth_drop [OF i]
      by (simp add: itou_loop.simps [of n i d] dec_rev.simps [of n])
  qed
qed

lemma itoh_loop_digits:
  "i + length (hex_rev n) \<le> length d \<Longrightarrow>
   itoh_loop n i d = Some (i + length (hex_rev n), take i d @ hex_rev n @ drop (i + length (hex_rev n)) d)"
proof (induction n i d rule: itoh_loop.induct)
  case (1 n i d)
  let ?d = "d[i := hex_chars ! unat (n mod 16)]"
  have st: "store d i (hex_chars ! unat (n mod 16)) = Some ?d" and i: "i < length d"
    using "1.prems" by (auto simp: store_def hex_rev.simps [of n])
  show ?case
  proof (cases "n div 16 \<noteq> 0")
    case True
    have dr: "hex_rev n = (hex_chars ! unat (n mod 16)) # hex_rev (n div 16)"
      using True by (simp add: hex_rev.simps [of n])
    show ?thesis
      using "1.IH" [OF st True] "1.prems" st True i store_block [OF i]
      by (simp add: itoh_loop.simps [of n i d] dr)
  next
    case False
    then show ?thesis
      using st i upd_conv_take_nth_drop [OF i]
      by (simp add: itoh_loop.simps [of n i d] hex_rev.simps [of n])
  qed
qed

lemma dec_digit_unat: "unat (ucast (n mod 10 :: u64) + 48 :: u8) = unat n mod 10 + 48"
proof -
  have "unat (n mod 10) < 10" by (simp add: unat_mod_distrib)
  then have "unat (ucast (n mod 10) :: u8) = unat n mod 10"
    by (simp add: unsigned_ucast_eq take_bit_nat_eq_self unat_mod_distrib)
  then show ?thesis by (simp add: unat_word_ariths)
qed

lemma dec_rev_props:
  "length (dec_rev n) = gdu n \<and> dec_val (rev (dec_rev n)) = unat n \<and> (\<forall>c \<in> set (dec_rev n). is_dec c)"
proof (induction n rule: dec_rev.induct)
  case (1 n)
  have dig: "is_dec (ucast (n mod 10) + 48)"
    using dec_digit_unat [of n] by (simp add: is_dec_def word_le_nat_alt)
  have small: "n div 10 \<noteq> 0 \<longleftrightarrow> \<not> n < 10"
    by (simp add: word_unat_eq_iff unat_div_distrib word_less_nat_alt not_less div_eq_0_iff)
  show ?case
  proof (cases "n div 10 \<noteq> 0")
    case True
    then show ?thesis using "1.IH" [OF True] dig small
      by (auto simp: dec_rev.simps [of n] gdu.simps [of n] dec_val_def dec_digit_unat unat_div_distrib)
  next
    case False
    then have "unat n < 10" using small by (simp add: word_less_nat_alt)
    then show ?thesis using False dig small
      by (auto simp: dec_rev.simps [of n] gdu.simps [of n] dec_val_def dec_digit_unat)
  qed
qed

lemma ito_finish_digits:
  assumes "0 \<notin> set xs" and "length xs < length d"
  shows "ito_finish (length xs, xs @ drop (length xs) d) =
    Some (length xs, Some (rev xs @ 0 # drop (Suc (length xs)) d))"
proof -
  have "(drop (length xs) d)[0 := 0] = 0 # drop (Suc (length xs)) d"
    using assms(2) by (simp add: Cons_nth_drop_Suc [symmetric])
  then have "store (xs @ drop (length xs) d) (length xs) 0 = Some (xs @ 0 # drop (Suc (length xs)) d)"
    using assms(2) by (simp add: store_def list_update_append)
  then show ?thesis by (simp add: ito_finish_def strrev_cstr assms(1))
qed

lemma dec_rev_no_zero: "0 \<notin> set (dec_rev n)"
  using dec_rev_props [of n] by (auto simp: is_dec_def)

lemma itou_run:
  assumes "gdu (abs_c v) < length d"
  shows "itou v (Some d) = Some (gdu (abs_c v),
    Some (rev (dec_rev (abs_c v)) @ 0 # drop (Suc (gdu (abs_c v))) d))"
  using assms itou_loop_digits [of 0 "abs_c v" d] ito_finish_digits [OF dec_rev_no_zero, of "abs_c v" d]
  by (simp add: itou_def dec_rev_props)

text \<open>
  \<^verbatim>\<open>itou\<close> writes the shortest decimal representation of \<^verbatim>\<open>abs(val)\<close>, terminates it, and
  returns its length; a destination of \<^verbatim>\<open>gdu\<close> digits and the terminator is never overrun. For a
  value with the top bit set, \<^verbatim>\<open>abs\<close> negates it first, so \<^verbatim>\<open>2\<^sup>64 - val\<close> is printed.
\<close>

theorem itou_decimal:
  assumes "gdu (abs_c v) < length d"
  shows "\<exists>s r. itou v (Some d) = Some (length s, Some (s @ 0 # r)) \<and>
    length (s @ 0 # r) = length d \<and> length s = gdu (abs_c v) \<and> (\<forall>c \<in> set s. is_dec c) \<and>
    dec_val s = (if unat v < 2 ^ 63 then unat v else 2 ^ 64 - unat v)"
proof -
  have "unat (abs_c v) = (if unat v < 2 ^ 63 then unat v else 2 ^ 64 - unat v)"
    using abs_c_unat by blast
  then show ?thesis
    using itou_run [OF assms] dec_rev_props [of "abs_c v"] assms
    by - (rule exI [of _ "rev (dec_rev (abs_c v))"], rule exI [of _ "drop (Suc (gdu (abs_c v))) d"], simp)
qed

theorem itou_decimal_witness:
  "\<exists>s r. itou 1073 (Some (replicate 5 0)) = Some (length s, Some (s @ 0 # r)) \<and> dec_val s = 1073"
proof -
  have "gdu (abs_c 1073) < length (replicate 5 (0 :: u8))"
    by (simp add: gdu.simps abs_c_def word_sle_eq)
  from itou_decimal [OF this] show ?thesis by auto
qed

text \<open>The value of a decimal string with an optional sign.\<close>

definition dec_sval :: "u8 list \<Rightarrow> int" where
  "dec_sval s = (case s of [] \<Rightarrow> 0 | c # t \<Rightarrow> if c = 45 then - int (dec_val t) else int (dec_val s))"

lemma dec_sval_unsigned: "\<forall>c \<in> set s. is_dec c \<Longrightarrow> dec_sval s = int (dec_val s)"
  by (cases s) (auto simp: dec_sval_def is_dec_def dec_val_def)

lemma sint_abs_c: "sint v = (if v <s 0 then - int (unat (abs_c v)) else int (unat (abs_c v)))"
proof (cases "unat v < 2 ^ 63")
  case True
  then show ?thesis using abs_c_unat [of v] sint_u64 [of v] by (simp add: word_sless_alt)
next
  case False
  then have "int (unat (abs_c v)) = 2 ^ 64 - int (unat v)"
    using abs_c_unat [of v] unat_lt64 [of v] by (simp add: of_nat_diff)
  then show ?thesis using False sint_u64 [of v] uint_lt2p [of v] by (simp add: word_sless_alt)
qed

text \<open>The text of a signed value.\<close>

definition sdec :: "i64 \<Rightarrow> u8 list" where
  "sdec v = (if v <s 0 then [45] else []) @ rev (dec_rev (abs_c v))"

lemma sdec_props: "length (sdec v) = gd (sint v) \<and> dec_sval (sdec v) = sint v \<and> 0 \<notin> set (sdec v)"
proof (cases "v <s 0")
  case True
  then show ?thesis using dec_rev_props [of "abs_c v"] dec_rev_no_zero [of "abs_c v"] sint_abs_c [of v] gd_sint [of v]
    by (simp add: sdec_def dec_sval_def)
next
  case False
  then show ?thesis using dec_rev_props [of "abs_c v"] dec_rev_no_zero [of "abs_c v"] sint_abs_c [of v] gd_sint [of v]
      dec_sval_unsigned [of "rev (dec_rev (abs_c v))"] by (simp add: sdec_def)
qed

lemma itod_run:
  assumes "gd (sint v) < length d"
  shows "itod v (Some d) = Some (length (sdec v), Some (sdec v @ 0 # drop (Suc (length (sdec v))) d))"
proof -
  let ?n = "abs_c v" and ?ds = "dec_rev (abs_c v)"
  note D = dec_rev_props [of ?n]
  have len: "gdu ?n < length d" using assms by (simp add: gd_sint split: if_splits)
  have loop: "itou_loop ?n 0 d = Some (gdu ?n, ?ds @ drop (gdu ?n) d)"
    using itou_loop_digits [of 0 ?n d] len D by simp
  show ?thesis
  proof (cases "v <s 0")
    case False
    then show ?thesis
      using loop len ito_finish_digits [OF dec_rev_no_zero, of ?n d] D by (simp add: itod_def sdec_def)
  next
    case True
    let ?xs = "?ds @ [45]"
    have lx: "Suc (gdu ?n) < length d" using assms True by (simp add: gd_sint)
    have "drop (gdu ?n) d = d ! gdu ?n # drop (Suc (gdu ?n)) d"
      using len by (rule Cons_nth_drop_Suc [symmetric])
    then have st: "store (?ds @ drop (gdu ?n) d) (gdu ?n) 45 = Some (?xs @ drop (length ?xs) d)"
      using len D by (simp add: store_def list_update_append)
    have "0 \<notin> set ?xs" using dec_rev_no_zero by simp
    then show ?thesis using loop True st ito_finish_digits [of ?xs d] lx D by (simp add: itod_def sdec_def)
  qed
qed

text \<open>
  \<^verbatim>\<open>itod\<close> writes the decimal representation of a signed 64-bit value, the most negative one
  included; the \<^verbatim>\<open>gd(val) + 1\<close> bytes that \<^verbatim>\<open>vprintf\<close> reserves for it are always enough.
\<close>

theorem itod_decimal:
  assumes "gd (sint v) < length d"
  shows "\<exists>s r. itod v (Some d) = Some (length s, Some (s @ 0 # r)) \<and>
    length (s @ 0 # r) = length d \<and> length s = gd (sint v) \<and> dec_sval s = sint v"
  using itod_run [OF assms] sdec_props [of v] assms
  by - (rule exI [of _ "sdec v"], rule exI [of _ "drop (Suc (length (sdec v))) d"], simp)

theorem itod_decimal_witness:
  "\<exists>s r. itod (- 205) (Some (replicate 5 0)) = Some (length s, Some (s @ 0 # r)) \<and> dec_sval s = - 205"
proof -
  have v: "sint (- 205 :: i64) = - 205" by simp
  have "gd (sint (- 205 :: i64)) < length (replicate 5 (0 :: u8))"
    by (simp add: v gd.simps cdiv10_def)
  from itod_decimal [OF this] show ?thesis unfolding v by blast
qed

lemma hex_digit_chars: "k < 16 \<Longrightarrow> hex_digit (hex_chars ! k) = k \<and> hex_chars ! k \<noteq> 0"
proof -
  assume "k < 16"
  moreover have "list_all (\<lambda>k. hex_digit (hex_chars ! k) = k \<and> hex_chars ! k \<noteq> 0) [0..<16]"
    by code_simp
  ultimately show ?thesis by (simp add: list_all_iff)
qed

lemma hex_rev_props:
  "length (hex_rev n) \<le> gdu n \<and> hex_val (rev (hex_rev n)) = unat n \<and> 0 \<notin> set (hex_rev n)"
proof (induction n rule: hex_rev.induct)
  case (1 n)
  have m: "unat (n mod 16) < 16" by (simp add: unat_mod_distrib)
  note h = hex_digit_chars [OF m]
  show ?case
  proof (cases "n div 16 \<noteq> 0")
    case True
    then have big: "16 \<le> unat n" by (simp add: word_unat_eq_iff unat_div_distrib div_eq_0_iff)
    have "gdu (n div 16) \<le> gdu (n div 10)" by (rule gdu_mono) (simp add: unat_div_distrib div_le_mono2)
    then show ?thesis using "1.IH" [OF True] h True big
      by (auto simp: hex_rev.simps [of n] gdu.simps [of n] hex_val_def unat_div_distrib
          unat_mod_distrib word_less_nat_alt)
  next
    case False
    then have "unat n < 16" by (simp add: word_unat_eq_iff unat_div_distrib div_eq_0_iff)
    then show ?thesis using False h gdu_pos [of n]
      by (auto simp: hex_rev.simps [of n] hex_val_def unat_mod_distrib Suc_le_eq)
  qed
qed

lemma itoh_run:
  assumes "length (hex_rev v) < length d"
  shows "itoh v (Some d) =
    Some (length (hex_rev v), Some (rev (hex_rev v) @ 0 # drop (Suc (length (hex_rev v))) d))"
  using assms itoh_loop_digits [of 0 v d] ito_finish_digits [of "hex_rev v" d] hex_rev_props [of v] by (simp add: itoh_def)

text \<open>
  \<^verbatim>\<open>itoh\<close> writes the hexadecimal representation of the value; the \<^verbatim>\<open>gdu(val) + 1\<close> bytes that
  \<^verbatim>\<open>vprintf\<close> reserves, counted in decimal digits, are always enough.
\<close>

theorem itoh_hexadecimal:
  assumes "gdu v < length d"
  shows "\<exists>s r. itoh v (Some d) = Some (length s, Some (s @ 0 # r)) \<and>
    length (s @ 0 # r) = length d \<and> hex_val s = unat v"
proof -
  note H = hex_rev_props [of v]
  then have len: "length (hex_rev v) < length d" using assms by simp
  show ?thesis using itoh_run [OF len] H len
    by - (rule exI [of _ "rev (hex_rev v)"], rule exI [of _ "drop (Suc (length (hex_rev v))) d"], simp)
qed

theorem itoh_hexadecimal_witness:
  "\<exists>s r. itoh 255 (Some (replicate 4 0)) = Some (length s, Some (s @ 0 # r)) \<and> hex_val s = 255"
proof -
  have "gdu 255 < length (replicate 4 (0 :: u8))" by (simp add: gdu.simps)
  from itoh_hexadecimal [OF this] show ?thesis by auto
qed

section \<open>Bounded copy\<close>

lemma memcpy_block:
  assumes "0 < n" and "n \<le> length src" and "n \<le> length b"
  shows "memcpy b (Some 0) (Some src) (int n) = Some (Some n, take n src @ drop n b)"
  using assms memcpy_loop_block [of n src 0 b] by (simp add: memcpy_def)

lemma strncpy_cstr:
  assumes "0 \<notin> set xs" and "xs \<noteq> []" and "0 < dsize" and "dsize \<le> length b"
  shows "strncpy b (xs @ 0 # r) dsize =
    Some (Some (min (length xs) dsize),
      take dsize xs @ replicate (dsize - length xs) 0 @ drop dsize b)"
proof -
  let ?n = "min (length xs) dsize"
  have m: "memcpy b (Some 0) (Some (xs @ 0 # r)) (int ?n) = Some (Some ?n, take ?n xs @ drop ?n b)"
    using memcpy_block [of ?n "xs @ 0 # r" b] assms by simp
  have z: "bzero (take ?n xs @ drop ?n b) (Some ?n) (int dsize - int ?n) =
      Some (length xs < dsize, take dsize xs @ replicate (dsize - length xs) 0 @ drop dsize b)"
  proof (cases "length xs < dsize")
    case True
    then have "nat (int dsize - int ?n) = dsize - length xs" by simp
    then show ?thesis
      using True assms bzero_loop_block [of "length xs" "dsize - length xs" "xs @ drop (length xs) b"]
      by (simp add: bzero_def)
  qed (simp add: bzero_def)
  have "(if length xs > dsize then dsize else length xs) = ?n" by simp
  then show ?thesis using m z assms(1) by (simp add: strncpy_def strlen_cstr Let_def)
qed

text \<open>
  \<^verbatim>\<open>strncpy\<close> of a non-empty string into a buffer of at least \<^verbatim>\<open>dsize\<close> bytes copies at most
  \<^verbatim>\<open>dsize\<close> characters, fills the rest of the \<^verbatim>\<open>dsize\<close> bytes with NULs and writes nothing behind them.
\<close>

theorem strncpy_pads:
  assumes "0 \<notin> set xs" and "xs \<noteq> []" and "0 < dsize" and "dsize \<le> length b"
  shows "strncpy b (xs @ 0 # r) dsize =
    Some (Some (min (length xs) dsize),
      take dsize xs @ replicate (dsize - length xs) 0 @ drop dsize b)"
  using assms by (rule strncpy_cstr)

theorem strncpy_pads_witness:
  "strncpy [1, 2, 3, 4, 5] [97, 98, 0] 4 = Some (Some 2, [97, 98, 0, 0, 5])"
proof -
  have "replicate 2 0 = [0, 0 :: u8]" by (simp add: numeral_2_eq_2)
  then show ?thesis using strncpy_pads [of "[97, 98]" 4 "[1, 2, 3, 4, 5]" "[]"] by simp
qed

text \<open>
  An empty source is copied by \<^verbatim>\<open>memcpy\<close> with size 0, which returns \<^verbatim>\<open>NULL\<close>: nothing is cleared
  and the destination keeps its old content.
\<close>

lemma strncpy_empty_keeps_destination: "strncpy b (0 # r) dsize = Some (None, b)"
  by (simp add: strncpy_def strlen_def memcpy_def bzero_def Let_def)

section \<open>Substring search\<close>

lemma strchr_loop_cstr:
  "0 \<notin> set xs \<Longrightarrow> c \<noteq> 0 \<Longrightarrow>
   strchr_loop (xs @ 0 # r) c =
     Some (if c \<in> set xs then Some (length (takeWhile (\<lambda>x. x \<noteq> c) xs)) else None)"
  by (induction xs) auto

text \<open>A match of \<^verbatim>\<open>strstr\<close> at \<open>k\<close>: the rest of the text agrees with the pattern as far as both go.\<close>

definition str_match :: "u8 list \<Rightarrow> u8 list \<Rightarrow> nat \<Rightarrow> bool" where
  "str_match xs ys k \<longleftrightarrow> k < length xs \<and> xs ! k = hd ys \<and> prefix (take (length ys) (drop k xs)) ys"

lemma str_match_shift: "k0 \<le> k \<Longrightarrow> str_match (drop k0 xs) ys (k - k0) \<longleftrightarrow> str_match xs ys k"
  by (auto simp: str_match_def)

lemma takeWhile_first:
  "c \<in> set xs \<Longrightarrow> let k = length (takeWhile (\<lambda>x. x \<noteq> c) xs) in
     k < length xs \<and> xs ! k = c \<and> (\<forall>j < k. xs ! j \<noteq> c)"
  by (induction xs) (auto simp: Let_def nth_Cons split: nat.splits)

lemma strstr_loop_first:
  assumes "0 \<notin> set ys" and "ys \<noteq> []"
  shows "0 \<notin> set xs \<Longrightarrow>
    strstr_loop (xs @ 0 # r) off (ys @ 0 # r') (length ys) =
      Some (if \<exists>k. str_match xs ys k then Some (off + (LEAST k. str_match xs ys k)) else None)"
proof (induction "length xs" arbitrary: xs off rule: less_induct)
  case less
  let ?c = "hd ys"
  have c0: "?c \<noteq> 0" and hd: "hd (ys @ 0 # r') = ?c" using assms by (cases ys, auto)+
  show ?case
  proof (cases "?c \<in> set xs")
    case False
    then have "\<not> str_match xs ys k" for k by (metis nth_mem str_match_def)
    then show ?thesis
      using False c0 hd less.prems by (simp add: strstr_loop.simps strchr_loop_cstr)
  next
    case True
    define k where "k = length (takeWhile (\<lambda>x. x \<noteq> ?c) xs)"
    have k: "k < length xs" "xs ! k = ?c" "\<forall>j < k. xs ! j \<noteq> ?c"
      using takeWhile_first [OF True] by (simp_all add: k_def Let_def)
    have chr: "strchr_loop (xs @ 0 # r) (hd (ys @ 0 # r')) = Some (Some k)"
      using True c0 hd less.prems by (simp add: strchr_loop_cstr k_def)
    have nz: "0 \<notin> set (drop k xs)" "0 \<notin> set (drop (Suc k) xs)"
      using less.prems by (auto dest: in_set_dropD)
    obtain v where v: "strncmp (drop k (xs @ 0 # r)) (ys @ 0 # r') (length ys) = Some v"
      "v = 0 \<longleftrightarrow> str_match xs ys k"
      using strncmp_zero [OF nz(1) assms(1), of r r' "length ys"] k by (auto simp: str_match_def)
    have low: "\<not> str_match xs ys j" if "j < k" for j using k(3) that by (simp add: str_match_def)
    show ?thesis
    proof (cases "str_match xs ys k")
      case True
      then have "(LEAST k. str_match xs ys k) = k"
        using low by (intro Least_equality) (auto simp: not_less [symmetric])
      then show ?thesis using True v chr by (auto simp: strstr_loop.simps [of "xs @ 0 # r"])
    next
      case False
      have sh: "str_match (drop (Suc k) xs) ys j = str_match xs ys (Suc k + j)" for j
        using str_match_shift [of "Suc k" "Suc k + j" xs ys] by simp
      have ge: "Suc k \<le> j" if "str_match xs ys j" for j
        using low [of j] False that nat_neq_iff [of j k] by (auto simp: Suc_le_eq)
      have ex: "(\<exists>j. str_match (drop (Suc k) xs) ys j) \<longleftrightarrow> (\<exists>j. str_match xs ys j)"
        unfolding sh using ge by (metis le_add_diff_inverse)
      have least: "Suc k + (LEAST j. str_match (drop (Suc k) xs) ys j) = (LEAST j. str_match xs ys j)"
        if "str_match xs ys j" for j
      proof (rule Least_equality [symmetric])
        have j: "str_match (drop (Suc k) xs) ys (j - Suc k)" using that ge sh by (metis le_add_diff_inverse)
        show "str_match xs ys (Suc k + (LEAST j. str_match (drop (Suc k) xs) ys j))"
          using LeastI [of "str_match (drop (Suc k) xs) ys", OF j] sh by blast
        fix i assume i: "str_match xs ys i"
        then have "str_match (drop (Suc k) xs) ys (i - Suc k)" using ge sh by (metis le_add_diff_inverse)
        then show "Suc k + (LEAST j. str_match (drop (Suc k) xs) ys j) \<le> i"
          using Least_le [of "str_match (drop (Suc k) xs) ys" "i - Suc k"] ge [OF i] by linarith
      qed
      have "strstr_loop (xs @ 0 # r) off (ys @ 0 # r') (length ys) =
          strstr_loop (drop (Suc k) xs @ 0 # r) (off + Suc k) (ys @ 0 # r') (length ys)"
        using False v chr k(1) by (subst strstr_loop.simps) auto
      also have "\<dots> = Some (if \<exists>j. str_match (drop (Suc k) xs) ys j
          then Some (off + Suc k + (LEAST j. str_match (drop (Suc k) xs) ys j)) else None)"
        using k(1) nz(2) by (intro less.hyps) auto
      finally show ?thesis using ex least by (auto simp: add.assoc)
    qed
  qed
qed

text \<open>
  \<^verbatim>\<open>strstr\<close> on NUL-terminated strings returns the first position at which the text agrees with
  the pattern, and \<^verbatim>\<open>NULL\<close> when there is none. Because \<^verbatim>\<open>strncmp\<close> stops at the end of its first
  argument, agreement up to the end of the text counts, even when the pattern is longer.
\<close>

theorem strstr_first_match:
  assumes "0 \<notin> set xs" and "0 \<notin> set ys" and "ys \<noteq> []"
  shows "(\<exists>k. strstr (xs @ 0 # r) (ys @ 0 # r') = Some (Some k) \<and> str_match xs ys k \<and>
            (\<forall>j < k. \<not> str_match xs ys j)) \<or>
         (strstr (xs @ 0 # r) (ys @ 0 # r') = Some None \<and> (\<forall>k. \<not> str_match xs ys k))"
proof -
  have s: "strstr (xs @ 0 # r) (ys @ 0 # r') =
      Some (if \<exists>k. str_match xs ys k then Some (LEAST k. str_match xs ys k) else None)"
    using strstr_loop_first [OF assms(2,3,1), of r 0 r'] assms by (simp add: strstr_def strlen_cstr)
  show ?thesis
  proof (cases "\<exists>k. str_match xs ys k")
    case True
    then have "strstr (xs @ 0 # r) (ys @ 0 # r') = Some (Some (LEAST k. str_match xs ys k))"
      unfolding s by simp
    moreover have "str_match xs ys (LEAST k. str_match xs ys k)" using True by (rule LeastI_ex)
    moreover have "\<forall>j < (LEAST k. str_match xs ys k). \<not> str_match xs ys j"
      using not_less_Least by blast
    ultimately show ?thesis by blast
  qed (simp add: s)
qed

theorem strstr_first_match_witness:
  "strstr [120, 97, 98, 0] [97, 98, 99, 0] = Some (Some 1)"
proof -
  have m: "str_match [120, 97, 98] [97, 98, 99] 1" "\<not> str_match [120, 97, 98] [97, 98, 99] 0"
    by (simp_all add: str_match_def)
  have "(\<exists>k. strstr ([120, 97, 98] @ 0 # []) ([97, 98, 99] @ 0 # []) = Some (Some k) \<and>
        str_match [120, 97, 98] [97, 98, 99] k \<and> (\<forall>j < k. \<not> str_match [120, 97, 98] [97, 98, 99] j)) \<or>
      (strstr ([120, 97, 98] @ 0 # []) ([97, 98, 99] @ 0 # []) = Some None \<and>
        (\<forall>k. \<not> str_match [120, 97, 98] [97, 98, 99] k))"
    by (rule strstr_first_match) simp_all
  then have "strstr ([120, 97, 98] @ 0 # []) ([97, 98, 99] @ 0 # []) = Some (Some 1)"
    using m by (metis less_one linorder_neqE_nat)
  then show ?thesis by simp
qed

section \<open>Error messages\<close>

text \<open>
  \<^verbatim>\<open>strerror\<close> gives the same message for an error number and its negation, and every entry of
  the table is reachable except those whose number an earlier entry already has.
\<close>

theorem strerror_table:
  "strerror (- e) = strerror e \<and>
   (i < length error_table \<and> (\<forall>j < i. fst (error_table ! j) \<noteq> fst (error_table ! i)) \<longrightarrow>
      strerror (fst (error_table ! i)) = snd (snd (error_table ! i)))"
proof
  have "(\<lambda>(v, _ :: string, _ :: string). - e = v \<or> - e = - v) = (\<lambda>(v, _, _). e = v \<or> e = - v)"
    by (auto simp: fun_eq_iff)
  then show "strerror (- e) = strerror e" by (simp only: strerror_def)
  show "i < length error_table \<and> (\<forall>j < i. fst (error_table ! j) \<noteq> fst (error_table ! i)) \<longrightarrow>
      strerror (fst (error_table ! i)) = snd (snd (error_table ! i))"
  proof
    assume i: "i < length error_table \<and> (\<forall>j < i. fst (error_table ! j) \<noteq> fst (error_table ! i))"
    have pos: "list_all (\<lambda>r. 0 < fst r) error_table" by code_simp
    let ?e = "fst (error_table ! i)"
    have "find (\<lambda>(v, _, _). ?e = v \<or> ?e = - v) error_table = Some (error_table ! i)"
      unfolding find_Some_iff
    proof (intro exI [of _ i] conjI allI impI)
      fix j assume j: "j < i"
      then have "0 < fst (error_table ! j)" "0 < ?e"
        using pos i by (auto simp: list_all_length)
      then show "\<not> (case error_table ! j of (v, _, _) \<Rightarrow> ?e = v \<or> ?e = - v)"
        using i j by (cases "error_table ! j") auto
    qed (use i in \<open>auto split: prod.splits\<close>)
    then show "strerror ?e = snd (snd (error_table ! i))"
      by (simp add: strerror_def split: prod.splits)
  qed
qed

theorem strerror_table_witness: "strerror (- 12) = ''Not enough space''"
proof -
  have e: "error_table ! 12 = (12, ''ENOMEM'', ''Not enough space'')" "12 < length error_table"
    "\<forall>j < 12. fst (error_table ! j) \<noteq> fst (error_table ! 12)"
    by code_simp+
  show ?thesis using strerror_table [of 12 12] e by simp
qed

end
