(* ===== verification/Task.thy ===== *)
theory Task
  imports Klist Str_Util
begin

text \<open>
  The task structure and the queues that hang off it: \<^verbatim>\<open>kernel/inc/sched/task.h\<close>,
  \<^verbatim>\<open>sched/signal.c\<close>, \<^verbatim>\<open>sched/waitq.c\<close>, \<^verbatim>\<open>sched/file.c\<close>, \<^verbatim>\<open>sched/stack.c\<close> and the
  register copying macros. The queue objects (signal sets and wait-queue entries) live in the
  record \<open>objs\<close>, one function per struct field, so that the pointer updates of the code are
  updates of these functions; the address that \<^verbatim>\<open>heap_alloc\<close> returns for a new object is an
  argument, 0 for \<^verbatim>\<open>NULL\<close>. A result \<open>None\<close> is a null-pointer access.
\<close>

section \<open>Data\<close>

type_synonym i32 = "32 word"

record task_regs =
  r15 :: u64
  r14 :: u64
  r13 :: u64
  r12 :: u64
  r11 :: u64
  r10 :: u64
  r9 :: u64
  r8 :: u64
  rdi :: u64
  rsi :: u64
  rbp :: u64
  rdx :: u64
  rcx :: u64
  rbx :: u64
  rax :: u64
  rip :: u64
  cs :: u64
  ss :: u64
  rflags :: u64
  rsp :: u64

record task =
  task_name :: "u8 list"
  pid :: int
  ppid :: int
  cpid :: int
  regs :: task_regs
  ticks :: u8
  state :: "4 word"
  prio :: "6 word"
  sighand :: "u64 list"
  sigq :: u64
  waitq_head :: u64
  waitq_tail :: u64
  fd_last :: int
  files :: "u64 list"
  term_code :: i32
  exit_code :: i32
  task_mem :: u64
  task_vmm :: u64
  old :: bool

record objs =
  sig_value :: "u64 \<Rightarrow> int"
  sig_next :: "u64 \<Rightarrow> u64"
  wq_pid :: "u64 \<Rightarrow> int"
  wq_status :: "u64 \<Rightarrow> i32"
  wq_next :: "u64 \<Rightarrow> u64"

abbreviation (input) TASK_STATE_HOLD :: "4 word" where "TASK_STATE_HOLD \<equiv> 0"
abbreviation (input) TASK_STATE_READY :: "4 word" where "TASK_STATE_READY \<equiv> 1"
abbreviation (input) TASK_STATE_SAVE :: "4 word" where "TASK_STATE_SAVE \<equiv> 2"
abbreviation (input) TASK_STATE_WAIT :: "4 word" where "TASK_STATE_WAIT \<equiv> 3"
abbreviation (input) TASK_STATE_DEAD :: "4 word" where "TASK_STATE_DEAD \<equiv> 4"
abbreviation (input) TASK_STATE_FORK :: "4 word" where "TASK_STATE_FORK \<equiv> 5"

abbreviation (input) TASK_PRIO_LOW :: "6 word" where "TASK_PRIO_LOW \<equiv> 1"
abbreviation (input) TASK_TICKS_DEFAULT :: u8 where "TASK_TICKS_DEFAULT \<equiv> 20"
abbreviation (input) CONFIG_TASK_FILES_MAX :: nat where "CONFIG_TASK_FILES_MAX \<equiv> 32"
abbreviation (input) SIG_MIN :: int where "SIG_MIN \<equiv> 1"
abbreviation (input) SIGKILL :: int where "SIGKILL \<equiv> 4"
abbreviation (input) SIGSEGV :: int where "SIGSEGV \<equiv> 5"
abbreviation (input) SIG_MAX :: int where "SIG_MAX \<equiv> 5"
abbreviation (input) SIG_DFL :: u64 where "SIG_DFL \<equiv> 0"
abbreviation (input) SIG_IGN :: u64 where "SIG_IGN \<equiv> 1"
abbreviation (input) SIG_EXIT_CODE :: i32 where "SIG_EXIT_CODE \<equiv> 128"

text \<open>What \<^verbatim>\<open>bzero\<close> leaves of a fresh task structure.\<close>

definition regs_zero :: task_regs where
  "regs_zero = \<lparr>r15 = 0, r14 = 0, r13 = 0, r12 = 0, r11 = 0, r10 = 0, r9 = 0, r8 = 0, rdi = 0, rsi = 0, rbp = 0, rdx = 0, rcx = 0, rbx = 0, rax = 0, rip = 0, cs = 0, ss = 0, rflags = 0, rsp = 0\<rparr>"

definition task_zero :: task where
  "task_zero = \<lparr>task_name = replicate 256 0, pid = 0, ppid = 0, cpid = 0, regs = regs_zero, ticks = 0,
     state = 0, prio = 0, sighand = replicate 5 0, sigq = 0, waitq_head = 0, waitq_tail = 0, fd_last = 0,
     files = replicate CONFIG_TASK_FILES_MAX 0, term_code = 0, exit_code = 0, task_mem = 0, task_vmm = 0,
     old = False\<rparr>"

section \<open>Registers and ticks\<close>

text \<open>The interrupt stack keeps the registers under the same names. Both macros copy every register
  they list, field by field; \<^verbatim>\<open>r10\<close> is not among them.\<close>

definition copy_regs :: "task_regs \<Rightarrow> task_regs \<Rightarrow> task_regs" where
  "copy_regs dst src =
     dst\<lparr>r15 := r15 src, r14 := r14 src, r13 := r13 src, r12 := r12 src, r11 := r11 src,
       r9 := r9 src, r8 := r8 src, rdi := rdi src, rsi := rsi src, rbp := rbp src, rsp
       := rsp src, rdx := rdx src, rcx := rcx src, rbx := rbx src, rax := rax src, rip
       := rip src, rflags := rflags src, cs := cs src, ss := ss src\<rparr>"

definition task_update_regs :: "task \<Rightarrow> task_regs \<Rightarrow> task" where
  "task_update_regs t stack = t\<lparr>regs := copy_regs (regs t) stack\<rparr>"

definition task_update_stack :: "task \<Rightarrow> task_regs \<Rightarrow> task_regs" where
  "task_update_stack t stack = copy_regs stack (regs t)"

definition task_ticks_reset :: "task \<Rightarrow> task" where
  "task_ticks_reset t = t\<lparr>ticks := ucast (prio t) * TASK_TICKS_DEFAULT\<rparr>"

section \<open>Signals\<close>

datatype default_action = SigTerm | SigDump

definition sigdfl :: "int \<Rightarrow> default_action" where
  "sigdfl sig = (if sig = 3 \<or> sig = 5 then SigDump else SigTerm)"

definition signal_can_ignore :: "int \<Rightarrow> bool" where
  "signal_can_ignore sig \<longleftrightarrow> sig \<noteq> SIGKILL"

text \<open>\<^verbatim>\<open>sighand\<close> has \<^verbatim>\<open>SIG_MAX\<close> entries, and the code indexes it with the signal number
  itself. Index \<^verbatim>\<open>SIG_MAX\<close> is the word behind the array: the structure's \<^verbatim>\<open>signal\<close> pointer.\<close>

definition sighand_get :: "task \<Rightarrow> int \<Rightarrow> u64" where
  "sighand_get t sig = (if sig < SIG_MAX then sighand t ! nat sig else sigq t)"

definition sighand_put :: "task \<Rightarrow> int \<Rightarrow> u64 \<Rightarrow> task" where
  "sighand_put t sig hand =
     (if sig < SIG_MAX then t\<lparr>sighand := (sighand t)[nat sig := hand]\<rparr> else t\<lparr>sigq := hand\<rparr>)"

definition task_signal_set :: "task option \<Rightarrow> int \<Rightarrow> u64 \<Rightarrow> errcode \<times> task option" where
  "task_signal_set task sig hand =
     (case task of
        None \<Rightarrow> (- EINVAL, None)
      | Some t \<Rightarrow>
          if sig > SIG_MAX \<or> sig < 0 then (- EINVAL, Some t)
          else if hand = SIG_IGN \<and> \<not> signal_can_ignore sig then (0, Some t)
          else (0, Some (sighand_put t sig hand)))"

definition task_signal_add :: "nat \<Rightarrow> u64 \<Rightarrow> objs \<Rightarrow> task option \<Rightarrow> int \<Rightarrow> (errcode \<times> objs \<times> task option) option" where
  "task_signal_add fuel addr ob task sig =
     (case task of
        None \<Rightarrow> Some (- EINVAL, ob, None)
      | Some t \<Rightarrow>
          if sig > SIG_MAX \<or> sig < SIG_MIN then Some (- EINVAL, ob, Some t)
          else if addr = 0 then None
          else let ob1 = ob\<lparr>sig_value := (sig_value ob)(addr := sig), sig_next := (sig_next ob)(addr := 0)\<rparr>
               in case slist_add_end fuel (sig_next ob1) (sigq t) addr of
                    None \<Rightarrow> None
                  | Some (head, nx) \<Rightarrow> Some (0, ob1\<lparr>sig_next := nx\<rparr>, Some (t\<lparr>sigq := head\<rparr>)))"

text \<open>\<^verbatim>\<open>task_signal_pop\<close>: the result, the task, and the signal whose default handler is called.\<close>

definition task_signal_pop :: "objs \<Rightarrow> task option \<Rightarrow> int \<times> task option \<times> int option" where
  "task_signal_pop ob task =
     (case task of
        None \<Rightarrow> (- EINVAL, None, None)
      | Some t \<Rightarrow>
          if sigq t = 0 then (0, Some t, None)
          else let signal = sig_value ob (sigq t);
                   t1 = t\<lparr>sigq := sig_next ob (sigq t)\<rparr>
               in if signal > SIG_MAX \<or> signal < SIG_MIN then (- EINVAL, Some t1, None)
               else (signal, Some t1, if sighand_get t1 signal = SIG_DFL then Some signal else None))"

section \<open>Wait queues\<close>

definition waitq_status :: "task \<Rightarrow> i32" where
  "waitq_status child = (push_bit 8 (exit_code child)) OR (term_code child AND 0xffff)"

definition task_waitq_add :: "u64 \<Rightarrow> objs \<Rightarrow> task option \<Rightarrow> task option \<Rightarrow> errcode \<times> objs \<times> task option" where
  "task_waitq_add addr ob task child =
     (case (task, child) of
        (Some t, Some c) \<Rightarrow>
          if addr = 0 then (- ENOMEM, ob, task)
          else let ob1 = ob\<lparr>wq_pid := (wq_pid ob)(addr := pid c),
                            wq_status := (wq_status ob)(addr := waitq_status c),
                            wq_next := (wq_next ob)(addr := 0)\<rparr>
               in if waitq_head t = 0 \<or> waitq_tail t = 0
                  then (0, ob1, Some (t\<lparr>waitq_head := addr, waitq_tail := addr\<rparr>))
                  else (0, ob1\<lparr>wq_next := (wq_next ob1)(waitq_tail t := addr)\<rparr>, task)
      | _ \<Rightarrow> (- EINVAL, ob, task))"

definition task_waitq_pop :: "nat \<Rightarrow> objs \<Rightarrow> task option \<Rightarrow> (u64 \<times> objs \<times> task option) option" where
  "task_waitq_pop fuel ob task =
     (case task of
        None \<Rightarrow> Some (0, ob, None)
      | Some t \<Rightarrow>
          if waitq_head t = 0 then Some (0, ob, Some t)
          else let waitq = waitq_head t in
            (case slist_del fuel (wq_next ob) (waitq_head t) waitq of
               None \<Rightarrow> None
             | Some (head, nx) \<Rightarrow>
                 let t1 = t\<lparr>waitq_head := head\<rparr>
                 in Some (waitq, ob\<lparr>wq_next := nx\<rparr>,
                      Some (if waitq = waitq_tail t1 then t1\<lparr>waitq_tail := nx waitq\<rparr> else t1))))"

section \<open>Open files\<close>

text \<open>\<^verbatim>\<open>task->files[fd]\<close>. Index -1 reads the 8 bytes before the array, which are \<^verbatim>\<open>fd_last\<close>
  and its zero padding; an index behind the array is an access outside it.\<close>

definition files_get :: "task \<Rightarrow> int \<Rightarrow> u64 option" where
  "files_get t fd =
     (if fd = - 1 then Some (of_int (fd_last t mod 2 ^ 32))
      else if 0 \<le> fd \<and> fd < int (length (files t)) then Some (files t ! nat fd) else None)"

function fd_scan :: "task \<Rightarrow> int \<Rightarrow> int option" where
  "fd_scan t fd =
     (if \<not> int CONFIG_TASK_FILES_MAX > fd then Some fd
      else case files_get t fd of None \<Rightarrow> None
           | Some f \<Rightarrow> if f = 0 then Some fd else fd_scan t (fd + 1))"
  by pat_completeness auto
termination
  by (relation "measure (\<lambda>(t, fd). nat (32 - fd))") auto

declare fd_scan.simps [simp del]

definition task_file_fd_next :: "task \<Rightarrow> (int \<times> task) option" where
  "task_file_fd_next t =
     (let t1 = (if fd_last t \<ge> int CONFIG_TASK_FILES_MAX then t\<lparr>fd_last := 0\<rparr> else t)
      in map_option (\<lambda>fd. (if fd \<ge> int CONFIG_TASK_FILES_MAX then - EMFILE else fd, t1)) (fd_scan t1 (fd_last t1)))"

text \<open>\<^verbatim>\<open>task_file_from\<close>: \<open>None\<close> for an access outside the table, \<open>Some 0\<close> for \<^verbatim>\<open>NULL\<close>.\<close>

definition task_file_from :: "task \<Rightarrow> int \<Rightarrow> u64 option" where
  "task_file_from t fd =
     (if fd > int CONFIG_TASK_FILES_MAX \<or> fd < 0 then Some 0 else files_get t fd)"

text \<open>\<^verbatim>\<open>task_file_free\<close>: \<open>err\<close> is the result of \<^verbatim>\<open>vfs_close\<close> on the file's node; the second
  component tells whether the file object was freed.\<close>

definition task_file_free :: "errcode \<Rightarrow> bool \<Rightarrow> errcode \<times> bool" where
  "task_file_free err ignore_err = (if err \<noteq> 0 \<and> \<not> ignore_err then (err, False) else (err, True))"

definition task_file_clear :: "task \<Rightarrow> task \<times> u64 list" where
  "task_file_clear t = (t\<lparr>files := map (\<lambda>_. 0) (files t)\<rparr>, filter (\<lambda>f. f \<noteq> 0) (files t))"

definition task_rename :: "task option \<Rightarrow> buf option \<Rightarrow> (errcode \<times> task option) option" where
  "task_rename task name =
     (case (task, name) of
        (Some t, Some n) \<Rightarrow>
          map_option (\<lambda>(_, b). (0, Some (t\<lparr>task_name := b\<rparr>))) (strncpy (task_name t) n NAME_MAX)
      | _ \<Rightarrow> Some (- EINVAL, task))"

section \<open>Register switching\<close>

text \<open>
  Saving the registers of a task at one interrupt and restoring them at a later one gives back
  every register but \<^verbatim>\<open>r10\<close>, which keeps the value it had on the stack of the later interrupt, that
  is, the value of whatever task ran before.
\<close>

theorem task_regs_roundtrip:
  "task_update_stack (task_update_regs t stack) stack' = stack\<lparr>r10 := r10 stack'\<rparr>"
  by (simp add: task_update_stack_def task_update_regs_def copy_regs_def)

section \<open>The signal queue\<close>

lemma task_signal_add_chain:
  assumes "chain (sig_next ob) (sigq t) xs" and "addr \<noteq> 0" and "addr \<notin> set xs"
    and "SIG_MIN \<le> sig" and "sig \<le> SIG_MAX" and "length xs \<le> fuel" and "0 < fuel"
  shows "\<exists>ob' t'. task_signal_add fuel addr ob (Some t) sig = Some (0, ob', Some t') \<and>
    chain (sig_next ob') (sigq t') (xs @ [addr]) \<and> sig_value ob' = (sig_value ob)(addr := sig) \<and>
    sighand t' = sighand t"
proof -
  let ?nx = "(sig_next ob)(addr := 0)"
  have "chain ?nx (sigq t) xs" using assms(1,3) by simp
  then obtain head nx where a: "slist_add_end fuel ?nx (sigq t) addr = Some (head, nx)" "chain nx head (xs @ [addr])"
    using slist_add_end_chain [of ?nx "sigq t" xs addr fuel] assms by auto
  then show ?thesis using assms by (simp add: task_signal_add_def Let_def)
qed

text \<open>
  The signal queue is first-in first-out: \<^verbatim>\<open>task_signal_add\<close> puts a valid signal behind those that
  are waiting, and \<^verbatim>\<open>task_signal_pop\<close> then returns the oldest one and leaves the rest in order.
\<close>

theorem task_signal_fifo:
  assumes "chain (sig_next ob) (sigq t) (x # xs)" and "addr \<noteq> 0" and "addr \<notin> set (x # xs)"
    and "SIG_MIN \<le> sig" and "sig \<le> SIG_MAX" and "length xs < fuel"
    and "SIG_MIN \<le> sig_value ob x" and "sig_value ob x \<le> SIG_MAX"
  shows "\<exists>ob' t' t'' dfl. task_signal_add fuel addr ob (Some t) sig = Some (0, ob', Some t') \<and>
    task_signal_pop ob' (Some t') = (sig_value ob x, Some t'', dfl) \<and>
    chain (sig_next ob') (sigq t'') (xs @ [addr]) \<and> sig_value ob' addr = sig"
proof -
  obtain ob' t' where a: "task_signal_add fuel addr ob (Some t) sig = Some (0, ob', Some t')"
    "chain (sig_next ob') (sigq t') ((x # xs) @ [addr])" "sig_value ob' = (sig_value ob)(addr := sig)"
    using task_signal_add_chain [OF assms(1-5), of fuel] assms(6) by auto
  then show ?thesis using assms(3,7,8) by (auto simp: task_signal_pop_def Let_def)
qed

definition objs_zero :: objs where
  "objs_zero = \<lparr>sig_value = (\<lambda>_. 0), sig_next = (\<lambda>_. 0), wq_pid = (\<lambda>_. 0), wq_status = (\<lambda>_. 0), wq_next = (\<lambda>_. 0)\<rparr>"

theorem task_signal_fifo_witness:
  "\<exists>ob' t' t'' dfl. task_signal_add 1 16 (objs_zero\<lparr>sig_value := (\<lambda>_. 0)(8 := 2)\<rparr>) (Some (task_zero\<lparr>sigq := 8\<rparr>)) 4 =
      Some (0, ob', Some t') \<and> task_signal_pop ob' (Some t') = (2, Some t'', dfl) \<and> sig_value ob' 16 = 4"
  using task_signal_fifo [of "objs_zero\<lparr>sig_value := (\<lambda>_. 0)(8 := 2)\<rparr>" "task_zero\<lparr>sigq := 8\<rparr>" 8 "[]" 16 4 1]
  by (simp add: objs_zero_def) blast

text \<open>
  The handler table has one entry less than the code indexes: for \<^verbatim>\<open>SIGSEGV\<close> it reads the
  structure's own queue pointer. With another signal waiting behind it, a \<^verbatim>\<open>SIGSEGV\<close> is taken off the
  queue without its default handler being called, so the faulting task is not terminated.
\<close>

theorem sigsegv_dropped_when_queue_nonempty:
  assumes "sigq t \<noteq> 0" and "sig_value ob (sigq t) = SIGSEGV" and "sig_next ob (sigq t) \<noteq> 0"
  shows "task_signal_pop ob (Some t) = (SIGSEGV, Some (t\<lparr>sigq := sig_next ob (sigq t)\<rparr>), None)"
  using assms by (simp add: task_signal_pop_def sighand_get_def)

theorem sigsegv_dropped_when_queue_nonempty_witness:
  "task_signal_pop (objs_zero\<lparr>sig_value := (\<lambda>_. 5), sig_next := (\<lambda>_. 0)(8 := 16)\<rparr>) (Some (task_zero\<lparr>sigq := 8\<rparr>)) =
     (5, Some (task_zero\<lparr>sigq := 16\<rparr>), None)"
  using sigsegv_dropped_when_queue_nonempty
    [of "task_zero\<lparr>sigq := 8\<rparr>" "objs_zero\<lparr>sig_value := (\<lambda>_. 5), sig_next := (\<lambda>_. 0)(8 := 16)\<rparr>"] by simp

section \<open>The wait queue\<close>

text \<open>
  The status word that the parent of a dead task receives holds the termination signal in its low
  byte and the exit code above it, for every signal number below 256 and exit code below \<open>2\<^sup>23\<close>.
\<close>

theorem waitq_status_decode:
  assumes "term_code c < 256" and "exit_code c < 2 ^ 23"
  shows "waitq_status c AND 0xff = term_code c \<and> drop_bit 8 (waitq_status c) = exit_code c"
proof -
  have t: "bit (term_code c) n \<Longrightarrow> n < 8" and e: "bit (exit_code c) n \<Longrightarrow> n < 23" for n
    using assms by (auto simp: word_less_nat_alt intro: bit_lt_of_less)
  have m: "(0xff :: i32) = mask 8" "(0xffff :: i32) = mask 16" by (simp_all add: mask_eq_exp_minus_1)
  have "waitq_status c AND 0xff = term_code c"
    unfolding waitq_status_def m by (rule bit_eqI) (auto simp: bit_simps dest: t)
  moreover have "drop_bit 8 (waitq_status c) = exit_code c"
    unfolding waitq_status_def m by (rule bit_eqI) (auto simp: bit_simps dest: t e)
  ultimately show ?thesis by simp
qed

theorem waitq_status_decode_witness:
  "waitq_status (task_zero\<lparr>exit_code := 132, term_code := 4\<rparr>) AND 0xff = 4 \<and>
   drop_bit 8 (waitq_status (task_zero\<lparr>exit_code := 132, term_code := 4\<rparr>)) = 132"
  using waitq_status_decode [of "task_zero\<lparr>exit_code := 132, term_code := 4\<rparr>"] by simp

text \<open>
  \<^verbatim>\<open>task_waitq_add\<close> links a new entry behind \<^verbatim>\<open>waitq_tail\<close> but never moves \<^verbatim>\<open>waitq_tail\<close>: with
  one entry already queued behind the tail, the next child's entry replaces it. The status of that
  earlier child is lost, and its parent can never wait for it.
\<close>

theorem task_waitq_add_loses_entry:
  assumes "chain (wq_next ob) (waitq_head t) [x, y]" and "waitq_tail t = x"
    and "addr \<noteq> 0" and "addr \<notin> {x, y}"
  shows "\<exists>ob'. task_waitq_add addr ob (Some t) (Some c) = (0, ob', Some t) \<and>
    chain (wq_next ob') (waitq_head t) [x, addr]"
  using assms by (auto simp: task_waitq_add_def Let_def)

theorem task_waitq_add_loses_entry_witness:
  "\<exists>ob'. task_waitq_add 24 (objs_zero\<lparr>wq_next := (\<lambda>_. 0)(8 := 16)\<rparr>) (Some (task_zero\<lparr>waitq_head := 8, waitq_tail := 8\<rparr>))
      (Some task_zero) = (0, ob', Some (task_zero\<lparr>waitq_head := 8, waitq_tail := 8\<rparr>)) \<and>
     chain (wq_next ob') 8 [8, 24]"
  using task_waitq_add_loses_entry [of "objs_zero\<lparr>wq_next := (\<lambda>_. 0)(8 := 16)\<rparr>"
      "task_zero\<lparr>waitq_head := 8, waitq_tail := 8\<rparr>" 8 16 24 task_zero] by simp

text \<open>Up to two entries the queue is first-in first-out.\<close>

lemma task_waitq_fifo2:
  assumes "waitq_head t = 0" and "a \<noteq> 0" and "b \<noteq> 0" and "a \<noteq> b" and "0 < fuel"
  shows "\<exists>ob1 t1 ob2 t2 ob3 t3. task_waitq_add a ob (Some t) (Some c) = (0, ob1, Some t1) \<and>
    task_waitq_add b ob1 (Some t1) (Some c') = (0, ob2, Some t2) \<and>
    task_waitq_pop fuel ob2 (Some t2) = Some (a, ob3, Some t3) \<and> waitq_head t3 = b \<and> waitq_tail t3 = b \<and>
    wq_pid ob3 a = pid c \<and> wq_pid ob3 b = pid c'"
  using assms by (simp add: task_waitq_add_def task_waitq_pop_def slist_del_def Let_def)

section \<open>File descriptors\<close>

lemma fd_scan_first:
  assumes "length (files t) = CONFIG_TASK_FILES_MAX" and "0 \<le> fd" and "fd \<le> int CONFIG_TASK_FILES_MAX"
  shows "\<exists>r. fd_scan t fd = Some r \<and> fd \<le> r \<and> r \<le> int CONFIG_TASK_FILES_MAX \<and>
    (r < int CONFIG_TASK_FILES_MAX \<longrightarrow> files t ! nat r = 0) \<and>
    (\<forall>i. fd \<le> i \<and> i < r \<longrightarrow> files t ! nat i \<noteq> 0)"
  using assms
proof (induction t fd rule: fd_scan.induct)
  case (1 t fd)
  show ?case
  proof (cases "fd < 32 \<and> files t ! nat fd \<noteq> 0")
    case True
    have g: "files_get t fd = Some (files t ! nat fd)" using True "1.prems" by (simp add: files_get_def)
    obtain r where r: "fd_scan t (fd + 1) = Some r" "fd + 1 \<le> r" "r \<le> 32"
      "r < 32 \<longrightarrow> files t ! nat r = 0" "\<forall>i. fd + 1 \<le> i \<and> i < r \<longrightarrow> files t ! nat i \<noteq> 0"
      using "1.IH" [OF _ g] True "1.prems" by auto
    have "\<forall>i. fd \<le> i \<and> i < r \<longrightarrow> files t ! nat i \<noteq> 0"
      using r(5) True by (metis int_one_le_iff_zero_less less_le order_le_less zle_iff_zadd zless_imp_add1_zle)
    moreover have "fd_scan t fd = Some r" using True g r(1) by (simp add: fd_scan.simps [of t fd])
    ultimately show ?thesis using r by auto
  next
    case False
    then have "fd_scan t fd = Some fd"
      using "1.prems" by (auto simp: fd_scan.simps [of t fd] files_get_def)
    then show ?thesis using False "1.prems" by auto
  qed
qed

text \<open>
  \<^verbatim>\<open>task_file_fd_next\<close> returns a descriptor that is in range and not in use, the lowest one at or
  above \<^verbatim>\<open>fd_last\<close>, and fails with \<^verbatim>\<open>-EMFILE\<close> exactly when all descriptors from there on are in use,
  even if one below is free.
\<close>

theorem task_file_fd_next_lowest:
  assumes "length (files t) = CONFIG_TASK_FILES_MAX" and "0 \<le> fd_last t" and "fd_last t < int CONFIG_TASK_FILES_MAX"
  shows "\<exists>fd. task_file_fd_next t = Some (fd, t) \<and>
    (fd = - EMFILE \<and> (\<forall>i. fd_last t \<le> i \<and> i < 32 \<longrightarrow> files t ! nat i \<noteq> 0) \<or>
     fd_last t \<le> fd \<and> fd < 32 \<and> files t ! nat fd = 0 \<and> (\<forall>i. fd_last t \<le> i \<and> i < fd \<longrightarrow> files t ! nat i \<noteq> 0))"
proof -
  obtain r where r: "fd_scan t (fd_last t) = Some r" "fd_last t \<le> r" "r \<le> 32"
    "r < 32 \<longrightarrow> files t ! nat r = 0" "\<forall>i. fd_last t \<le> i \<and> i < r \<longrightarrow> files t ! nat i \<noteq> 0"
    using fd_scan_first [of t "fd_last t"] assms by auto
  then show ?thesis using assms by (auto simp: task_file_fd_next_def)
qed

theorem task_file_fd_next_lowest_witness:
  "task_file_fd_next (task_zero\<lparr>fd_last := 31, files := (replicate 32 0)[31 := 8]\<rparr>) =
     Some (- EMFILE, task_zero\<lparr>fd_last := 31, files := (replicate 32 0)[31 := 8]\<rparr>)"
proof -
  have "i = 31" if "31 \<le> i" "i < 32" for i :: int using that by simp
  then show ?thesis
    using task_file_fd_next_lowest [of "task_zero\<lparr>fd_last := 31, files := (replicate 32 0)[31 := 8]\<rparr>"]
    by fastforce
qed

text \<open>
  \<^verbatim>\<open>task_file_from\<close> returns the file of every descriptor of the table and \<^verbatim>\<open>NULL\<close> for a negative
  or too large one, except for the descriptor right behind the table: the bound check lets it through
  and the table is read out of bounds.
\<close>

theorem task_file_from_bounds:
  assumes "length (files t) = CONFIG_TASK_FILES_MAX"
  shows "task_file_from t fd =
    (if 0 \<le> fd \<and> fd < 32 then Some (files t ! nat fd) else if fd = 32 then None else Some 0)"
  using assms by (auto simp: task_file_from_def files_get_def)

theorem task_file_from_bounds_witness: "task_file_from task_zero 32 = None"
  using task_file_from_bounds [of task_zero 32] by (simp add: task_zero_def)

end
