(* ===== verification/Sched.thy ===== *)
theory Sched
  imports Task
begin

text \<open>
  The scheduler, \<^verbatim>\<open>kernel/sched/sched.c\<close>, with \<^verbatim>\<open>task_copy\<close>, \<^verbatim>\<open>task_free\<close> and
  \<^verbatim>\<open>task_switch\<close> of \<^verbatim>\<open>sched/task.c\<close>. The global variables are the record \<open>sched\<close>; the task
  structures are a function on addresses whose \<^verbatim>\<open>next\<close> and \<^verbatim>\<open>prev\<close> fields are kept in the
  \<open>dlist\<close> record of the queue. What the handler obtains from the heap, the virtual memory manager and
  the memory regions is the record \<open>sched_env\<close>. \<open>None\<close> is a panic or a null-pointer access; walks
  carry fuel.
\<close>

section \<open>State\<close>

record sched =
  queue :: dlist
  tasks :: "u64 \<Rightarrow> task"
  objects :: objs
  task_current :: u64
  task_promoted :: u64
  cur_vmm :: u64

text \<open>
  \<open>env_copy\<close>: the address \<^verbatim>\<open>heap_alloc\<close> returns for a copied task; \<open>env_vmm\<close>: the result of
  \<^verbatim>\<open>vmm_new\<close>; \<open>env_mem\<close>: the copied region list, or \<open>None\<close> when a \<^verbatim>\<open>region_copy\<close> fails;
  \<open>env_switch\<close>: the result of \<^verbatim>\<open>vmm_switch\<close>; \<open>env_map\<close>: the first error of the
  \<^verbatim>\<open>region_map\<close> calls behind it, or 0; \<open>env_wq\<close>: the address for a wait-queue entry;
  \<open>env_kstack\<close>: the registers on the stack of a nested \<^verbatim>\<open>sched()\<close>.
\<close>

record sched_env =
  env_copy :: u64
  env_vmm :: u64
  env_mem :: "u64 option"
  env_switch :: errcode
  env_map :: errcode
  env_wq :: u64
  env_kstack :: task_regs

abbreviation (input) PID_MAX :: int where "PID_MAX \<equiv> 2147483647"

definition task_put :: "u64 \<Rightarrow> (task \<Rightarrow> task) \<Rightarrow> sched \<Rightarrow> sched" where
  "task_put a f s = s\<lparr>tasks := (tasks s)(a := f (tasks s a))\<rparr>"

section \<open>The task queue\<close>

text \<open>The loop of \<^verbatim>\<open>__sched_queue_add\<close> from the tail backwards; it goes on after an insertion.\<close>

fun queue_add_loop :: "nat \<Rightarrow> sched \<Rightarrow> u64 \<Rightarrow> u64 \<Rightarrow> sched option" where
  "queue_add_loop 0 s task cur = None"
| "queue_add_loop (Suc fuel) s task cur =
     (if cur = 0 then Some s
      else if prio (tasks s task) > prio (tasks s cur)
      then queue_add_loop fuel s task (dl_prev (queue s) cur)
      else let q = queue s;
               q1 = q\<lparr>dl_prev := (dl_prev q)(task := cur)\<rparr>;
               q2 = q1\<lparr>dl_next := (dl_next q1)(task := dl_next q1 cur)\<rparr>;
               q3 = q2\<lparr>dl_next := (dl_next q2)(cur := task)\<rparr>;
               q4 = (if dl_next q3 task \<noteq> 0
                     then q3\<lparr>dl_prev := (dl_prev q3)(dl_next q3 task := task)\<rparr> else q3)
           in queue_add_loop fuel (s\<lparr>queue := q4\<rparr>) task (dl_prev q4 cur))"

definition sched_queue_add :: "nat \<Rightarrow> sched \<Rightarrow> u64 \<Rightarrow> sched option" where
  "sched_queue_add fuel s task =
     (if dl_head (queue s) = 0 \<and> dl_tail (queue s) = 0
      then Some (s\<lparr>queue := \<lparr>dl_head = task, dl_tail = task,
             dl_next = (dl_next (queue s))(task := 0), dl_prev = (dl_prev (queue s))(task := 0)\<rparr>\<rparr>)
      else case queue_add_loop fuel s task (dl_tail (queue s)) of
        None \<Rightarrow> None
      | Some s1 \<Rightarrow>
          if task_current s1 = 0 then None
          else if prio (tasks s1 task) > prio (tasks s1 (task_current s1))
          then Some (s1\<lparr>task_promoted := task\<rparr>) else Some s1)"

definition sched_queue_del :: "nat \<Rightarrow> sched \<Rightarrow> u64 \<Rightarrow> sched option" where
  "sched_queue_del fuel s task = map_option (\<lambda>q. s\<lparr>queue := q\<rparr>) (dlist_del fuel (queue s) task)"

text \<open>\<^verbatim>\<open>sched_find\<close>: the inner value is the task's address or 0.\<close>

fun find_loop :: "nat \<Rightarrow> sched \<Rightarrow> (task \<Rightarrow> bool) \<Rightarrow> u64 \<Rightarrow> u64 option" where
  "find_loop 0 s P cur = None"
| "find_loop (Suc fuel) s P cur =
     (if cur = 0 then Some 0
      else if P (tasks s cur) then Some cur
      else find_loop fuel s P (dl_next (queue s) cur))"

definition sched_find :: "nat \<Rightarrow> sched \<Rightarrow> int \<Rightarrow> u64 option" where
  "sched_find fuel s p = find_loop fuel s (\<lambda>t. pid t = p) (dl_head (queue s))"

text \<open>\<^verbatim>\<open>task_free\<close> closes every descriptor of the table through \<^verbatim>\<open>files[fd]->node\<close> without
  checking it: an unused one is a null-pointer access.\<close>

definition task_free_ok :: "task \<Rightarrow> bool" where
  "task_free_ok t \<longleftrightarrow> (\<forall>f \<in> set (files t). f \<noteq> 0)"

definition waitq_notify :: "u64 \<Rightarrow> sched \<Rightarrow> u64 \<Rightarrow> u64 \<Rightarrow> sched" where
  "waitq_notify wq s parent corpse =
     (case task_waitq_add wq (objects s) (Some (tasks s parent)) (Some (tasks s corpse)) of
        (_, ob, t) \<Rightarrow> (task_put parent (\<lambda>_. the t) s)\<lparr>objects := ob\<rparr>)"

definition sched_queue_clean :: "nat \<Rightarrow> u64 \<Rightarrow> sched \<Rightarrow> sched option" where
  "sched_queue_clean fuel wq s =
     (case find_loop fuel s (\<lambda>t. state t = TASK_STATE_DEAD) (dl_head (queue s)) of
        None \<Rightarrow> None
      | Some corpse \<Rightarrow>
          if corpse = 0 \<or> task_current s = corpse then Some s
          else (case sched_find fuel s (ppid (tasks s corpse)) of
            None \<Rightarrow> None
          | Some parent \<Rightarrow>
              (case sched_queue_del fuel (if parent \<noteq> 0 then waitq_notify wq s parent corpse else s) corpse of
                    None \<Rightarrow> None
                  | Some s2 \<Rightarrow> if task_free_ok (tasks s2 corpse) then Some s2 else None)))"

text \<open>\<^verbatim>\<open>__sched_queue_next\<close>: one round picks the promoted task, the head or the successor, and the
  loop goes on while the pick is dead.\<close>

definition queue_pick :: "sched \<Rightarrow> u64 \<Rightarrow> u64 \<times> sched" where
  "queue_pick s pos =
     (if task_promoted s \<noteq> 0 then (task_promoted s, s\<lparr>task_promoted := 0\<rparr>)
      else if pos = 0 \<or> dl_next (queue s) pos = 0 then (dl_head (queue s), s)
      else (dl_next (queue s) pos, s))"

fun queue_next_loop :: "nat \<Rightarrow> sched \<Rightarrow> u64 \<Rightarrow> (u64 \<times> sched) option" where
  "queue_next_loop 0 s pos = None"
| "queue_next_loop (Suc fuel) s pos =
     (case queue_pick s pos of (pos', s') \<Rightarrow>
        if pos' = 0 then None
        else if state (tasks s' pos') = TASK_STATE_DEAD then queue_next_loop fuel s' pos'
        else Some (pos', s'))"

definition sched_queue_next :: "nat \<Rightarrow> sched \<Rightarrow> (u64 \<times> sched) option" where
  "sched_queue_next fuel s = queue_next_loop fuel s (task_current s)"

fun pid_loop :: "nat \<Rightarrow> sched \<Rightarrow> int \<Rightarrow> u64 \<Rightarrow> int option" where
  "pid_loop 0 s p cur = None"
| "pid_loop (Suc fuel) s p cur =
     (if cur = 0 then Some p
      else pid_loop fuel s (if pid (tasks s cur) > p then pid (tasks s cur) else p) (dl_prev (queue s) cur))"

definition sched_pid :: "nat \<Rightarrow> sched \<Rightarrow> u64 \<Rightarrow> sched option" where
  "sched_pid fuel s task =
     (let s1 = task_put task (\<lambda>t. t\<lparr>pid := 0\<rparr>) s in
      case pid_loop fuel s1 0 (dl_tail (queue s1)) of
        None \<Rightarrow> None
      | Some p \<Rightarrow> if p = PID_MAX then None else Some (task_put task (\<lambda>t. t\<lparr>pid := p + 1\<rparr>) s1))"

section \<open>Tasks\<close>

text \<open>\<^verbatim>\<open>task_copy\<close>: the outer option is a null-pointer access, address 0 a failed copy.\<close>

definition task_copy :: "sched_env \<Rightarrow> sched \<Rightarrow> (u64 \<times> sched) option" where
  "task_copy env s =
     (if env_copy env = 0 then None
      else let s1 = task_put (env_copy env) (\<lambda>_. task_zero\<lparr>task_vmm := env_vmm env\<rparr>) s
           in case env_mem env of
                None \<Rightarrow> Some (0, s1)
              | Some m \<Rightarrow>
                  if task_current s1 = 0 then None
                  else Some (env_copy env,
                    task_put (env_copy env)
                      (\<lambda>t. t\<lparr>task_mem := m, regs := regs (tasks s (task_current s))\<rparr>) s1))"

definition task_switch :: "errcode \<Rightarrow> errcode \<Rightarrow> sched \<Rightarrow> u64 \<Rightarrow> errcode \<times> sched" where
  "task_switch switch_err map_err s task =
     (if cur_vmm s = task_vmm (tasks s task) then (0, s)
      else let s1 = (if old (tasks s task) then task_put task (\<lambda>t. t\<lparr>old := False\<rparr>) s else s)
           in if switch_err \<noteq> 0 then (switch_err, s1)
              else (map_err, s1\<lparr>cur_vmm := task_vmm (tasks s1 task)\<rparr>))"

section \<open>The timer handler\<close>

text \<open>\<^verbatim>\<open>sched_exit\<close> up to its closing \<^verbatim>\<open>sched()\<close>: \<open>Inl\<close> carries the return value of the early
  exits, a panic is \<open>None\<close>.\<close>

fun reparent_loop :: "nat \<Rightarrow> sched \<Rightarrow> int \<Rightarrow> u64 \<Rightarrow> sched option" where
  "reparent_loop 0 s p cur = None"
| "reparent_loop (Suc fuel) s p cur =
     (if cur = 0 then Some s
      else reparent_loop fuel
        (if ppid (tasks s cur) = p then task_put cur (\<lambda>t. t\<lparr>ppid := 1\<rparr>) s else s) p (dl_next (queue s) cur))"

definition sched_exit :: "nat \<Rightarrow> sched \<Rightarrow> i32 \<Rightarrow> (errcode + sched) option" where
  "sched_exit fuel s code =
     (if task_current s = 0 then Some (Inl (- EINVAL))
      else if dl_head (queue s) = task_current s then None
      else let s1 = task_put (task_current s) (\<lambda>t. t\<lparr>exit_code := code, state := TASK_STATE_DEAD\<rparr>) s
           in map_option Inr (reparent_loop fuel s1 (pid (tasks s1 (task_current s1))) (dl_head (queue s1))))"

definition sched_fork :: "nat \<Rightarrow> sched_env \<Rightarrow> sched \<Rightarrow> sched option" where
  "sched_fork fuel env s =
     (case task_copy env s of
        None \<Rightarrow> None
      | Some (new, s1) \<Rightarrow>
          if new = 0 then Some s1
          else (case sched_pid fuel s1 new of
            None \<Rightarrow> None
          | Some s2 \<Rightarrow>
              let s3 = task_put new (\<lambda>t. t\<lparr>state := TASK_STATE_READY, prio := TASK_PRIO_LOW,
                         ppid := pid (tasks s2 (task_current s2))\<rparr>) s2
              in (case sched_queue_add fuel s3 new of
                    None \<Rightarrow> None
                  | Some s4 \<Rightarrow> Some (task_put (task_current s4) (\<lambda>t. t\<lparr>cpid := pid (tasks s4 new)\<rparr>) s4))))"

text \<open>The switch to the next task, when the current one has no ticks left or is gone.\<close>

definition sched_switch :: "nat \<Rightarrow> sched_env \<Rightarrow> sched \<Rightarrow> task_regs \<Rightarrow> (sched \<times> task_regs) option" where
  "sched_switch fuel env s stack =
     (case sched_queue_next fuel s of
        None \<Rightarrow> None
      | Some (new, s1) \<Rightarrow>
          let s2 = s1\<lparr>task_current := new\<rparr>;
              s3 = task_put new task_ticks_reset s2;
              stack' = task_update_stack (tasks s3 new) stack;
              s4 = snd (task_switch (env_switch env) (env_map env) s3 new)
          in map_option (\<lambda>s5. (s5, stack')) (sched_queue_clean fuel (env_wq env) s4))"

text \<open>The state dispatch: \<open>Inl\<close> returns at once (\<^verbatim>\<open>TASK_STATE_HOLD\<close>).\<close>

definition sched_dispatch :: "nat \<Rightarrow> sched_env \<Rightarrow> sched \<Rightarrow> task_regs \<Rightarrow> ((sched \<times> task_regs) + (sched \<times> task_regs)) option" where
  "sched_dispatch fuel env s stack =
     (let c = task_current s; st = state (tasks s c) in
      if st = TASK_STATE_HOLD then Some (Inl (s, stack))
      else if st = TASK_STATE_READY
      then Some (Inr (task_put c (\<lambda>t. task_update_regs t stack) s, stack))
      else if st = TASK_STATE_SAVE then Some (Inr (s, task_update_stack (tasks s c) stack))
      else if st = TASK_STATE_WAIT
      then Some (Inr (task_put c (\<lambda>t. (task_update_regs t stack)\<lparr>ticks := 0\<rparr>) s, stack))
      else if st = TASK_STATE_DEAD then Some (Inr (s\<lparr>task_current := 0\<rparr>, stack))
      else if st = TASK_STATE_FORK
      then map_option (\<lambda>s'. Inr (s', stack)) (sched_fork fuel env (task_put c (\<lambda>t. task_update_regs t stack) s))
      else Some (Inr (task_put c (\<lambda>t. t\<lparr>state := TASK_STATE_READY\<rparr>) s, stack)))"

definition sched_finish :: "nat \<Rightarrow> sched_env \<Rightarrow> sched \<Rightarrow> task_regs \<Rightarrow> (sched \<times> task_regs) option" where
  "sched_finish fuel env s stack =
     (let r = (if task_current s = 0 \<or> ticks (tasks s (task_current s)) = 0
               then sched_switch fuel env s stack else Some (s, stack))
      in map_option (\<lambda>(s', stack').
           (task_put (task_current s') (\<lambda>t. t\<lparr>state := TASK_STATE_READY, ticks := ticks t - 1\<rparr>) s', stack')) r)"

text \<open>
  \<^verbatim>\<open>__sched_timer_handler\<close>: the scheduler state and the registers on the interrupt stack. When the
  default handler of a signal ends the task, \<^verbatim>\<open>sched_exit\<close> raises the timer interrupt again; that
  nested call switches to another task and the outer one is never resumed. The first argument bounds
  this nesting; one level per queued signal is enough.
\<close>

fun sched_timer_handler :: "nat \<Rightarrow> nat \<Rightarrow> sched_env \<Rightarrow> sched \<Rightarrow> task_regs \<Rightarrow> (sched \<times> task_regs) option" where
  "sched_timer_handler 0 fuel env s stack = None"
| "sched_timer_handler (Suc depth) fuel env s stack =
     (case (if task_current s = 0
            then map_option (\<lambda>(p, s'). s'\<lparr>task_current := p\<rparr>) (sched_queue_next fuel s) else Some s) of
        None \<Rightarrow> None
      | Some s1 \<Rightarrow>
          (let c = task_current s1;
               (s2, dfl) = (if sigq (tasks s1 c) \<noteq> 0
                  then (case task_signal_pop (objects s1) (Some (tasks s1 c)) of
                          (_, t, d) \<Rightarrow> (task_put c (\<lambda>_. the t) s1, d))
                  else (s1, None))
           in case dfl of
                Some sig \<Rightarrow>
                  (case sched_exit fuel (task_put c (\<lambda>t. t\<lparr>term_code := of_int sig\<rparr>) s2) (SIG_EXIT_CODE + of_int sig) of
                     Some (Inr s3) \<Rightarrow> sched_timer_handler depth fuel env s3 (env_kstack env)
                   | _ \<Rightarrow> None)
              | None \<Rightarrow>
                  (case sched_dispatch fuel env s2 stack of
                     None \<Rightarrow> None
                   | Some (Inl r) \<Rightarrow> Some r
                   | Some (Inr (s3, stack3)) \<Rightarrow> sched_finish fuel env s3 stack3)))"

section \<open>Exceptions and queries\<close>

definition exception_signal :: "nat \<Rightarrow> int" where
  "exception_signal vector = (if vector = 6 then 3 else SIGSEGV)"

definition sched_exception_handler :: "nat \<Rightarrow> u64 \<Rightarrow> sched \<Rightarrow> nat \<Rightarrow> sched option" where
  "sched_exception_handler fuel addr s vector =
     (let c = task_current s in
      if c = 0 then None
      else case task_signal_add fuel addr (objects s) (Some (tasks s c)) (exception_signal vector) of
        None \<Rightarrow> None
      | Some (_, ob, t) \<Rightarrow> Some ((task_put c (\<lambda>_. the t) s)\<lparr>objects := ob\<rparr>))"

definition sched_next :: "sched \<Rightarrow> u64 \<Rightarrow> u64" where
  "sched_next s task = (if task = 0 then dl_head (queue s) else dl_next (queue s) task)"

text \<open>\<^verbatim>\<open>sched_child\<close>: the next task behind \<open>child\<close> whose parent is \<open>task\<close>.\<close>

definition sched_child :: "nat \<Rightarrow> sched \<Rightarrow> u64 \<Rightarrow> u64 \<Rightarrow> u64 option" where
  "sched_child fuel s task child =
     (if task = 0 then Some 0
      else find_loop fuel s (\<lambda>t. ppid t = pid (tasks s task)) (sched_next s child))"

text \<open>\<^verbatim>\<open>sched_init\<close> after the interrupt handlers are installed: \<open>main\<close> is the address \<^verbatim>\<open>task_new\<close>
  returns, \<open>mem\<close> its stack regions, and \<open>unmasked\<close> the result of \<^verbatim>\<open>pic_unmask\<close>.\<close>

definition sched_init :: "nat \<Rightarrow> u64 \<Rightarrow> u64 \<Rightarrow> bool \<Rightarrow> sched \<Rightarrow> (errcode \<times> sched) option" where
  "sched_init fuel main mem unmasked s =
     (let s0 = s\<lparr>task_current := 0, queue := (queue s)\<lparr>dl_head := 0, dl_tail := 0\<rparr>\<rparr>
      in if main = 0 then Some (- EFAULT, s0)
      else let s1 = task_put main (\<lambda>_. task_zero\<lparr>task_vmm := cur_vmm s, task_mem := mem\<rparr>) s0
      in (case sched_pid fuel s1 main of
            None \<Rightarrow> None
          | Some s2 \<Rightarrow>
              (case task_rename (Some (tasks s2 main)) (Some [109, 97, 105, 110, 0]) of
                 None \<Rightarrow> None
               | Some (_, t) \<Rightarrow>
                   let s3 = task_put main (\<lambda>_. (the t)\<lparr>state := TASK_STATE_READY, prio := TASK_PRIO_LOW, ppid := 0\<rparr>) s2
                   in map_option (Pair (if unmasked then 0 else - EFAULT)) (sched_queue_add fuel s3 main))))"

section \<open>The scheduler invariant\<close>

text \<open>
  \<open>xs\<close> are the queued tasks, the first one being the main task. \<^verbatim>\<open>task_tail\<close> is set once, by
  \<^verbatim>\<open>sched_init\<close>, and stays at the main task.
\<close>

definition sched_inv :: "sched \<Rightarrow> u64 list \<Rightarrow> bool" where
  "sched_inv s xs \<longleftrightarrow> xs \<noteq> [] \<and> chain (dl_next (queue s)) (dl_head (queue s)) xs \<and>
     dl_tail (queue s) = dl_head (queue s) \<and> dl_prev (queue s) (dl_head (queue s)) = 0 \<and>
     task_promoted s = 0 \<and> (task_current s = 0 \<or> task_current s \<in> set xs) \<and>
     state (tasks s (dl_head (queue s))) \<noteq> TASK_STATE_DEAD \<and> 0 < pid (tasks s (dl_head (queue s))) \<and>
     (\<forall>a \<in> set xs. 0 < prio (tasks s a))"

lemma task_put_simps [simp]:
  "queue (task_put a f s) = queue s" "task_current (task_put a f s) = task_current s"
  "task_promoted (task_put a f s) = task_promoted s" "cur_vmm (task_put a f s) = cur_vmm s"
  "objects (task_put a f s) = objects s"
  "tasks (task_put a f s) b = (if b = a then f (tasks s a) else tasks s b)"
  by (simp_all add: task_put_def)

lemma sched_inv_head: "sched_inv s xs \<Longrightarrow> dl_head (queue s) = hd xs \<and> hd xs \<in> set xs \<and> dl_head (queue s) \<noteq> 0"
  by (cases xs) (auto simp: sched_inv_def)

lemma sched_inv_chain: "sched_inv s xs \<Longrightarrow> chain (dl_next (queue s)) (dl_head (queue s)) xs"
  by (simp add: sched_inv_def)

lemma sched_inv_distinct: "sched_inv s xs \<Longrightarrow> distinct xs"
  by (rule chain_distinct [OF sched_inv_chain])

lemma sched_inv_task_put [kernel_inv]:
  assumes "sched_inv s xs" and "0 < prio (f (tasks s a)) \<or> a \<notin> set xs"
    and "a \<noteq> dl_head (queue s) \<or> state (f (tasks s a)) \<noteq> TASK_STATE_DEAD \<and> 0 < pid (f (tasks s a))"
  shows "sched_inv (task_put a f s) xs"
  using assms by (auto simp: sched_inv_def)

lemma sched_inv_objects [kernel_inv]: "sched_inv s xs \<Longrightarrow> sched_inv (s\<lparr>objects := ob\<rparr>) xs"
  by (simp add: sched_inv_def)

lemma sched_inv_vmm [kernel_inv]: "sched_inv s xs \<Longrightarrow> sched_inv (s\<lparr>cur_vmm := v\<rparr>) xs"
  by (simp add: sched_inv_def)

lemma sched_inv_current [kernel_inv]: "sched_inv s xs \<Longrightarrow> c = 0 \<or> c \<in> set xs \<Longrightarrow> sched_inv (s\<lparr>task_current := c\<rparr>) xs"
  by (simp add: sched_inv_def)

subsection \<open>Insertion\<close>

lemma sched_queue_add_inv:
  assumes inv: "sched_inv s xs" and new: "new \<noteq> 0" "new \<notin> set xs" and pr: "prio (tasks s new) = TASK_PRIO_LOW"
    and cur: "task_current s \<noteq> 0" and fuel: "2 \<le> fuel"
  shows "\<exists>s'. sched_queue_add fuel s new = Some s' \<and> sched_inv s' (hd xs # new # tl xs) \<and>
    tasks s' = tasks s \<and> task_current s' = task_current s"
proof -
  obtain m ys where xs: "xs = m # ys" using inv by (cases xs) (auto simp: sched_inv_def)
  let ?q = "queue s"
  have q: "dl_head ?q = m" "dl_tail ?q = m" "dl_prev ?q m = 0" "m \<noteq> 0" "chain (dl_next ?q) (dl_next ?q m) ys"
    using inv xs by (auto simp: sched_inv_def)
  have dist: "distinct (m # ys)" using sched_inv_distinct [OF inv] xs by simp
  have pm: "\<not> prio (tasks s new) > prio (tasks s m)"
    using inv xs pr by (auto simp: sched_inv_def not_less word_le_nat_alt word_less_nat_alt)
  have pc: "\<not> prio (tasks s new) > prio (tasks s (task_current s))"
    using inv pr cur by (auto simp: sched_inv_def not_less word_le_nat_alt word_less_nat_alt)
  obtain f where f: "fuel = Suc (Suc f)" using fuel by (metis Suc_le_D numeral_2_eq_2 Suc_le_mono)
  define nx where "nx = (dl_next ?q)(new := dl_next ?q m, m := new)"
  define pv where "pv = (if dl_next ?q m \<noteq> 0 then (dl_prev ?q)(new := m, dl_next ?q m := new) else (dl_prev ?q)(new := m))"
  let ?s = "s\<lparr>queue := ?q\<lparr>dl_next := nx, dl_prev := pv\<rparr>\<rparr>"
  have mn: "m \<noteq> new" using new xs by auto
  have nm: "dl_next ?q m \<noteq> m" using dist q(4,5) by (cases ys) auto
  have pv0: "pv m = 0" using mn nm q(3) by (simp add: pv_def)
  have "queue_add_loop fuel s new m = Some ?s"
    using f q pm mn nm pv0 by (simp add: Let_def nx_def pv_def)
  then have run: "sched_queue_add fuel s new = Some ?s"
    using q cur pc by (simp add: sched_queue_add_def)
  have "chain nx new (new # ys)"
    using new xs dist q(5) by (auto simp: nx_def)
  then have "chain nx m (m # new # ys)" using q(4) by (simp add: nx_def)
  then have "sched_inv ?s (hd xs # new # tl xs)"
    using inv xs q pr pv0 by (auto simp: sched_inv_def)
  then show ?thesis using run by auto
qed

subsection \<open>Picking the next task\<close>

text \<open>The successor of position \<open>i\<close> in the circular order of the queue.\<close>

lemma chain_next_nth:
  "chain nx p xs \<Longrightarrow> i < length xs \<Longrightarrow> nx (xs ! i) = (if Suc i < length xs then xs ! Suc i else 0)"
proof (induction xs arbitrary: p i)
  case (Cons x xs)
  show ?case
  proof (cases i)
    case 0
    then show ?thesis using Cons.prems by (cases xs) auto
  next
    case (Suc j)
    then show ?thesis using Cons by auto
  qed
qed simp

lemma queue_pick_nth:
  assumes inv: "sched_inv s xs" and i: "i < length xs"
  shows "queue_pick s (xs ! i) = (xs ! (Suc i mod length xs), s)"
proof -
  have ch: "chain (dl_next (queue s)) (dl_head (queue s)) xs" and pr: "task_promoted s = 0" and ne: "xs \<noteq> []"
    using inv by (auto simp: sched_inv_def)
  have nz: "xs ! i \<noteq> 0" "\<And>j. j < length xs \<Longrightarrow> xs ! j \<noteq> 0" using chain_nonzero [OF ch] i nth_mem by metis+
  have h: "dl_head (queue s) = xs ! 0" using sched_inv_head [OF inv] ne by (simp add: hd_conv_nth)
  show ?thesis
  proof (cases "Suc i < length xs")
    case True
    then show ?thesis using chain_next_nth [OF ch i] nz pr by (simp add: queue_pick_def)
  next
    case False
    then have "Suc i = length xs" using i by simp
    then show ?thesis using chain_next_nth [OF ch i] nz pr h by (simp add: queue_pick_def)
  qed
qed

lemma queue_next_loop_first:
  assumes inv: "sched_inv s xs"
  shows "i < length xs \<Longrightarrow> length xs - i < fuel \<Longrightarrow>
    \<exists>d. 0 < d \<and> d \<le> length xs - i \<and> queue_next_loop fuel s (xs ! i) = Some (xs ! ((i + d) mod length xs), s) \<and>
      state (tasks s (xs ! ((i + d) mod length xs))) \<noteq> TASK_STATE_DEAD \<and>
      (\<forall>e. 0 < e \<and> e < d \<longrightarrow> state (tasks s (xs ! ((i + e) mod length xs))) = TASK_STATE_DEAD)"
proof (induction fuel arbitrary: i)
  case (Suc fuel)
  have ne: "xs \<noteq> []" and ch: "chain (dl_next (queue s)) (dl_head (queue s)) xs"
    and alive: "state (tasks s (dl_head (queue s))) \<noteq> TASK_STATE_DEAD"
    using inv by (auto simp: sched_inv_def)
  have h: "dl_head (queue s) = xs ! 0" using sched_inv_head [OF inv] ne by (simp add: hd_conv_nth)
  let ?j = "Suc i mod length xs"
  have j: "?j < length xs" using ne by simp
  have nz: "xs ! ?j \<noteq> 0" using chain_nonzero [OF ch] j nth_mem by metis
  note p = queue_pick_nth [OF inv Suc.prems(1)]
  show ?case
  proof (cases "state (tasks s (xs ! ?j)) = TASK_STATE_DEAD")
    case True
    have "Suc i < length xs"
    proof (rule ccontr)
      assume "\<not> Suc i < length xs"
      then have "Suc i = length xs" using Suc.prems(1) by simp
      then show False using True alive h by simp
    qed
    then obtain d where d: "0 < d" "d \<le> length xs - Suc i"
        "queue_next_loop fuel s (xs ! Suc i) = Some (xs ! ((Suc i + d) mod length xs), s)"
        "state (tasks s (xs ! ((Suc i + d) mod length xs))) \<noteq> TASK_STATE_DEAD"
        "\<forall>e. 0 < e \<and> e < d \<longrightarrow> state (tasks s (xs ! ((Suc i + e) mod length xs))) = TASK_STATE_DEAD"
      using Suc.IH [OF \<open>Suc i < length xs\<close>] Suc.prems(2) less_diff_conv by fastforce
    have "state (tasks s (xs ! ((i + e) mod length xs))) = TASK_STATE_DEAD" if "0 < e" "e < Suc d" for e
      using that d(5) True by (cases "e = 1") (auto simp: gr0_conv_Suc)
    moreover have "queue_next_loop (Suc fuel) s (xs ! i) = Some (xs ! ((i + Suc d) mod length xs), s)"
      using p True nz d(3) \<open>Suc i < length xs\<close> by simp
    ultimately show ?thesis using d(1,2,4) by (intro exI [of _ "Suc d"]) auto
  next
    case False
    then show ?thesis using p nz Suc.prems(1) by (intro exI [of _ 1]) auto
  qed
qed simp

lemma sched_queue_next_alive:
  assumes inv: "sched_inv s xs" and fuel: "length xs < fuel"
  shows "\<exists>a. sched_queue_next fuel s = Some (a, s) \<and> a \<in> set xs \<and> state (tasks s a) \<noteq> TASK_STATE_DEAD"
proof (cases "task_current s = 0")
  case True
  obtain f where f: "fuel = Suc f" using fuel by (cases fuel) auto
  have "queue_pick s 0 = (dl_head (queue s), s)" using inv by (simp add: queue_pick_def sched_inv_def)
  then show ?thesis
    using True sched_inv_head [OF inv] inv f by (auto simp: sched_queue_next_def sched_inv_def)
next
  case False
  then obtain i where i: "i < length xs" "task_current s = xs ! i"
    using inv by (metis in_set_conv_nth sched_inv_def)
  obtain d where "queue_next_loop fuel s (xs ! i) = Some (xs ! ((i + d) mod length xs), s)"
      "state (tasks s (xs ! ((i + d) mod length xs))) \<noteq> TASK_STATE_DEAD"
    using queue_next_loop_first [OF inv i(1) le_less_trans [OF diff_le_self fuel]] by blast
  moreover have "(i + d) mod length xs < length xs" using i(1) by (intro mod_less_divisor) (cases xs, auto)
  ultimately show ?thesis using i(2) nth_mem by (auto simp: sched_queue_next_def)
qed

subsection \<open>Removal of dead tasks\<close>

lemma find_loop_spec:
  "chain (dl_next (queue s)) cur xs \<Longrightarrow> length xs < fuel \<Longrightarrow>
   find_loop fuel s P cur = Some (case find (\<lambda>a. P (tasks s a)) xs of None \<Rightarrow> 0 | Some a \<Rightarrow> a)"
proof (induction xs arbitrary: cur fuel)
  case Nil
  then show ?case by (cases fuel) auto
next
  case (Cons x xs)
  then show ?case by (cases fuel) auto
qed

lemma find_loop_result:
  assumes "chain (dl_next (queue s)) cur xs" and "find_loop fuel s P cur = Some a" and "length xs < fuel" and "a \<noteq> 0"
  shows "a \<in> set xs \<and> P (tasks s a)"
  using assms find_loop_spec [OF assms(1,3), of P]
  by (auto split: option.splits simp: find_Some_iff)

lemma dlist_unlink_chain:
  "chain (dl_next d) cur (us @ [c] @ e # vs) \<Longrightarrow> length us < fuel \<Longrightarrow>
   \<exists>d'. dlist_unlink fuel d cur e = Some d' \<and> chain (dl_next d') cur (us @ [c] @ vs) \<and>
     dl_head d' = dl_head d \<and> dl_tail d' = dl_tail d \<and> (\<forall>a. a \<notin> set vs \<longrightarrow> dl_prev d' a = dl_prev d a)"
proof -
  assume ch: "chain (dl_next d) cur (us @ [c] @ e # vs)" and fuel: "length us < fuel"
  have eq: "\<exists>d'. dlist_unlink fuel d cur e = Some d' \<and> dl_next d' = (dl_next d)(c := dl_next d e) \<and>
      dl_head d' = dl_head d \<and> dl_tail d' = dl_tail d \<and> (\<forall>a. a \<noteq> dl_next d e \<or> a = 0 \<longrightarrow> dl_prev d' a = dl_prev d a)"
    using ch fuel
  proof (induction us arbitrary: cur fuel)
    case Nil
    then show ?case by (cases fuel) (auto simp: Let_def)
  next
    case (Cons x us)
    obtain f where f: "fuel = Suc f" using Cons.prems(2) by (cases fuel) auto
    have "distinct (x # us @ [c] @ e # vs)" using chain_distinct [OF Cons.prems(1)] by simp
    then have "dl_next d x \<noteq> e" using Cons.prems(1) by (cases us) auto
    then show ?case using Cons f by auto
  qed
  have "chain ((dl_next d)(c := dl_next d e)) cur (us @ [c] @ vs)"
    using slist_unlink_chain [OF ch fuel] by simp
  moreover have "chain (dl_next d) (dl_next d e) vs" using chain_suffix [of "dl_next d" cur "us @ [c]" e vs] ch by simp
  then have "dl_next d e \<in> set vs \<or> dl_next d e = 0" by (cases vs) auto
  ultimately show ?thesis using eq by metis
qed

lemma sched_queue_del_inv:
  assumes inv: "sched_inv s xs" and e: "e \<in> set xs" "e \<noteq> dl_head (queue s)" "e \<noteq> task_current s"
    and fuel: "length xs < fuel"
  shows "\<exists>s'. sched_queue_del fuel s e = Some s' \<and> sched_inv s' (remove1 e xs) \<and>
    tasks s' = tasks s \<and> task_current s' = task_current s"
proof -
  let ?q = "queue s"
  note ch = sched_inv_chain [OF inv] and dist = sched_inv_distinct [OF inv] and h = sched_inv_head [OF inv]
  have t: "dl_tail ?q = dl_head ?q" using inv by (simp add: sched_inv_def)
  obtain us vs where xs: "xs = us @ e # vs" using e(1) by (meson split_list)
  have "us \<noteq> []" using e(2) h xs by (cases us) auto
  then obtain ws c where us: "us = ws @ [c]" by (metis rev_exhaust)
  have "chain (dl_next ?q) (dl_head ?q) (ws @ [c] @ e # vs)" using ch xs us by simp
  then obtain d' where d: "dlist_unlink fuel ?q (dl_head ?q) e = Some d'"
    "chain (dl_next d') (dl_head ?q) (ws @ [c] @ vs)" "dl_head d' = dl_head ?q" "dl_tail d' = dl_tail ?q"
    "\<forall>a. a \<notin> set vs \<longrightarrow> dl_prev d' a = dl_prev ?q a"
    using dlist_unlink_chain [of ?q "dl_head ?q" ws c e vs fuel] fuel xs us by auto
  have rm: "remove1 e xs = ws @ [c] @ vs" using dist xs us by (simp add: remove1_append)
  have "dl_head ?q \<notin> set vs"
  proof -
    have "hd xs \<in> set (ws @ [c])" using xs us by (cases ws) auto
    then show ?thesis using dist xs us h by auto
  qed
  then have "sched_inv (s\<lparr>queue := d'\<rparr>) (remove1 e xs)"
    using inv d rm xs us e(3) by (auto simp: sched_inv_def)
  moreover have h0: "dl_head ?q \<noteq> 0" using h by blast
  have "sched_queue_del fuel s e = Some (s\<lparr>queue := d'\<rparr>)"
    using d(1) e(2) t h0 by (simp add: sched_queue_del_def dlist_del_def)
  ultimately show ?thesis by auto
qed

lemma task_waitq_add_keeps:
  "task_waitq_add wq ob (Some t) (Some c) = (err, ob', t') \<Longrightarrow>
   \<exists>t2. t' = Some t2 \<and> state t2 = state t \<and> prio t2 = prio t \<and> pid t2 = pid t \<and> files t2 = files t"
  by (auto simp: task_waitq_add_def Let_def split: if_splits)

lemma waitq_notify_keeps:
  assumes inv: "sched_inv s xs"
  shows "sched_inv (waitq_notify wq s parent corpse) xs \<and>
    task_current (waitq_notify wq s parent corpse) = task_current s \<and>
    queue (waitq_notify wq s parent corpse) = queue s \<and>
    files (tasks (waitq_notify wq s parent corpse) a) = files (tasks s a)"
proof -
  obtain err ob t where w: "task_waitq_add wq (objects s) (Some (tasks s parent)) (Some (tasks s corpse)) = (err, ob, t)"
    by (metis prod_cases3)
  then obtain t2 where t2: "t = Some t2" "state t2 = state (tasks s parent)" "prio t2 = prio (tasks s parent)"
    "pid t2 = pid (tasks s parent)" "files t2 = files (tasks s parent)"
    using task_waitq_add_keeps by blast
  have "sched_inv (task_put parent (\<lambda>_. the t) s) xs"
    using inv t2 by (intro sched_inv_task_put) (auto simp: sched_inv_def)
  then show ?thesis using w t2 by (simp add: waitq_notify_def sched_inv_objects)
qed

lemma sched_queue_del_tasks: "sched_queue_del fuel s e = Some s' \<Longrightarrow> tasks s' = tasks s"
  by (auto simp: sched_queue_del_def)

lemma sched_queue_clean_inv:
  assumes inv: "sched_inv s xs" and cur: "task_current s \<noteq> 0" and fuel: "length xs < fuel"
    and run: "sched_queue_clean fuel wq s = Some s'"
  shows "\<exists>xs'. sched_inv s' xs' \<and> set xs' \<subseteq> set xs \<and> length xs' \<le> length xs \<and> task_current s' = task_current s"
proof -
  note ch = sched_inv_chain [OF inv]
  obtain corpse where co: "find_loop fuel s (\<lambda>t. state t = TASK_STATE_DEAD) (dl_head (queue s)) = Some corpse"
    using find_loop_spec [OF ch fuel] by blast
  show ?thesis
  proof (cases "corpse = 0 \<or> task_current s = corpse")
    case True
    then show ?thesis using run co inv by (auto simp: sched_queue_clean_def)
  next
    case False
    then have c: "corpse \<in> set xs" "state (tasks s corpse) = TASK_STATE_DEAD"
      using find_loop_result [OF ch co fuel] by auto
    then have ch0: "corpse \<noteq> dl_head (queue s)" using inv by (auto simp: sched_inv_def)
    obtain parent where pa: "sched_find fuel s (ppid (tasks s corpse)) = Some parent"
      using find_loop_spec [OF ch fuel] by (auto simp: sched_find_def)
    define s1 where "s1 = (if parent \<noteq> 0 then waitq_notify wq s parent corpse else s)"
    have s1: "sched_inv s1 xs" "task_current s1 = task_current s" "queue s1 = queue s"
      using inv waitq_notify_keeps [OF inv, of wq parent corpse] by (simp_all add: s1_def)
    obtain s2 where s2: "sched_queue_del fuel s1 corpse = Some s2" "sched_inv s2 (remove1 corpse xs)"
      "task_current s2 = task_current s1"
      using sched_queue_del_inv [OF s1(1) c(1) _ _ fuel] ch0 False s1 by auto
    have "s' = s2" using run co False pa s2(1) by (auto simp: sched_queue_clean_def s1_def Let_def split: if_splits)
    then show ?thesis using s2 s1 set_remove1_subset [of corpse xs] length_remove1 [of corpse xs] by auto
  qed
qed

subsection \<open>The handler keeps the invariant\<close>

lemma reparent_loop_inv:
  "sched_inv s xs \<Longrightarrow> reparent_loop fuel s p cur = Some s' \<Longrightarrow>
   sched_inv s' xs \<and> task_current s' = task_current s"
proof (induction fuel arbitrary: s cur)
  case (Suc fuel)
  let ?s = "if ppid (tasks s cur) = p then task_put cur (\<lambda>t. t\<lparr>ppid := 1\<rparr>) s else s"
  have "sched_inv ?s xs"
    using Suc.prems(1) by (auto intro!: sched_inv_task_put) (auto simp: sched_inv_def)
  then show ?case using Suc by (fastforce split: if_splits)
qed simp

lemma sched_exit_inv:
  assumes inv: "sched_inv s xs" and run: "sched_exit fuel s code = Some (Inr s')"
  shows "sched_inv s' xs \<and> task_current s' = task_current s"
proof -
  let ?s = "task_put (task_current s) (\<lambda>t. t\<lparr>exit_code := code, state := TASK_STATE_DEAD\<rparr>) s"
  have c: "task_current s \<noteq> 0" "dl_head (queue s) \<noteq> task_current s"
    and r: "reparent_loop fuel ?s (pid (tasks s (task_current s))) (dl_head (queue s)) = Some s'"
    using run by (auto simp: sched_exit_def Let_def split: if_splits)
  have "sched_inv ?s xs" using inv c by (intro sched_inv_task_put) (auto simp: sched_inv_def)
  from reparent_loop_inv [OF this r] show ?thesis by simp
qed

lemma pid_loop_head:
  assumes "sched_inv s xs" and "2 \<le> fuel" and "p \<le> pid (tasks s (dl_head (queue s)))"
  shows "pid_loop fuel s p (dl_tail (queue s)) = Some (pid (tasks s (dl_head (queue s))))"
proof -
  obtain f where f: "fuel = Suc (Suc f)" using assms(2) by (metis Suc_le_D numeral_2_eq_2 Suc_le_mono)
  then show ?thesis using assms sched_inv_head [OF assms(1)] by (auto simp: sched_inv_def)
qed

definition env_ok :: "sched_env \<Rightarrow> sched \<Rightarrow> u64 list \<Rightarrow> bool" where
  "env_ok env s xs \<longleftrightarrow> env_copy env \<notin> set xs"

text \<open>A fork in a well-formed state: the child is queued right behind the main task and its PID is
  the main task's plus one.\<close>

lemma sched_fork_child:
  assumes inv: "sched_inv s xs" and env: "env_ok env s xs" and cur: "task_current s \<noteq> 0" and fuel: "2 \<le> fuel"
    and mem: "env_mem env = Some m" and run: "sched_fork fuel env s = Some s'"
  shows "sched_inv s' (hd xs # env_copy env # tl xs) \<and> task_current s' = task_current s \<and>
    pid (tasks s' (env_copy env)) = pid (tasks s (hd xs)) + 1 \<and>
    ppid (tasks s' (env_copy env)) = pid (tasks s (task_current s)) \<and>
    regs (tasks s' (env_copy env)) = regs (tasks s (task_current s)) \<and>
    (\<forall>a \<in> set xs. pid (tasks s' a) = pid (tasks s a))"
proof -
  let ?n = "env_copy env" and ?c = "task_current s" and ?h = "dl_head (queue s)"
  have h: "?h = hd xs" "?h \<in> set xs" using sched_inv_head [OF inv] by auto
  have n: "?n \<notin> set xs" "?n \<noteq> ?h" using env h by (auto simp: env_ok_def)
  have cxs: "?c \<in> set xs" using inv cur by (auto simp: sched_inv_def)
  have n0: "?n \<noteq> 0" using run by (auto simp: sched_fork_def task_copy_def split: if_splits)
  have main: "0 \<le> pid (tasks s (hd xs))" using inv h by (simp add: sched_inv_def)
  define s1 where "s1 = task_put ?n (\<lambda>t. t\<lparr>task_mem := m, regs := regs (tasks s ?c)\<rparr>)
    (task_put ?n (\<lambda>_. task_zero\<lparr>task_vmm := env_vmm env\<rparr>) s)"
  have cp: "task_copy env s = Some (?n, s1)" using n0 mem cur by (simp add: task_copy_def s1_def)
  have i1: "sched_inv (task_put ?n (\<lambda>t. t\<lparr>pid := 0\<rparr>) s1) xs"
    unfolding s1_def using inv n by (intro sched_inv_task_put) auto
  have p1: "pid_loop fuel (task_put ?n (\<lambda>t. t\<lparr>pid := 0\<rparr>) s1) 0 (dl_tail (queue s1)) = Some (pid (tasks s ?h))"
    using pid_loop_head [OF i1 fuel, of 0] main h n by (simp add: s1_def)
  then have np: "pid (tasks s ?h) \<noteq> PID_MAX" using run cp n0 by (auto simp: sched_fork_def sched_pid_def Let_def)
  define s2 where "s2 = task_put ?n (\<lambda>t. t\<lparr>pid := pid (tasks s ?h) + 1\<rparr>) (task_put ?n (\<lambda>t. t\<lparr>pid := 0\<rparr>) s1)"
  have sp: "sched_pid fuel s1 ?n = Some s2" using p1 np by (simp add: sched_pid_def s2_def)
  define s3 where "s3 = task_put ?n (\<lambda>t. t\<lparr>state := TASK_STATE_READY, prio := TASK_PRIO_LOW,
    ppid := pid (tasks s2 (task_current s2))\<rparr>) s2"
  have q1: "queue s1 = queue s" by (simp add: s1_def)
  have i2: "sched_inv s2 xs" unfolding s2_def using i1 by (rule sched_inv_task_put) (use n q1 in auto)
  then have i3: "sched_inv s3 xs"
    unfolding s3_def by (rule sched_inv_task_put) (use n q1 in \<open>auto simp: s2_def\<close>)
  obtain s4 where s4: "sched_queue_add fuel s3 ?n = Some s4" "sched_inv s4 (hd xs # ?n # tl xs)"
    "tasks s4 = tasks s3" "task_current s4 = task_current s3"
    using sched_queue_add_inv [OF i3 n0 n(1) _ _ fuel] cur by (auto simp: s3_def s2_def s1_def)
  have s': "s' = task_put (task_current s4) (\<lambda>t. t\<lparr>cpid := pid (tasks s4 ?n)\<rparr>) s4"
    using run cp n0 sp s4(1) by (simp add: sched_fork_def s3_def Let_def)
  have c3: "task_current s4 = ?c" "?c \<noteq> ?n" using s4(4) cxs n by (auto simp: s3_def s2_def s1_def)
  have "sched_inv s' (hd xs # ?n # tl xs)"
    unfolding s' using s4(2) by (rule sched_inv_task_put) (use s4(2) in \<open>auto simp: sched_inv_def\<close>)
  moreover have "\<forall>a \<in> set xs. pid (tasks s' a) = pid (tasks s a)"
    using n s4(3) by (auto simp: s' s3_def s2_def s1_def)
  ultimately show ?thesis
    using c3 s4(3) h by (simp add: s' s3_def s2_def s1_def)
qed

lemma sched_fork_failed:
  assumes inv: "sched_inv s xs" and env: "env_ok env s xs" and mem: "env_mem env = None"
    and run: "sched_fork fuel env s = Some s'"
  shows "sched_inv s' xs \<and> task_current s' = task_current s"
proof -
  have "s' = task_put (env_copy env) (\<lambda>_. task_zero\<lparr>task_vmm := env_vmm env\<rparr>) s"
    using run mem by (auto simp: sched_fork_def task_copy_def split: if_splits)
  moreover have "sched_inv (task_put (env_copy env) (\<lambda>_. task_zero\<lparr>task_vmm := env_vmm env\<rparr>) s) xs"
    using inv env sched_inv_head [OF inv] by (intro sched_inv_task_put) (auto simp: env_ok_def)
  ultimately show ?thesis by simp
qed

text \<open>Updates of a task that keep its priority and leave it alive.\<close>

lemma sched_inv_put_alive:
  assumes "sched_inv s xs" and "prio (f (tasks s a)) = prio (tasks s a)" and "pid (f (tasks s a)) = pid (tasks s a)"
    and "state (f (tasks s a)) = state (tasks s a) \<or> state (f (tasks s a)) \<noteq> TASK_STATE_DEAD"
  shows "sched_inv (task_put a f s) xs"
  using assms by (intro sched_inv_task_put) (auto simp: sched_inv_def)

lemma sched_dispatch_inv:
  assumes inv: "sched_inv s xs" and env: "env_ok env s xs" and cur: "task_current s \<noteq> 0" and fuel: "2 \<le> fuel"
    and run: "sched_dispatch fuel env s stack = Some r"
  shows "\<exists>s' stack' xs'. (r = Inl (s', stack') \<or> r = Inr (s', stack')) \<and> sched_inv s' xs' \<and>
    (xs' = xs \<or> xs' = hd xs # env_copy env # tl xs)"
proof -
  let ?c = "task_current s"
  have upd: "sched_inv (task_put ?c (\<lambda>t. task_update_regs t stack) s) xs"
    using inv by (rule sched_inv_put_alive) (auto simp: task_update_regs_def)
  have wait: "sched_inv (task_put ?c (\<lambda>t. (task_update_regs t stack)\<lparr>ticks := 0\<rparr>) s) xs"
    using inv by (rule sched_inv_put_alive) (auto simp: task_update_regs_def)
  have ready: "sched_inv (task_put ?c (\<lambda>t. t\<lparr>state := TASK_STATE_READY\<rparr>) s) xs"
    using inv by (rule sched_inv_put_alive) auto
  have dead: "sched_inv (s\<lparr>task_current := 0\<rparr>) xs" using inv by (rule sched_inv_current) simp
  show ?thesis
  proof (cases "state (tasks s ?c) = TASK_STATE_FORK")
    case False
    then show ?thesis using run inv upd wait ready dead
      by (auto simp: sched_dispatch_def Let_def split: if_splits)
  next
    case True
    let ?s = "task_put ?c (\<lambda>t. task_update_regs t stack) s"
    obtain s' where f: "sched_fork fuel env ?s = Some s'" "r = Inr (s', stack)"
      using run True by (auto simp: sched_dispatch_def Let_def)
    have "env_ok env ?s xs" using env by (simp add: env_ok_def)
    moreover have "task_current ?s \<noteq> 0" using cur by simp
    ultimately show ?thesis
      using sched_fork_child [OF upd _ _ fuel _ f(1)] sched_fork_failed [OF upd _ _ f(1)] f(2)
      by (cases "env_mem env") blast+
  qed
qed

lemma task_switch_inv:
  "sched_inv s xs \<Longrightarrow> sched_inv (snd (task_switch e m s a)) xs \<and> task_current (snd (task_switch e m s a)) = task_current s"
  by (auto simp: task_switch_def Let_def intro!: sched_inv_vmm sched_inv_put_alive)

lemma sched_switch_inv:
  assumes inv: "sched_inv s xs" and fuel: "length xs < fuel" and run: "sched_switch fuel env s stack = Some (s', stack')"
  shows "\<exists>xs'. sched_inv s' xs' \<and> set xs' \<subseteq> set xs \<and> length xs' \<le> length xs \<and> task_current s' \<noteq> 0"
proof -
  obtain new where n: "sched_queue_next fuel s = Some (new, s)" "new \<in> set xs"
    using sched_queue_next_alive [OF inv fuel] by blast
  let ?s3 = "task_put new task_ticks_reset (s\<lparr>task_current := new\<rparr>)"
  let ?s4 = "snd (task_switch (env_switch env) (env_map env) ?s3 new)"
  have n0: "new \<noteq> 0" using n(2) chain_nonzero [OF sched_inv_chain [OF inv]] by auto
  have "sched_inv (s\<lparr>task_current := new\<rparr>) xs" using inv n(2) by (intro sched_inv_current) auto
  then have "sched_inv ?s3 xs" by (rule sched_inv_put_alive) (auto simp: task_ticks_reset_def)
  then have i4: "sched_inv ?s4 xs" "task_current ?s4 = new" using task_switch_inv by auto
  have "sched_queue_clean fuel (env_wq env) ?s4 = Some s'"
    using run n(1) by (auto simp: sched_switch_def Let_def)
  from sched_queue_clean_inv [OF i4(1) _ fuel this] show ?thesis using i4(2) n0 by auto
qed

lemma sched_finish_inv:
  assumes inv: "sched_inv s xs" and fuel: "length xs < fuel" and run: "sched_finish fuel env s stack = Some (s', stack')"
  shows "\<exists>xs'. sched_inv s' xs' \<and> set xs' \<subseteq> set xs \<and> length xs' \<le> length xs \<and> task_current s' \<noteq> 0"
proof -
  let ?put = "\<lambda>s. task_put (task_current s) (\<lambda>t. t\<lparr>state := TASK_STATE_READY, ticks := ticks t - 1\<rparr>) s"
  have put: "sched_inv s xs \<Longrightarrow> sched_inv (?put s) xs" for s xs by (rule sched_inv_put_alive) auto
  show ?thesis
  proof (cases "task_current s = 0 \<or> ticks (tasks s (task_current s)) = 0")
    case True
    then obtain s1 where r: "sched_switch fuel env s stack = Some (s1, stack')" "s' = ?put s1"
      using run by (auto simp: sched_finish_def)
    show ?thesis using sched_switch_inv [OF inv fuel r(1)] put r(2) by fastforce
  next
    case False
    then have "s' = ?put s" using run by (auto simp: sched_finish_def)
    then show ?thesis using put [OF inv] False by auto
  qed
qed

lemma task_signal_pop_keeps:
  "task_signal_pop ob (Some t) = (r, t', d) \<Longrightarrow>
   \<exists>t2. t' = Some t2 \<and> state t2 = state t \<and> prio t2 = prio t \<and> pid t2 = pid t"
  by (auto simp: task_signal_pop_def Let_def split: if_splits)

lemma sched_timer_handler_inv:
  "sched_inv s xs \<Longrightarrow> env_ok env s xs \<Longrightarrow> length xs + 2 < fuel \<Longrightarrow>
   sched_timer_handler depth fuel env s stack = Some (s', stack') \<Longrightarrow> \<exists>xs'. sched_inv s' xs'"
proof (induction depth arbitrary: s stack)
  case (Suc depth)
  note inv = Suc.prems(1) and env = Suc.prems(2)
  obtain s1 where s1: "(if task_current s = 0
      then map_option (\<lambda>(p, s'). s'\<lparr>task_current := p\<rparr>) (sched_queue_next fuel s) else Some s) = Some s1"
    "sched_inv s1 xs" "task_current s1 \<noteq> 0"
  proof (cases "task_current s = 0")
    case True
    obtain a where a: "sched_queue_next fuel s = Some (a, s)" "a \<in> set xs"
      using sched_queue_next_alive [OF inv, of fuel] Suc.prems(3) by auto
    have "a \<noteq> 0" using a(2) chain_nonzero [OF sched_inv_chain [OF inv]] by auto
    then show ?thesis using that [of "s\<lparr>task_current := a\<rparr>"] True a inv by (simp add: sched_inv_current)
  next
    case False
    then show ?thesis using that [of s] inv by simp
  qed
  let ?c = "task_current s1"
  define pop where "pop = (if sigq (tasks s1 ?c) \<noteq> 0
    then (case task_signal_pop (objects s1) (Some (tasks s1 ?c)) of (_, t, d) \<Rightarrow> (task_put ?c (\<lambda>_. the t) s1, d))
    else (s1, None))"
  obtain s2 dfl where pop2: "pop = (s2, dfl)" by (cases pop)
  have s2: "sched_inv s2 xs" "task_current s2 = ?c"
  proof -
    obtain r t d where p: "task_signal_pop (objects s1) (Some (tasks s1 ?c)) = (r, t, d)"
      by (cases "task_signal_pop (objects s1) (Some (tasks s1 ?c))") auto
    then obtain t2 where "t = Some t2" "state t2 = state (tasks s1 ?c)" "prio t2 = prio (tasks s1 ?c)" "pid t2 = pid (tasks s1 ?c)"
      using task_signal_pop_keeps by blast
    then have "sched_inv (task_put ?c (\<lambda>_. the t) s1) xs" using s1(2) by (intro sched_inv_put_alive) auto
    then show "sched_inv s2 xs" "task_current s2 = ?c" using pop2 p s1(2) by (auto simp: pop_def split: if_splits)
  qed
  have env2: "env_ok env s2 xs" using env by (simp add: env_ok_def)
  have run: "(case dfl of
      Some sig \<Rightarrow> (case sched_exit fuel (task_put ?c (\<lambda>t. t\<lparr>term_code := of_int sig\<rparr>) s2) (SIG_EXIT_CODE + of_int sig) of
           Some (Inr s3) \<Rightarrow> sched_timer_handler depth fuel env s3 (env_kstack env) | _ \<Rightarrow> None)
    | None \<Rightarrow> (case sched_dispatch fuel env s2 stack of None \<Rightarrow> None | Some (Inl r) \<Rightarrow> Some r
           | Some (Inr (s3, stack3)) \<Rightarrow> sched_finish fuel env s3 stack3)) = Some (s', stack')"
    using Suc.prems(4) s1(1) pop2 by (simp add: pop_def Let_def)
  show ?case
  proof (cases dfl)
    case (Some sig)
    let ?s = "task_put ?c (\<lambda>t. t\<lparr>term_code := of_int sig\<rparr>) s2"
    have t: "sched_inv ?s xs" using s2(1) by (rule sched_inv_put_alive) auto
    obtain s3 where e: "sched_exit fuel ?s (SIG_EXIT_CODE + of_int sig) = Some (Inr s3)"
      "sched_timer_handler depth fuel env s3 (env_kstack env) = Some (s', stack')"
      using run Some by (auto split: option.splits sum.splits)
    have "sched_inv s3 xs" using sched_exit_inv [OF t e(1)] by simp
    moreover have "env_ok env s3 xs" using env by (simp add: env_ok_def)
    ultimately show ?thesis using Suc.IH [of s3 "env_kstack env"] e(2) Suc.prems(3) by blast
  next
    case None
    then obtain r where r: "sched_dispatch fuel env s2 stack = Some r" using run by (auto split: option.splits)
    obtain s3 stack3 xs3 where d: "r = Inl (s3, stack3) \<or> r = Inr (s3, stack3)" "sched_inv s3 xs3"
      "xs3 = xs \<or> xs3 = hd xs # env_copy env # tl xs"
      using sched_dispatch_inv [OF s2(1) env2 _ _ r] s1(3) s2(2) Suc.prems(3) by auto
    show ?thesis
    proof (cases "r = Inl (s3, stack3)")
      case True
      then show ?thesis using run None r d(2) by auto
    next
      case False
      then have f: "sched_finish fuel env s3 stack3 = Some (s', stack')" using run None r d(1) by auto
      have "length xs3 < fuel" using d(3) Suc.prems(3) by (cases xs) auto
      from sched_finish_inv [OF d(2) this f] show ?thesis by blast
    qed
  qed
qed simp

lemma sched_inv_state:
  "sched_inv s xs \<Longrightarrow> st \<noteq> TASK_STATE_DEAD \<Longrightarrow> sched_inv (task_put (task_current s) (\<lambda>t. t\<lparr>state := st\<rparr>) s) xs"
  by (rule sched_inv_put_alive) auto

lemma sched_exception_inv:
  assumes inv: "sched_inv s xs" and run: "sched_exception_handler fuel addr s v = Some s'"
  shows "sched_inv s' xs"
proof -
  let ?c = "task_current s"
  obtain e ob t where a: "task_signal_add fuel addr (objects s) (Some (tasks s ?c)) (exception_signal v) = Some (e, ob, t)"
    "s' = (task_put ?c (\<lambda>_. the t) s)\<lparr>objects := ob\<rparr>"
    using run by (auto simp: sched_exception_handler_def Let_def split: if_splits option.splits)
  then obtain t2 where "t = Some t2" "state t2 = state (tasks s ?c)" "prio t2 = prio (tasks s ?c)" "pid t2 = pid (tasks s ?c)"
    by (auto simp: task_signal_add_def Let_def split: if_splits option.splits)
  then have "sched_inv (task_put ?c (\<lambda>_. the t) s) xs" using inv by (intro sched_inv_put_alive) auto
  then show ?thesis using a(2) by (simp add: sched_inv_objects)
qed

lemma sched_init_inv:
  assumes run: "sched_init fuel main mem unmasked s = Some (0, s')" and pr: "task_promoted s = 0"
  shows "sched_inv s' [main] \<and> pid (tasks s' main) = 1 \<and> task_current s' = 0"
proof -
  let ?s0 = "s\<lparr>task_current := 0, queue := (queue s)\<lparr>dl_head := 0, dl_tail := 0\<rparr>\<rparr>"
  let ?s1 = "task_put main (\<lambda>_. task_zero\<lparr>task_vmm := cur_vmm s, task_mem := mem\<rparr>) ?s0"
  have m0: "main \<noteq> 0" using run by (auto simp: sched_init_def Let_def split: if_splits)
  then obtain s2 where s2: "sched_pid fuel ?s1 main = Some s2"
    using run by (auto simp: sched_init_def Let_def split: option.splits)
  have "s2 = task_put main (\<lambda>t. t\<lparr>pid := 0 + 1\<rparr>) (task_put main (\<lambda>t. t\<lparr>pid := 0\<rparr>) ?s1)"
    using s2 by (cases fuel) (auto simp: sched_pid_def Let_def)
  then have t2: "pid (tasks s2 main) = 1" "queue s2 = queue ?s0" "task_promoted s2 = 0" "task_current s2 = 0"
    using pr by simp_all
  obtain e t where rn: "task_rename (Some (tasks s2 main)) (Some [109, 97, 105, 110, 0]) = Some (e, t)"
    using run m0 s2 by (auto simp: sched_init_def Let_def split: option.splits)
  then obtain t' where t': "t = Some t'" "pid t' = 1" using t2(1) by (auto simp: task_rename_def)
  let ?s3 = "task_put main (\<lambda>_. (the t)\<lparr>state := TASK_STATE_READY, prio := TASK_PRIO_LOW, ppid := 0\<rparr>) s2"
  have "sched_queue_add fuel ?s3 main = Some s'"
    using run m0 s2 rn by (auto simp: sched_init_def Let_def)
  then have "s' = ?s3\<lparr>queue := \<lparr>dl_head = main, dl_tail = main, dl_next = (dl_next (queue ?s3))(main := 0),
      dl_prev = (dl_prev (queue ?s3))(main := 0)\<rparr>\<rparr>"
    using t2 by (simp add: sched_queue_add_def)
  then show ?thesis using m0 t2 t' by (simp add: sched_inv_def)
qed

section \<open>Reachable states\<close>

text \<open>
  The transitions of the scheduler state: a timer interrupt whose new task structure, if any, is not
  one of the queued ones; the state and priority changes that kernel code makes to the current task
  with \<^verbatim>\<open>sched_state\<close> and \<^verbatim>\<open>sched_prio\<close>; an exception; and an exiting task before its
  \<^verbatim>\<open>sched()\<close>.
\<close>

inductive sched_step :: "sched \<Rightarrow> sched \<Rightarrow> bool" where
  tick: "sched_timer_handler depth fuel env s stack = Some (s', stack') \<Longrightarrow>
    chain (dl_next (queue s)) (dl_head (queue s)) xs \<Longrightarrow> env_copy env \<notin> set xs \<Longrightarrow> length xs + 2 < fuel \<Longrightarrow>
    sched_step s s'"
| set_state: "st \<noteq> TASK_STATE_DEAD \<Longrightarrow> sched_step s (task_put (task_current s) (\<lambda>t. t\<lparr>state := st\<rparr>) s)"
| set_prio: "0 < p \<Longrightarrow> sched_step s (task_put (task_current s) (\<lambda>t. t\<lparr>prio := p\<rparr>) s)"
| exn: "sched_exception_handler fuel addr s v = Some s' \<Longrightarrow> sched_step s s'"
| exit: "sched_exit fuel s code = Some (Inr s') \<Longrightarrow> sched_step s s'"

inductive sched_reach :: "sched \<Rightarrow> bool" where
  init: "sched_init fuel main mem unmasked s = Some (0, s') \<Longrightarrow> task_promoted s = 0 \<Longrightarrow> sched_reach s'"
| step: "sched_reach s \<Longrightarrow> sched_step s s' \<Longrightarrow> sched_reach s'"

inductive_cases sched_stepE: "sched_step s s'"

lemma sched_step_inv:
  assumes "sched_step s s'" and "sched_inv s xs"
  shows "\<exists>xs'. sched_inv s' xs'"
  using assms(1)
proof (cases rule: sched_step.cases)
  case (tick depth fuel env stack stack' ys)
  have "ys = xs" using tick(2) sched_inv_chain [OF assms(2)] by (rule chain_unique)
  then show ?thesis using sched_timer_handler_inv [OF assms(2) _ _ tick(1)] tick(3,4) by (simp add: env_ok_def)
next
  case (set_state st)
  then show ?thesis using sched_inv_state [OF assms(2)] by blast
next
  case (set_prio p)
  have "sched_inv (task_put (task_current s) (\<lambda>t. t\<lparr>prio := p\<rparr>) s) xs"
    using assms(2) set_prio(2) by (intro sched_inv_task_put) (auto simp: sched_inv_def)
  then show ?thesis using set_prio(1) by blast
next
  case (exn fuel addr v)
  then show ?thesis using sched_exception_inv [OF assms(2)] by blast
next
  case (exit fuel code)
  then show ?thesis using sched_exit_inv [OF assms(2)] by blast
qed

lemma sched_reach_inv: "sched_reach s \<Longrightarrow> \<exists>xs. sched_inv s xs"
proof (induction rule: sched_reach.induct)
  case (init fuel main mem unmasked s s')
  then show ?case using sched_init_inv by blast
next
  case (step s s')
  then show ?case using sched_step_inv by blast
qed

section \<open>Properties\<close>

text \<open>
  C1. In every reachable state the scheduler queue is a finite, duplicate-free list that starts with
  the main task; the main task is never dead; \<^verbatim>\<open>task_tail\<close> still points to it; the current task, if any,
  is queued; and no task is left promoted.
\<close>

theorem sched_reachable_invariant:
  assumes "sched_reach s"
  shows "\<exists>xs. sched_inv s xs \<and> distinct xs \<and> dl_tail (queue s) = hd xs \<and>
    state (tasks s (hd xs)) \<noteq> TASK_STATE_DEAD \<and> (task_current s = 0 \<or> task_current s \<in> set xs)"
proof -
  obtain xs where inv: "sched_inv s xs" using sched_reach_inv [OF assms] by blast
  then show ?thesis using sched_inv_distinct [OF inv] sched_inv_head [OF inv] by (auto simp: sched_inv_def)
qed

definition sched_boot :: sched where
  "sched_boot = \<lparr>queue = \<lparr>dl_head = 0, dl_tail = 0, dl_next = (\<lambda>_. 0), dl_prev = (\<lambda>_. 0)\<rparr>,
     tasks = (\<lambda>_. task_zero), objects = objs_zero, task_current = 0, task_promoted = 0, cur_vmm = 4096\<rparr>"

lemma task_rename_main:
  "task_name t = replicate 256 0 \<Longrightarrow>
   \<exists>b. task_rename (Some t) (Some [109, 97, 105, 110, 0]) = Some (0, Some (t\<lparr>task_name := b\<rparr>))"
  using strncpy_cstr [of "[109, 97, 105, 110]" NAME_MAX "replicate 256 0" "[]"]
  by (auto simp: task_rename_def)

lemma sched_boot_init:
  "\<exists>s. sched_init 2 8 0 True sched_boot = Some (0, s) \<and> sched_inv s [8] \<and> pid (tasks s 8) = 1 \<and> task_current s = 0"
proof -
  let ?s0 = "sched_boot\<lparr>task_current := 0, queue := (queue sched_boot)\<lparr>dl_head := 0, dl_tail := 0\<rparr>\<rparr>"
  let ?s1 = "task_put 8 (\<lambda>_. task_zero\<lparr>task_vmm := cur_vmm sched_boot, task_mem := 0\<rparr>) ?s0"
  have p: "sched_pid 2 ?s1 8 = Some (task_put 8 (\<lambda>t. t\<lparr>pid := 1\<rparr>) (task_put 8 (\<lambda>t. t\<lparr>pid := 0\<rparr>) ?s1))"
    by (simp add: sched_pid_def numeral_2_eq_2)
  obtain b where b: "task_rename (Some (task_zero\<lparr>task_vmm := cur_vmm sched_boot, task_mem := 0, pid := 1\<rparr>))
      (Some [109, 97, 105, 110, 0]) = Some (0, Some (task_zero\<lparr>task_vmm := cur_vmm sched_boot, task_mem := 0, pid := 1, task_name := b\<rparr>))"
    using task_rename_main [of "task_zero\<lparr>task_vmm := cur_vmm sched_boot, task_mem := 0, pid := 1\<rparr>"]
    by (auto simp: task_zero_def)
  have "\<exists>s. sched_init 2 8 0 True sched_boot = Some (0, s)"
    using p b by (simp add: sched_init_def Let_def sched_queue_add_def sched_boot_def)
  then obtain s where s: "sched_init 2 8 0 True sched_boot = Some (0, s)" by blast
  have "task_promoted sched_boot = 0" by (simp add: sched_boot_def)
  from s sched_init_inv [OF s this] show ?thesis by blast
qed

lemma sched_boot_reach: "\<exists>s. sched_reach s \<and> sched_inv s [8] \<and> pid (tasks s 8) = 1 \<and> task_current s = 0"
proof -
  obtain s where s: "sched_init 2 8 0 True sched_boot = Some (0, s)" "sched_inv s [8]" "pid (tasks s 8) = 1" "task_current s = 0"
    using sched_boot_init by blast
  have "task_promoted sched_boot = 0" by (simp add: sched_boot_def)
  then have "sched_reach s" using s(1) by (rule sched_reach.init [rotated])
  then show ?thesis using s by blast
qed

theorem sched_reachable_invariant_witness:
  "\<exists>s xs. sched_reach s \<and> sched_inv s xs \<and> distinct xs \<and> dl_tail (queue s) = hd xs"
  using sched_boot_reach sched_reachable_invariant by blast

text \<open>
  C5. The scheduler is a round robin: with the tasks \<open>xs\<close> queued and the one at position \<open>i\<close>
  current, \<^verbatim>\<open>__sched_queue_next\<close> terminates and returns the first task behind it, in circular
  order, that is not dead. Every live task is thus reached before any task is picked twice.
\<close>

theorem sched_queue_next_round_robin:
  assumes "sched_inv s xs" and "i < length xs" and "task_current s = xs ! i" and "length xs < fuel"
  shows "\<exists>d. 0 < d \<and> d \<le> length xs \<and> sched_queue_next fuel s = Some (xs ! ((i + d) mod length xs), s) \<and>
    state (tasks s (xs ! ((i + d) mod length xs))) \<noteq> TASK_STATE_DEAD \<and>
    (\<forall>e. 0 < e \<and> e < d \<longrightarrow> state (tasks s (xs ! ((i + e) mod length xs))) = TASK_STATE_DEAD)"
proof -
  obtain d where "0 < d" "d \<le> length xs - i" "queue_next_loop fuel s (xs ! i) = Some (xs ! ((i + d) mod length xs), s)"
    "state (tasks s (xs ! ((i + d) mod length xs))) \<noteq> TASK_STATE_DEAD"
    "\<forall>e. 0 < e \<and> e < d \<longrightarrow> state (tasks s (xs ! ((i + e) mod length xs))) = TASK_STATE_DEAD"
    using queue_next_loop_first [OF assms(1,2) le_less_trans [OF diff_le_self assms(4)]] by blast
  then show ?thesis using assms(3) by (intro exI [of _ d]) (simp add: sched_queue_next_def)
qed

theorem sched_queue_next_round_robin_witness:
  "\<exists>s. sched_inv s [8] \<and> sched_queue_next 2 (s\<lparr>task_current := 8\<rparr>) = Some (8, s\<lparr>task_current := 8\<rparr>)"
proof -
  obtain s where s: "sched_inv s [8]" using sched_boot_reach by blast
  then have "sched_inv (s\<lparr>task_current := 8\<rparr>) [8]" by (rule sched_inv_current) simp
  from sched_queue_next_round_robin [OF this, of 0 2] s show ?thesis by auto
qed

text \<open>
  C40. A fork queues the child right behind the main task, as a copy of the registers of its parent,
  but numbers it from the main task alone, since \<^verbatim>\<open>__sched_pid\<close> walks backwards from a
  \<^verbatim>\<open>task_tail\<close> that never moves: the PID is that of the main task plus one whatever tasks are
  queued, so a second child of a running system shares the PID of the first.
\<close>

theorem sched_fork_pid_collision:
  assumes "sched_inv s xs" and "env_ok env s xs" and "task_current s \<noteq> 0" and "2 \<le> fuel"
    and "env_mem env = Some m" and "sched_fork fuel env s = Some s'"
    and "env_ok env' s' (hd xs # env_copy env # tl xs)" and "env_mem env' = Some m'"
    and "sched_fork fuel env' s' = Some s''"
  shows "pid (tasks s'' (env_copy env')) = pid (tasks s (hd xs)) + 1 \<and>
    pid (tasks s'' (env_copy env)) = pid (tasks s'' (env_copy env')) \<and>
    regs (tasks s'' (env_copy env')) = regs (tasks s' (task_current s)) \<and>
    sched_inv s'' (hd xs # env_copy env' # env_copy env # tl xs)"
proof -
  note c1 = sched_fork_child [OF assms(1-6)]
  then have i1: "sched_inv s' (hd xs # env_copy env # tl xs)" and cur: "task_current s' \<noteq> 0"
    using assms(3) by auto
  note c2 = sched_fork_child [OF i1 assms(7) cur assms(4) assms(8,9)]
  have "hd xs \<in> set xs" using assms(1) by (auto simp: sched_inv_def)
  then show ?thesis using c1 c2 by auto
qed

definition env_fork :: "u64 \<Rightarrow> sched_env" where
  "env_fork a = \<lparr>env_copy = a, env_vmm = 8192, env_mem = Some 0, env_switch = 0, env_map = 0, env_wq = 64, env_kstack = regs_zero\<rparr>"

text \<open>Two states of a running system: the main task current, alone or with a dead child.\<close>

definition sched_one :: sched where
  "sched_one = \<lparr>queue = \<lparr>dl_head = 8, dl_tail = 8, dl_next = (\<lambda>_. 0), dl_prev = (\<lambda>_. 0)\<rparr>,
     tasks = (\<lambda>_. task_zero\<lparr>pid := 1, prio := TASK_PRIO_LOW, state := TASK_STATE_READY, ticks := 3\<rparr>),
     objects = objs_zero, task_current = 8, task_promoted = 0, cur_vmm = 4096\<rparr>"

definition sched_two :: sched where
  "sched_two = sched_one\<lparr>queue := \<lparr>dl_head = 8, dl_tail = 8, dl_next = (\<lambda>_. 0)(8 := 16), dl_prev = (\<lambda>_. 0)(16 := 8)\<rparr>,
     tasks := (tasks sched_one)(16 := task_zero\<lparr>pid := 2, ppid := 1, prio := TASK_PRIO_LOW, state := TASK_STATE_DEAD\<rparr>)\<rparr>"

lemma sched_one_inv: "sched_inv sched_one [8]"
  by (simp add: sched_one_def sched_inv_def)

lemma sched_two_inv: "sched_inv sched_two [8, 16]"
  by (simp add: sched_two_def sched_one_def sched_inv_def)

theorem sched_fork_pid_collision_witness:
  "\<exists>s' s''. sched_fork 3 (env_fork 16) sched_one = Some s' \<and> sched_fork 3 (env_fork 24) s' = Some s'' \<and>
     pid (tasks s'' 16) = 2 \<and> pid (tasks s'' 24) = 2"
proof -
  have "\<not> Option.is_none (Option.bind (sched_fork 3 (env_fork 16) sched_one) (sched_fork 3 (env_fork 24)))"
    by code_simp
  then obtain s' s'' where s': "sched_fork 3 (env_fork 16) sched_one = Some s'" and
      s'': "sched_fork 3 (env_fork 24) s' = Some s''"
    by (auto simp: Option.is_none_def split: bind_splits)
  have "env_ok (env_fork 16) sched_one [8]" "env_ok (env_fork 24) s' [8, 16]"
    by (simp_all add: env_ok_def env_fork_def)
  then have "pid (tasks s'' 24) = pid (tasks sched_one 8) + 1 \<and> pid (tasks s'' 16) = pid (tasks s'' 24)"
    using sched_fork_pid_collision [OF sched_one_inv _ _ _ _ s' _ _ s'', of 0 0]
    by (simp add: env_fork_def sched_one_def)
  then show ?thesis using s' s'' by (simp add: sched_one_def)
qed

text \<open>
  A timer tick that interrupts a running task with ticks left and no pending signal saves its
  registers, takes one tick and returns to it: the registers on the interrupt stack are unchanged and
  no other task is touched.
\<close>

theorem sched_tick_running:
  assumes "task_current s = c" and "c \<noteq> 0" and "sigq (tasks s c) = 0" and "state (tasks s c) = TASK_STATE_READY"
    and "ticks (tasks s c) \<noteq> 0"
  shows "sched_timer_handler (Suc d) fuel env s stack =
    Some (task_put c (\<lambda>t. (task_update_regs t stack)\<lparr>state := TASK_STATE_READY, ticks := ticks t - 1\<rparr>) s, stack)"
  using assms by (simp add: sched_dispatch_def sched_finish_def Let_def task_put_def task_update_regs_def)

theorem sched_tick_running_witness:
  "map_option (\<lambda>r. ticks (tasks (fst r) 8)) (sched_timer_handler 1 0 (env_fork 16) sched_one regs_zero) = Some 2"
  using sched_tick_running [of sched_one 8 0 0 "env_fork 16" regs_zero]
  by (simp add: sched_one_def task_zero_def task_update_regs_def)

text \<open>
  A dead task that leaves a descriptor unused, which is every task with fewer than 32 open files,
  cannot be removed: \<^verbatim>\<open>__sched_queue_clean\<close> ends in the null-pointer access of \<^verbatim>\<open>task_free\<close>.
\<close>

theorem sched_queue_clean_unused_descriptor:
  assumes "sched_inv s xs" and "find (\<lambda>a. state (tasks s a) = TASK_STATE_DEAD) xs = Some corpse"
    and "task_current s \<noteq> corpse" and "0 \<in> set (files (tasks s corpse))" and "length xs < fuel"
  shows "sched_queue_clean fuel wq s = None"
proof -
  have "find_loop fuel s (\<lambda>t. state t = TASK_STATE_DEAD) (dl_head (queue s)) = Some corpse"
    using find_loop_spec [OF sched_inv_chain [OF assms(1)] assms(5), of "\<lambda>t. state t = TASK_STATE_DEAD"] assms(2) by simp
  moreover have "corpse \<noteq> 0"
    using assms(2) chain_nonzero [OF sched_inv_chain [OF assms(1)]] by (auto simp: find_Some_iff in_set_conv_nth)
  ultimately show ?thesis
    using assms(3,4) waitq_notify_keeps [OF assms(1)]
    by (auto simp: sched_queue_clean_def task_free_ok_def dest!: sched_queue_del_tasks split: option.splits)
qed

theorem sched_queue_clean_unused_descriptor_witness:
  "state (tasks sched_two 16) = TASK_STATE_DEAD \<and> sched_queue_clean 3 64 sched_two = None"
proof -
  have "state (tasks sched_two 16) = TASK_STATE_DEAD" "task_current sched_two = 8" "state (tasks sched_two 8) = TASK_STATE_READY"
    "0 \<in> set (files (tasks sched_two 16))"
    by (simp_all add: sched_two_def sched_one_def task_zero_def)
  then show ?thesis using sched_queue_clean_unused_descriptor [OF sched_two_inv, of 16 3 64] by simp
qed

end
