(* ===== verification/Vmm.thy ===== *)
theory Vmm
  imports Pmm Sched "HOL-Library.Monad_Syntax"
begin

text \<open>
  The virtual memory manager, \<^verbatim>\<open>kernel/mm/vmm.c\<close> with the entry flags of
  \<^verbatim>\<open>inc/mm/paging.h\<close>. The page tables live in physical memory, a function from the address of a
  quadword to its value, and the code reaches them only through virtual addresses: PML4 slot 510 points
  to the PML4 itself. \<open>mmu_translate\<close> is the four-level walk of the processor, and every table access of
  the code goes through it. The result \<open>None\<close> is a page fault (or a walk that ran out of fuel). The
  translation cache is not modelled, so \<^verbatim>\<open>invlpg\<close> has no counterpart.
\<close>

section \<open>State\<close>

text \<open>\<open>vm_start_addr\<close> is the linker symbol \<^verbatim>\<open>_start_addr\<close>; CR3 is \<open>cur_vmm\<close> of the scheduler
  state.\<close>

record vm =
  phys :: "u64 \<Rightarrow> u64"
  vm_sched :: sched
  vm_pmm :: pmm
  vm_start_addr :: u64

abbreviation cr3 :: "vm \<Rightarrow> u64" where "cr3 s \<equiv> cur_vmm (vm_sched s)"

abbreviation (input) PTE_FLAG_P :: u64 where "PTE_FLAG_P \<equiv> 1"
abbreviation (input) PTE_FLAG_RW :: u64 where "PTE_FLAG_RW \<equiv> 2"
abbreviation (input) PTE_FLAG_US :: u64 where "PTE_FLAG_US \<equiv> 4"
abbreviation (input) PTE_FLAG_PCD :: u64 where "PTE_FLAG_PCD \<equiv> 16"
abbreviation (input) PTE_FLAG_A :: u64 where "PTE_FLAG_A \<equiv> 32"
abbreviation (input) PTE_FLAG_D :: u64 where "PTE_FLAG_D \<equiv> 64"
abbreviation (input) PTE_FLAG_PS :: u64 where "PTE_FLAG_PS \<equiv> 128"
abbreviation (input) PTE_FLAG_PMM :: u64 where "PTE_FLAG_PMM \<equiv> 512"
abbreviation (input) PTE_FLAG_XD :: u64 where "PTE_FLAG_XD \<equiv> 0x8000000000000000"
abbreviation (input) PTE_FLAGS_DEFAULT :: u64 where "PTE_FLAGS_DEFAULT \<equiv> 3"
abbreviation (input) PTE_FLAGS_CLEAR :: u64 where "PTE_FLAGS_CLEAR \<equiv> NOT 0x80000000000003ff"

abbreviation (input) VMM_ATTR_NO_EXEC :: u32 where "VMM_ATTR_NO_EXEC \<equiv> 1"
abbreviation (input) VMM_ATTR_NO_CACHE :: u32 where "VMM_ATTR_NO_CACHE \<equiv> 2"
abbreviation (input) VMM_ATTR_RDONLY :: u32 where "VMM_ATTR_RDONLY \<equiv> 4"
abbreviation (input) VMM_ATTR_USER :: u32 where "VMM_ATTR_USER \<equiv> 8"
abbreviation (input) VMM_ATTR_SAVE :: u32 where "VMM_ATTR_SAVE \<equiv> 16"
abbreviation (input) VMM_ATTR_REUSE :: u32 where "VMM_ATTR_REUSE \<equiv> 32"

abbreviation (input) VMM_VMA_KERNEL :: u8 where "VMM_VMA_KERNEL \<equiv> 1"
abbreviation (input) VMM_VMA_USER :: u8 where "VMM_VMA_USER \<equiv> 2"
abbreviation (input) VMM_VMA_USER_START :: u64 where "VMM_VMA_USER_START \<equiv> 0x1000"
abbreviation (input) VMM_VMA_USER_END :: u64 where "VMM_VMA_USER_END \<equiv> 0x00007fffffffffff"
abbreviation (input) VMM_VMA_KERNEL_START :: u64 where "VMM_VMA_KERNEL_START \<equiv> 0xffff800000000000"
abbreviation VMM_VMA_KERNEL_END :: "vm \<Rightarrow> u64" where "VMM_VMA_KERNEL_END s \<equiv> vm_start_addr s"

section \<open>Address arithmetic\<close>

definition vmm_vma_does_contain :: "vm \<Rightarrow> u64 \<Rightarrow> bool" where
  "vmm_vma_does_contain s addr \<longleftrightarrow>
     VMM_VMA_KERNEL_END s > addr \<and> addr \<ge> VMM_VMA_KERNEL_START \<or>
     VMM_VMA_USER_END > addr \<and> addr \<ge> VMM_VMA_USER_START"

definition vmm_entry_to_addr :: "u64 \<Rightarrow> u64" where
  "vmm_entry_to_addr entry =
     (if bit (entry AND PTE_FLAGS_CLEAR) 47
      then (entry AND PTE_FLAGS_CLEAR) OR push_bit 48 0xffff
      else (entry AND PTE_FLAGS_CLEAR) AND NOT (push_bit 48 0xffff))"

definition vmm_entry_to_flags :: "u64 \<Rightarrow> u64" where
  "vmm_entry_to_flags entry = (entry AND NOT PTE_FLAGS_CLEAR) AND NOT (PTE_FLAG_A OR PTE_FLAG_D)"

definition vmm_indexes_to_addr :: "u64 \<Rightarrow> u64 \<Rightarrow> u64 \<Rightarrow> u64 \<Rightarrow> u64" where
  "vmm_indexes_to_addr pml4_index pdpt_index pd_index pt_index =
     push_bit 39 pml4_index OR push_bit 30 pdpt_index OR push_bit 21 pd_index OR push_bit 12 pt_index OR
     (if bit (push_bit 39 pml4_index) 47 then push_bit 48 0xffff else 0)"

definition vmm_pml4_index :: "u64 \<Rightarrow> u64" where "vmm_pml4_index vaddr = drop_bit 39 vaddr AND 0x1FF"
definition vmm_pdpt_index :: "u64 \<Rightarrow> u64" where "vmm_pdpt_index vaddr = drop_bit 30 vaddr AND 0x1FF"
definition vmm_pd_index :: "u64 \<Rightarrow> u64" where "vmm_pd_index vaddr = drop_bit 21 vaddr AND 0x1FF"
definition vmm_pt_index :: "u64 \<Rightarrow> u64" where "vmm_pt_index vaddr = drop_bit 12 vaddr AND 0x1FF"

definition vmm_pml4_vaddr :: u64 where
  "vmm_pml4_vaddr = vmm_indexes_to_addr 510 510 510 510"
definition vmm_pdpt_vaddr :: "u64 \<Rightarrow> u64" where
  "vmm_pdpt_vaddr vaddr = vmm_indexes_to_addr 510 510 510 (vmm_pml4_index vaddr)"
definition vmm_pd_vaddr :: "u64 \<Rightarrow> u64" where
  "vmm_pd_vaddr vaddr = vmm_indexes_to_addr 510 510 (vmm_pml4_index vaddr) (vmm_pdpt_index vaddr)"
definition vmm_pt_vaddr :: "u64 \<Rightarrow> u64" where
  "vmm_pt_vaddr vaddr = vmm_indexes_to_addr 510 (vmm_pml4_index vaddr) (vmm_pdpt_index vaddr) (vmm_pd_index vaddr)"

text \<open>The addresses of the table entries of a virtual address: \<^verbatim>\<open>&vmm_pml4_entry(vaddr)\<close> and so on.\<close>

definition vmm_pml4_entry :: "u64 \<Rightarrow> u64" where
  "vmm_pml4_entry vaddr = vmm_pml4_vaddr + 8 * vmm_pml4_index vaddr"
definition vmm_pdpt_entry :: "u64 \<Rightarrow> u64" where
  "vmm_pdpt_entry vaddr = vmm_pdpt_vaddr vaddr + 8 * vmm_pdpt_index vaddr"
definition vmm_pd_entry :: "u64 \<Rightarrow> u64" where
  "vmm_pd_entry vaddr = vmm_pd_vaddr vaddr + 8 * vmm_pd_index vaddr"
definition vmm_pt_entry :: "u64 \<Rightarrow> u64" where
  "vmm_pt_entry vaddr = vmm_pt_vaddr vaddr + 8 * vmm_pt_index vaddr"

section \<open>The processor's page walk\<close>

definition pte_ref :: "u64 \<Rightarrow> u64 \<Rightarrow> u64" where
  "pte_ref base idx = (base AND 0x000ffffffffff000) OR push_bit 3 idx"

definition mmu_translate :: "vm \<Rightarrow> u64 \<Rightarrow> u64 option" where
  "mmu_translate s v =
     (let e4 = phys s (pte_ref (cr3 s) (vmm_pml4_index v));
          e3 = phys s (pte_ref e4 (vmm_pdpt_index v));
          e2 = phys s (pte_ref e3 (vmm_pd_index v));
          e1 = phys s (pte_ref e2 (vmm_pt_index v))
      in if \<not> bit e4 0 \<or> \<not> bit e3 0 then None
         else if bit e3 7 then Some ((e3 AND 0x000fffffc0000000) OR (v AND 0x3fffffff))
         else if \<not> bit e2 0 then None
         else if bit e2 7 then Some ((e2 AND 0x000fffffffe00000) OR (v AND 0x1fffff))
         else if \<not> bit e1 0 then None
         else Some ((e1 AND 0x000ffffffffff000) OR (v AND 0xfff)))"

definition vload :: "vm \<Rightarrow> u64 \<Rightarrow> u64 option" where
  "vload s a = map_option (phys s) (mmu_translate s a)"

definition vstore :: "vm \<Rightarrow> u64 \<Rightarrow> u64 \<Rightarrow> vm option" where
  "vstore s a x = map_option (\<lambda>p. s\<lparr>phys := (phys s)(p := x)\<rparr>) (mmu_translate s a)"

text \<open>\<^verbatim>\<open>bzero\<close> and \<^verbatim>\<open>memcpy\<close> on table memory, a quadword at a time.\<close>

fun qzero :: "nat \<Rightarrow> vm \<Rightarrow> u64 \<Rightarrow> vm option" where
  "qzero 0 s a = Some s"
| "qzero (Suc n) s a = do { s' \<leftarrow> vstore s a 0; qzero n s' (a + 8) }"

fun qcopy :: "nat \<Rightarrow> vm \<Rightarrow> u64 \<Rightarrow> u64 \<Rightarrow> vm option" where
  "qcopy 0 s dst src = Some s"
| "qcopy (Suc n) s dst src = do { x \<leftarrow> vload s src; s' \<leftarrow> vstore s dst x; qcopy n s' (dst + 8) (src + 8) }"

section \<open>Entries and flags\<close>

text \<open>\<^verbatim>\<open>__vmm_entry_from_vaddr\<close>: the address of the entry, 0 for \<^verbatim>\<open>NULL\<close>.\<close>

definition vmm_entry_from_vaddr :: "vm \<Rightarrow> u64 \<Rightarrow> u64 option" where
  "vmm_entry_from_vaddr s vaddr = do {
     e4 \<leftarrow> vload s (vmm_pml4_entry vaddr);
     if e4 = 0 then Some 0 else do {
     e3 \<leftarrow> vload s (vmm_pdpt_entry vaddr);
     if e3 = 0 then Some 0 else do {
     pd_entry \<leftarrow> vload s (vmm_pd_entry vaddr);
     if pd_entry = 0 then Some 0
     else if pd_entry AND PTE_FLAG_PS \<noteq> 0 then Some (vmm_pd_entry vaddr)
     else do {
     e1 \<leftarrow> vload s (vmm_pt_entry vaddr);
     Some (if e1 = 0 then 0 else vmm_pt_entry vaddr) }}}}"

definition vmm_attr_to_flags :: "u32 \<Rightarrow> bool \<Rightarrow> u64" where
  "vmm_attr_to_flags attr for_page_table =
     (let flags = PTE_FLAGS_DEFAULT;
          flags = (if attr AND VMM_ATTR_USER \<noteq> 0 then flags OR PTE_FLAG_US else flags)
      in if for_page_table then flags
      else let flags = (if attr AND VMM_ATTR_SAVE = 0 then flags OR PTE_FLAG_PMM else flags);
               flags = (if attr AND VMM_ATTR_NO_EXEC \<noteq> 0 then flags OR PTE_FLAG_XD else flags);
               flags = (if attr AND VMM_ATTR_NO_CACHE \<noteq> 0 then flags OR PTE_FLAG_PCD else flags)
           in (if attr AND VMM_ATTR_RDONLY \<noteq> 0 then flags AND NOT PTE_FLAG_RW else flags))"

text \<open>\<^verbatim>\<open>__vmm_is_table_free\<close>: the loop over the 512 entries; \<open>n\<close> are left.\<close>

fun table_free_loop :: "nat \<Rightarrow> vm \<Rightarrow> u64 \<Rightarrow> bool option" where
  "table_free_loop 0 s a = Some True"
| "table_free_loop (Suc n) s a = do {
     e \<leftarrow> vload s a;
     if e \<noteq> 0 then Some False else table_free_loop n s (a + 8) }"

definition vmm_is_table_free :: "vm \<Rightarrow> u64 \<Rightarrow> bool option" where
  "vmm_is_table_free s table_vaddr = table_free_loop 512 s table_vaddr"

fun alert_loop :: "nat \<Rightarrow> u64 \<Rightarrow> sched \<Rightarrow> u64 \<Rightarrow> sched option" where
  "alert_loop 0 vmm s task = None"
| "alert_loop (Suc fuel) vmm s task =
     (let task = sched_next s task in
      if task = 0 then Some s
      else alert_loop fuel vmm
        (if vmm \<noteq> task_vmm (tasks s task) then task_put task (\<lambda>t. t\<lparr>old := True\<rparr>) s else s) task)"

definition vmm_alert_tasks :: "nat \<Rightarrow> vm \<Rightarrow> vm option" where
  "vmm_alert_tasks fuel s =
     map_option (\<lambda>sc. s\<lparr>vm_sched := sc\<rparr>) (alert_loop fuel (cr3 s) (vm_sched s) 0)"

definition vmm_get :: "vm \<Rightarrow> u64" where "vmm_get s = cr3 s"

definition vmm_switch :: "vm \<Rightarrow> u64 \<Rightarrow> errcode \<times> vm" where
  "vmm_switch s vmm =
     (if vmm = 0 then (- EINVAL, s) else (0, s\<lparr>vm_sched := (vm_sched s)\<lparr>cur_vmm := vmm\<rparr>\<rparr>))"

definition vmm_set :: "vm \<Rightarrow> u64 \<Rightarrow> u64 \<Rightarrow> u64 \<Rightarrow> (errcode \<times> vm) option" where
  "vmm_set s vaddr num flags = do {
     entry \<leftarrow> vmm_entry_from_vaddr s vaddr;
     if entry = 0 then Some (- EFAULT, s)
     else do { e \<leftarrow> vload s entry; s' \<leftarrow> vstore s entry (e OR flags); Some (0, s') }}"

definition vmm_clear :: "vm \<Rightarrow> u64 \<Rightarrow> u64 \<Rightarrow> u64 \<Rightarrow> (errcode \<times> vm) option" where
  "vmm_clear s vaddr num flags = do {
     entry \<leftarrow> vmm_entry_from_vaddr s vaddr;
     if entry = 0 then Some (- EFAULT, s)
     else do { e \<leftarrow> vload s entry; s' \<leftarrow> vstore s entry (e AND NOT flags); Some (0, s') }}"

definition vmm_vma :: "vm \<Rightarrow> u64 \<Rightarrow> u8" where
  "vmm_vma s vaddr =
     (if VMM_VMA_KERNEL_START \<ge> vaddr \<and> VMM_VMA_KERNEL_END s > vaddr then VMM_VMA_KERNEL else VMM_VMA_USER)"

definition vmm_resolve :: "vm \<Rightarrow> u64 \<Rightarrow> u64 option" where
  "vmm_resolve s vaddr = do {
     entry \<leftarrow> vmm_entry_from_vaddr s vaddr;
     if entry = 0 then Some 0
     else do {
       e \<leftarrow> vload s entry;
       Some (if e AND PTE_FLAG_PS \<noteq> 0 then vmm_entry_to_addr e OR (vaddr AND 0x1fffff)
             else vmm_entry_to_addr e OR (vaddr AND 0xfff)) }}"

section \<open>Unmapping\<close>

text \<open>One of the three table-freeing steps of \<^verbatim>\<open>vmm_unmap\<close>: \<open>table\<close> is the table's virtual address
  and \<open>parent\<close> the entry that points to it. The boolean says whether the table went away; the error of
  \<^verbatim>\<open>pmm_free\<close> is only logged.\<close>

definition vmm_free_table :: "vm \<Rightarrow> u64 \<Rightarrow> u64 \<Rightarrow> (bool \<times> vm) option" where
  "vmm_free_table s table parent = do {
     free \<leftarrow> vmm_is_table_free s table;
     if \<not> free then Some (False, s)
     else do {
       e \<leftarrow> vload s parent;
       s' \<leftarrow> vstore (s\<lparr>vm_pmm := snd (pmm_free (vm_pmm s) (vmm_entry_to_addr e) 1)\<rparr>) parent 0;
       Some (True, s') }}"

definition vmm_unmap_page :: "nat \<Rightarrow> vm \<Rightarrow> u64 \<Rightarrow> u32 \<Rightarrow> (errcode \<times> vm) option" where
  "vmm_unmap_page fuel s vaddr attr = do {
     entry \<leftarrow> vmm_entry_from_vaddr s vaddr;
     if entry = 0 then Some (- EFAULT, s)
     else do {
       e \<leftarrow> vload s entry;
       let (err, pm) = (if e AND PTE_FLAG_PMM \<noteq> 0 \<and> attr AND VMM_ATTR_SAVE = 0
                        then pmm_free (vm_pmm s) (vmm_entry_to_addr e) 1 else (0, vm_pmm s));
       if err \<noteq> 0 then Some (err, s\<lparr>vm_pmm := pm\<rparr>)
       else do {
         s1 \<leftarrow> vstore (s\<lparr>vm_pmm := pm\<rparr>) entry 0;
         (_, s2) \<leftarrow> vmm_free_table s1 (vmm_pt_vaddr vaddr) (vmm_pd_entry vaddr);
         (_, s3) \<leftarrow> vmm_free_table s2 (vmm_pd_vaddr vaddr) (vmm_pdpt_entry vaddr);
         (gone, s4) \<leftarrow> vmm_free_table s3 (vmm_pdpt_vaddr vaddr) (vmm_pml4_entry vaddr);
         s5 \<leftarrow> (if gone then vmm_alert_tasks fuel s4 else Some s4);
         Some (0, s5) }}}"

fun unmap_loop :: "nat \<Rightarrow> nat \<Rightarrow> vm \<Rightarrow> u64 \<Rightarrow> u32 \<Rightarrow> (errcode \<times> vm) option" where
  "unmap_loop fuel 0 s vaddr attr = Some (0, s)"
| "unmap_loop fuel (Suc num) s vaddr attr = do {
     (err, s') \<leftarrow> vmm_unmap_page fuel s vaddr attr;
     if err \<noteq> 0 then Some (err, s') else unmap_loop fuel num s' (vaddr + PAGE_SIZE) attr }"

definition vmm_unmap :: "nat \<Rightarrow> vm \<Rightarrow> u64 \<Rightarrow> u64 \<Rightarrow> u32 \<Rightarrow> (errcode \<times> vm) option" where
  "vmm_unmap fuel s vaddr num attr = unmap_loop fuel (unat num) s vaddr attr"

section \<open>Mapping\<close>

text \<open>The get-or-create step of one table level in \<^verbatim>\<open>__vmm_map_to_paddr_internal\<close>; \<open>alert\<close> holds for
  the PML4 level, whose changes other tasks have to learn of.\<close>

definition vmm_get_table :: "nat \<Rightarrow> vm \<Rightarrow> u64 \<Rightarrow> u64 \<Rightarrow> u64 \<Rightarrow> bool \<Rightarrow> vm option" where
  "vmm_get_table fuel s entry table flags alert = do {
     e \<leftarrow> vload s entry;
     if e = 0 then do {
       (p, pm) \<leftarrow> pmm_alloc (vm_pmm s) 1 0;
       s1 \<leftarrow> vstore (s\<lparr>vm_pmm := pm\<rparr>) entry (p OR flags);
       s2 \<leftarrow> (if alert then vmm_alert_tasks fuel s1 else Some s1);
       qzero 512 s2 table }
     else do {
       s1 \<leftarrow> (if alert \<and> vmm_entry_to_flags e \<noteq> flags then vmm_alert_tasks fuel s else Some s);
       vstore s1 entry (e OR flags) }}"

definition vmm_map_page :: "nat \<Rightarrow> vm \<Rightarrow> u64 \<Rightarrow> u64 \<Rightarrow> u32 \<Rightarrow> vm option" where
  "vmm_map_page fuel s paddr vaddr attr = do {
     let flags = vmm_attr_to_flags attr True;
     s1 \<leftarrow> vmm_get_table fuel s (vmm_pml4_entry vaddr) (vmm_pdpt_vaddr vaddr) flags True;
     s2 \<leftarrow> vmm_get_table fuel s1 (vmm_pdpt_entry vaddr) (vmm_pd_vaddr vaddr) flags False;
     s3 \<leftarrow> vmm_get_table fuel s2 (vmm_pd_entry vaddr) (vmm_pt_vaddr vaddr) flags False;
     vstore s3 (vmm_pt_entry vaddr) (paddr OR vmm_attr_to_flags attr False) }"

fun map_loop :: "nat \<Rightarrow> nat \<Rightarrow> vm \<Rightarrow> u64 \<Rightarrow> u64 \<Rightarrow> u32 \<Rightarrow> vm option" where
  "map_loop fuel 0 s paddr vaddr attr = Some s"
| "map_loop fuel (Suc num) s paddr vaddr attr = do {
     s' \<leftarrow> vmm_map_page fuel s paddr vaddr attr;
     map_loop fuel num s' (paddr + PAGE_SIZE) (vaddr + PAGE_SIZE) attr }"

definition vmm_map_to_paddr_internal :: "nat \<Rightarrow> vm \<Rightarrow> u64 \<Rightarrow> u64 \<Rightarrow> u64 \<Rightarrow> u32 \<Rightarrow> (u64 \<times> vm) option" where
  "vmm_map_to_paddr_internal fuel s paddr vaddr num attr =
     map_option (Pair vaddr) (map_loop fuel (unat num) s paddr vaddr attr)"

definition vmm_map_to_vaddr_internal :: "nat \<Rightarrow> vm \<Rightarrow> u64 \<Rightarrow> u64 \<Rightarrow> u64 \<Rightarrow> u32 \<Rightarrow> (u64 \<times> vm) option" where
  "vmm_map_to_vaddr_internal fuel s vaddr num align attr = do {
     (paddr, pm) \<leftarrow> pmm_alloc (vm_pmm s) num align;
     if paddr = 0 then Some (0, s\<lparr>vm_pmm := pm\<rparr>)
     else vmm_map_to_paddr_internal fuel (s\<lparr>vm_pmm := pm\<rparr>) paddr vaddr num attr }"

text \<open>The search of \<^verbatim>\<open>__vmm_find_contiguous\<close>: it has no upper end, so the loop carries fuel.\<close>

fun contiguous_loop :: "nat \<Rightarrow> vm \<Rightarrow> u64 \<Rightarrow> u64 \<Rightarrow> u64 \<Rightarrow> u64 \<Rightarrow> u64 \<Rightarrow> u64 option" where
  "contiguous_loop 0 s num align pos start cur = None"
| "contiguous_loop (Suc fuel) s num align pos start cur =
     (if \<not> num > cur then Some (if cur \<noteq> num then 0 else start)
      else if cur = 0 \<and> align \<noteq> 0 \<and> pos mod align \<noteq> 0
      then contiguous_loop fuel s num align (pos + PAGE_SIZE) start cur
      else let start = (if cur = 0 then pos else start) in
        (case vmm_entry_from_vaddr s pos of
           None \<Rightarrow> None
         | Some entry \<Rightarrow>
             contiguous_loop fuel s num align (pos + PAGE_SIZE) start (if entry \<noteq> 0 then 0 else cur + 1)))"

definition vmm_find_contiguous :: "nat \<Rightarrow> vm \<Rightarrow> u64 \<Rightarrow> u64 \<Rightarrow> u32 \<Rightarrow> u64 option" where
  "vmm_find_contiguous fuel s num align attr =
     contiguous_loop fuel s num align
       (if attr AND VMM_ATTR_USER \<noteq> 0 then VMM_VMA_USER_START else VMM_VMA_KERNEL_START) 0 0"

definition vmm_map :: "nat \<Rightarrow> vm \<Rightarrow> u64 \<Rightarrow> u64 \<Rightarrow> u32 \<Rightarrow> (u64 \<times> vm) option" where
  "vmm_map fuel s num align attr = do {
     vaddr \<leftarrow> vmm_find_contiguous fuel s num align attr;
     if vaddr = 0 then Some (0, s) else vmm_map_to_vaddr_internal fuel s vaddr num align attr }"

definition vmm_map_paddr :: "nat \<Rightarrow> vm \<Rightarrow> u64 \<Rightarrow> u64 \<Rightarrow> u32 \<Rightarrow> (u64 \<times> vm) option" where
  "vmm_map_paddr fuel s paddr num attr = do {
     vaddr \<leftarrow> vmm_find_contiguous fuel s num 0 attr;
     if vaddr = 0 then Some (0, s)
     else if paddr mod PAGE_SIZE \<noteq> 0 then Some (0, s)
     else vmm_map_to_paddr_internal fuel s paddr vaddr num attr }"

text \<open>The check loop of \<^verbatim>\<open>vmm_map_vaddr\<close>: the number of pages it accepts.\<close>

function vaddr_loop :: "vm \<Rightarrow> u32 \<Rightarrow> u64 \<Rightarrow> u64 \<Rightarrow> u64 \<Rightarrow> u64 option" where
  "vaddr_loop s attr num cur pos =
     (if \<not> num > cur then Some cur
      else if \<not> vmm_vma_does_contain s pos then Some cur
      else if attr AND VMM_ATTR_REUSE = 0
      then (case vmm_entry_from_vaddr s pos of
              None \<Rightarrow> None
            | Some entry \<Rightarrow> if entry \<noteq> 0 then Some cur else vaddr_loop s attr num (cur + 1) (pos + PAGE_SIZE))
      else vaddr_loop s attr num (cur + 1) (pos + PAGE_SIZE))"
  by pat_completeness auto
termination
  by (relation "measure (\<lambda>(s, attr, num, cur, pos). unat num - unat cur)")
    (auto simp: unat_Suc_less word_less_nat_alt)

declare vaddr_loop.simps [simp del]

definition vmm_map_vaddr :: "nat \<Rightarrow> vm \<Rightarrow> u64 \<Rightarrow> u64 \<Rightarrow> u64 \<Rightarrow> u32 \<Rightarrow> (u64 \<times> vm) option" where
  "vmm_map_vaddr fuel s vaddr num align attr = do {
     cur \<leftarrow> vaddr_loop s attr num 0 vaddr;
     if cur \<noteq> num then Some (0, s) else vmm_map_to_vaddr_internal fuel s vaddr num align attr }"

text \<open>The check loop of \<^verbatim>\<open>vmm_map_exact\<close>, with the final \<open>(paddr, vaddr, num, cur)\<close>.\<close>

function exact_loop :: "vm \<Rightarrow> u32 \<Rightarrow> u64 \<Rightarrow> u64 \<Rightarrow> u64 \<Rightarrow> u64 \<Rightarrow> u64 \<Rightarrow> u64 \<Rightarrow> (u64 \<times> u64 \<times> u64 \<times> u64) option" where
  "exact_loop s attr paddr vaddr num cur vaddr_pos paddr_pos =
     (if \<not> num > cur then Some (paddr, vaddr, num, cur)
      else if \<not> vmm_vma_does_contain s vaddr_pos then Some (paddr, vaddr, num, cur)
      else case vmm_entry_from_vaddr s vaddr_pos of
        None \<Rightarrow> None
      | Some entry \<Rightarrow>
          if entry = 0 then exact_loop s attr paddr vaddr num (cur + 1) (vaddr_pos + PAGE_SIZE) (paddr_pos + PAGE_SIZE)
          else case vload s entry of
            None \<Rightarrow> None
          | Some e \<Rightarrow>
              if cur = 0 \<and> vmm_entry_to_addr e = paddr_pos
              then (if attr AND VMM_ATTR_REUSE = 0 then Some (paddr + PAGE_SIZE, vaddr + PAGE_SIZE, num - 1, cur)
                    else exact_loop s attr (paddr + PAGE_SIZE) (vaddr + PAGE_SIZE) (num - 1) (cur + 1)
                           (vaddr_pos + PAGE_SIZE) (paddr_pos + PAGE_SIZE))
              else if attr AND VMM_ATTR_REUSE = 0 then Some (paddr, vaddr, num, cur)
              else exact_loop s attr paddr vaddr num (cur + 1) (vaddr_pos + PAGE_SIZE) (paddr_pos + PAGE_SIZE))"
  by pat_completeness auto
termination
proof (relation "measure (\<lambda>(s, attr, paddr, vaddr, num, cur, vaddr_pos, paddr_pos). unat num - unat cur)", goal_cases)
  case 3
  then show ?case by (simp add: word_less_nat_alt) unat_arith
qed (auto simp: unat_Suc_less word_less_nat_alt)

declare exact_loop.simps [simp del]

definition vmm_map_exact :: "nat \<Rightarrow> vm \<Rightarrow> u64 \<Rightarrow> u64 \<Rightarrow> u64 \<Rightarrow> u32 \<Rightarrow> (u64 \<times> vm) option" where
  "vmm_map_exact fuel s paddr vaddr num attr = do {
     (paddr, vaddr, num, cur) \<leftarrow> exact_loop s attr paddr vaddr num 0 vaddr paddr;
     if cur \<noteq> num then Some (0, s) else vmm_map_to_paddr_internal fuel s paddr vaddr num attr }"

section \<open>Whole address spaces\<close>

definition vmm_sync :: "nat \<Rightarrow> vm \<Rightarrow> u64 \<Rightarrow> (errcode \<times> vm) option" where
  "vmm_sync fuel s pml4_paddr = do {
     (pml4_vaddr, s1) \<leftarrow> vmm_map_paddr fuel s pml4_paddr 1 VMM_ATTR_SAVE;
     if pml4_vaddr = 0 then Some (- EFAULT, s1)
     else do {
       s2 \<leftarrow> qzero (unat (vmm_pml4_index VMM_VMA_USER_END)) s1 pml4_vaddr;
       s3 \<leftarrow> qcopy (512 - unat (vmm_pml4_index VMM_VMA_KERNEL_START)) s2
               (pml4_vaddr + 8 * vmm_pml4_index VMM_VMA_KERNEL_START)
               (vmm_pml4_vaddr + 8 * vmm_pml4_index VMM_VMA_KERNEL_START);
       s4 \<leftarrow> vstore s3 (pml4_vaddr + 8 * 510) (pml4_paddr OR PTE_FLAGS_DEFAULT);
       vmm_unmap fuel s4 pml4_vaddr 1 VMM_ATTR_SAVE }}"

definition vmm_new :: "nat \<Rightarrow> vm \<Rightarrow> (u64 \<times> vm) option" where
  "vmm_new fuel s = do {
     (pml4_paddr, pm) \<leftarrow> pmm_alloc (vm_pmm s) 1 0;
     let s1 = s\<lparr>vm_pmm := pm\<rparr>;
     if pml4_paddr = 0 then Some (0, s1)
     else do {
       (err, s2) \<leftarrow> vmm_sync fuel s1 pml4_paddr;
       if err \<noteq> 0 then Some (0, s2\<lparr>vm_pmm := snd (pmm_free (vm_pmm s2) pml4_paddr 1)\<rparr>)
       else Some (pml4_paddr, s2) }}"

section \<open>Table addresses\<close>

lemma mask9: "(x :: u64) AND 0x1FF = take_bit 9 x"
  by (simp add: take_bit_eq_mask mask_eq_exp_minus_1)
lemma mask12: "(x :: u64) AND 0xfff = take_bit 12 x"
  by (simp add: take_bit_eq_mask mask_eq_exp_minus_1)

lemmas index_defs = vmm_pml4_index_def vmm_pdpt_index_def vmm_pd_index_def vmm_pt_index_def mask9

lemma high16: "(push_bit 48 0xffff :: u64) = push_bit 48 (mask 16)"
  by (simp add: mask_eq_exp_minus_1)

lemma bit_indexes_to_addr:
  "bit (vmm_indexes_to_addr (take_bit 9 a) (take_bit 9 b) (take_bit 9 c) (take_bit 9 d)) n \<longleftrightarrow>
    (if n < 12 then False else if n < 21 then bit d (n - 12) else if n < 30 then bit c (n - 21)
     else if n < 39 then bit b (n - 30) else if n < 48 then bit a (n - 39) else n < 64 \<and> bit a 8)"
proof -
  consider "n < 12" | "12 \<le> n" "n < 21" | "21 \<le> n" "n < 30" | "30 \<le> n" "n < 39" | "39 \<le> n" "n < 48" | "48 \<le> n"
    by linarith
  then show ?thesis unfolding vmm_indexes_to_addr_def high16
    by cases (auto simp: bit_simps)
qed

lemma index_bits:
  "bit (vmm_pml4_index v) n \<longleftrightarrow> n < 9 \<and> bit v (39 + n)" "bit (vmm_pdpt_index v) n \<longleftrightarrow> n < 9 \<and> bit v (30 + n)"
  "bit (vmm_pd_index v) n \<longleftrightarrow> n < 9 \<and> bit v (21 + n)" "bit (vmm_pt_index v) n \<longleftrightarrow> n < 9 \<and> bit v (12 + n)"
  by (auto simp: index_defs bit_simps)

lemma indexes_plus:
  "vmm_indexes_to_addr (take_bit 9 a) (take_bit 9 b) (take_bit 9 c) (take_bit 9 d) + 8 * take_bit 9 i =
   vmm_indexes_to_addr (take_bit 9 a) (take_bit 9 b) (take_bit 9 c) (take_bit 9 d) OR push_bit 3 (take_bit 9 i)"
proof -
  have "8 * x = push_bit 3 x" for x :: u64 by (simp add: push_bit_eq_mult)
  moreover have "vmm_indexes_to_addr (take_bit 9 a) (take_bit 9 b) (take_bit 9 c) (take_bit 9 d) AND push_bit 3 (take_bit 9 i) = 0"
    by (rule bit_eqI) (auto simp: bit_indexes_to_addr bit_and_iff bit_push_bit_iff bit_take_bit_iff)
  ultimately show ?thesis by (simp add: disjunctive_add_eq_or)
qed

lemma bit_indexes_plus:
  "bit (vmm_indexes_to_addr (take_bit 9 a) (take_bit 9 b) (take_bit 9 c) (take_bit 9 d) + 8 * take_bit 9 i) n \<longleftrightarrow>
    (if n < 12 then 3 \<le> n \<and> bit i (n - 3) else if n < 21 then bit d (n - 12) else if n < 30 then bit c (n - 21)
     else if n < 39 then bit b (n - 30) else if n < 48 then bit a (n - 39) else n < 64 \<and> bit a 8)"
  unfolding indexes_plus by (auto simp: bit_or_iff bit_indexes_to_addr bit_push_bit_iff bit_take_bit_iff)

lemma indexes_of_take:
  fixes a b c d i :: u64
  defines "v \<equiv> vmm_indexes_to_addr (take_bit 9 a) (take_bit 9 b) (take_bit 9 c) (take_bit 9 d) + 8 * take_bit 9 i"
  shows "vmm_pml4_index v = take_bit 9 a" "vmm_pdpt_index v = take_bit 9 b" "vmm_pd_index v = take_bit 9 c"
    "vmm_pt_index v = take_bit 9 d" "v AND 0xfff = push_bit 3 (take_bit 9 i)"
  by (rule bit_eqI; auto simp: v_def index_bits bit_indexes_plus bit_take_bit_iff bit_push_bit_iff mask12)+

text \<open>The entries of a virtual address as the processor reads them, and the recursive slot.\<close>

definition pml4e :: "vm \<Rightarrow> u64 \<Rightarrow> u64" where "pml4e s v = phys s (pte_ref (cr3 s) (vmm_pml4_index v))"
definition pdpte :: "vm \<Rightarrow> u64 \<Rightarrow> u64" where "pdpte s v = phys s (pte_ref (pml4e s v) (vmm_pdpt_index v))"
definition pde :: "vm \<Rightarrow> u64 \<Rightarrow> u64" where "pde s v = phys s (pte_ref (pdpte s v) (vmm_pd_index v))"
definition pte :: "vm \<Rightarrow> u64 \<Rightarrow> u64" where "pte s v = phys s (pte_ref (pde s v) (vmm_pt_index v))"

definition rec_ok :: "vm \<Rightarrow> bool" where
  "rec_ok s \<longleftrightarrow> (let r = phys s (pte_ref (cr3 s) 510) in
     bit r 0 \<and> \<not> bit r 7 \<and> r AND 0x000ffffffffff000 = cr3 s AND 0x000ffffffffff000)"

lemma take510: "(510 :: u64) = take_bit 9 510" by simp

lemma index_take: "vmm_pml4_index v = take_bit 9 (vmm_pml4_index v)" "vmm_pdpt_index v = take_bit 9 (vmm_pdpt_index v)"
  "vmm_pd_index v = take_bit 9 (vmm_pd_index v)" "vmm_pt_index v = take_bit 9 (vmm_pt_index v)"
  by (simp_all add: index_defs)

lemma indexes_of:
  fixes a b c d i :: u64
  assumes "a = take_bit 9 a" "b = take_bit 9 b" "c = take_bit 9 c" "d = take_bit 9 d" "i = take_bit 9 i"
  shows "vmm_pml4_index (vmm_indexes_to_addr a b c d + 8 * i) = a" "vmm_pdpt_index (vmm_indexes_to_addr a b c d + 8 * i) = b"
    "vmm_pd_index (vmm_indexes_to_addr a b c d + 8 * i) = c" "vmm_pt_index (vmm_indexes_to_addr a b c d + 8 * i) = d"
    "(vmm_indexes_to_addr a b c d + 8 * i) AND 0xfff = push_bit 3 i"
  using indexes_of_take [of a b c d i] assms by simp_all

lemmas entry_indexes =
  indexes_of [OF take510 take510 take510 take510 index_take(1)]
  indexes_of [OF take510 take510 take510 index_take(1) index_take(2)]
  indexes_of [OF take510 take510 index_take(1) index_take(2) index_take(3)]
  indexes_of [OF take510 index_take(1) index_take(2) index_take(3) index_take(4)]

lemmas entry_defs = vmm_pml4_entry_def vmm_pdpt_entry_def vmm_pd_entry_def vmm_pt_entry_def
  vmm_pml4_vaddr_def vmm_pdpt_vaddr_def vmm_pd_vaddr_def vmm_pt_vaddr_def

lemma rec_ref: "rec_ok s \<Longrightarrow> pte_ref (phys s (pte_ref (cr3 s) 510)) i = pte_ref (cr3 s) i"
  by (simp add: rec_ok_def pte_ref_def Let_def)

lemma rec_present: "rec_ok s \<Longrightarrow> bit (phys s (pte_ref (cr3 s) 510)) 0 \<and> \<not> bit (phys s (pte_ref (cr3 s) 510)) 7"
  by (simp add: rec_ok_def Let_def)

lemma translate_pml4_entry:
  "rec_ok s \<Longrightarrow> mmu_translate s (vmm_pml4_entry v) = Some (pte_ref (cr3 s) (vmm_pml4_index v))"
  using rec_present [of s]
  by (simp add: mmu_translate_def entry_defs entry_indexes rec_ref Let_def pte_ref_def [symmetric])

lemma translate_pdpt_entry:
  "rec_ok s \<Longrightarrow> bit (pml4e s v) 0 \<Longrightarrow>
   mmu_translate s (vmm_pdpt_entry v) = Some (pte_ref (pml4e s v) (vmm_pdpt_index v))"
  using rec_present [of s]
  by (simp add: mmu_translate_def entry_defs entry_indexes rec_ref Let_def pml4e_def pte_ref_def [symmetric])

lemma translate_pd_entry:
  "rec_ok s \<Longrightarrow> bit (pml4e s v) 0 \<Longrightarrow> \<not> bit (pml4e s v) 7 \<Longrightarrow> bit (pdpte s v) 0 \<Longrightarrow>
   mmu_translate s (vmm_pd_entry v) = Some (pte_ref (pdpte s v) (vmm_pd_index v))"
  using rec_present [of s]
  by (simp add: mmu_translate_def entry_defs entry_indexes rec_ref Let_def pml4e_def pdpte_def pte_ref_def [symmetric])

lemma translate_pt_entry:
  "rec_ok s \<Longrightarrow> bit (pml4e s v) 0 \<Longrightarrow> \<not> bit (pml4e s v) 7 \<Longrightarrow> bit (pdpte s v) 0 \<Longrightarrow> \<not> bit (pdpte s v) 7 \<Longrightarrow>
   bit (pde s v) 0 \<Longrightarrow>
   mmu_translate s (vmm_pt_entry v) = Some (pte_ref (pde s v) (vmm_pt_index v))"
  using rec_present [of s]
  by (simp add: mmu_translate_def entry_defs entry_indexes rec_ref Let_def pml4e_def pdpte_def pde_def pte_ref_def [symmetric])

section \<open>Lookup and the processor agree\<close>

lemma and_flag [simp]:
  "(e AND 128 = 0) = (\<not> bit (e :: u64) 7)" "(e AND 512 = 0) = (\<not> bit (e :: u64) 9)"
  using and_exp_eq_0_iff_not_bit [of e 7] and_exp_eq_0_iff_not_bit [of e 9] by simp_all

definition path_ok :: "vm \<Rightarrow> u64 \<Rightarrow> bool" where
  "path_ok s v \<longleftrightarrow> rec_ok s \<and> (pml4e s v \<noteq> 0 \<longrightarrow> bit (pml4e s v) 0 \<and> \<not> bit (pml4e s v) 7 \<and>
     (pdpte s v \<noteq> 0 \<longrightarrow> bit (pdpte s v) 0 \<and> \<not> bit (pdpte s v) 7 \<and>
     (pde s v \<noteq> 0 \<longrightarrow> bit (pde s v) 0 \<and> (\<not> bit (pde s v) 7 \<and> pte s v \<noteq> 0 \<longrightarrow> bit (pte s v) 0))))"

lemma vload_entries:
  "rec_ok s \<Longrightarrow> vload s (vmm_pml4_entry v) = Some (pml4e s v)"
  "rec_ok s \<Longrightarrow> bit (pml4e s v) 0 \<Longrightarrow> vload s (vmm_pdpt_entry v) = Some (pdpte s v)"
  "rec_ok s \<Longrightarrow> bit (pml4e s v) 0 \<Longrightarrow> \<not> bit (pml4e s v) 7 \<Longrightarrow> bit (pdpte s v) 0 \<Longrightarrow>
   vload s (vmm_pd_entry v) = Some (pde s v)"
  "rec_ok s \<Longrightarrow> bit (pml4e s v) 0 \<Longrightarrow> \<not> bit (pml4e s v) 7 \<Longrightarrow> bit (pdpte s v) 0 \<Longrightarrow> \<not> bit (pdpte s v) 7 \<Longrightarrow>
   bit (pde s v) 0 \<Longrightarrow> vload s (vmm_pt_entry v) = Some (pte s v)"
  by (simp_all add: vload_def translate_pml4_entry translate_pdpt_entry translate_pd_entry translate_pt_entry
      pml4e_def pdpte_def pde_def pte_def)

lemma vmm_entry_walk:
  assumes "path_ok s v"
  shows "vmm_entry_from_vaddr s v = Some
    (if pml4e s v = 0 \<or> pdpte s v = 0 \<or> pde s v = 0 then 0
     else if bit (pde s v) 7 then vmm_pd_entry v
     else if pte s v = 0 then 0 else vmm_pt_entry v)"
proof -
  have r: "rec_ok s" using assms by (simp add: path_ok_def)
  show ?thesis
    using assms unfolding vmm_entry_from_vaddr_def path_ok_def
    by (auto simp: vload_entries [OF r])
qed

lemma mmu_translate_walk:
  "mmu_translate s v =
     (if \<not> bit (pml4e s v) 0 \<or> \<not> bit (pdpte s v) 0 then None
      else if bit (pdpte s v) 7 then Some ((pdpte s v AND 0x000fffffc0000000) OR (v AND 0x3fffffff))
      else if \<not> bit (pde s v) 0 then None
      else if bit (pde s v) 7 then Some ((pde s v AND 0x000fffffffe00000) OR (v AND 0x1fffff))
      else if \<not> bit (pte s v) 0 then None
      else Some ((pte s v AND 0x000ffffffffff000) OR (v AND 0xfff)))"
  by (simp add: mmu_translate_def Let_def pml4e_def pdpte_def pde_def pte_def)

text \<open>A leaf entry whose address field is below \<open>2\<^sup>47\<close> and whose ignored bits are clear.\<close>

definition leaf_ok :: "u64 \<Rightarrow> bool" where
  "leaf_ok e \<longleftrightarrow> take_bit 2 (drop_bit 10 e) = 0 \<and> take_bit 16 (drop_bit 47 e) = 0"

lemma leaf_ok_bits: "leaf_ok e \<Longrightarrow> (n = 10 \<or> n = 11 \<or> 47 \<le> n \<and> n < 63) \<Longrightarrow> \<not> bit e n"
proof -
  assume l: "leaf_ok e" and n: "n = 10 \<or> n = 11 \<or> 47 \<le> n \<and> n < 63"
  have a: "\<not> bit (take_bit 2 (drop_bit 10 e)) (n - 10)" and b: "\<not> bit (take_bit 16 (drop_bit 47 e)) (n - 47)"
    using l unfolding leaf_ok_def by simp_all
  show ?thesis using a b n by (auto simp: bit_take_bit_iff bit_drop_bit_eq)
qed

lemma page_mask: "(0x000ffffffffff000 :: u64) = push_bit 12 (mask 40)"
  by (simp add: mask_eq_exp_minus_1)

lemma flag_mask: "(0x80000000000003ff :: u64) = mask 10 OR NOT (mask 63)"
  by (simp add: mask_eq_exp_minus_1)

lemma entry_to_addr_leaf: "leaf_ok e \<Longrightarrow> vmm_entry_to_addr e = e AND 0x000ffffffffff000"
proof -
  assume l: "leaf_ok e"
  have "\<not> bit e 47" using leaf_ok_bits [OF l] by simp
  moreover have "bit ((e AND NOT (mask 10 OR NOT (mask 63))) AND NOT (push_bit 48 (mask 16))) n =
      bit (e AND push_bit 12 (mask 40)) n" if "n < 64" for n
  proof -
    have "n < 10 \<or> (n = 10 \<or> n = 11 \<or> 47 \<le> n \<and> n < 63) \<or> 12 \<le> n \<and> n < 47 \<or> n = 63" using that by arith
    then show ?thesis using leaf_ok_bits [OF l, of n] by (elim disjE) (auto simp: bit_simps)
  qed
  ultimately show ?thesis
    unfolding vmm_entry_to_addr_def flag_mask page_mask high16 by (simp add: bit_and_iff bit_eq_iff possible_bit_def)
qed

lemma entry_nonzero: "vmm_pd_entry v \<noteq> 0" "vmm_pt_entry v \<noteq> 0"
proof -
  have "bit (510 :: u64) 8" by simp
  then have "vmm_pml4_index (vmm_pd_entry v) = 510" "vmm_pml4_index (vmm_pt_entry v) = 510"
    by (simp_all add: entry_defs entry_indexes)
  then show "vmm_pd_entry v \<noteq> 0" "vmm_pt_entry v \<noteq> 0" by (auto simp: vmm_pml4_index_def)
qed

lemma large_page_addr: "(e :: u64) AND 0x1ff000 = 0 \<Longrightarrow> e AND 0x000ffffffffff000 = e AND 0x000fffffffe00000"
proof -
  assume "e AND 0x1ff000 = 0"
  then have "e AND (0x000fffffffe00000 OR 0x1ff000) = e AND 0x000fffffffe00000"
    by (simp only: bit.conj_disj_distrib or.right_neutral)
  then show ?thesis by simp
qed

lemma vmm_resolve_mmu:
  assumes ok: "path_ok s v" and large: "bit (pde s v) 7 \<longrightarrow> leaf_ok (pde s v) \<and> pde s v AND 0x1ff000 = 0"
    and small: "\<not> bit (pde s v) 7 \<longrightarrow> leaf_ok (pte s v) \<and> \<not> bit (pte s v) 7"
  shows "vmm_resolve s v = Some (case mmu_translate s v of None \<Rightarrow> 0 | Some p \<Rightarrow> p)"
proof -
  have r: "rec_ok s" using ok by (simp add: path_ok_def)
  show ?thesis
  proof (cases "pml4e s v = 0 \<or> pdpte s v = 0 \<or> pde s v = 0 \<or> (\<not> bit (pde s v) 7 \<and> pte s v = 0)")
    case True
    then have "vmm_resolve s v = Some 0"
      using vmm_entry_walk [OF ok] by (auto simp: vmm_resolve_def)
    moreover have "mmu_translate s v = None"
      using True ok unfolding mmu_translate_walk path_ok_def by auto
    ultimately show ?thesis by simp
  next
    case False
    then have p: "bit (pml4e s v) 0" "\<not> bit (pml4e s v) 7" "bit (pdpte s v) 0" "\<not> bit (pdpte s v) 7" "bit (pde s v) 0"
      "\<not> bit (pde s v) 7 \<Longrightarrow> bit (pte s v) 0"
      using ok by (auto simp: path_ok_def)
    show ?thesis
    proof (cases "bit (pde s v) 7")
      case True
      then show ?thesis
        using False p large vmm_entry_walk [OF ok]
        by (simp add: vmm_resolve_def mmu_translate_walk vload_entries [OF r] entry_nonzero entry_to_addr_leaf large_page_addr)
    next
      case F: False
      then show ?thesis
        using False p small vmm_entry_walk [OF ok]
        by (simp add: vmm_resolve_def mmu_translate_walk vload_entries [OF r] entry_nonzero entry_to_addr_leaf)
    qed
  qed
qed

section \<open>Mapping a page\<close>

lemma pte_ref_bits: "i = take_bit 9 i \<Longrightarrow>
  bit (pte_ref b i) n \<longleftrightarrow> (if n < 12 then 3 \<le> n \<and> bit i (n - 3) else n < 52 \<and> bit b n)"
proof -
  assume i: "i = take_bit 9 i"
  have "bit (pte_ref b (take_bit 9 i)) n \<longleftrightarrow> (if n < 12 then 3 \<le> n \<and> bit (take_bit 9 i) (n - 3) else n < 52 \<and> bit b n)"
    unfolding pte_ref_def page_mask by (auto simp: bit_simps)
  then show ?thesis using i by simp
qed

lemma pte_ref_page: "i = take_bit 9 i \<Longrightarrow> pte_ref b i AND 0x000ffffffffff000 = b AND 0x000ffffffffff000"
  by (rule bit_eqI) (auto simp: bit_and_iff pte_ref_bits page_mask bit_push_bit_iff bit_mask_iff)

lemma pte_ref_index: "i = take_bit 9 i \<Longrightarrow> take_bit 9 (drop_bit 3 (pte_ref b i)) = i"
proof -
  assume i: "i = take_bit 9 i"
  have "bit (take_bit 9 (drop_bit 3 (pte_ref b i))) n = bit (take_bit 9 i) n" for n
    by (auto simp: bit_take_bit_iff bit_drop_bit_eq pte_ref_bits [OF i])
  then show ?thesis using i by (metis bit_eqI)
qed

lemma pte_ref_eqD:
  assumes "pte_ref a i = pte_ref b j" "i = take_bit 9 i" "j = take_bit 9 j"
  shows "a AND 0x000ffffffffff000 = b AND 0x000ffffffffff000" "i = j"
  using assms pte_ref_page pte_ref_index by metis+

text \<open>A path whose tables all exist, in pages of their own.\<close>

abbreviation tpage :: "u64 \<Rightarrow> u64" where "tpage e \<equiv> e AND 0x000ffffffffff000"

definition path_full :: "vm \<Rightarrow> u64 \<Rightarrow> bool" where
  "path_full s v \<longleftrightarrow> rec_ok s \<and> vmm_pml4_index v \<noteq> 510 \<and>
     bit (pml4e s v) 0 \<and> \<not> bit (pml4e s v) 7 \<and> bit (pdpte s v) 0 \<and> \<not> bit (pdpte s v) 7 \<and>
     bit (pde s v) 0 \<and> \<not> bit (pde s v) 7 \<and>
     distinct [tpage (cr3 s), tpage (pml4e s v), tpage (pdpte s v), tpage (pde s v)]"

definition poke :: "vm \<Rightarrow> u64 \<Rightarrow> u64 \<Rightarrow> vm" where
  "poke s a x = s\<lparr>phys := (phys s)(a := x)\<rparr>"

lemma poke_simps [simp]:
  "phys (poke s a x) = (phys s)(a := x)" "vm_sched (poke s a x) = vm_sched s" "vm_pmm (poke s a x) = vm_pmm s"
  by (simp_all add: poke_def)

lemma tag_bits:
  assumes "f = take_bit 7 f"
  shows "tpage (e OR f) = tpage e" "bit (e OR f) 7 = bit e 7" "bit e 0 \<Longrightarrow> bit (e OR f) 0"
proof -
  have lt: "\<not> bit f n" if "7 \<le> n" for n using assms that by (metis bit_take_bit_iff not_less)
  show "tpage (e OR f) = tpage e"
  proof (rule bit_eqI)
    fix n
    show "bit (tpage (e OR f)) n = bit (tpage e) n"
      using lt [of n] by (cases "7 \<le> n") (simp_all add: bit_and_iff bit_or_iff page_mask bit_push_bit_iff)
  qed
  show "bit (e OR f) 7 = bit e 7" "bit e 0 \<Longrightarrow> bit (e OR f) 0" using lt [of 7] by (simp_all add: bit_or_iff)
qed

lemma pte_ref_tag: "f = take_bit 7 f \<Longrightarrow> pte_ref (e OR f) i = pte_ref e i"
  using tag_bits(1) [of f e] by (simp add: pte_ref_def)

lemma pte_ref_neq_page:
  "tpage a \<noteq> tpage b \<Longrightarrow> i = take_bit 9 i \<Longrightarrow> j = take_bit 9 j \<Longrightarrow> pte_ref a i \<noteq> pte_ref b j"
  using pte_ref_eqD by blast

lemma pte_ref_neq_index: "i \<noteq> j \<Longrightarrow> i = take_bit 9 i \<Longrightarrow> j = take_bit 9 j \<Longrightarrow> pte_ref a i \<noteq> pte_ref a j"
  using pte_ref_eqD by blast

lemma poke_pml4e:
  assumes full: "path_full s v" and f: "f = take_bit 7 f"
  defines "s' \<equiv> poke s (pte_ref (cr3 s) (vmm_pml4_index v)) (pml4e s v OR f)"
  shows "path_full s' v \<and> pml4e s' v = pml4e s v OR f \<and> pdpte s' v = pdpte s v \<and> pde s' v = pde s v \<and> pte s' v = pte s v"
proof -
  note d = full [unfolded path_full_def]
  have r: "rec_ok s'"
    using d pte_ref_neq_index [OF _ index_take(1) take510, of v "cr3 s"] by (simp add: s'_def rec_ok_def)
  have 4: "pml4e s' v = pml4e s v OR f" by (simp add: s'_def pml4e_def)
  have 3: "pdpte s' v = pdpte s v"
    using d pte_ref_neq_page [OF _ index_take(2) index_take(1), of "pml4e s v" "cr3 s" v v]
    unfolding pdpte_def 4 pte_ref_tag [OF f] by (auto simp: s'_def)
  have 2: "pde s' v = pde s v"
    using d pte_ref_neq_page [OF _ index_take(3) index_take(1), of "pdpte s v" "cr3 s" v v]
    unfolding pde_def 3 by (auto simp: s'_def)
  have 1: "pte s' v = pte s v"
    using d pte_ref_neq_page [OF _ index_take(4) index_take(1), of "pde s v" "cr3 s" v v]
    unfolding pte_def 2 by (auto simp: s'_def)
  show ?thesis using d r 1 2 3 4 tag_bits [OF f] by (auto simp: path_full_def s'_def)
qed

lemma poke_pdpte:
  assumes full: "path_full s v" and f: "f = take_bit 7 f"
  defines "s' \<equiv> poke s (pte_ref (pml4e s v) (vmm_pdpt_index v)) (pdpte s v OR f)"
  shows "path_full s' v \<and> pml4e s' v = pml4e s v \<and> pdpte s' v = pdpte s v OR f \<and> pde s' v = pde s v \<and> pte s' v = pte s v"
proof -
  note d = full [unfolded path_full_def]
  have r: "rec_ok s'"
    using d pte_ref_neq_page [OF _ take510 index_take(2), of "cr3 s" "pml4e s v" v] by (simp add: s'_def rec_ok_def)
  have 4: "pml4e s' v = pml4e s v"
    using d pte_ref_neq_page [OF _ index_take(1) index_take(2), of "cr3 s" "pml4e s v" v v]
    by (simp add: s'_def pml4e_def)
  have 3: "pdpte s' v = pdpte s v OR f" unfolding pdpte_def 4 by (simp add: s'_def pdpte_def)
  have 2: "pde s' v = pde s v"
    using d pte_ref_neq_page [OF _ index_take(3) index_take(2), of "pdpte s v" "pml4e s v" v v]
    unfolding pde_def 3 pte_ref_tag [OF f] by (auto simp: s'_def)
  have 1: "pte s' v = pte s v"
    using d pte_ref_neq_page [OF _ index_take(4) index_take(2), of "pde s v" "pml4e s v" v v]
    unfolding pte_def 2 by (auto simp: s'_def)
  show ?thesis using d r 1 2 3 4 tag_bits [OF f] by (auto simp: path_full_def s'_def)
qed

lemma poke_pde:
  assumes full: "path_full s v" and f: "f = take_bit 7 f"
  defines "s' \<equiv> poke s (pte_ref (pdpte s v) (vmm_pd_index v)) (pde s v OR f)"
  shows "path_full s' v \<and> pml4e s' v = pml4e s v \<and> pdpte s' v = pdpte s v \<and> pde s' v = pde s v OR f \<and> pte s' v = pte s v"
proof -
  note d = full [unfolded path_full_def]
  have r: "rec_ok s'"
    using d pte_ref_neq_page [OF _ take510 index_take(3), of "cr3 s" "pdpte s v" v] by (simp add: s'_def rec_ok_def)
  have 4: "pml4e s' v = pml4e s v"
    using d pte_ref_neq_page [OF _ index_take(1) index_take(3), of "cr3 s" "pdpte s v" v v]
    by (simp add: s'_def pml4e_def)
  have 3: "pdpte s' v = pdpte s v"
    using d pte_ref_neq_page [OF _ index_take(2) index_take(3), of "pml4e s v" "pdpte s v" v v]
    unfolding pdpte_def [of s'] 4 by (auto simp: s'_def pdpte_def)
  have 2: "pde s' v = pde s v OR f" unfolding pde_def [of s'] 3 by (simp add: s'_def)
  have 1: "pte s' v = pte s v"
    using d pte_ref_neq_page [OF _ index_take(4) index_take(3), of "pde s v" "pdpte s v" v v]
    unfolding pte_def 2 pte_ref_tag [OF f] by (auto simp: s'_def)
  show ?thesis using d r 1 2 3 4 tag_bits [OF f] by (auto simp: path_full_def s'_def)
qed

lemma poke_pte:
  fixes x :: u64
  assumes full: "path_full s v"
  defines "s' \<equiv> poke s (pte_ref (pde s v) (vmm_pt_index v)) x"
  shows "path_full s' v \<and> pml4e s' v = pml4e s v \<and> pdpte s' v = pdpte s v \<and> pde s' v = pde s v \<and> pte s' v = x"
proof -
  note d = full [unfolded path_full_def]
  have r: "rec_ok s'"
    using d pte_ref_neq_page [OF _ take510 index_take(4), of "cr3 s" "pde s v" v] by (simp add: s'_def rec_ok_def)
  have 4: "pml4e s' v = pml4e s v"
    using d pte_ref_neq_page [OF _ index_take(1) index_take(4), of "cr3 s" "pde s v" v v]
    by (simp add: s'_def pml4e_def)
  have 3: "pdpte s' v = pdpte s v"
    using d pte_ref_neq_page [OF _ index_take(2) index_take(4), of "pml4e s v" "pde s v" v v]
    unfolding pdpte_def [of s'] 4 by (auto simp: s'_def pdpte_def)
  have 2: "pde s' v = pde s v"
    using d pte_ref_neq_page [OF _ index_take(3) index_take(4), of "pdpte s v" "pde s v" v v]
    unfolding pde_def [of s'] 3 by (auto simp: s'_def pde_def)
  have 1: "pte s' v = x" unfolding pte_def [of s'] 2 by (simp add: s'_def)
  show ?thesis using d r 1 2 3 4 by (auto simp: path_full_def s'_def)
qed

lemma with_sched [simp]:
  assumes "cur_vmm sc = cr3 s"
  shows "pml4e (s\<lparr>vm_sched := sc\<rparr>) v = pml4e s v" "pdpte (s\<lparr>vm_sched := sc\<rparr>) v = pdpte s v"
    "pde (s\<lparr>vm_sched := sc\<rparr>) v = pde s v" "pte (s\<lparr>vm_sched := sc\<rparr>) v = pte s v"
    "path_full (s\<lparr>vm_sched := sc\<rparr>) v = path_full s v"
  using assms by (simp_all add: path_full_def rec_ok_def pml4e_def pdpte_def pde_def pte_def)

lemma alert_loop_returns:
  "chain (dl_next (queue s)) (sched_next s t) xs \<Longrightarrow> length xs < fuel \<Longrightarrow>
   \<exists>s'. alert_loop fuel vmm s t = Some s' \<and> cur_vmm s' = cur_vmm s \<and> queue s' = queue s"
proof (induction xs arbitrary: s t fuel)
  case Nil
  then show ?case by (cases fuel) auto
next
  case (Cons x xs)
  obtain f where f: "fuel = Suc f" using Cons.prems(2) by (cases fuel) auto
  have x: "sched_next s t = x" "x \<noteq> 0" "chain (dl_next (queue s)) (dl_next (queue s) x) xs" using Cons.prems(1) by auto
  let ?s = "if vmm \<noteq> task_vmm (tasks s x) then task_put x (\<lambda>t. t\<lparr>old := True\<rparr>) s else s"
  have q: "queue ?s = queue s" "cur_vmm ?s = cur_vmm s" by simp_all
  have "chain (dl_next (queue ?s)) (sched_next ?s x) xs" using x by (simp add: sched_next_def)
  from Cons.IH [OF this, of f] show ?case using Cons.prems(2) f x q by (simp add: Let_def)
qed

lemma vmm_alert_returns:
  assumes "chain (dl_next (queue (vm_sched s))) (dl_head (queue (vm_sched s))) xs" "length xs < fuel"
  shows "\<exists>sc. vmm_alert_tasks fuel s = Some (s\<lparr>vm_sched := sc\<rparr>) \<and> cur_vmm sc = cr3 s"
  using alert_loop_returns [of "vm_sched s" 0 xs fuel "cr3 s"] assms
  by (auto simp: vmm_alert_tasks_def sched_next_def)

lemma flag_if:
  "bit (if c then x OR y else x :: u64) n \<longleftrightarrow> bit x n \<or> c \<and> bit y n"
  "bit (if c then x AND NOT y else x :: u64) n \<longleftrightarrow> bit x n \<and> \<not> (c \<and> bit y n)"
  by (auto simp: bit_simps dest: bit_imp_possible_bit)

lemma flag_consts:
  "bit (3 :: u64) n \<longleftrightarrow> n = 0 \<or> n = 1" "bit (2 :: u64) n \<longleftrightarrow> n = 1" "bit (4 :: u64) n \<longleftrightarrow> n = 2" "bit (16 :: u64) n \<longleftrightarrow> n = 4"
  "bit (512 :: u64) n \<longleftrightarrow> n = 9" "bit (0x8000000000000000 :: u64) n \<longleftrightarrow> n = 63"
proof -
  have e: "bit (2 ^ k :: u64) n \<longleftrightarrow> n = k" if "k < 64" for k using that by (auto simp: bit_exp_iff possible_bit_def)
  show "bit (2 :: u64) n \<longleftrightarrow> n = 1" "bit (4 :: u64) n \<longleftrightarrow> n = 2" "bit (16 :: u64) n \<longleftrightarrow> n = 4"
    "bit (512 :: u64) n \<longleftrightarrow> n = 9" "bit (0x8000000000000000 :: u64) n \<longleftrightarrow> n = 63"
    using e [of 1] e [of 2] e [of 4] e [of 9] e [of 63] by simp_all
  have "(3 :: u64) = mask 2" by (simp add: mask_eq_exp_minus_1)
  then have "bit (3 :: u64) n \<longleftrightarrow> n < 2" by (simp only: bit_mask_iff) (auto simp add: possible_bit_def)
  then show "bit (3 :: u64) n \<longleftrightarrow> n = 0 \<or> n = 1" by auto
qed

lemma attr_bits:
  "(attr AND 1 \<noteq> 0) = bit (attr :: u32) 0" "(attr AND 2 \<noteq> 0) = bit attr 1" "(attr AND 4 \<noteq> 0) = bit attr 2"
  "(attr AND 8 \<noteq> 0) = bit attr 3" "(attr AND 16 = 0) = (\<not> bit attr 4)" "(attr AND 32 = 0) = (\<not> bit attr 5)"
  using and_exp_eq_0_iff_not_bit [of attr 0] and_exp_eq_0_iff_not_bit [of attr 1] and_exp_eq_0_iff_not_bit [of attr 2]
    and_exp_eq_0_iff_not_bit [of attr 3] and_exp_eq_0_iff_not_bit [of attr 4] and_exp_eq_0_iff_not_bit [of attr 5]
  by simp_all

lemma attr_to_flags_bits:
  "bit (vmm_attr_to_flags attr True) n \<longleftrightarrow> n = 0 \<or> n = 1 \<or> n = 2 \<and> bit attr 3"
  "bit (vmm_attr_to_flags attr False) n \<longleftrightarrow>
     n = 0 \<or> n = 1 \<and> \<not> bit attr 2 \<or> n = 2 \<and> bit attr 3 \<or> n = 4 \<and> bit attr 1 \<or> n = 9 \<and> \<not> bit attr 4 \<or> n = 63 \<and> bit attr 0"
  unfolding vmm_attr_to_flags_def Let_def attr_bits
  by (simp_all only: if_True if_False flag_if flag_consts) auto

lemma table_flags: "vmm_attr_to_flags attr True = take_bit 7 (vmm_attr_to_flags attr True)"
  by (rule bit_eqI) (auto simp: bit_take_bit_iff attr_to_flags_bits)

text \<open>A page-aligned physical address below \<open>2\<^sup>47\<close>.\<close>

definition frame_ok :: "u64 \<Rightarrow> bool" where
  "frame_ok p \<longleftrightarrow> take_bit 12 p = 0 \<and> drop_bit 47 p = 0"

lemma frame_bits: "frame_ok p \<Longrightarrow> bit p n \<Longrightarrow> 12 \<le> n \<and> n < 47"
proof -
  assume p: "frame_ok p" and n: "bit p n"
  have "\<not> bit (take_bit 12 p) n" "\<not> bit (drop_bit 47 p) (n - 47)" using p unfolding frame_ok_def by simp_all
  then show ?thesis using n by (cases "n < 47") (auto simp: bit_take_bit_iff bit_drop_bit_eq not_less)
qed

lemma frame_entry:
  fixes attr :: u32
  assumes p: "frame_ok p"
  defines "e \<equiv> p OR vmm_attr_to_flags attr False"
  shows "tpage e = p" "leaf_ok e" "bit e 0" "\<not> bit e 7" "e \<noteq> 0"
proof -
  show "tpage e = p"
  proof (rule bit_eqI)
    fix n
    show "bit (tpage e) n = bit p n"
      using frame_bits [OF p, of n]
      by (auto simp: e_def bit_and_iff bit_or_iff attr_to_flags_bits page_mask bit_push_bit_iff bit_mask_iff possible_bit_def)
  qed
  show "bit e 0" "\<not> bit e 7" using frame_bits [OF p, of 7] by (auto simp: e_def bit_or_iff attr_to_flags_bits)
  then show "e \<noteq> 0" by auto
  have "\<not> bit e n" if "n = 10 \<or> n = 11 \<or> 47 \<le> n \<and> n < 63" for n
    using frame_bits [OF p, of n] that by (auto simp: e_def bit_or_iff attr_to_flags_bits)
  then have "\<not> bit (take_bit 2 (drop_bit 10 e)) n" "\<not> bit (take_bit 16 (drop_bit 47 e)) n" for n
    by (cases "n = 0 \<or> n = 1"; simp add: bit_take_bit_iff bit_drop_bit_eq; fail)+
  then have "take_bit 2 (drop_bit 10 e) = 0" "take_bit 16 (drop_bit 47 e) = 0" by (simp_all add: bit_eq_iff)
  then show "leaf_ok e" by (simp add: leaf_ok_def)
qed

lemma get_table_present:
  assumes "vload s ent = Some e" "e \<noteq> 0" "mmu_translate s ent = Some a"
    "chain (dl_next (queue (vm_sched s))) (dl_head (queue (vm_sched s))) xs" "length xs < fuel"
  shows "\<exists>sc. vmm_get_table fuel s ent tab flags alert = Some ((poke s a (e OR flags))\<lparr>vm_sched := sc\<rparr>) \<and>
    cur_vmm sc = cr3 s \<and> (\<not> alert \<longrightarrow> sc = vm_sched s)"
proof -
  have same: "mmu_translate (s\<lparr>vm_sched := sc\<rparr>) w = mmu_translate s w" if "cur_vmm sc = cr3 s" for sc w
    using that by (simp add: mmu_translate_def)
  show ?thesis
  proof (cases "alert \<and> vmm_entry_to_flags e \<noteq> flags")
    case True
    obtain sc where "vmm_alert_tasks fuel s = Some (s\<lparr>vm_sched := sc\<rparr>)" "cur_vmm sc = cr3 s"
      using vmm_alert_returns [OF assms(4,5)] by blast
    then show ?thesis using True assms(1-3) same
      by (intro exI [of _ sc]) (simp add: vmm_get_table_def vstore_def poke_def)
  next
    case False
    then show ?thesis using assms(1-3)
      by (intro exI [of _ "vm_sched s"]) (auto simp: vmm_get_table_def vstore_def poke_def)
  qed
qed

lemma vmm_map_page_present:
  assumes full: "path_full s v" and fr: "frame_ok paddr"
    and ch: "chain (dl_next (queue (vm_sched s))) (dl_head (queue (vm_sched s))) xs" "length xs < fuel"
  shows "\<exists>s'. vmm_map_page fuel s paddr v attr = Some s' \<and> path_full s' v \<and> vm_pmm s' = vm_pmm s \<and>
    pte s' v = paddr OR vmm_attr_to_flags attr False"
proof -
  let ?F = "vmm_attr_to_flags attr True"
  note F = table_flags [of attr]
  note d = full [unfolded path_full_def]
  have r: "rec_ok s" and n: "pml4e s v \<noteq> 0" "pdpte s v \<noteq> 0" "pde s v \<noteq> 0" using d by auto
  let ?a = "poke s (pte_ref (cr3 s) (vmm_pml4_index v)) (pml4e s v OR ?F)"
  obtain sc where 1: "vmm_get_table fuel s (vmm_pml4_entry v) (vmm_pdpt_vaddr v) ?F True = Some (?a\<lparr>vm_sched := sc\<rparr>)"
      "cur_vmm sc = cr3 s"
    using get_table_present [OF vload_entries(1) [OF r] n(1) translate_pml4_entry [OF r] ch] by blast
  let ?s1 = "?a\<lparr>vm_sched := sc\<rparr>"
  have p1: "path_full ?s1 v" "pdpte ?s1 v = pdpte s v" "pml4e ?s1 v = pml4e s v OR ?F" "pde ?s1 v = pde s v"
    using poke_pml4e [OF full F] 1(2) by auto
  note d1 = p1(1) [unfolded path_full_def]
  let ?s2 = "poke ?s1 (pte_ref (pml4e ?s1 v) (vmm_pdpt_index v)) (pdpte ?s1 v OR ?F)"
  have 2: "vmm_get_table fuel ?s1 (vmm_pdpt_entry v) (vmm_pd_vaddr v) ?F False = Some ?s2"
    using d1 n p1 by (simp add: vmm_get_table_def vload_entries vstore_def translate_pdpt_entry poke_def)
  have p2: "path_full ?s2 v" "pde ?s2 v = pde s v" "pdpte ?s2 v = pdpte ?s1 v OR ?F"
    using poke_pdpte [OF p1(1) F] p1(4) by auto
  note d2 = p2(1) [unfolded path_full_def]
  let ?s3 = "poke ?s2 (pte_ref (pdpte ?s2 v) (vmm_pd_index v)) (pde ?s2 v OR ?F)"
  have 3: "vmm_get_table fuel ?s2 (vmm_pd_entry v) (vmm_pt_vaddr v) ?F False = Some ?s3"
    using d2 n p2 by (simp add: vmm_get_table_def vload_entries vstore_def translate_pd_entry poke_def)
  have p3: "path_full ?s3 v" using poke_pde [OF p2(1) F] by auto
  note d3 = p3 [unfolded path_full_def]
  let ?s4 = "poke ?s3 (pte_ref (pde ?s3 v) (vmm_pt_index v)) (paddr OR vmm_attr_to_flags attr False)"
  have 4: "vstore ?s3 (vmm_pt_entry v) (paddr OR vmm_attr_to_flags attr False) = Some ?s4"
    using d3 by (simp add: vstore_def translate_pt_entry poke_def)
  have "vmm_map_page fuel s paddr v attr = Some ?s4"
    using 1(1) 2 3 4 by (simp only: vmm_map_page_def Let_def bind.bind_lunit)
  moreover have "path_full ?s4 v \<and> pte ?s4 v = paddr OR vmm_attr_to_flags attr False"
    using poke_pte [OF p3] by blast
  ultimately show ?thesis by (intro exI [of _ ?s4]) simp
qed

section \<open>The search for free addresses\<close>

definition va_page :: "u64 \<Rightarrow> nat \<Rightarrow> u64" where
  "va_page base n = base + PAGE_SIZE * of_nat n"

definition va_run :: "vm \<Rightarrow> u64 \<Rightarrow> u64 \<Rightarrow> u64 \<Rightarrow> nat \<Rightarrow> bool" where
  "va_run s base num align n \<longleftrightarrow> (align \<noteq> 0 \<longrightarrow> va_page base n mod align = 0) \<and>
     (\<forall>k < unat num. vmm_entry_from_vaddr s (va_page base (n + k)) = Some 0)"

lemma va_page_Suc: "va_page base n + PAGE_SIZE = va_page base (Suc n)"
  by (simp add: va_page_def algebra_simps)

lemma contiguous_first:
  assumes nofault: "\<And>p. vmm_entry_from_vaddr s p \<noteq> None"
    and run: "va_run s base num align m" and least: "\<And>m'. m' < m \<Longrightarrow> \<not> va_run s base num align m'" and num: "0 < num"
  shows "c \<le> n \<Longrightarrow> c \<le> unat num \<Longrightarrow> (0 < c \<Longrightarrow> start = va_page base (n - c)) \<Longrightarrow>
    (0 < c \<Longrightarrow> align \<noteq> 0 \<Longrightarrow> va_page base (n - c) mod align = 0) \<Longrightarrow>
    (\<And>k. k < c \<Longrightarrow> vmm_entry_from_vaddr s (va_page base (n - c + k)) = Some 0) \<Longrightarrow>
    n - c \<le> m \<Longrightarrow> m + unat num < n + fuel \<Longrightarrow>
    contiguous_loop fuel s num align (va_page base n) start (of_nat c) = Some (va_page base m)"
proof (induction fuel arbitrary: n c start)
  case 0
  then show ?case by linarith
next
  case (Suc fuel)
  have c64: "unat (of_nat c :: u64) = c"
    using Suc.prems(2) unat_lt64 [of num] by (intro unat_of_nat64) linarith
  have lt: "(of_nat c < num) = (c < unat num)" by (simp add: word_less_nat_alt c64)
  show ?case
  proof (cases "c < unat num")
    case False
    then have c: "c = unat num" "0 < c" using Suc.prems(2) num by (auto simp: word_less_nat_alt)
    then have "va_run s base num align (n - c)"
      using Suc.prems(4,5) unfolding va_run_def by (metis gr0I)
    then have "m = n - c" using least Suc.prems(6) le_neq_implies_less by blast
    then show ?thesis using c Suc.prems(3) lt False c64 by simp
  next
    case True
    obtain e where e: "vmm_entry_from_vaddr s (va_page base n) = Some e" using nofault [of "va_page base n"] by auto
    have c0: "(of_nat c = (0 :: u64)) = (c = 0)" using c64 by (metis unat_0 unat_eq_zero)
    have step: "contiguous_loop (Suc fuel) s num align (va_page base n) start (of_nat c) =
      (if c = 0 \<and> align \<noteq> 0 \<and> va_page base n mod align \<noteq> 0
       then contiguous_loop fuel s num align (va_page base (Suc n)) start (of_nat 0)
       else contiguous_loop fuel s num align (va_page base (Suc n)) (if c = 0 then va_page base n else start)
              (of_nat (if e = 0 then Suc c else 0)))"
      using True lt e c0 by (simp add: va_page_Suc Let_def add.commute)
    show ?thesis
    proof (cases "c = 0 \<and> align \<noteq> 0 \<and> va_page base n mod align \<noteq> 0")
      case skip: True
      then have "n \<noteq> m" using run unfolding va_run_def by metis
      then have "contiguous_loop fuel s num align (va_page base (Suc n)) start (of_nat 0) = Some (va_page base m)"
        using Suc.prems skip by (intro Suc.IH) auto
      then show ?thesis using skip step by simp
    next
      case go: False
      show ?thesis
      proof (cases "e = 0")
        case free: True
        have "contiguous_loop fuel s num align (va_page base (Suc n)) (if c = 0 then va_page base n else start) (of_nat (Suc c)) =
            Some (va_page base m)"
        proof (rule Suc.IH)
          show "va_page base (Suc n - Suc c) mod align = 0" if "align \<noteq> 0"
            using that go Suc.prems(4) by (cases "c = 0") (metis diff_Suc_Suc diff_zero, metis diff_Suc_Suc gr0I)
          show "vmm_entry_from_vaddr s (va_page base (Suc n - Suc c + k)) = Some 0" if "k < Suc c" for k
            using that Suc.prems(1,5) e free by (cases "k = c") auto
        qed (use Suc.prems True in \<open>auto split: if_splits\<close>)
        then show ?thesis using step go free by (simp only: if_True if_False simp_thms)
      next
        case used: False
        have "n < m"
        proof (rule ccontr)
          assume "\<not> n < m"
          then have "n - m < unat num" "m + (n - m) = n" using Suc.prems(1,6) True by linarith+
          then show False using run e used unfolding va_run_def by (metis option.inject)
        qed
        then have "contiguous_loop fuel s num align (va_page base (Suc n)) (if c = 0 then va_page base n else start) (of_nat 0) =
            Some (va_page base m)"
          using Suc.prems by (intro Suc.IH) auto
        then show ?thesis using step go used by (simp only: if_True if_False simp_thms)
      qed
    qed
  qed
qed

section \<open>Properties\<close>


text \<open>An address space with one mapped page: the tables are at \<^verbatim>\<open>0x1000\<close> to \<^verbatim>\<open>0x4000\<close>, and virtual
  page 5 is physical page 8.\<close>

definition vm_example :: vm where
  "vm_example = \<lparr>phys = (\<lambda>_. 0)(0x1000 := 0x2003, 0x1ff0 := 0x1003, 0x2000 := 0x3003, 0x3000 := 0x4003, 0x4028 := 0x8003),
     vm_sched = sched_one, vm_pmm = pmm_example, vm_start_addr = 0xffffffff80100000\<rparr>"

lemma vm_example_entries:
  "cr3 vm_example = 0x1000" "pml4e vm_example 0x5123 = 0x2003" "pdpte vm_example 0x5123 = 0x3003"
  "pde vm_example 0x5123 = 0x4003" "pte vm_example 0x5123 = 0x8003" "rec_ok vm_example"
  by code_simp+

lemma vm_example_path: "path_ok vm_example 0x5123" "path_full vm_example 0x5123"
  by (simp_all add: path_ok_def path_full_def vm_example_entries vmm_pml4_index_def)




text \<open>
  C7. \<^verbatim>\<open>__vmm_find_contiguous\<close> is a first fit: it returns the lowest suitably aligned address from which
  \<open>num\<close> pages are unmapped, and its open-ended loop ends as soon as such an address exists, after one
  round per page up to the end of the run.
\<close>

theorem vmm_find_contiguous_first_fit:
  fixes s :: vm and attr :: u32
  defines "base \<equiv> if attr AND VMM_ATTR_USER \<noteq> 0 then VMM_VMA_USER_START else VMM_VMA_KERNEL_START"
  assumes "\<And>p. vmm_entry_from_vaddr s p \<noteq> None" and "va_run s base num align m"
    and "\<And>m'. m' < m \<Longrightarrow> \<not> va_run s base num align m'" and "0 < num" and "m + unat num < fuel"
  shows "vmm_find_contiguous fuel s num align attr = Some (va_page base m)"
proof -
  have "contiguous_loop fuel s num align (va_page base 0) 0 (of_nat 0) = Some (va_page base m)"
    using assms by (intro contiguous_first) auto
  then show ?thesis by (simp add: vmm_find_contiguous_def base_def va_page_def)
qed

lemma path_ok_all:
  "rec_ok s \<Longrightarrow> (\<And>x. phys s x \<noteq> 0 \<Longrightarrow> bit (phys s x) 0 \<and> \<not> bit (phys s x) 7) \<Longrightarrow> path_ok s v"
  unfolding path_ok_def pml4e_def pdpte_def pde_def pte_def by blast

lemma vm_example_lookup: "vmm_entry_from_vaddr vm_example p \<noteq> None"
proof -
  have "path_ok vm_example p"
    by (rule path_ok_all [OF vm_example_entries(6)]) (auto simp: vm_example_def split: if_splits)
  then show ?thesis using vmm_entry_walk by simp
qed

theorem vmm_find_contiguous_first_fit_witness:
  "vmm_find_contiguous 2 vm_example 1 0 0 = Some VMM_VMA_KERNEL_START"
proof -
  have "pml4e vm_example VMM_VMA_KERNEL_START = 0" by code_simp
  then have "vmm_entry_from_vaddr vm_example VMM_VMA_KERNEL_START = Some 0"
    using vm_example_entries(6) by (simp add: vmm_entry_from_vaddr_def vload_entries)
  then show ?thesis
    using vmm_find_contiguous_first_fit [OF vm_example_lookup, of 0 1 0 0 2] by (simp add: va_run_def va_page_def)
qed

text \<open>
  \<^verbatim>\<open>vmm_map_exact\<close> of a single page that is already mapped to the wanted physical page fails with
  \<^verbatim>\<open>REUSE\<close>, the attribute of every memory region: the count is lowered to zero and the loop counter
  raised to one, and their comparison reports an error. So \<^verbatim>\<open>region_map\<close> cannot map a one-page region a
  second time. Without \<^verbatim>\<open>REUSE\<close> the call succeeds but returns the address of the page behind.
\<close>

theorem vmm_map_exact_mapped_page:
  assumes "vmm_vma_does_contain s v" and "vmm_entry_from_vaddr s v = Some a" and "a \<noteq> 0"
    and "vload s a = Some e" and "vmm_entry_to_addr e = p"
  shows "vmm_map_exact fuel s p v 1 attr = Some (if bit attr 5 then 0 else v + PAGE_SIZE, s)"
proof (cases "bit attr 5")
  case True
  then have "exact_loop s attr p v 1 0 v p = exact_loop s attr (p + PAGE_SIZE) (v + PAGE_SIZE) 0 1 (v + PAGE_SIZE) (p + PAGE_SIZE)"
    using assms by (subst exact_loop.simps) (simp add: attr_bits)
  also have "\<dots> = Some (p + PAGE_SIZE, v + PAGE_SIZE, 0, 1)" by (subst exact_loop.simps) simp
  finally show ?thesis using True by (simp add: vmm_map_exact_def)
next
  case False
  then have "exact_loop s attr p v 1 0 v p = Some (p + PAGE_SIZE, v + PAGE_SIZE, 0, 0)"
    using assms by (subst exact_loop.simps) (simp add: attr_bits)
  then show ?thesis using False by (simp add: vmm_map_exact_def vmm_map_to_paddr_internal_def)
qed

theorem vmm_map_exact_mapped_page_witness:
  "vmm_map_exact 2 vm_example 0x8000 0x5123 1 VMM_ATTR_REUSE = Some (0, vm_example)"
proof -
  have "vmm_vma_does_contain vm_example 0x5123" by (simp add: vmm_vma_does_contain_def)
  moreover have "vmm_entry_from_vaddr vm_example 0x5123 = Some (vmm_pt_entry 0x5123)"
    using vmm_entry_walk [OF vm_example_path(1)] by (simp add: vm_example_entries)
  moreover have "vload vm_example (vmm_pt_entry 0x5123) = Some 0x8003"
    by (simp add: vload_entries vm_example_entries)
  moreover have "vmm_entry_to_addr 0x8003 = 0x8000" by (simp add: vmm_entry_to_addr_def)
  ultimately show ?thesis
    using vmm_map_exact_mapped_page [of vm_example "0x5123" "vmm_pt_entry 0x5123" "0x8003" "0x8000" 2 VMM_ATTR_REUSE]
    by (simp add: entry_nonzero)
qed

text \<open>
  \<^verbatim>\<open>vmm_vma\<close> has its first comparison reversed: it reports the kernel area exactly for the
  addresses at or below the start of the kernel area, hence for every user address, and the user area
  for every kernel address above it.
\<close>

theorem vmm_vma_reversed:
  assumes "VMM_VMA_KERNEL_START < vm_start_addr s"
  shows "(vmm_vma s v = VMM_VMA_KERNEL) = (v \<le> VMM_VMA_KERNEL_START)"
  using assms by (auto simp: vmm_vma_def)

theorem vmm_vma_reversed_witness: "vmm_vma vm_example 0x5000 = VMM_VMA_KERNEL \<and> vmm_vma vm_example 0xffff900000000000 = VMM_VMA_USER"
  using vmm_vma_reversed [of vm_example "0x5000"] vmm_vma_reversed [of vm_example "0xffff900000000000"]
  by (simp add: vm_example_def vmm_vma_def)

text \<open>
  The entry flags that \<^verbatim>\<open>__vmm_attr_to_flags\<close> computes: every entry is present; a table entry is
  writable and user-accessible on request; a page is writable unless read-only, user-accessible,
  uncached and non-executable on request, and marked as owned by the page allocator unless the saved
  attribute is given. No other bit is set.
\<close>

theorem vmm_attr_to_flags_bits:
  "bit (vmm_attr_to_flags attr table) n \<longleftrightarrow>
     n = 0 \<or> n = 1 \<and> (table \<or> \<not> bit attr 2) \<or> n = 2 \<and> bit attr 3 \<or>
     \<not> table \<and> (n = 4 \<and> bit attr 1 \<or> n = 9 \<and> \<not> bit attr 4 \<or> n = 63 \<and> bit attr 0)"
  using attr_to_flags_bits [of attr n] by (cases table) auto

end
