(* ===== verification/Region.thy ===== *)
theory Region
  imports Vmm
begin

text \<open>
  Memory regions, \<^verbatim>\<open>kernel/mm/region.c\<close>, and the parts of the task structure built on them:
  \<^verbatim>\<open>kernel/sched/mem.c\<close> and \<^verbatim>\<open>kernel/sched/stack.c\<close>. The region structures are a function on
  addresses beside the \<open>vm\<close> state; the addresses \<^verbatim>\<open>heap_alloc\<close> returns are arguments, 0 for a failure,
  and \<^verbatim>\<open>heap_free\<close> has no effect on this state. \<open>None\<close> is a page fault, an index outside a table or a
  walk out of fuel.
\<close>

section \<open>State\<close>

record region =
  reg_type :: u8
  reg_vma :: u8
  reg_vaddr :: u64
  reg_paddr :: u64
  reg_num :: u64
  reg_next :: u64

record rst =
  rvm :: vm
  regions :: "u64 \<Rightarrow> region"

definition region_put :: "u64 \<Rightarrow> (region \<Rightarrow> region) \<Rightarrow> rst \<Rightarrow> rst" where
  "region_put a f s = s\<lparr>regions := (regions s)(a := f (regions s a))\<rparr>"

abbreviation (input) REGION_TYPE_CODE :: u8 where "REGION_TYPE_CODE \<equiv> 1"
abbreviation (input) REGION_TYPE_RDONLY :: u8 where "REGION_TYPE_RDONLY \<equiv> 2"
abbreviation (input) REGION_TYPE_DATA :: u8 where "REGION_TYPE_DATA \<equiv> 3"
abbreviation (input) REGION_TYPE_HEAP :: u8 where "REGION_TYPE_HEAP \<equiv> 4"
abbreviation (input) REGION_TYPE_STACK :: u8 where "REGION_TYPE_STACK \<equiv> 5"
abbreviation (input) CONFIG_TASK_STACK_PAGES :: u64 where "CONFIG_TASK_STACK_PAGES \<equiv> 4"

section \<open>Operations\<close>

definition region_type_data :: "(u8 \<times> string \<times> u32) list" where
  "region_type_data =
     [(REGION_TYPE_CODE, ''CODE'', 0), (REGION_TYPE_RDONLY, ''READ_ONLY'', VMM_ATTR_RDONLY),
      (REGION_TYPE_DATA, ''DATA'', VMM_ATTR_NO_EXEC), (REGION_TYPE_HEAP, ''HEAP'', VMM_ATTR_NO_EXEC),
      (REGION_TYPE_STACK, ''STACK'', VMM_ATTR_NO_EXEC)]"

text \<open>The table is indexed by the type minus one; a type outside it is an access out of bounds.\<close>

definition region_row :: "u8 \<Rightarrow> (u8 \<times> string \<times> u32) option" where
  "region_row t = (if 1 \<le> unat t \<and> unat t \<le> length region_type_data then Some (region_type_data ! (unat t - 1)) else None)"

definition region_attr :: "u8 \<Rightarrow> u32 option" where
  "region_attr t = map_option (\<lambda>(_, _, attr). attr OR VMM_ATTR_REUSE) (region_row t)"

definition region_name :: "rst \<Rightarrow> u64 \<Rightarrow> string option" where
  "region_name s mem = map_option (\<lambda>(_, name, _). name) (region_row (reg_type (regions s mem)))"

definition region_new :: "u64 \<Rightarrow> rst \<Rightarrow> u8 \<Rightarrow> u8 \<Rightarrow> u64 \<Rightarrow> u64 \<Rightarrow> u64 \<times> rst" where
  "region_new addr s ty vma vaddr num =
     (if addr = 0 then (0, s)
      else (addr, region_put addr (\<lambda>_. \<lparr>reg_type = ty, reg_vma = vma, reg_vaddr = vaddr, reg_paddr = 0,
        reg_num = num, reg_next = 0\<rparr>) s))"

definition region_free :: "rst \<Rightarrow> u64 \<Rightarrow> rst" where
  "region_free s mem =
     (if mem = 0 \<or> reg_paddr (regions s mem) = 0 then s
      else s\<lparr>rvm := (rvm s)\<lparr>vm_pmm := snd (pmm_free (vm_pmm (rvm s)) (reg_paddr (regions s mem)) (reg_num (regions s mem)))\<rparr>\<rparr>)"

fun region_del_loop :: "nat \<Rightarrow> rst \<Rightarrow> u64 \<Rightarrow> u64 \<Rightarrow> u64 \<Rightarrow> u64 \<Rightarrow> (u64 \<times> rst) option" where
  "region_del_loop 0 s head mem pre cur = None"
| "region_del_loop (Suc fuel) s head mem pre cur =
     (if cur = 0 then Some (head, s)
      else if cur \<noteq> mem then region_del_loop fuel s head mem cur (reg_next (regions s cur))
      else if pre = 0 then Some (reg_next (regions s cur), s)
      else Some (head, region_put pre (\<lambda>r. r\<lparr>reg_next := reg_next (regions s cur)\<rparr>) s))"

text \<open>\<^verbatim>\<open>region_del\<close>: the result code, the list head and the state.\<close>

definition region_del :: "nat \<Rightarrow> rst \<Rightarrow> u64 \<Rightarrow> u64 \<Rightarrow> (errcode \<times> u64 \<times> rst) option" where
  "region_del fuel s head mem =
     (if mem = 0 then Some (- EINVAL, head, s)
      else map_option (Pair 0) (region_del_loop fuel s head mem 0 head))"

fun region_end :: "nat \<Rightarrow> rst \<Rightarrow> u64 \<Rightarrow> u64 option" where
  "region_end 0 s cur = None"
| "region_end (Suc fuel) s cur = (if reg_next (regions s cur) \<noteq> 0 then region_end fuel s (reg_next (regions s cur)) else Some cur)"

definition region_add :: "nat \<Rightarrow> rst \<Rightarrow> u64 \<Rightarrow> u64 \<Rightarrow> (errcode \<times> u64 \<times> rst) option" where
  "region_add fuel s head new =
     (if new = 0 then Some (- EINVAL, head, s)
      else if head = 0 then Some (0, new, s)
      else map_option (\<lambda>cur. (0, head, region_put cur (\<lambda>r. r\<lparr>reg_next := new\<rparr>) s)) (region_end fuel s head))"

fun region_find :: "nat \<Rightarrow> rst \<Rightarrow> u64 \<Rightarrow> u8 \<Rightarrow> u8 \<Rightarrow> u64 option" where
  "region_find 0 s cur ty vma = None"
| "region_find (Suc fuel) s cur ty vma =
     (if cur = 0 then Some 0
      else if ty \<noteq> 0 \<and> ty \<noteq> reg_type (regions s cur) then region_find fuel s (reg_next (regions s cur)) ty vma
      else if reg_vma (regions s cur) = vma then Some cur
      else region_find fuel s (reg_next (regions s cur)) ty vma)"

text \<open>The attributes of \<^verbatim>\<open>region_map\<close>.\<close>

definition region_map_attr :: "region \<Rightarrow> u32 option" where
  "region_map_attr r =
     map_option (\<lambda>attr. attr OR VMM_ATTR_SAVE OR (if reg_vma r = VMM_VMA_USER then VMM_ATTR_USER else 0))
       (region_attr (reg_type r))"

definition region_map :: "nat \<Rightarrow> rst \<Rightarrow> u64 \<Rightarrow> (errcode \<times> rst) option" where
  "region_map fuel s mem =
     (if mem = 0 then Some (- EINVAL, s)
      else do {
        attr \<leftarrow> region_map_attr (regions s mem);
        let r = regions s mem;
        if reg_vaddr r = 0 then do {
          (v, vm) \<leftarrow> vmm_map fuel (rvm s) (reg_num r) 0 attr;
          p \<leftarrow> vmm_resolve vm v;
          Some (if v = 0 then - EFAULT else 0,
            region_put mem (\<lambda>r. r\<lparr>reg_vaddr := v, reg_paddr := p\<rparr>) (s\<lparr>rvm := vm\<rparr>)) }
        else if reg_paddr r = 0 then do {
          (v, vm) \<leftarrow> vmm_map_vaddr fuel (rvm s) (reg_vaddr r) (reg_num r) 0 attr;
          p \<leftarrow> vmm_resolve vm v;
          Some (if v = 0 then - EFAULT else 0, region_put mem (\<lambda>r. r\<lparr>reg_paddr := p\<rparr>) (s\<lparr>rvm := vm\<rparr>)) }
        else do {
          (v, vm) \<leftarrow> vmm_map_exact fuel (rvm s) (reg_paddr r) (reg_vaddr r) (reg_num r) attr;
          Some (if v = 0 then - EFAULT else 0, s\<lparr>rvm := vm\<rparr>) }})"

definition region_unmap :: "nat \<Rightarrow> rst \<Rightarrow> u64 \<Rightarrow> (errcode \<times> rst) option" where
  "region_unmap fuel s mem =
     (if mem = 0 then Some (- EINVAL, s)
      else map_option (\<lambda>(err, vm). (err, s\<lparr>rvm := vm\<rparr>))
        (vmm_unmap fuel (rvm s) (reg_vaddr (regions s mem)) (reg_num (regions s mem)) VMM_ATTR_SAVE))"

text \<open>\<^verbatim>\<open>region_copy\<close>: the new region or 0; the result of the closing \<^verbatim>\<open>vmm_unmap\<close> is ignored.\<close>

definition region_copy :: "nat \<Rightarrow> u64 \<Rightarrow> rst \<Rightarrow> u64 \<Rightarrow> (u64 \<times> rst) option" where
  "region_copy fuel addr s mem =
     (if mem = 0 then Some (0, s)
      else do {
        let r = regions s mem;
        (v, vm) \<leftarrow> vmm_map fuel (rvm s) (reg_num r) 0 0;
        if v = 0 then Some (0, s\<lparr>rvm := vm\<rparr>)
        else if addr = 0 then do {
          (_, vm') \<leftarrow> vmm_unmap fuel vm v (reg_num r) VMM_ATTR_SAVE;
          Some (0, s\<lparr>rvm := vm'\<rparr>) }
        else do {
          vm1 \<leftarrow> qcopy (unat (reg_num r * PAGE_SIZE) div 8) vm v (reg_vaddr r);
          p \<leftarrow> vmm_resolve vm1 v;
          (_, vm2) \<leftarrow> vmm_unmap fuel vm1 v (reg_num r) VMM_ATTR_SAVE;
          Some (addr, region_put addr (\<lambda>_. \<lparr>reg_type = reg_type r, reg_vma = reg_vma r, reg_vaddr = reg_vaddr r,
            reg_paddr = p, reg_num = reg_num r, reg_next = 0\<rparr>) (s\<lparr>rvm := vm2\<rparr>)) }})"

section \<open>Task memory\<close>

definition task_mem_del :: "nat \<Rightarrow> rst \<Rightarrow> task option \<Rightarrow> u64 \<Rightarrow> (errcode \<times> rst \<times> task option) option" where
  "task_mem_del fuel s task reg =
     (case task of
        None \<Rightarrow> Some (- EINVAL, s, None)
      | Some t \<Rightarrow>
          if reg = 0 then Some (- EINVAL, s, Some t)
          else do {
            (err, head, s1) \<leftarrow> region_del fuel s (task_mem t) reg;
            let t1 = t\<lparr>task_mem := head\<rparr>;
            if err \<noteq> 0 then Some (err, s1, Some t1)
            else do {
              (err, s2) \<leftarrow> region_unmap fuel s1 reg;
              if err \<noteq> 0 then Some (err, s2, Some t1) else Some (0, region_free s2 reg, Some t1) }})"

text \<open>\<^verbatim>\<open>task_stack_alloc\<close>, with the addresses of the two region structures.\<close>

definition task_stack_alloc :: "nat \<Rightarrow> u64 \<Rightarrow> u64 \<Rightarrow> rst \<Rightarrow> task \<Rightarrow> (errcode \<times> rst \<times> task) option" where
  "task_stack_alloc fuel ka ua s t = do {
     let (kernel_stack, s1) = region_new ka s REGION_TYPE_STACK VMM_VMA_KERNEL 0 CONFIG_TASK_STACK_PAGES;
     let (user_stack, s2) = region_new ua s1 REGION_TYPE_STACK VMM_VMA_USER 0 CONFIG_TASK_STACK_PAGES;
     (err, s3) \<leftarrow> region_map fuel s2 kernel_stack;
     if err \<noteq> 0 then Some (err, s3, t)
     else do {
       (err, s4) \<leftarrow> region_map fuel s3 user_stack;
       if err \<noteq> 0 then Some (err, s4, t)
       else do {
         (_, h1, s5) \<leftarrow> region_add fuel s4 (task_mem t) kernel_stack;
         (_, h2, s6) \<leftarrow> region_add fuel s5 h1 user_stack;
         Some (0, s6, t\<lparr>task_mem := h2\<rparr>) }}}"

text \<open>
  \<^verbatim>\<open>task_new\<close>, with the address \<open>a\<close> of its structure: a failed allocation is cleared all the same, which is a
  null-pointer access. The inner option is the returned task.
\<close>

definition task_new :: "nat \<Rightarrow> u64 \<Rightarrow> u64 \<Rightarrow> u64 \<Rightarrow> rst \<Rightarrow> (task option \<times> rst) option" where
  "task_new fuel a ka ua s =
     (if a = 0 then None
      else do {
        (err, s1, t) \<leftarrow> task_stack_alloc fuel ka ua s (task_zero\<lparr>task_vmm := vmm_get (rvm s)\<rparr>);
        Some (if err \<noteq> 0 then None else Some t, s1) })"

definition task_stack_get :: "nat \<Rightarrow> rst \<Rightarrow> task \<Rightarrow> u8 \<Rightarrow> u64 option" where
  "task_stack_get fuel s t vma =
     map_option (\<lambda>r. if r = 0 then 0 else reg_vaddr (regions s r) + reg_num (regions s r) * PAGE_SIZE)
       (region_find fuel s (task_mem t) REGION_TYPE_STACK vma)"

section \<open>The initial user stack\<close>

text \<open>Values are copied to the stack through virtual addresses, here a byte memory. Addresses wrap.\<close>

type_synonym vmem = "u64 \<Rightarrow> u8"

fun mem_write :: "vmem \<Rightarrow> u64 \<Rightarrow> u8 list \<Rightarrow> vmem" where
  "mem_write m a [] = m"
| "mem_write m a (b # bs) = mem_write (m(a := b)) (a + 1) bs"

definition mem_read :: "vmem \<Rightarrow> u64 \<Rightarrow> nat \<Rightarrow> u8 list" where
  "mem_read m a n = map (\<lambda>k. m (a + of_nat k)) [0..<n]"

definition ptr_bytes :: "u64 \<Rightarrow> u8 list" where
  "ptr_bytes p = map (\<lambda>k. ucast (drop_bit (8 * k) p)) [0..<8]"

text \<open>The alignment loop of \<^verbatim>\<open>task_stack_add\<close>.\<close>

lemma mod8_dec: "(x :: nat) mod 8 \<noteq> 0 \<Longrightarrow> (x - 1) mod 8 = x mod 8 - 1"
proof -
  assume r: "x mod 8 \<noteq> 0"
  have "x - 1 = 8 * (x div 8) + (x mod 8 - 1)" using r mult_div_mod_eq [of 8 x] by linarith
  moreover have "x mod 8 - 1 < 8" using mod_less_divisor [of 8 x] by linarith
  ultimately show ?thesis by (metis mod_mult_self4 mod_less)
qed

lemma mod8_pred: "(sp :: u64) mod 8 \<noteq> 0 \<Longrightarrow> unat (sp - 1) = unat sp - 1 \<and> unat sp mod 8 \<noteq> 0 \<and> 0 < unat sp"
proof -
  assume a: "sp mod 8 \<noteq> 0"
  then have u: "unat (sp mod 8) \<noteq> 0" by (simp add: unat_eq_zero)
  then have m: "unat sp mod 8 \<noteq> 0" by (simp add: unat_mod_distrib)
  then have "0 < unat sp" by (cases "unat sp = 0") auto
  moreover have "unat (sp - 1) = unat sp - 1" using a by (intro unat_minus_one) auto
  ultimately show ?thesis using m by simp
qed

function stack_align :: "u64 \<Rightarrow> u64 \<Rightarrow> u64 \<times> u64" where
  "stack_align sp sz = (if sp mod 8 \<noteq> 0 then stack_align (sp - 1) (sz + 1) else (sp, sz))"
  by pat_completeness auto
termination
proof (relation "measure (\<lambda>(sp, sz). unat sp mod 8)")
  fix sp sz :: u64
  assume "sp mod 8 \<noteq> 0"
  then have "unat (sp - 1) = unat sp - 1" "unat sp mod 8 \<noteq> 0" using mod8_pred by auto
  then show "((sp - 1, sz + 1), (sp, sz)) \<in> measure (\<lambda>(sp, sz). unat sp mod 8)" using mod8_dec [of "unat sp"] by simp
qed simp

declare stack_align.simps [simp del]

text \<open>\<^verbatim>\<open>task_stack_add\<close>: the bytes are written below the stack pointer, which is then aligned down.\<close>

definition task_stack_add :: "vmem \<Rightarrow> task \<Rightarrow> u8 list \<Rightarrow> u64 \<times> vmem \<times> task" where
  "task_stack_add m t val =
     (let sp = rsp (regs t) - of_nat (length val);
          m' = mem_write m sp val;
          (sp', sz) = stack_align sp (of_nat (length val))
      in (sz, m', t\<lparr>regs := (regs t)\<lparr>rsp := sp'\<rparr>\<rparr>))"

definition rsp_sub8 :: "task \<Rightarrow> task" where
  "rsp_sub8 t = t\<lparr>regs := (regs t)\<lparr>rsp := rsp (regs t) - 8\<rparr>\<rparr>"

text \<open>The two loops of \<^verbatim>\<open>task_stack_add_list\<close> over the strings, each given without its terminating
  zero. The first makes room for the pointers; \<open>Inl\<close> carries the task of an early return.\<close>

fun stack_room_loop :: "u64 \<Rightarrow> u64 \<Rightarrow> task \<Rightarrow> u8 list list \<Rightarrow> task + task" where
  "stack_room_loop limit i t [] = Inr t"
| "stack_room_loop limit i t (x # xs) =
     (if i > limit then Inl t else stack_room_loop limit (i + 1) (rsp_sub8 t) xs)"

fun stack_copy_loop :: "u64 \<Rightarrow> u64 \<Rightarrow> u64 \<Rightarrow> vmem \<Rightarrow> task \<Rightarrow> u8 list list \<Rightarrow> errcode \<times> vmem \<times> task" where
  "stack_copy_loop limit tot cur m t [] = (0, mem_write m cur (ptr_bytes 0), t)"
| "stack_copy_loop limit tot cur m t (x # xs) =
     (let len = of_nat (length x) + 1; tot = tot + len in
      if tot > limit then (- E2BIG, m, t)
      else case task_stack_add m t (x @ [0]) of
        (_, m1, t1) \<Rightarrow> stack_copy_loop limit tot (cur + 8) (mem_write m1 cur (ptr_bytes (rsp (regs t1)))) t1 xs)"

text \<open>\<^verbatim>\<open>task_stack_add_list\<close>: the code, the pointer stored through \<open>stack\<close> (if it was), the memory and
  the task. A \<^verbatim>\<open>NULL\<close> list is the empty one.\<close>

definition task_stack_add_list :: "vmem \<Rightarrow> task \<Rightarrow> u8 list list \<Rightarrow> u64 \<Rightarrow> errcode \<times> u64 option \<times> vmem \<times> task" where
  "task_stack_add_list m t xs limit =
     (case stack_room_loop limit 0 t xs of
        Inl t1 \<Rightarrow> (- E2BIG, None, m, t1)
      | Inr t1 \<Rightarrow>
          let t2 = rsp_sub8 t1; stack = rsp (regs t2) in
          case stack_copy_loop limit 0 stack m t2 xs of (err, m', t3) \<Rightarrow> (err, Some stack, m', t3))"

section \<open>Strings on the stack\<close>

lemma mem_write_at:
  "unat a + length bs < 2 ^ 64 \<Longrightarrow>
   mem_write m a bs x = (if unat a \<le> unat x \<and> unat x < unat a + length bs then bs ! (unat x - unat a) else m x)"
proof (induction bs arbitrary: a m)
  case (Cons b bs)
  have a1: "unat (a + 1) = Suc (unat a)" using Cons.prems by (simp add: unat_plus64)
  have ih: "mem_write (m(a := b)) (a + 1) bs x =
      (if unat (a + 1) \<le> unat x \<and> unat x < unat (a + 1) + length bs then bs ! (unat x - unat (a + 1)) else (m(a := b)) x)"
    using Cons.prems a1 by (intro Cons.IH) simp
  show ?case
  proof (cases "x = a")
    case True
    then show ?thesis using ih a1 by simp
  next
    case False
    then have "unat x \<noteq> unat a" by (simp add: word_unat_eq_iff)
    then show ?thesis using ih a1 False nth_Cons_pos [of "unat x - unat a" b bs] by auto
  qed
qed auto

lemma mem_read_write:
  assumes "unat a + length bs < 2 ^ 64"
  shows "mem_read (mem_write m a bs) a (length bs) = bs"
proof (rule nth_equalityI)
  fix i assume "i < length (mem_read (mem_write m a bs) a (length bs))"
  then have i: "i < length bs" by (simp add: mem_read_def)
  then have "unat (a + of_nat i) = unat a + i" using assms by (simp add: unat_plus64)
  then show "mem_read (mem_write m a bs) a (length bs) ! i = bs ! i"
    using i assms by (simp add: mem_read_def mem_write_at)
qed (simp add: mem_read_def)

lemma mem_read_cong:
  "unat a + n < 2 ^ 64 \<Longrightarrow> (\<And>x. unat a \<le> unat x \<Longrightarrow> unat x < unat a + n \<Longrightarrow> m' x = m x) \<Longrightarrow> mem_read m' a n = mem_read m a n"
  by (auto simp: mem_read_def unat_plus64)

lemma stack_align_eq: "stack_align sp sz = (sp - sp mod 8, sz + sp mod 8)"
proof (induction sp sz rule: stack_align.induct)
  case (1 sp sz)
  show ?case
  proof (cases "sp mod 8 = 0")
    case True
    then show ?thesis by (subst stack_align.simps) simp
  next
    case False
    note p = mod8_pred [OF False]
    have "unat ((sp - 1) mod 8) = unat (sp mod 8 - 1)"
      using p mod8_dec [of "unat sp"] unat_minus_one [OF False] by (simp add: unat_mod_distrib)
    then have "(sp - 1) mod 8 = sp mod 8 - 1" by (rule word_eq_unatI)
    then show ?thesis using 1 False by (subst stack_align.simps) simp
  qed
qed

lemma pad_mod8:
  assumes "u mod 8 = (0 :: nat)" "l + 8 \<le> u"
  shows "(u - Suc l) mod 8 = 7 - l mod 8" "(u - Suc l - (7 - l mod 8)) mod 8 = 0"
proof -
  have gen: "u = 8 * q + 8 + 8 * k \<Longrightarrow> l = 8 * q + r \<Longrightarrow> r < 8 \<Longrightarrow> u - Suc l = 8 * k + (7 - r)" for u l q k r :: nat
    by linarith
  have "l div 8 + 1 \<le> u div 8" using div_le_mono [OF assms(2), of 8] by simp
  then obtain k where "u div 8 = l div 8 + 1 + k" by (metis le_Suc_ex)
  then have "u = 8 * (l div 8) + 8 + 8 * k" using assms(1) mult_div_mod_eq [of 8 u] by simp
  then have k: "u - Suc l = 8 * k + (7 - l mod 8)" by (rule gen) simp_all
  have "7 - l mod 8 < 8" by simp
  then show "(u - Suc l) mod 8 = 7 - l mod 8" unfolding k by (metis mod_mult_self4 mod_less)
  show "(u - Suc l - (7 - l mod 8)) mod 8 = 0" unfolding k by simp
qed

text \<open>A task whose stack pointer went down by at most \<open>n\<close>, to an aligned address, and which is otherwise the same.\<close>

definition stack_grown :: "nat \<Rightarrow> task \<Rightarrow> task \<Rightarrow> bool" where
  "stack_grown n t t' \<longleftrightarrow> (\<exists>sp. t' = t\<lparr>regs := (regs t)\<lparr>rsp := sp\<rparr>\<rparr> \<and> unat sp mod 8 = 0 \<and> unat sp \<le> unat (rsp (regs t)) \<and>
     unat (rsp (regs t)) \<le> unat sp + n)"

lemma stack_grown_trans: "stack_grown a t t1 \<Longrightarrow> stack_grown b t1 t2 \<Longrightarrow> stack_grown (a + b) t t2"
  by (auto simp: stack_grown_def)

lemma stack_grown_le: "stack_grown a t t1 \<Longrightarrow> unat (rsp (regs t1)) \<le> unat (rsp (regs t))"
  by (auto simp: stack_grown_def)

text \<open>One string: it starts \<open>7 - length x mod 8\<close> bytes above the new, aligned stack pointer.\<close>

lemma task_stack_add_string:
  assumes sp: "unat (rsp (regs t)) mod 8 = 0" and room: "length x + 8 \<le> unat (rsp (regs t))"
  shows "\<exists>sz m1 t1. task_stack_add m t (x @ [0]) = (sz, m1, t1) \<and>
    unat (rsp (regs t1)) = unat (rsp (regs t)) - (length x + 1) - (7 - length x mod 8) \<and>
    unat (rsp (regs t1)) mod 8 = 0 \<and> stack_grown (length x + 8) t t1 \<and>
    mem_read m1 (rsp (regs t1) + of_nat (7 - length x mod 8)) (length x + 1) = x @ [0] \<and>
    (\<forall>y. unat (rsp (regs t)) \<le> unat y \<longrightarrow> m1 y = m y)"
proof -
  let ?sp = "rsp (regs t)" and ?L = "length x + 1"
  let ?a = "?sp - of_nat ?L"
  have L: "unat (of_nat ?L :: u64) = ?L" using room unat_lt64 [of ?sp] by (intro unat_of_nat64) linarith
  have a: "unat ?a = unat ?sp - ?L" using L room by (subst unat_sub) (auto simp: word_le_nat_alt)
  have am: "unat (?a mod 8) = 7 - length x mod 8" using pad_mod8 [OF sp room] a by (simp add: unat_mod_distrib)
  define b where "b = ?a - ?a mod 8"
  have b: "unat b = unat ?sp - ?L - (7 - length x mod 8)"
    unfolding b_def using am a by (subst unat_sub) (auto simp: word_le_nat_alt unat_mod_distrib)
  have eq: "b + of_nat (7 - length x mod 8) = ?a" by (simp add: b_def flip: am)
  have bound: "unat ?a + length (x @ [0 :: u8]) < 2 ^ 64"
    using a room unat_lt64 [of ?sp] by simp
  have rd: "mem_read (mem_write m ?a (x @ [0])) (b + of_nat (7 - length x mod 8)) ?L = x @ [0]"
    unfolding eq using mem_read_write [OF bound, of m] by (simp only: length_append_singleton Suc_eq_plus1)
  have fr: "\<forall>y. unat ?sp \<le> unat y \<longrightarrow> mem_write m ?a (x @ [0]) y = m y"
    using mem_write_at [OF bound, of m] a room by auto
  have "unat b mod 8 = 0" using b pad_mod8 [OF sp room] by simp
  moreover have "stack_grown (length x + 8) t (t\<lparr>regs := (regs t)\<lparr>rsp := b\<rparr>\<rparr>)"
    using b calculation room by (auto simp: stack_grown_def)
  moreover have "task_stack_add m t (x @ [0]) =
      (of_nat ?L + ?a mod 8, mem_write m ?a (x @ [0]), t\<lparr>regs := (regs t)\<lparr>rsp := b\<rparr>\<rparr>)"
    by (simp add: task_stack_add_def Let_def stack_align_eq b_def)
  ultimately show ?thesis using rd fr b by simp
qed

definition str_room :: "u8 list list \<Rightarrow> nat" where
  "str_room xs = sum_list (map (\<lambda>x. length x + 8) xs)"

definition str_total :: "u8 list list \<Rightarrow> nat" where
  "str_total xs = sum_list (map (\<lambda>x. length x + 1) xs)"

lemma str_sums [simp]:
  "str_room [] = 0" "str_room (x # xs) = length x + 8 + str_room xs"
  "str_total [] = 0" "str_total (x # xs) = length x + 1 + str_total xs"
  by (simp_all add: str_room_def str_total_def)

text \<open>The strings lie between the two stack pointers.\<close>

definition str_between :: "task \<Rightarrow> task \<Rightarrow> u8 list list \<Rightarrow> u64 list \<Rightarrow> bool" where
  "str_between t t' xs ps \<longleftrightarrow> (\<forall>i < length xs. unat (rsp (regs t')) \<le> unat (ps ! i) \<and>
     unat (ps ! i) + (7 - length (xs ! i) mod 8) + (length (xs ! i) + 1) \<le> unat (rsp (regs t)))"

lemma ptr_bytes_length [simp]: "length (ptr_bytes p) = 8"
  by (simp add: ptr_bytes_def)

lemma stack_copy_loop_layout:
  "unat (rsp (regs t)) mod 8 = 0 \<Longrightarrow> str_room xs \<le> unat (rsp (regs t)) \<Longrightarrow> unat (rsp (regs t)) \<le> unat cur \<Longrightarrow>
   unat cur + 8 * Suc (length xs) < 2 ^ 64 \<Longrightarrow> unat tot + str_total xs \<le> unat limit \<Longrightarrow>
   \<exists>m' t' ps. stack_copy_loop limit tot cur m t xs = (0, m', t') \<and> length ps = length xs \<and>
     stack_grown (str_room xs) t t' \<and> str_between t t' xs ps \<and>
     (\<forall>i < length xs. mem_read m' (cur + 8 * of_nat i) 8 = ptr_bytes (ps ! i) \<and>
        mem_read m' (ps ! i + of_nat (7 - length (xs ! i) mod 8)) (length (xs ! i) + 1) = xs ! i @ [0]) \<and>
     mem_read m' (cur + 8 * of_nat (length xs)) 8 = ptr_bytes 0 \<and>
     (\<forall>y. unat (rsp (regs t)) \<le> unat y \<and> (unat y < unat cur \<or> unat cur + 8 * Suc (length xs) \<le> unat y) \<longrightarrow> m' y = m y)"
proof (induction xs arbitrary: t cur tot m)
  case Nil
  have "mem_read (mem_write m cur (ptr_bytes 0)) cur (length (ptr_bytes 0)) = ptr_bytes 0"
    using Nil.prems by (intro mem_read_write) simp
  moreover have "stack_grown 0 t t" unfolding stack_grown_def using Nil.prems(1) by (intro exI [of _ "rsp (regs t)"]) simp
  ultimately show ?case using Nil.prems by (auto simp: mem_write_at str_between_def)
next
  case (Cons x xs)
  let ?sp = "rsp (regs t)"
  have room: "length x + 8 \<le> unat ?sp" using Cons.prems(2) by simp
  obtain sz m1 t1 where a: "task_stack_add m t (x @ [0]) = (sz, m1, t1)"
    "unat (rsp (regs t1)) = unat ?sp - (length x + 1) - (7 - length x mod 8)" "unat (rsp (regs t1)) mod 8 = 0"
    "stack_grown (length x + 8) t t1"
    "mem_read m1 (rsp (regs t1) + of_nat (7 - length x mod 8)) (length x + 1) = x @ [0]"
    "\<forall>y. unat ?sp \<le> unat y \<longrightarrow> m1 y = m y"
    using task_stack_add_string [OF Cons.prems(1) room, of m] by (elim exE conjE) (rule that)
  let ?p = "rsp (regs t1)" and ?m2 = "mem_write m1 cur (ptr_bytes (rsp (regs t1)))" and ?len = "of_nat (length x) + 1 :: u64"
  have len: "unat ?len = length x + 1"
    using unat_of_nat64 [of "Suc (length x)"] room unat_lt64 [of ?sp] by (simp add: add.commute)
  have tot: "unat (tot + ?len) = unat tot + (length x + 1)"
    using len Cons.prems(5) unat_lt64 [of limit] by (subst unat_plus64) simp_all
  have c8: "unat (cur + 8) = unat cur + 8" using Cons.prems(4) by (subst unat_plus64) simp_all
  have lim: "\<not> tot + ?len > limit" using tot Cons.prems(5) by (simp add: word_less_nat_alt not_less)
  have "\<exists>m' t' ps. stack_copy_loop limit (tot + ?len) (cur + 8) ?m2 t1 xs = (0, m', t') \<and> length ps = length xs \<and>
     stack_grown (str_room xs) t1 t' \<and> str_between t1 t' xs ps \<and>
     (\<forall>i < length xs. mem_read m' (cur + 8 + 8 * of_nat i) 8 = ptr_bytes (ps ! i) \<and>
        mem_read m' (ps ! i + of_nat (7 - length (xs ! i) mod 8)) (length (xs ! i) + 1) = xs ! i @ [0]) \<and>
     mem_read m' (cur + 8 + 8 * of_nat (length xs)) 8 = ptr_bytes 0 \<and>
     (\<forall>y. unat ?p \<le> unat y \<and> (unat y < unat (cur + 8) \<or> unat (cur + 8) + 8 * Suc (length xs) \<le> unat y) \<longrightarrow> m' y = ?m2 y)"
    using Cons.prems a(2,3) c8 tot by (intro Cons.IH) auto
  then obtain m' t' ps where ih: "stack_copy_loop limit (tot + ?len) (cur + 8) ?m2 t1 xs = (0, m', t')" "length ps = length xs"
     "stack_grown (str_room xs) t1 t'" "str_between t1 t' xs ps"
     "\<forall>i < length xs. mem_read m' (cur + 8 + 8 * of_nat i) 8 = ptr_bytes (ps ! i) \<and>
        mem_read m' (ps ! i + of_nat (7 - length (xs ! i) mod 8)) (length (xs ! i) + 1) = xs ! i @ [0]"
     "mem_read m' (cur + 8 + 8 * of_nat (length xs)) 8 = ptr_bytes 0"
     "\<forall>y. unat ?p \<le> unat y \<and> (unat y < unat (cur + 8) \<or> unat (cur + 8) + 8 * Suc (length xs) \<le> unat y) \<longrightarrow> m' y = ?m2 y"
    by blast
  have run: "stack_copy_loop limit tot cur m t (x # xs) = (0, m', t')"
    using a(1) ih(1) lim by (simp add: Let_def)
  have w: "?m2 y = (if unat cur \<le> unat y \<and> unat y < unat cur + 8 then ptr_bytes ?p ! (unat y - unat cur) else m1 y)" for y
    using mem_write_at [of cur "ptr_bytes ?p" m1 y] Cons.prems(4) by simp
  have psp: "unat ?p \<le> unat ?sp" using a(2) by simp
  have frame: "m' y = m y" if "unat ?sp \<le> unat y" "unat y < unat cur \<or> unat cur + 8 * Suc (length (x # xs)) \<le> unat y" for y
    using that ih(7) w a(6) psp c8 by auto
  have ptr: "mem_read m' cur 8 = ptr_bytes ?p"
  proof -
    have "mem_read m' cur 8 = mem_read ?m2 cur 8"
      using ih(7) c8 psp Cons.prems(3,4) by (intro mem_read_cong) auto
    also have "\<dots> = ptr_bytes ?p" using mem_read_write [of cur "ptr_bytes ?p" m1] Cons.prems(4) by simp
    finally show ?thesis .
  qed
  let ?d = "7 - length x mod 8"
  have pd: "unat (?p + of_nat ?d) = unat ?sp - (length x + 1)"
  proof -
    have "unat ?p + ?d = unat ?sp - (length x + 1)" using a(2) room by linarith
    then show ?thesis using unat_plus64 [of ?p "of_nat ?d"] unat_of_nat64 [of ?d] unat_lt64 [of ?sp] by simp
  qed
  have str: "mem_read m' (?p + of_nat ?d) (length x + 1) = x @ [0]"
  proof -
    have "mem_read m' (?p + of_nat ?d) (length x + 1) = mem_read m1 (?p + of_nat ?d) (length x + 1)"
    proof (rule mem_read_cong)
      show "unat (?p + of_nat ?d) + (length x + 1) < 2 ^ 64" using pd room unat_lt64 [of ?sp] by simp
      fix y :: u64 assume y: "unat (?p + of_nat ?d) \<le> unat y" "unat y < unat (?p + of_nat ?d) + (length x + 1)"
      then have "unat ?p \<le> unat y" "unat y < unat cur" using pd a(2) room Cons.prems(3) by linarith+
      then show "m' y = m1 y" using ih(7) w c8 by auto
    qed
    then show ?thesis using a(5) by simp
  qed
  have step8: "cur + 8 * of_nat (Suc j) = cur + 8 + 8 * of_nat j" for j by (simp add: algebra_simps)
  have nth: "mem_read m' (cur + 8 * of_nat i) 8 = ptr_bytes ((?p # ps) ! i) \<and>
      mem_read m' ((?p # ps) ! i + of_nat (7 - length ((x # xs) ! i) mod 8)) (length ((x # xs) ! i) + 1) = (x # xs) ! i @ [0]"
    if "i < length (x # xs)" for i
  proof (cases i)
    case 0
    then show ?thesis using ptr str by simp
  next
    case (Suc j)
    then have "j < length xs" using that by simp
    then show ?thesis using ih(5) unfolding Suc nth_Cons_Suc step8 by blast
  qed
  have last: "mem_read m' (cur + 8 * of_nat (length (x # xs))) 8 = ptr_bytes 0"
    using ih(6) unfolding list.size(4) add_Suc_right add_0_right step8 .
  have "length (?p # ps) = length (x # xs)" using ih(2) by simp
  moreover have "stack_grown (str_room (x # xs)) t t'" using stack_grown_trans [OF a(4) ih(3)] by simp
  moreover have "str_between t t' (x # xs) (?p # ps)"
    using ih(4) stack_grown_le [OF ih(3)] stack_grown_le [OF a(4)] a(2) room
    by (auto simp: str_between_def nth_Cons split: nat.splits intro: le_trans)
  ultimately show ?case using run nth last frame
    by (intro exI [of _ m'] exI [of _ t'] exI [of _ "?p # ps"] conjI allI impI) (assumption | blast)+
qed

lemma stack_room_loop_ok:
  "unat i + length xs \<le> unat limit \<Longrightarrow> \<exists>t'. stack_room_loop limit i t xs = Inr t' \<and>
     rsp (regs t') = rsp (regs t) - 8 * of_nat (length xs)"
proof (induction xs arbitrary: i t)
  case (Cons x xs)
  have i: "\<not> i > limit" "unat (i + 1) = unat i + 1"
    using Cons.prems unat_lt64 [of limit] by (simp_all add: word_less_nat_alt unat_plus64)
  then obtain t' where "stack_room_loop limit (i + 1) (rsp_sub8 t) xs = Inr t'"
      "rsp (regs t') = rsp (regs (rsp_sub8 t)) - 8 * of_nat (length xs)"
    using Cons.IH [of "i + 1" "rsp_sub8 t"] Cons.prems by auto
  then show ?case using i by (auto simp: rsp_sub8_def algebra_simps)
qed auto

lemma str_total_length: "length xs \<le> str_total xs"
  by (induction xs) auto

section \<open>Properties\<close>



lemma region_flags:
  assumes "region_map_attr r = Some attr"
  shows "bit (vmm_attr_to_flags attr False) 63 = (reg_type r \<in> {REGION_TYPE_DATA, REGION_TYPE_HEAP, REGION_TYPE_STACK}) \<and>
    bit (vmm_attr_to_flags attr False) 1 = (reg_type r \<noteq> REGION_TYPE_RDONLY) \<and>
    bit (vmm_attr_to_flags attr False) 2 = (reg_vma r = VMM_VMA_USER) \<and> \<not> bit (vmm_attr_to_flags attr False) 9"
proof -
  have "1 \<le> unat (reg_type r)" "unat (reg_type r) \<le> 5"
    using assms by (auto simp: region_map_attr_def region_attr_def region_row_def region_type_data_def split: if_splits)
  then have "unat (reg_type r) \<in> {1, 2, 3, 4, 5}" by auto
  then have "reg_type r \<in> {1, 2, 3, 4, 5}" by (auto simp: word_unat_eq_iff)
  then show ?thesis
    using assms unfolding attr_to_flags_bits
    by (cases "reg_vma r = 2") (auto simp: region_map_attr_def region_attr_def region_row_def region_type_data_def)
qed

text \<open>
  The page flags of a mapped region: data, heap and stack are never executable, only the
  read-only type is write-protected, the page is accessible to the user exactly in the user area, and
  no region page is given back to the page allocator by an unmap. A code region is both writable and
  executable, and read-only data is executable.
\<close>

theorem region_page_flags:
  assumes "region_map_attr r = Some attr"
  shows "bit (vmm_attr_to_flags attr False) 63 = (reg_type r \<in> {REGION_TYPE_DATA, REGION_TYPE_HEAP, REGION_TYPE_STACK}) \<and>
    bit (vmm_attr_to_flags attr False) 1 = (reg_type r \<noteq> REGION_TYPE_RDONLY) \<and>
    bit (vmm_attr_to_flags attr False) 2 = (reg_vma r = VMM_VMA_USER) \<and> \<not> bit (vmm_attr_to_flags attr False) 9"
  using assms by (rule region_flags)

theorem region_page_flags_witness:
  "\<exists>attr. region_map_attr \<lparr>reg_type = 5, reg_vma = 2, reg_vaddr = 0, reg_paddr = 0, reg_num = 4, reg_next = 0\<rparr> = Some attr \<and>
     bit (vmm_attr_to_flags attr False) 63"
  using region_page_flags [of "\<lparr>reg_type = 5, reg_vma = 2, reg_vaddr = 0, reg_paddr = 0, reg_num = 4, reg_next = 0\<rparr>"]
  by (simp add: region_map_attr_def region_attr_def region_row_def region_type_data_def)

definition rnext :: "rst \<Rightarrow> u64 \<Rightarrow> u64" where
  "rnext s = (\<lambda>a. reg_next (regions s a))"

lemma rnext_put: "rnext (region_put a (\<lambda>r. r\<lparr>reg_next := v\<rparr>) s) = (rnext s)(a := v)"
  by (auto simp: rnext_def region_put_def)

lemma region_end_slist: "region_end fuel s cur = slist_end fuel (rnext s) cur"
  by (induction fuel arbitrary: cur) (auto simp: rnext_def)

lemma region_del_loop_chain:
  "chain (rnext s) cur (us @ mem # vs) \<Longrightarrow> length us < fuel \<Longrightarrow>
   region_del_loop fuel s head mem pre cur =
     Some (if us = [] then (if pre = 0 then (rnext s mem, s) else (head, region_put pre (\<lambda>r. r\<lparr>reg_next := rnext s mem\<rparr>) s))
           else (head, region_put (last us) (\<lambda>r. r\<lparr>reg_next := rnext s mem\<rparr>) s))"
proof (induction us arbitrary: cur pre fuel)
  case Nil
  then show ?case by (cases fuel) (auto simp: rnext_def)
next
  case (Cons u us)
  obtain f where f: "fuel = Suc f" using Cons.prems(2) by (cases fuel) auto
  have "distinct (u # us @ mem # vs)" using chain_distinct [OF Cons.prems(1)] by simp
  then show ?case using Cons f by (auto simp: rnext_def)
qed

text \<open>
  The region list functions are the list macros written out: \<^verbatim>\<open>region_add\<close> changes the links of a
  list as \<^verbatim>\<open>slist_add_end\<close> does, and \<^verbatim>\<open>region_del\<close> of a member as \<^verbatim>\<open>slist_del\<close>.
\<close>

theorem region_list_as_slist:
  assumes "chain (rnext s) head xs" and "length xs < fuel" and "new \<noteq> 0" and "mem \<in> set xs"
  shows "map_option (\<lambda>(err, h, s'). (h, rnext s')) (region_add fuel s head new) = slist_add_end fuel (rnext s) head new \<and>
    map_option (\<lambda>(err, h, s'). (h, rnext s')) (region_del fuel s head mem) = slist_del fuel (rnext s) head mem"
proof (rule conjI)
  show "map_option (\<lambda>(err, h, s'). (h, rnext s')) (region_add fuel s head new) = slist_add_end fuel (rnext s) head new"
    using assms(3) by (auto simp: region_add_def slist_add_end_def region_end_slist rnext_put split: option.splits)
  obtain us vs where xs: "xs = us @ mem # vs" using assms(4) by (meson split_list)
  then have m0: "mem \<noteq> 0" using chain_nonzero [OF assms(1)] by auto
  show "map_option (\<lambda>(err, h, s'). (h, rnext s')) (region_del fuel s head mem) = slist_del fuel (rnext s) head mem"
  proof (cases us rule: rev_cases)
    case Nil
    then have "head = mem" using assms(1) xs by simp
    then show ?thesis using region_del_loop_chain [of s head us mem vs fuel head 0] assms xs m0 Nil
      by (simp add: region_del_def slist_del_def)
  next
    case (snoc ys c)
    have "head \<noteq> mem" "head \<noteq> 0" using assms(1) xs snoc chain_distinct [OF assms(1)] by (cases ys; auto)+
    moreover have "slist_unlink fuel (rnext s) head mem = Some ((rnext s)(c := rnext s mem))"
      using slist_unlink_chain [of "rnext s" head ys c mem vs fuel] assms xs snoc by simp
    ultimately show ?thesis using region_del_loop_chain [of s head us mem vs fuel head 0] assms xs m0 snoc
      by (simp add: region_del_def slist_del_def rnext_put)
  qed
qed

definition rst_example :: rst where
  "rst_example = \<lparr>rvm = vm_example, regions = (\<lambda>_. \<lparr>reg_type = 1, reg_vma = 1, reg_vaddr = 0, reg_paddr = 0, reg_num = 1, reg_next = 0\<rparr>)\<rparr>"

theorem region_list_as_slist_witness:
  "map_option (\<lambda>(err, h, s'). (h, rnext s')) (region_del (Suc 1) rst_example 8 8) = slist_del (Suc 1) (rnext rst_example) 8 8 \<and>
   map_option (\<lambda>(err, h, s'). h) (region_del (Suc 1) rst_example 8 8) = Some 0"
proof -
  have "chain (rnext rst_example) 8 [8]" by (simp add: rst_example_def rnext_def)
  from region_list_as_slist [OF this, of "Suc 1" 16 8] show ?thesis
    by (simp add: region_del_def rst_example_def)
qed

end
