(* ===== verification/Disk.thy ===== *)
theory Disk
  imports Math_Util "HOL-Library.Monad_Syntax"
begin

text \<open>
  Disks and partitions: \<^verbatim>\<open>kernel/core/disk/disk.c\<close>, \<^verbatim>\<open>core/disk/part.c\<close>, \<^verbatim>\<open>core/gpt.c\<close> and
  \<^verbatim>\<open>core/mbr.c\<close>. The controller is a record of functions, \<open>disk_dev\<close>: what a sector read puts into the
  buffer, whether a write succeeds, and the geometry an information request finds. The locale \<open>sector_reader\<close> says what the
  disk layer needs of a controller to return the bytes of the disk. Linked lists are lists in link order, and a pointer into one is an index. \<open>None\<close> is a panic or a division by zero.
\<close>

section \<open>State\<close>

datatype disk_type = DISK_TYPE_UNKNOWN | DISK_TYPE_OPTICAL | DISK_TYPE_HDD | DISK_TYPE_SSD

datatype disk_controller = DISK_CONTROLLER_AHCI | DISK_CONTROLLER_OTHER

datatype disk_op = DISK_OP_READ | DISK_OP_WRITE | DISK_OP_INFO

record disk_part =
  start :: u64
  part_size :: u64
  bootable :: bool
  available :: bool

record disk =
  disk_kind :: disk_type
  controller :: disk_controller
  read_only :: bool
  disk_available :: bool
  sector_size :: u64
  disk_size :: u64
  parts :: "disk_part list"
  part_count :: u32

record disk_dev =
  dev_read :: "u64 \<Rightarrow> u64 \<Rightarrow> bool \<times> u8 list"
  dev_write :: "u64 \<Rightarrow> u64 \<Rightarrow> u8 list \<Rightarrow> bool"
  dev_info :: "bool \<times> disk_type \<times> u64 \<times> u64"

section \<open>Transfers\<close>

text \<open>\<^verbatim>\<open>disk_add\<close>, for an allocated structure: a new disk at the front of the list.\<close>

definition disk_new :: "disk_controller \<Rightarrow> disk" where
  "disk_new c = \<lparr>disk_kind = DISK_TYPE_UNKNOWN, controller = c, read_only = False, disk_available = False,
     sector_size = 512, disk_size = 0, parts = [], part_count = 0\<rparr>"

definition disk_add :: "disk list \<Rightarrow> disk_controller \<Rightarrow> disk list" where
  "disk_add ds c = disk_new c # ds"

definition disk_remove :: "disk list \<Rightarrow> nat \<Rightarrow> disk list" where
  "disk_remove ds i = take i ds @ drop (Suc i) ds"

text \<open>\<^verbatim>\<open>disk_do\<close>: the result, the bytes stored into the buffer, and the disk, whose geometry an
  information request sets.\<close>

definition disk_do :: "disk_dev \<Rightarrow> disk \<Rightarrow> disk_op \<Rightarrow> u64 \<Rightarrow> u64 \<Rightarrow> u8 list \<Rightarrow> (bool \<times> u8 list \<times> disk) option" where
  "disk_do dev d op lba sector_count buf =
     (case controller d of
        DISK_CONTROLLER_OTHER \<Rightarrow> None
      | DISK_CONTROLLER_AHCI \<Rightarrow>
          (case op of
             DISK_OP_READ \<Rightarrow> (case dev_read dev lba sector_count of (ok, bs) \<Rightarrow> Some (ok, bs, d))
           | DISK_OP_WRITE \<Rightarrow> Some (dev_write dev lba sector_count buf, [], d)
           | DISK_OP_INFO \<Rightarrow> (case dev_info dev of (ok, k, ss, sz) \<Rightarrow>
               Some (ok, [], if ok then d\<lparr>disk_kind := k, sector_size := ss, disk_size := sz\<rparr> else d))))"

definition disk_read_raw :: "disk_dev \<Rightarrow> disk \<Rightarrow> u64 \<Rightarrow> u64 \<Rightarrow> (bool \<times> u8 list) option" where
  "disk_read_raw dev d lba n = map_option (\<lambda>(ok, bs, _). (ok, bs)) (disk_do dev d DISK_OP_READ lba n [])"

text \<open>The loop of \<^verbatim>\<open>disk_read_lba\<close> over the full sectors; the final \<^verbatim>\<open>lba\<close> comes back with the bytes.\<close>

fun read_sectors :: "disk_dev \<Rightarrow> disk \<Rightarrow> nat \<Rightarrow> u64 \<Rightarrow> u8 list \<Rightarrow> (bool \<times> u64 \<times> u8 list) option" where
  "read_sectors dev d 0 lba acc = Some (True, lba, acc)"
| "read_sectors dev d (Suc n) lba acc = do {
     (ok, bs) \<leftarrow> disk_read_raw dev d lba 1;
     if ok then read_sectors dev d n (lba + 1) (acc @ bs) else Some (False, lba, acc @ bs) }"

definition disk_read_lba :: "disk_dev \<Rightarrow> disk \<Rightarrow> u64 \<Rightarrow> u64 \<Rightarrow> (bool \<times> u8 list) option" where
  "disk_read_lba dev d lba sz =
     (if sector_size d = 0 then None
      else let rem_size = sz mod sector_size d in
        if rem_size = 0 then do { n \<leftarrow> div_floor sz (sector_size d); disk_read_raw dev d lba n }
        else do {
          (ok, lba, acc) \<leftarrow> read_sectors dev d (unat (sz div sector_size d)) lba [];
          if \<not> ok then Some (False, acc)
          else do {
            (ret, rem_buf) \<leftarrow> disk_read_raw dev d lba 1;
            Some (ret, acc @ take (unat rem_size) rem_buf) }})"

definition disk_read :: "disk_dev \<Rightarrow> disk \<Rightarrow> u64 \<Rightarrow> u64 \<Rightarrow> (bool \<times> u8 list) option" where
  "disk_read dev d offset sz = do {
     lba \<leftarrow> div_floor offset (sector_size d);
     let rem_offset = offset mod sector_size d;
     if rem_offset = 0 then disk_read_lba dev d lba sz
     else do {
       (ret, full_buf) \<leftarrow> disk_read_lba dev d lba (rem_offset + sz);
       Some (ret, take (unat sz) (drop (unat rem_offset) full_buf)) }}"

definition disk_write_lba :: "disk_dev \<Rightarrow> disk \<Rightarrow> u64 \<Rightarrow> u64 \<Rightarrow> u8 list \<Rightarrow> bool option" where
  "disk_write_lba dev d lba sz buf =
     (if sz = 0 then None
      else if sector_size d mod sz \<noteq> 0 then Some False
      else do {
        n \<leftarrow> div_floor sz (sector_size d);
        (ok, _, _) \<leftarrow> disk_do dev d DISK_OP_WRITE lba n buf;
        Some ok })"

definition disk_write :: "disk_dev \<Rightarrow> disk \<Rightarrow> u64 \<Rightarrow> u64 \<Rightarrow> u8 list \<Rightarrow> bool option" where
  "disk_write dev d offset sz buf =
     (if offset = 0 then None
      else if sector_size d mod offset \<noteq> 0 then Some False
      else do { lba \<leftarrow> div_floor offset (sector_size d); disk_write_lba dev d lba sz buf })"

section \<open>Partitions\<close>

text \<open>\<^verbatim>\<open>disk_next\<close>: \<open>ps\<close> are the partitions behind the given one on its disk, \<open>ds\<close> the disks behind
  that disk; for \<^verbatim>\<open>NULL\<close> there are no partitions and all disks.\<close>

function disk_next :: "disk_part list \<Rightarrow> disk list \<Rightarrow> disk_part option" where
  "disk_next (p # ps) ds = (if available p then Some p else disk_next ps ds)"
| "disk_next [] (d # ds) = disk_next (parts d) ds"
| "disk_next [] [] = None"
  by pat_completeness auto
termination
  by (relation "measures [\<lambda>(ps, ds). length ds, \<lambda>(ps, ds). length ps]") auto

text \<open>\<^verbatim>\<open>disk_part_add\<close>: the index of the partition, old or new, and the disk. The flag is the success of
  \<^verbatim>\<open>heap_alloc\<close>.\<close>

fun part_find :: "disk_part list \<Rightarrow> u64 \<Rightarrow> u64 \<Rightarrow> nat option" where
  "part_find [] st sz = None"
| "part_find (p # ps) st sz =
     (if start p = st \<and> part_size p = sz then Some 0 else map_option Suc (part_find ps st sz))"

definition disk_part_add :: "bool \<Rightarrow> disk \<Rightarrow> u64 \<Rightarrow> u64 \<Rightarrow> nat option \<times> disk" where
  "disk_part_add alloc d st sz =
     (case part_find (parts d) st sz of
        Some i \<Rightarrow> (Some i, d)
      | None \<Rightarrow>
          if \<not> alloc then (None, d)
          else (Some 0, d\<lparr>parts := \<lparr>start = st, part_size = sz, bootable = False, available = False\<rparr> # parts d,
                  part_count := part_count d + 1\<rparr>))"

definition disk_part_block :: "disk \<Rightarrow> disk" where
  "disk_part_block d = d\<lparr>parts := map (\<lambda>p. p\<lparr>available := False\<rparr>) (parts d)\<rparr>"

fun part_clear_loop :: "u32 \<Rightarrow> disk_part list \<Rightarrow> u32 \<times> disk_part list" where
  "part_clear_loop n [] = (n, [])"
| "part_clear_loop n (p # ps) =
     (if available p then (case part_clear_loop n ps of (n', ps') \<Rightarrow> (n', p # ps'))
      else part_clear_loop (n - 1) ps)"

definition disk_part_clear :: "disk \<Rightarrow> disk" where
  "disk_part_clear d = (case part_clear_loop (part_count d) (parts d) of (n, ps) \<Rightarrow> d\<lparr>parts := ps, part_count := n\<rparr>)"

definition part_load :: "bool \<Rightarrow> disk \<Rightarrow> u64 \<Rightarrow> u64 \<Rightarrow> bool \<Rightarrow> disk" where
  "part_load alloc d st sz boot =
     (case disk_part_add alloc d st sz of
        (None, d') \<Rightarrow> d'
      | (Some i, d') \<Rightarrow> d'\<lparr>parts := (parts d')[i := (parts d' ! i)\<lparr>bootable := boot, available := True\<rparr>]\<rparr>)"

subsection \<open>GUID partition table\<close>

definition le :: "nat \<Rightarrow> u8 list \<Rightarrow> nat \<Rightarrow> u64" where
  "le n bs off = foldr (\<lambda>b x. ucast b + 256 * x) (take n (drop off bs)) 0"

abbreviation (input) GPT_SIGNATURE :: u64 where "GPT_SIGNATURE \<equiv> 0x5452415020494645"

definition gpt_load_entry :: "bool \<Rightarrow> disk \<Rightarrow> u8 list \<Rightarrow> disk" where
  "gpt_load_entry alloc d e =
     (if le 8 e 0 = 0 \<and> le 8 e 8 = 0 then d
      else if bit (le 8 e 48) 1 then d
      else part_load alloc d (le 8 e 32) ((le 8 e 40 + 1) - le 8 e 32) (bit (le 8 e 48) 2))"

text \<open>The entries of one sector, \<open>esz\<close> bytes each, and the loop over the sectors of the entry array. A
  sector that cannot be read is skipped.\<close>

fun gpt_entries :: "bool \<Rightarrow> nat \<Rightarrow> nat \<Rightarrow> disk \<Rightarrow> u8 list \<Rightarrow> disk" where
  "gpt_entries alloc esz 0 d bs = d"
| "gpt_entries alloc esz (Suc n) d bs = gpt_entries alloc esz n (gpt_load_entry alloc d bs) (drop esz bs)"

function gpt_loop :: "bool \<Rightarrow> disk_dev \<Rightarrow> u64 \<Rightarrow> nat \<Rightarrow> nat \<Rightarrow> nat \<Rightarrow> nat \<Rightarrow> disk \<Rightarrow> disk option" where
  "gpt_loop alloc dev lba esz per count i d =
     (if count \<le> i \<or> per = 0 then Some d
      else case disk_read_raw dev d (lba + of_nat (i div per)) 1 of
        None \<Rightarrow> None
      | Some (ok, bs) \<Rightarrow> gpt_loop alloc dev lba esz per count (i + per) (if ok then gpt_entries alloc esz per d bs else d))"
  by pat_completeness auto
termination
  by (relation "measure (\<lambda>(alloc, dev, lba, esz, per, count, i, d). count - i)") auto

declare gpt_loop.simps [simp del]

definition gpt_load :: "bool \<Rightarrow> disk_dev \<Rightarrow> disk \<Rightarrow> (bool \<times> disk) option" where
  "gpt_load alloc dev d = do {
     (ok, h) \<leftarrow> disk_read_lba dev d 1 92;
     if \<not> ok then Some (False, d)
     else if le 8 h 0 \<noteq> GPT_SIGNATURE then Some (False, d)
     else let esz = le 4 h 84 in
       if esz = 0 then None
       else if sector_size d mod esz \<noteq> 0 then Some (False, d)
       else do {
         per \<leftarrow> div_floor (sector_size d) esz;
         d' \<leftarrow> gpt_loop alloc dev (le 8 h 72) (unat esz) (unat per) (unat (le 4 h 80)) 0 d;
         Some (True, d') }}"

subsection \<open>Master boot record\<close>

definition mbr_load_part :: "bool \<Rightarrow> disk \<Rightarrow> u8 list \<Rightarrow> disk" where
  "mbr_load_part alloc d p =
     (if le 3 p 1 = 0 \<or> le 3 p 5 = 0 \<or> le 4 p 8 = 0 \<or> le 4 p 12 = 0 then d
      else part_load alloc d (le 4 p 8) (le 4 p 12) (bit (le 1 p 4) 7))"

definition mbr_load :: "bool \<Rightarrow> disk_dev \<Rightarrow> disk \<Rightarrow> (bool \<times> disk) option" where
  "mbr_load alloc dev d = do {
     (ok, m) \<leftarrow> disk_read_lba dev d 0 512;
     if \<not> ok then Some (False, d)
     else if le 2 m 510 \<noteq> 0xAA55 then Some (False, d)
     else Some (True, fold (\<lambda>i d. mbr_load_part alloc d (take 16 (drop (446 + 16 * i) m))) [0, 1, 2, 3] d) }"

definition disk_part_scan :: "bool \<Rightarrow> disk_dev \<Rightarrow> disk \<Rightarrow> (bool \<times> disk) option" where
  "disk_part_scan alloc dev d = do {
     let d1 = disk_part_block (d\<lparr>disk_available := False\<rparr>);
     (ok, _, d2) \<leftarrow> disk_do dev d1 DISK_OP_INFO 0 0 [];
     if \<not> ok then Some (False, d2)
     else do {
       (gpt, d3) \<leftarrow> gpt_load alloc dev d2;
       if gpt then Some (True, (disk_part_clear d3)\<lparr>disk_available := True\<rparr>)
       else do {
         (mbr, d4) \<leftarrow> mbr_load alloc dev d3;
         if mbr then Some (True, (disk_part_clear d4)\<lparr>disk_available := True\<rparr>)
         else Some (False, d4) }}}"

section \<open>Reading\<close>

text \<open>
  A controller that serves reads from an image: \<open>img n\<close> is byte \<open>n\<close> of the disk. A transfer is at least one sector and
  at most \<open>lim\<close> bytes, and sectors have addresses of 48 bits. \<open>disk_reach\<close>: the bytes are within these bounds.
\<close>

definition dev_serves :: "nat \<Rightarrow> disk_dev \<Rightarrow> disk \<Rightarrow> (nat \<Rightarrow> u8) \<Rightarrow> bool" where
  "dev_serves lim dev d img \<longleftrightarrow> controller d = DISK_CONTROLLER_AHCI \<and> 0 < sector_size d \<and> unat (sector_size d) \<le> lim \<and>
     (\<forall>lba n. 0 < n \<and> unat n * unat (sector_size d) \<le> lim \<and> unat lba + unat n \<le> 2 ^ 48 \<longrightarrow> dev_read dev lba n =
        (True, map img [unat lba * unat (sector_size d) ..< (unat lba + unat n) * unat (sector_size d)]))"

definition disk_reach :: "nat \<Rightarrow> disk \<Rightarrow> u64 \<Rightarrow> u64 \<Rightarrow> bool" where
  "disk_reach lim d offset sz \<longleftrightarrow> 0 < sz \<and> unat (offset mod sector_size d) + unat sz \<le> lim \<and>
     unat offset + unat sz \<le> 2 ^ 48 * unat (sector_size d) \<and> unat offset + unat sz < 2 ^ 64"

lemma read_raw_serves:
  "dev_serves lim dev d img \<Longrightarrow> 0 < n \<Longrightarrow> unat n * unat (sector_size d) \<le> lim \<Longrightarrow> unat lba + unat n \<le> 2 ^ 48 \<Longrightarrow>
   disk_read_raw dev d lba n =
   Some (True, map img [unat lba * unat (sector_size d) ..< (unat lba + unat n) * unat (sector_size d)])"
  by (simp add: dev_serves_def disk_read_raw_def disk_do_def)

lemma read_one_serves:
  "dev_serves lim dev d img \<Longrightarrow> unat lba < 2 ^ 48 \<Longrightarrow> disk_read_raw dev d lba 1 =
   Some (True, map img [unat lba * unat (sector_size d) ..< (unat lba + 1) * unat (sector_size d)])"
  using read_raw_serves [of lim dev d img 1 lba] by (simp add: dev_serves_def)

lemma upt_map_append: "a \<le> b \<Longrightarrow> b \<le> c \<Longrightarrow> map f [a..<b] @ map f [b..<c] = map f [a..<c]"
  by (metis map_append upt_add_eq_append le_Suc_ex)

lemma take_upt_map: "r \<le> k \<Longrightarrow> take r (map f [a..<a + k]) = map f [a..<a + r]"
  by (simp add: take_map take_upt)

lemma read_sectors_serves:
  assumes serves: "dev_serves lim dev d img"
  shows "unat lba + n \<le> 2 ^ 48 \<Longrightarrow> read_sectors dev d n lba acc =
    Some (True, lba + of_nat n, acc @ map img [unat lba * unat (sector_size d) ..< (unat lba + n) * unat (sector_size d)])"
proof (induction n arbitrary: lba acc)
  case (Suc n)
  let ?ss = "unat (sector_size d)"
  have l1: "unat (lba + 1) = unat lba + 1" using Suc.prems by (simp add: unat_plus64)
  have "map img [unat lba * ?ss ..< (unat lba + 1) * ?ss] @ map img [(unat lba + 1) * ?ss ..< (unat lba + 1 + n) * ?ss] =
      map img [unat lba * ?ss ..< (unat lba + Suc n) * ?ss]"
    by (subst upt_map_append) (simp_all add: algebra_simps)
  then show ?case using Suc read_one_serves [OF serves, of lba] l1 by (simp add: algebra_simps)
qed simp

lemma read_lba_serves:
  assumes serves: "dev_serves lim dev d img" and sz: "0 < sz" "unat sz \<le> lim"
    and bound: "unat lba * unat (sector_size d) + unat sz \<le> 2 ^ 48 * unat (sector_size d)"
  shows "disk_read_lba dev d lba sz = Some (True, map img [unat lba * unat (sector_size d) ..< unat lba * unat (sector_size d) + unat sz])"
proof -
  let ?ss = "unat (sector_size d)"
  have ss: "sector_size d \<noteq> 0" "0 < ?ss" using serves by (auto simp: dev_serves_def word_less_nat_alt)
  have q: "unat (sz div sector_size d) = unat sz div ?ss" "unat (sz mod sector_size d) = unat sz mod ?ss"
    by (simp_all add: unat_div_distrib unat_mod_distrib)
  have dm: "unat sz div ?ss * ?ss + unat sz mod ?ss = unat sz" by simp
  let ?n = "unat sz div ?ss"
  have top: "(unat lba + ?n) * ?ss + unat sz mod ?ss \<le> 2 ^ 48 * ?ss" using bound dm by (simp add: add_mult_distrib)
  then have "(unat lba + ?n) * ?ss \<le> 2 ^ 48 * ?ss" by linarith
  then have b: "unat lba + ?n \<le> 2 ^ 48" using ss(2) by simp
  show ?thesis
  proof (cases "sz mod sector_size d = 0")
    case True
    then have "unat sz mod ?ss = 0" using q(2) by simp
    then have n: "?n * ?ss = unat sz" using dm by simp
    then have "(unat lba + unat (sz div sector_size d)) * ?ss = unat lba * ?ss + unat sz"
      by (simp add: q(1) add_mult_distrib)
    moreover have "0 < sz div sector_size d" using n sz(1) q(1) by (auto simp: word_less_nat_alt intro!: gr0I)
    ultimately show ?thesis using True ss read_raw_serves [OF serves, of "sz div sector_size d" lba] sz b n q(1)
      by (simp add: disk_read_lba_def div_floor_def)
  next
    case False
    then have m: "0 < unat sz mod ?ss" using q(2) by (metis neq0_conv unat_eq_zero)
    have b1: "unat lba + ?n < 2 ^ 48" using top m ss(2) by (metis add_le_same_cancel1 b le_neq_implies_less less_le_not_le)
    then have l: "unat (lba + of_nat ?n) = unat lba + ?n"
      using unat_plus64 [of lba "of_nat ?n"] unat_of_nat64 [of ?n] by simp
    have r: "unat sz mod ?ss < ?ss" using ss(2) by simp
    have "take (unat sz mod ?ss) (map img [(unat lba + ?n) * ?ss ..< (unat lba + ?n + 1) * ?ss]) =
        map img [(unat lba + ?n) * ?ss ..< (unat lba + ?n) * ?ss + unat sz mod ?ss]"
      using take_upt_map [of "unat sz mod ?ss" ?ss img "(unat lba + ?n) * ?ss"] r by (simp only: add_mult_distrib mult_1 less_imp_le)
    then have "map img [unat lba * ?ss ..< (unat lba + ?n) * ?ss] @
        take (unat sz mod ?ss) (map img [(unat lba + ?n) * ?ss ..< (unat lba + ?n + 1) * ?ss]) =
        map img [unat lba * ?ss ..< unat lba * ?ss + unat sz]"
      using upt_map_append [of "unat lba * ?ss" "(unat lba + ?n) * ?ss" "(unat lba + ?n) * ?ss + unat sz mod ?ss" img] dm
      by (simp add: add_mult_distrib add.assoc)
    then show ?thesis
      using False ss read_sectors_serves [OF serves b, of "[]"] read_one_serves [OF serves, of "lba + of_nat ?n"] b1 l q
      by (simp add: disk_read_lba_def)
  qed
qed

section \<open>The partition list\<close>

definition parts_inv :: "disk \<Rightarrow> bool" where
  "parts_inv d \<longleftrightarrow> part_count d = of_nat (length (parts d))"

lemma part_clear_loop_filter:
  "part_clear_loop n ps = (n - of_nat (length (filter (\<lambda>p. \<not> available p) ps)), filter available ps)"
  by (induction ps arbitrary: n) (auto simp: algebra_simps)

lemma filter_count: "of_nat (length xs) - of_nat (length (filter (\<lambda>x. \<not> P x) xs)) = (of_nat (length (filter P xs)) :: u32)"
  by (induction xs) auto

lemma part_clear_spec:
  "parts (disk_part_clear d) = filter available (parts d)" "parts_inv d \<Longrightarrow> parts_inv (disk_part_clear d)"
  by (simp_all add: disk_part_clear_def part_clear_loop_filter parts_inv_def filter_count)

lemma part_load_inv [kernel_inv]: "parts_inv d \<Longrightarrow> parts_inv (part_load alloc d st sz boot)"
  by (auto simp: part_load_def disk_part_add_def parts_inv_def split: option.splits prod.splits if_splits)

lemma gpt_entries_inv [kernel_inv]: "parts_inv d \<Longrightarrow> parts_inv (gpt_entries alloc esz n d bs)"
  by (induction n arbitrary: d bs) (auto simp: gpt_load_entry_def part_load_inv)

lemma gpt_loop_inv: "gpt_loop alloc dev lba esz per count i d = Some d' \<Longrightarrow> parts_inv d \<Longrightarrow> parts_inv d'"
proof (induction alloc dev lba esz per count i d rule: gpt_loop.induct)
  case (1 alloc dev lba esz per count i d)
  note unf = gpt_loop.simps [of alloc dev lba esz per count i d]
  show ?case
  proof (cases "count \<le> i \<or> per = 0")
    case True
    then have "gpt_loop alloc dev lba esz per count i d = Some d" by (subst unf) simp
    then show ?thesis using "1.prems" by simp
  next
    case False
    then obtain ok bs where r: "disk_read_raw dev d (lba + of_nat (i div per)) 1 = Some (ok, bs)"
      using "1.prems"(1) unfolding unf by (auto split: option.splits simp del: de_Morgan_disj)
    then have "gpt_loop alloc dev lba esz per count (i + per) (if ok then gpt_entries alloc esz per d bs else d) = Some d'"
      using "1.prems"(1) False unfolding unf by simp
    then show ?thesis using "1.IH" [OF False r refl] "1.prems"(2) gpt_entries_inv by simp
  qed
qed

lemma gpt_load_inv: "gpt_load alloc dev d = Some (ok, d') \<Longrightarrow> parts_inv d \<Longrightarrow> parts_inv d'"
  by (auto simp: gpt_load_def Let_def gpt_loop_inv split: if_splits bind_splits)

lemma mbr_load_part_inv [kernel_inv]: "parts_inv d \<Longrightarrow> parts_inv (mbr_load_part alloc d p)"
  by (simp add: mbr_load_part_def part_load_inv)

lemma mbr_load_inv: "mbr_load alloc dev d = Some (ok, d') \<Longrightarrow> parts_inv d \<Longrightarrow> parts_inv d'"
  by (auto simp: mbr_load_def split: if_splits bind_splits intro!: mbr_load_part_inv)

text \<open>\<^verbatim>\<open>disk_next\<close> walks the available partitions of all disks in list order.\<close>

lemma disk_next_find: "disk_next ps ds = find available (ps @ concat (map parts ds))"
  by (induction ps ds rule: disk_next.induct) auto

lemma disk_read_serves:
  assumes serves: "dev_serves lim dev d img" and reach: "disk_reach lim d offset sz"
  shows "disk_read dev d offset sz = Some (True, map img [unat offset ..< unat offset + unat sz])"
proof -
  let ?ss = "unat (sector_size d)"
  have ss: "sector_size d \<noteq> 0" "0 < ?ss" using serves by (auto simp: dev_serves_def word_less_nat_alt)
  let ?lba = "offset div sector_size d" and ?r = "offset mod sector_size d"
  note r = reach [unfolded disk_reach_def]
  have q: "unat ?lba * ?ss + unat ?r = unat offset" by (simp add: unat_div_distrib unat_mod_distrib)
  show ?thesis
  proof (cases "?r = 0")
    case True
    then show ?thesis using read_lba_serves [OF serves, of sz ?lba] q r ss
      by (simp add: disk_read_def div_floor_def)
  next
    case False
    have rs: "unat (?r + sz) = unat ?r + unat sz" using q r by (intro unat_plus64) linarith
    then have "0 < ?r + sz" using r by (simp add: word_less_nat_alt)
    then have "disk_read_lba dev d ?lba (?r + sz) = Some (True, map img [unat ?lba * ?ss ..< unat offset + unat sz])"
      using read_lba_serves [OF serves, of "?r + sz" ?lba] q r rs by (simp add: add.assoc [symmetric])
    moreover have "take (unat sz) (drop (unat ?r) (map img [unat ?lba * ?ss ..< unat offset + unat sz])) =
        map img [unat offset ..< unat offset + unat sz]"
      using q by (simp add: drop_map take_map drop_upt take_upt)
    ultimately show ?thesis using False ss by (simp add: disk_read_def div_floor_def)
  qed
qed

section \<open>Controllers that serve reads\<close>

text \<open>
  What the disk layer needs of a controller: while it is ready, a transfer within its limits gives the bytes of the
  image, and the controller is ready for the next one, with the same geometry and image. \<open>reader_dev\<close> is such a controller as a
  disk device, \<open>read_seq\<close> a sequence of its transfers.
\<close>

definition reader_dev :: "(u64 \<Rightarrow> u64 \<Rightarrow> 's \<Rightarrow> (bool \<times> u8 list \<times> 's) option) \<Rightarrow> 's \<Rightarrow> disk_dev" where
  "reader_dev rd s = \<lparr>dev_read = (\<lambda>lba n. case rd lba n s of None \<Rightarrow> (False, []) | Some (ok, bs, _) \<Rightarrow> (ok, bs)),
     dev_write = (\<lambda>_ _ _. False), dev_info = (False, DISK_TYPE_UNKNOWN, 0, 0)\<rparr>"

fun read_seq :: "(u64 \<Rightarrow> u64 \<Rightarrow> 's \<Rightarrow> (bool \<times> u8 list \<times> 's) option) \<Rightarrow> (u64 \<times> u64) list \<Rightarrow> 's \<Rightarrow> ((bool \<times> u8 list) list \<times> 's) option" where
  "read_seq rd [] s = Some ([], s)"
| "read_seq rd ((lba, n) # rs) s = do {
     (ok, bs, s1) \<leftarrow> rd lba n s;
     (xs, s2) \<leftarrow> read_seq rd rs s1;
     Some ((ok, bs) # xs, s2) }"

locale sector_reader =
  fixes ready :: "'s \<Rightarrow> bool" and rd :: "u64 \<Rightarrow> u64 \<Rightarrow> 's \<Rightarrow> (bool \<times> u8 list \<times> 's) option"
    and the_disk :: "'s \<Rightarrow> disk" and lim :: "'s \<Rightarrow> nat" and img :: "'s \<Rightarrow> nat \<Rightarrow> u8"
  assumes geometry: "ready s \<Longrightarrow> controller (the_disk s) = DISK_CONTROLLER_AHCI \<and> 0 < sector_size (the_disk s) \<and>
      unat (sector_size (the_disk s)) \<le> lim s"
    and transfer: "ready s \<Longrightarrow> 0 < n \<Longrightarrow> unat n * unat (sector_size (the_disk s)) \<le> lim s \<Longrightarrow> unat lba + unat n \<le> 2 ^ 48 \<Longrightarrow>
      \<exists>s'. rd lba n s = Some (True, map (img s) [unat lba * unat (sector_size (the_disk s)) ..< (unat lba + unat n) * unat (sector_size (the_disk s))], s') \<and>
        ready s' \<and> the_disk s' = the_disk s \<and> lim s' = lim s \<and> img s' = img s"
begin

lemma serves: "ready s \<Longrightarrow> dev_serves (lim s) (reader_dev rd s) (the_disk s) (img s)"
  using geometry [of s] transfer [of s] by (fastforce simp: dev_serves_def reader_dev_def)

lemma reads:
  "ready s \<Longrightarrow> disk_reach (lim s) (the_disk s) offset sz \<Longrightarrow>
   disk_read (reader_dev rd s) (the_disk s) offset sz = Some (True, map (img s) [unat offset ..< unat offset + unat sz])"
  using serves by (rule disk_read_serves)

text \<open>In a sequence of transfers each gives what the device of the first state gives.\<close>

lemma sequence:
  assumes "ready s" and "list_all (\<lambda>(lba, n). 0 < n \<and> unat n * unat (sector_size (the_disk s)) \<le> lim s \<and> unat lba + unat n \<le> 2 ^ 48) rs"
  shows "\<exists>s'. read_seq rd rs s = Some (map (\<lambda>(lba, n). dev_read (reader_dev rd s) lba n) rs, s') \<and> ready s' \<and> img s' = img s"
  using assms
proof (induction rs arbitrary: s)
  case (Cons r rs)
  obtain lba n where r: "r = (lba, n)" by (cases r)
  obtain s1 where s1: "rd lba n s = Some (True, map (img s) [unat lba * unat (sector_size (the_disk s)) ..< (unat lba + unat n) * unat (sector_size (the_disk s))], s1)"
      "ready s1" "the_disk s1 = the_disk s" "lim s1 = lim s" "img s1 = img s"
    using transfer [of s n lba] Cons.prems r by auto
  then obtain s2 where s2: "read_seq rd rs s1 = Some (map (\<lambda>(lba, n). dev_read (reader_dev rd s1) lba n) rs, s2)" "ready s2" "img s2 = img s1"
    using Cons.IH [of s1] Cons.prems by auto
  have "dev_read (reader_dev rd s1) l k = dev_read (reader_dev rd s) l k" if "(l, k) \<in> set rs" for l k
    using that serves [OF s1(2)] serves [OF Cons.prems(1)] Cons.prems(2) s1(3-5) by (auto simp: dev_serves_def list_all_iff)
  then have "map (\<lambda>(lba, n). dev_read (reader_dev rd s1) lba n) rs = map (\<lambda>(lba, n). dev_read (reader_dev rd s) lba n) rs"
    by auto
  then show ?case using r s1 s2 by (simp add: reader_dev_def)
qed simp

end

section \<open>Properties\<close>



text \<open>
  \<^verbatim>\<open>disk_write\<close> tests the remainder with its operands exchanged: a write at any sector boundary
  beyond the second sector is refused, and a write of less than a sector is reported as done although
  no sector is transferred.
\<close>

theorem disk_write_reversed_check:
  assumes "0 < sector_size d" and "controller d = DISK_CONTROLLER_AHCI" and "sector_size d < offset"
    and "0 < sz" and "sz < sector_size d" and "sector_size d mod sz = 0"
  shows "disk_write dev d offset buf_sz buf = Some False \<and>
    disk_write_lba dev d lba sz buf = Some (dev_write dev lba 0 buf)"
  using assms by (auto simp: disk_write_def disk_write_lba_def div_floor_def disk_do_def mod_word_less div_word_less)

lemma disk_part_scan_inv:
  assumes "parts_inv d" and "disk_part_scan alloc dev d = Some (ok, d')"
  shows "parts_inv d' \<and> (ok \<longrightarrow> disk_available d' \<and> (\<forall>p \<in> set (parts d'). available p))"
proof -
  let ?d1 = "disk_part_block (d\<lparr>disk_available := False\<rparr>)"
  have i1: "parts_inv ?d1" using assms(1) by (simp add: parts_inv_def disk_part_block_def)
  obtain ok2 bs d2 where d2: "disk_do dev ?d1 DISK_OP_INFO 0 0 [] = Some (ok2, bs, d2)"
    using assms(2) by (auto simp: disk_part_scan_def split: bind_splits)
  have i2: "parts_inv d2"
    using d2 i1 by (auto simp: disk_do_def parts_inv_def split: disk_controller.splits prod.splits if_splits)
  show ?thesis
  proof (cases ok2)
    case False
    then show ?thesis using assms(2) d2 i2 by (simp add: disk_part_scan_def)
  next
    case True
    then obtain g d3 where d3: "gpt_load alloc dev d2 = Some (g, d3)"
      using assms(2) d2 by (auto simp: disk_part_scan_def split: bind_splits)
    have i3: "parts_inv d3" using gpt_load_inv [OF d3 i2] .
    show ?thesis
    proof (cases g)
      case True
      then have "ok \<and> d' = (disk_part_clear d3)\<lparr>disk_available := True\<rparr>"
        using assms(2) d2 d3 \<open>ok2\<close> by (simp add: disk_part_scan_def)
      then show ?thesis using part_clear_spec [of d3] i3 by (simp add: parts_inv_def)
    next
      case False
      then obtain m d4 where d4: "mbr_load alloc dev d3 = Some (m, d4)"
        using assms(2) d2 d3 \<open>ok2\<close> by (auto simp: disk_part_scan_def split: bind_splits)
      then have "parts_inv d4" using mbr_load_inv i3 by blast
      then show ?thesis using part_clear_spec [of d4] assms(2) d2 d3 d4 \<open>ok2\<close> False
        by (cases m) (auto simp: disk_part_scan_def parts_inv_def)
    qed
  qed
qed



theorem disk_write_reversed_check_witness:
  "disk_write \<lparr>dev_read = (\<lambda>_ _. (True, [])), dev_write = (\<lambda>_ _ _. True), dev_info = (True, DISK_TYPE_HDD, 512, 100)\<rparr>
     (disk_new DISK_CONTROLLER_AHCI) 1024 512 [] = Some False"
  using disk_write_reversed_check [of "disk_new DISK_CONTROLLER_AHCI" 1024 256] by (simp add: disk_new_def)

end
