(* ===== verification/Elf.thy ===== *)
theory Elf
  imports Region Disk
begin

text \<open>
  The executable loader: \<^verbatim>\<open>kernel/fs/fmt/elf.c\<close> and \<^verbatim>\<open>kernel/fs/fmt/fmt.c\<close>. The file is the function
  \<open>rd\<close> that \<^verbatim>\<open>vfs_read\<close> computes on its node: an offset and a size give the result code and the bytes
  stored into the buffer. The loaded image is written to a byte memory of virtual addresses, the regions
  are those of \<open>Region\<close>, and \<open>alloc k\<close> is the address \<^verbatim>\<open>heap_alloc\<close> returns for the \<open>k\<close>-th region structure.
\<close>

section \<open>Headers\<close>

type_synonym file_read = "u64 \<Rightarrow> u64 \<Rightarrow> int \<times> u8 list"

record elf_header =
  ident :: "u8 list"
  elf_type :: u64
  machine :: u64
  elf_entry :: u64
  phoff :: u64
  shoff :: u64
  phentsize :: u64
  phnum :: nat

definition elf_header_of :: "u8 list \<Rightarrow> elf_header" where
  "elf_header_of bs = \<lparr>ident = take 16 bs, elf_type = le 2 bs 16, machine = le 2 bs 18, elf_entry = le 8 bs 24,
     phoff = le 8 bs 32, shoff = le 8 bs 40, phentsize = le 2 bs 54, phnum = unat (le 2 bs 56)\<rparr>"

record elf_program_header =
  ph_type :: u64
  ph_flags :: u64
  ph_offset :: u64
  ph_vaddr :: u64
  ph_filesz :: u64
  ph_memsz :: u64

definition elf_program_header_of :: "u8 list \<Rightarrow> elf_program_header" where
  "elf_program_header_of bs = \<lparr>ph_type = le 4 bs 0, ph_flags = le 4 bs 4, ph_offset = le 8 bs 8, ph_vaddr = le 8 bs 16,
     ph_filesz = le 8 bs 32, ph_memsz = le 8 bs 40\<rparr>"

text \<open>What a read leaves in a buffer: the new bytes over the old ones.\<close>

definition overlay :: "u8 list \<Rightarrow> u8 list \<Rightarrow> u8 list" where
  "overlay new old_bytes = new @ drop (length new) old_bytes"

definition elf_check_magic :: "elf_header \<Rightarrow> bool" where
  "elf_check_magic h \<longleftrightarrow> take 4 (ident h) = [0x7f, 69, 76, 70]"

text \<open>\<^verbatim>\<open>__elf_check\<close> returns an error message or \<^verbatim>\<open>NULL\<close>; for a wrong magic it returns \<^verbatim>\<open>false\<close>, which is
  the null pointer as well.\<close>

definition elf_check :: "elf_header \<Rightarrow> string option" where
  "elf_check h =
     (if \<not> elf_check_magic h then None
      else if ident h ! 4 \<noteq> 2 then Some ''unsupported class''
      else if ident h ! 5 \<noteq> 1 then Some ''unsupported byte order''
      else if machine h \<noteq> 62 then Some ''unsupported machine''
      else if ident h ! 6 \<noteq> 1 then Some ''unsupported version''
      else None)"

definition elf_section :: "file_read \<Rightarrow> elf_header \<Rightarrow> u64 \<Rightarrow> int \<times> u8 list" where
  "elf_section rd h index = rd (shoff h + 64 * index) 64"

section \<open>Loading\<close>

record elf =
  elf_regs :: rst
  elf_vmem :: vmem
  elf_start :: u64
  elf_mem :: u64
  elf_pos :: u64
  elf_ph :: "u8 list"
  elf_nreg :: nat

definition elf_seg_type :: "u64 \<Rightarrow> u8" where
  "elf_seg_type flags =
     (if flags AND 4 = 0 \<and> flags AND 2 = 0 then REGION_TYPE_RDONLY
      else if flags AND 1 = 0 then REGION_TYPE_DATA
      else REGION_TYPE_CODE)"

text \<open>One loadable segment of \<^verbatim>\<open>__elf_load_dyn\<close>: \<open>Inl\<close> is an early return.\<close>

definition elf_load_segment :: "nat \<Rightarrow> (nat \<Rightarrow> u64) \<Rightarrow> file_read \<Rightarrow> elf_header \<Rightarrow> elf_program_header \<Rightarrow> elf \<Rightarrow> (errcode \<times> elf + elf) option" where
  "elf_load_segment fuel alloc rd h ph s = do {
     let sz = vmm_align (ph_memsz ph);
     let num = vmm_calc sz;
     let (mem, r1) = region_new (alloc (elf_nreg s)) (elf_regs s) (elf_seg_type (ph_flags ph)) VMM_VMA_USER (elf_pos s) num;
     let s = s\<lparr>elf_regs := r1, elf_nreg := Suc (elf_nreg s)\<rparr>;
     if mem = 0 then Some (Inl (- ENOMEM, s))
     else do {
       (err, r2) \<leftarrow> region_map fuel r1 mem;
       let s = s\<lparr>elf_regs := r2\<rparr>;
       if err \<noteq> 0 then Some (Inl (err, s))
       else do {
         (_, head, r3) \<leftarrow> region_add fuel r2 (elf_mem s) mem;
         let pos = (if elf_pos s = 0 then reg_vaddr (regions r3 mem) else elf_pos s);
         let s = s\<lparr>elf_regs := r3, elf_mem := head, elf_pos := pos\<rparr>;
         let (n, bs) = (if ph_filesz ph \<noteq> 0 then rd (ph_offset ph) (ph_filesz ph) else (0, []));
         let m = mem_write (elf_vmem s) pos bs;
         if ph_filesz ph \<noteq> 0 \<and> n < 0 then Some (Inl (- EIO, s\<lparr>elf_vmem := m\<rparr>))
         else do {
           let m = mem_write m (pos + ph_filesz ph) (replicate (unat (ph_memsz ph) - unat (ph_filesz ph)) 0);
           let start = (if ph_vaddr ph < elf_entry h \<and> ph_vaddr ph + ph_memsz ph > elf_entry h
                        then pos + elf_entry h else elf_start s);
           Some (Inr (s\<lparr>elf_vmem := m, elf_start := start, elf_pos := pos + sz\<rparr>)) }}}}"

text \<open>The loop of \<^verbatim>\<open>__elf_load_dyn\<close> with the \<^verbatim>\<open>__elf_ph_next\<close> calls: \<open>n\<close> program headers are left.\<close>

fun elf_load_loop :: "nat \<Rightarrow> (nat \<Rightarrow> u64) \<Rightarrow> file_read \<Rightarrow> elf_header \<Rightarrow> nat \<Rightarrow> elf \<Rightarrow> (errcode \<times> elf) option" where
  "elf_load_loop fuel alloc rd h 0 s = Some (if elf_start s = 0 then - ENOEXEC else 0, s)"
| "elf_load_loop fuel alloc rd h (Suc n) s =
     (if phentsize h \<noteq> 56 then Some (- ENOEXEC, s)
      else let (err, bs) = rd (phoff h + phentsize h * of_nat (phnum h - Suc n)) 56;
               s = s\<lparr>elf_ph := overlay bs (elf_ph s)\<rparr>;
               ph = elf_program_header_of (elf_ph s)
           in if err < 0 then Some (err, s)
              else if err = 0 then Some (if elf_start s = 0 then - ENOEXEC else 0, s)
              else if ph_type ph \<noteq> 1 \<or> ph_memsz ph = 0 then elf_load_loop fuel alloc rd h n s
              else do {
                r \<leftarrow> elf_load_segment fuel alloc rd h ph s;
                case r of Inl (err, s) \<Rightarrow> Some (err, s) | Inr s \<Rightarrow> elf_load_loop fuel alloc rd h n s })"

definition elf_load_dyn :: "nat \<Rightarrow> (nat \<Rightarrow> u64) \<Rightarrow> file_read \<Rightarrow> elf_header \<Rightarrow> elf \<Rightarrow> (errcode \<times> elf) option" where
  "elf_load_dyn fuel alloc rd h s = elf_load_loop fuel alloc rd h (phnum h) s"

record fmt =
  fmt_entry :: u64
  fmt_mem :: u64

text \<open>\<^verbatim>\<open>elf_load\<close>: the code, the format structure and the state. \<open>s\<close> holds the memory, with the
  context of the loader cleared.\<close>

definition elf_load :: "nat \<Rightarrow> (nat \<Rightarrow> u64) \<Rightarrow> file_read \<Rightarrow> elf \<Rightarrow> fmt \<Rightarrow> (errcode \<times> fmt \<times> elf) option" where
  "elf_load fuel alloc rd s fmt =
     (let (n, bs) = rd 0 64;
          h = elf_header_of (overlay bs (replicate 64 0));
          s = s\<lparr>elf_start := 0, elf_mem := 0, elf_pos := 0\<rparr>
      in if n < 0 then Some (n, fmt, s)
         else if elf_check h \<noteq> None then Some (- ENOEXEC, fmt, s)
         else if elf_type h \<noteq> 3 then Some (- ENOEXEC, fmt, s)
         else do {
           (err, s') \<leftarrow> elf_load_dyn fuel alloc rd h s;
           Some (err, \<lparr>fmt_entry = elf_start s', fmt_mem = elf_mem s'\<rparr>, s') })"

section \<open>Formats\<close>

text \<open>\<^verbatim>\<open>fmt_free\<close>: its first loop unmaps the first region once per region; the second frees them all.\<close>

fun fmt_unmap_loop :: "nat \<Rightarrow> nat \<Rightarrow> rst \<Rightarrow> u64 \<Rightarrow> u64 \<Rightarrow> rst option" where
  "fmt_unmap_loop 0 fuel s head cur = None"
| "fmt_unmap_loop (Suc n) fuel s head cur =
     (if cur = 0 then Some s
      else do { (_, s') \<leftarrow> region_unmap fuel s head; fmt_unmap_loop n fuel s' head (reg_next (regions s' cur)) })"

fun fmt_free_loop :: "nat \<Rightarrow> rst \<Rightarrow> u64 \<Rightarrow> rst option" where
  "fmt_free_loop 0 s cur = None"
| "fmt_free_loop (Suc n) s cur = (if cur = 0 then Some s else fmt_free_loop n (region_free s cur) (reg_next (regions s cur)))"

definition fmt_free :: "nat \<Rightarrow> rst \<Rightarrow> fmt \<Rightarrow> (fmt \<times> rst) option" where
  "fmt_free fuel s fmt = do {
     s1 \<leftarrow> fmt_unmap_loop fuel fuel s (fmt_mem fmt) (fmt_mem fmt);
     s2 \<leftarrow> fmt_free_loop fuel s1 (fmt_mem fmt);
     Some (\<lparr>fmt_entry = 0, fmt_mem = 0\<rparr>, s2) }"

text \<open>\<^verbatim>\<open>fmt_load\<close> tries the only loader of the table.\<close>

definition fmt_load :: "nat \<Rightarrow> (nat \<Rightarrow> u64) \<Rightarrow> file_read \<Rightarrow> elf \<Rightarrow> (errcode \<times> fmt \<times> elf) option" where
  "fmt_load fuel alloc rd s = do {
     (err, fmt, s1) \<leftarrow> elf_load fuel alloc rd s \<lparr>fmt_entry = 0, fmt_mem = 0\<rparr>;
     if err = 0 then Some (0, fmt, s1)
     else do {
       (fmt', r) \<leftarrow> fmt_free fuel (elf_regs s1) fmt;
       Some (err, fmt', s1\<lparr>elf_regs := r\<rparr>) }}"

section \<open>Properties\<close>

text \<open>
  A file without the ELF magic passes the header check whatever its class, byte order, machine and
  version, while a file with the magic passes exactly when all four are the supported ones.
\<close>

theorem elf_check_accepts_bad_magic:
  "(elf_check h = None) = (elf_check_magic h \<longrightarrow> ident h ! 4 = 2 \<and> ident h ! 5 = 1 \<and> machine h = 62 \<and> ident h ! 6 = 1)"
  by (simp add: elf_check_def)

theorem elf_check_accepts_bad_magic_witness:
  "elf_check (elf_header_of (replicate 64 0)) = None"
proof -
  have "replicate 4 (0 :: u8) ! 0 = 0" by simp
  then have "replicate 4 (0 :: u8) \<noteq> [0x7f, 69, 76, 70]" by (auto dest: arg_cong [where f = "\<lambda>xs. xs ! 0"])
  then show ?thesis using elf_check_accepts_bad_magic [of "elf_header_of (replicate 64 0)"]
    by (simp add: elf_header_of_def elf_check_magic_def)
qed

text \<open>The program header the loader reads at index \<open>i\<close>.\<close>

definition elf_ph_at :: "file_read \<Rightarrow> elf_header \<Rightarrow> nat \<Rightarrow> elf_program_header" where
  "elf_ph_at rd h i = elf_program_header_of (snd (rd (phoff h + phentsize h * of_nat i) 56))"

lemma elf_load_segment_start:
  assumes "elf_load_segment fuel alloc rd h ph s = Some (Inr s')"
    and "\<not> (ph_vaddr ph < elf_entry h \<and> ph_vaddr ph + ph_memsz ph > elf_entry h)"
  shows "elf_start s' = elf_start s \<and> elf_ph s' = elf_ph s"
  using assms by (auto simp: elf_load_segment_def Let_def split: bind_splits if_splits prod.splits)

lemma elf_load_segment_err:
  "elf_load_segment fuel alloc rd h ph s = Some (Inl (e, s')) \<Longrightarrow> e \<noteq> 0"
  by (auto simp: elf_load_segment_def Let_def split: bind_splits if_splits prod.splits)

lemma elf_load_loop_entry:
  assumes "\<And>i. i < phnum h \<Longrightarrow> length (snd (rd (phoff h + phentsize h * of_nat i) 56)) = 56"
    and "\<And>i. i < phnum h \<Longrightarrow> \<not> (ph_vaddr (elf_ph_at rd h i) < elf_entry h \<and>
       ph_vaddr (elf_ph_at rd h i) + ph_memsz (elf_ph_at rd h i) > elf_entry h)"
  shows "n \<le> phnum h \<Longrightarrow> elf_start s = 0 \<Longrightarrow> length (elf_ph s) = 56 \<Longrightarrow>
    elf_load_loop fuel alloc rd h n s = Some (err, s') \<Longrightarrow> err \<noteq> 0"
proof (induction n arbitrary: s)
  case (Suc n)
  let ?i = "phnum h - Suc n"
  obtain e bs where rd: "rd (phoff h + phentsize h * of_nat ?i) 56 = (e, bs)" by fastforce
  have i: "?i < phnum h" using Suc.prems(1) by simp
  let ?s = "s\<lparr>elf_ph := overlay bs (elf_ph s)\<rparr>"
  have o: "overlay bs (elf_ph s) = bs" using assms(1) [OF i] rd Suc.prems(3) by (simp add: overlay_def)
  have ph: "elf_program_header_of bs = elf_ph_at rd h ?i" using rd by (simp add: elf_ph_at_def)
  show ?case
  proof (cases "phentsize h \<noteq> 56 \<or> e \<le> 0 \<or> ph_type (elf_ph_at rd h ?i) \<noteq> 1 \<or> ph_memsz (elf_ph_at rd h ?i) = 0")
    case True
    then show ?thesis using Suc.prems Suc.IH [of ?s] rd o ph assms(1) [OF i]
      by (auto simp: Let_def split: if_splits)
  next
    case False
    then have run: "elf_load_segment fuel alloc rd h (elf_ph_at rd h ?i) ?s \<bind>
        case_sum Some (elf_load_loop fuel alloc rd h n) = Some (err, s')"
      using Suc.prems(4) rd o ph by (simp add: Let_def)
    then obtain r where r: "elf_load_segment fuel alloc rd h (elf_ph_at rd h ?i) ?s = Some r"
      by (cases "elf_load_segment fuel alloc rd h (elf_ph_at rd h ?i) ?s") auto
    show ?thesis
    proof (cases r)
      case (Inl x)
      then show ?thesis using run r elf_load_segment_err [of fuel alloc rd h "elf_ph_at rd h ?i" ?s] by (cases x) auto
    next
      case (Inr t)
      then have "elf_start t = 0 \<and> elf_ph t = bs"
        using elf_load_segment_start [of fuel alloc rd h "elf_ph_at rd h ?i" ?s t] assms(2) [OF i] r Suc.prems(2) o by simp
      then show ?thesis using run r Inr Suc.IH [of t] Suc.prems(1) assms(1) [OF i] rd by simp
    qed
  qed
qed (auto split: if_splits)


definition elf_state0 :: elf where
  "elf_state0 = \<lparr>elf_regs = rst_example, elf_vmem = (\<lambda>_. 0), elf_start = 0, elf_mem = 0, elf_pos = 0,
     elf_ph = replicate 56 0, elf_nreg = 0\<rparr>"


text \<open>
  A text segment, readable and executable but not writable in the program header, is mapped as a
  code region: its pages are writable, executable and accessible to the user.
\<close>

theorem elf_text_is_writable:
  assumes "region_map_attr r = Some attr" and "reg_type r = elf_seg_type 5" and "reg_vma r = VMM_VMA_USER"
  shows "bit (vmm_attr_to_flags attr False) 1 \<and> bit (vmm_attr_to_flags attr False) 2 \<and> \<not> bit (vmm_attr_to_flags attr False) 63"
proof -
  have "reg_type r = REGION_TYPE_CODE" using assms(2) by (simp add: elf_seg_type_def)
  then show ?thesis using region_flags [OF assms(1)] assms(3) by simp
qed

theorem elf_text_is_writable_witness:
  "\<exists>attr. region_map_attr \<lparr>reg_type = elf_seg_type 5, reg_vma = 2, reg_vaddr = 0, reg_paddr = 0, reg_num = 1, reg_next = 0\<rparr> = Some attr \<and>
     bit (vmm_attr_to_flags attr False) 1 \<and> \<not> bit (vmm_attr_to_flags attr False) 63"
  using elf_text_is_writable [of "\<lparr>reg_type = elf_seg_type 5, reg_vma = 2, reg_vaddr = 0, reg_paddr = 0, reg_num = 1, reg_next = 0\<rparr>"]
  by (simp add: elf_seg_type_def region_map_attr_def region_attr_def region_row_def region_type_data_def)

end
