(* ===== verification/Ahci.thy ===== *)
theory Ahci
  imports Disk Vmm Str_Util
begin

text \<open>
  The AHCI driver: \<^verbatim>\<open>kernel/core/ahci/port.c\<close>, \<^verbatim>\<open>cmd.c\<close>, \<^verbatim>\<open>sata.c\<close>, \<^verbatim>\<open>atapi.c\<close> and the dispatch of \<^verbatim>\<open>ahci.c\<close>. The registers of a port are
  device memory, so a read is an event: the hardware is an argument \<open>hw\<close>, which gives what a register reads after
  the accesses so far, and the bytes the device puts into memory for a command. The command
  headers and tables are ordinary memory; a table is known by its virtual address. A waiting loop polls
  at most \<open>fuel\<close> times. \<open>None\<close> is a wait that takes longer, an access outside of a table, or memory that is not mapped.
\<close>

section \<open>Registers and structures\<close>

datatype px = PxIS | PxIE | PxCMD | PxTFD | PxSIG | PxSSTS | PxSERR | PxSACT | PxCI

datatype px_event = Rd px | Wr px u32

record ahci_prd =
  dba :: u64
  dbc :: u32

record sata_fis_h2d =
  fis_type :: u8
  fis_c :: bool
  fis_command :: u8
  feature_low :: u8
  lba0 :: u8
  lba1 :: u8
  lba2 :: u8
  fis_device :: u8
  lba3 :: u8
  lba4 :: u8
  lba5 :: u8
  feature_high :: u8
  fis_count :: u16

record ahci_cmd_header =
  cfl :: u8
  h_atapi :: bool
  h_write :: bool
  prdtl :: u16
  ctba :: u64

record ahci_cmd_table =
  cfis :: sata_fis_h2d
  acmd :: "u8 list"
  prdt :: "ahci_prd list"

record ahci_hw =
  px_reads :: "px_event list \<Rightarrow> px \<Rightarrow> u32"
  px_dma :: "ahci_cmd_header \<Rightarrow> ahci_cmd_table \<Rightarrow> u8 list"

record ahci_port =
  px_log :: "px_event list"
  p_clb :: u64
  p_fb :: u64
  headers :: "ahci_cmd_header list"
  tables :: "u64 \<Rightarrow> ahci_cmd_table"

definition fis_zero :: sata_fis_h2d where
  "fis_zero = \<lparr>fis_type = 0, fis_c = False, fis_command = 0, feature_low = 0, lba0 = 0, lba1 = 0, lba2 = 0, fis_device = 0,
     lba3 = 0, lba4 = 0, lba5 = 0, feature_high = 0, fis_count = 0\<rparr>"

abbreviation (input) AHCI_PORT_CMD_LIST_COUNT :: nat where "AHCI_PORT_CMD_LIST_COUNT \<equiv> 32"
abbreviation (input) AHCI_PRDTL_MAX :: nat where "AHCI_PRDTL_MAX \<equiv> 8"
abbreviation (input) AHCI_PRD_DATA_MAX :: u64 where "AHCI_PRD_DATA_MAX \<equiv> 0x400000"
abbreviation (input) AHCI_SIGNATURE_SATA :: u32 where "AHCI_SIGNATURE_SATA \<equiv> 0x101"
abbreviation (input) AHCI_SIGNATURE_ATAPI :: u32 where "AHCI_SIGNATURE_ATAPI \<equiv> 0xEB140101"

definition table_zero :: ahci_cmd_table where
  "table_zero = \<lparr>cfis = fis_zero, acmd = replicate 16 0, prdt = replicate AHCI_PRDTL_MAX \<lparr>dba = 0, dbc = 0\<rparr>\<rparr>"

definition px_rd :: "ahci_hw \<Rightarrow> px \<Rightarrow> ahci_port \<Rightarrow> u32 \<times> ahci_port" where
  "px_rd hw r p = (px_reads hw (px_log p) r, p\<lparr>px_log := px_log p @ [Rd r]\<rparr>)"

definition px_wr :: "px \<Rightarrow> u32 \<Rightarrow> ahci_port \<Rightarrow> ahci_port" where
  "px_wr r v p = p\<lparr>px_log := px_log p @ [Wr r v]\<rparr>"

text \<open>\<^verbatim>\<open>bit_set\<close> on a register.\<close>

definition px_bit :: "ahci_hw \<Rightarrow> px \<Rightarrow> nat \<Rightarrow> bool \<Rightarrow> ahci_port \<Rightarrow> ahci_port" where
  "px_bit hw r b v p = (case px_rd hw r p of (x, p1) \<Rightarrow> px_wr r (if v then set_bit b x else unset_bit b x) p1)"

fun px_wait :: "ahci_hw \<Rightarrow> nat \<Rightarrow> px \<Rightarrow> (u32 \<Rightarrow> bool) \<Rightarrow> ahci_port \<Rightarrow> ahci_port option" where
  "px_wait hw 0 r P p = None"
| "px_wait hw (Suc fuel) r P p = (case px_rd hw r p of (x, p1) \<Rightarrow> if P x then Some p1 else px_wait hw fuel r P p1)"

section \<open>Ports\<close>

definition ahci_port_stop :: "ahci_hw \<Rightarrow> nat \<Rightarrow> ahci_port \<Rightarrow> ahci_port option" where
  "ahci_port_stop hw fuel p = do {
     p1 \<leftarrow> px_wait hw fuel PxCMD (\<lambda>x. \<not> bit x 15) (px_bit hw PxCMD 0 False p);
     px_wait hw fuel PxCMD (\<lambda>x. \<not> bit x 14) (px_bit hw PxCMD 4 False p1) }"

definition ahci_port_start :: "ahci_hw \<Rightarrow> nat \<Rightarrow> ahci_port \<Rightarrow> ahci_port option" where
  "ahci_port_start hw fuel p = do {
     p1 \<leftarrow> px_wait hw fuel PxCMD (\<lambda>x. \<not> bit x 15) p;
     Some (px_bit hw PxCMD 4 True (px_bit hw PxCMD 0 True p1)) }"

definition ahci_port_reset :: "ahci_hw \<Rightarrow> nat \<Rightarrow> ahci_port \<Rightarrow> ahci_port option" where
  "ahci_port_reset hw fuel p = do {
     p1 \<leftarrow> ahci_port_stop hw fuel p;
     let (x, p2) = px_rd hw PxSSTS p1;
     p3 \<leftarrow> px_wait hw fuel PxSSTS (\<lambda>x. x AND 0xF = 3) (px_wr PxSSTS (x AND NOT 7) p2);
     ahci_port_start hw fuel (px_wr PxSERR 0xffffffff p3) }"

definition ahci_port_is_connected :: "ahci_hw \<Rightarrow> nat \<Rightarrow> ahci_port \<Rightarrow> (bool \<times> ahci_port) option" where
  "ahci_port_is_connected hw fuel p =
     (let (x, p1) = px_rd hw PxSSTS p; (y, p2) = px_rd hw PxSSTS p1 in
      if x AND 0xF \<noteq> 3 \<or> drop_bit 8 y AND 0xF \<noteq> 1 then Some (False, p2)
      else do {
        p3 \<leftarrow> ahci_port_reset hw fuel p2;
        let (s, p4) = px_rd hw PxSIG p3;
        if s = AHCI_SIGNATURE_SATA then Some (True, p4)
        else let (s', p5) = px_rd hw PxSIG p4 in Some (s' = AHCI_SIGNATURE_ATAPI, p5) })"

text \<open>The layout of the memory of a port: the sizes of a command header, of the received FIS and of a command table are 32, 260 and 256 bytes.\<close>

function align_loop :: "nat \<Rightarrow> nat \<Rightarrow> nat" where
  "align_loop m sz = (if m = 0 \<or> sz mod m = 0 then sz else align_loop m (sz + 1))"
  by pat_completeness auto
termination
proof (relation "measure (\<lambda>(m, sz). (m - sz mod m) mod m)")
  fix m sz :: nat assume "\<not> (m = 0 \<or> sz mod m = 0)"
  then have m: "0 < m" "0 < sz mod m" "sz mod m < m" by auto
  then have "(m - (sz + 1) mod m) mod m < m - sz mod m"
    by (cases "Suc (sz mod m) = m") (auto simp: mod_Suc)
  then show "((m, sz + 1), m, sz) \<in> measure (\<lambda>(m, sz). (m - sz mod m) mod m)" using m by simp
qed simp

declare align_loop.simps [simp del]

fun table_layout :: "nat \<Rightarrow> nat \<Rightarrow> nat list \<times> nat" where
  "table_layout 0 sz = ([], sz)"
| "table_layout (Suc n) sz =
     (let off = align_loop 128 sz; (offs, end) = table_layout n (off + 256) in (off # offs, end))"

definition port_layout :: "nat \<times> nat list \<times> nat" where
  "port_layout = (let fis = align_loop 256 (32 * AHCI_PORT_CMD_LIST_COUNT) in (fis, table_layout AHCI_PORT_CMD_LIST_COUNT (fis + 260)))"

text \<open>\<^verbatim>\<open>ahci_port_setup\<close>: the returned virtual address. The result of \<^verbatim>\<open>vmm_map\<close> is not checked.\<close>

definition ahci_port_setup :: "ahci_hw \<Rightarrow> nat \<Rightarrow> vm \<Rightarrow> ahci_port \<Rightarrow> (u64 \<times> vm \<times> ahci_port) option" where
  "ahci_port_setup hw fuel s p = do {
     p1 \<leftarrow> ahci_port_stop hw fuel p;
     let (fis, offs, sz) = port_layout;
     (clb_vaddr, s1) \<leftarrow> vmm_map fuel s (vmm_calc (of_nat sz)) 1024 VMM_ATTR_NO_CACHE;
     if clb_vaddr = 0 then None
     else do {
       clb \<leftarrow> vmm_resolve s1 clb_vaddr;
       let p2 = p1\<lparr>p_clb := clb, p_fb := clb + of_nat fis, tables := (\<lambda>a. if a \<in> set (map (\<lambda>o1. clb_vaddr + of_nat o1) offs) then table_zero else tables p1 a),
             headers := map (\<lambda>o1. \<lparr>cfl = 0, h_atapi = False, h_write = False, prdtl = of_nat AHCI_PRDTL_MAX, ctba = clb + of_nat o1\<rparr>) offs\<rparr>;
       p3 \<leftarrow> ahci_port_start hw fuel (px_wr PxIE 1 (px_wr PxIS 0xffffffff p2));
       Some (clb_vaddr, s1, p3) } }"

definition ahci_port_check_error :: "ahci_hw \<Rightarrow> ahci_port \<Rightarrow> bool \<times> ahci_port" where
  "ahci_port_check_error hw p =
     (let (x, p1) = px_rd hw PxTFD p in
      if bit x 0 then (False, p1)
      else let (y, p2) = px_rd hw PxTFD p1 in (drop_bit 8 y AND 0xFF \<noteq> 1, p2))"

definition ahci_port_is_busy :: "ahci_hw \<Rightarrow> ahci_port \<Rightarrow> bool \<times> ahci_port" where
  "ahci_port_is_busy hw p =
     (let (x, p1) = px_rd hw PxTFD p in
      if bit x 7 then (True, p1) else let (y, p2) = px_rd hw PxTFD p1 in (bit y 3, p2))"

section \<open>Commands\<close>

fun slot_loop :: "ahci_hw \<Rightarrow> nat \<Rightarrow> nat \<Rightarrow> ahci_port \<Rightarrow> nat option \<times> ahci_port" where
  "slot_loop hw 0 i p = (None, p)"
| "slot_loop hw (Suc n) i p =
     (let (x, p1) = px_rd hw PxSACT p in
      if bit x i then slot_loop hw n (i + 1) p1
      else let (y, p2) = px_rd hw PxCI p1 in if bit y i then slot_loop hw n (i + 1) p2 else (Some i, p2))"

text \<open>The loop over the descriptors: \<open>n\<close> are left, \<open>i\<close> is the next.\<close>

fun prd_loop :: "vm \<Rightarrow> nat \<Rightarrow> nat \<Rightarrow> u64 \<Rightarrow> u64 \<Rightarrow> ahci_prd list \<Rightarrow> ahci_prd list option" where
  "prd_loop s 0 i data sz ps = Some ps"
| "prd_loop s (Suc n) i data sz ps =
     (if i \<ge> length ps then None
      else do {
        paddr \<leftarrow> vmm_resolve s data;
        prd_loop s n (i + 1) (data + AHCI_PRD_DATA_MAX) (sz - AHCI_PRD_DATA_MAX)
          (ps[i := \<lparr>dba = paddr, dbc = take_bit 22 (ucast (if n = 0 then sz - 1 else AHCI_PRD_DATA_MAX - 1))\<rparr>]) })"

text \<open>\<^verbatim>\<open>ahci_cmd_setup\<close>: the result, the slot and the address of the command table.\<close>

definition ahci_cmd_setup :: "ahci_hw \<Rightarrow> vm \<Rightarrow> u64 \<Rightarrow> u64 \<Rightarrow> u64 \<Rightarrow> u64 \<Rightarrow> ahci_port \<Rightarrow> (errcode \<times> nat \<times> u64 \<times> ahci_port) option" where
  "ahci_cmd_setup hw s vaddr fis_size data_size data p =
     (case slot_loop hw AHCI_PORT_CMD_LIST_COUNT 0 p of
        (None, p1) \<Rightarrow> Some (- EFAULT, 0, 0, p1)
      | (Some slot, p1) \<Rightarrow>
          if fis_size mod 4 \<noteq> 0 then Some (- EFAULT, slot, 0, p1)
          else if slot \<ge> length (headers p1) then None
          else do {
            n \<leftarrow> div_ceil data_size AHCI_PRD_DATA_MAX;
            let h = (headers p1 ! slot)\<lparr>cfl := take_bit 5 (ucast (fis_size div 4)), prdtl := ucast n\<rparr>;
            let table = vaddr + (ctba h - p_clb p1);
            prds \<leftarrow> prd_loop s (unat (prdtl h)) 0 data data_size (prdt table_zero);
            Some (0, slot, table, p1\<lparr>headers := (headers p1)[slot := h], tables := (tables p1)(table := table_zero\<lparr>prdt := prds\<rparr>)\<rparr>) })"

fun busy_loop :: "ahci_hw \<Rightarrow> nat \<Rightarrow> ahci_port \<Rightarrow> ahci_port option" where
  "busy_loop hw 0 p = None"
| "busy_loop hw (Suc fuel) p = (case ahci_port_is_busy hw p of (b, p1) \<Rightarrow> if b then busy_loop hw fuel p1 else Some p1)"

fun issue_loop :: "ahci_hw \<Rightarrow> nat \<Rightarrow> nat \<Rightarrow> ahci_port \<Rightarrow> (errcode \<times> ahci_port) option" where
  "issue_loop hw 0 slot p = None"
| "issue_loop hw (Suc fuel) slot p =
     (let (x, p1) = px_rd hw PxCI p; (ok, p2) = ahci_port_check_error hw p1 in
      if bit x slot then (if \<not> ok then Some (- EIO, p2) else issue_loop hw fuel slot p2)
      else Some (if ok then 0 else - EIO, p2))"

definition ahci_cmd_issue :: "ahci_hw \<Rightarrow> nat \<Rightarrow> nat \<Rightarrow> ahci_port \<Rightarrow> (errcode \<times> ahci_port) option" where
  "ahci_cmd_issue hw fuel slot p = do {
     p1 \<leftarrow> busy_loop hw fuel p;
     issue_loop hw fuel slot (px_bit hw PxCI slot True p1) }"

section \<open>SATA\<close>

abbreviation (input) AHCI_ATA_PACKET :: u8 where "AHCI_ATA_PACKET \<equiv> 0xa0"
abbreviation (input) AHCI_ATA_READ_DMA_EXT :: u8 where "AHCI_ATA_READ_DMA_EXT \<equiv> 0x25"
abbreviation (input) AHCI_ATA_WRITE_DMA_EXT :: u8 where "AHCI_ATA_WRITE_DMA_EXT \<equiv> 0x35"
abbreviation (input) AHCI_ATA_IDENTIFY_DEVICE :: u8 where "AHCI_ATA_IDENTIFY_DEVICE \<equiv> 0xec"
abbreviation (input) SATA_FIS_REG_H2D :: u8 where "SATA_FIS_REG_H2D \<equiv> 0x27"

record ahci_sata_cmd =
  sata_cmd :: u8
  sata_device :: u8
  use_sectors :: bool
  use_lba :: bool

definition ahci_sata_cmds :: "ahci_sata_cmd list" where
  "ahci_sata_cmds =
     [\<lparr>sata_cmd = AHCI_ATA_READ_DMA_EXT, sata_device = push_bit 6 1, use_sectors = True, use_lba = True\<rparr>,
      \<lparr>sata_cmd = AHCI_ATA_WRITE_DMA_EXT, sata_device = push_bit 6 1, use_sectors = True, use_lba = True\<rparr>,
      \<lparr>sata_cmd = AHCI_ATA_IDENTIFY_DEVICE, sata_device = 0, use_sectors = False, use_lba = False\<rparr>]"

definition ahci_sata_find_props :: "u8 \<Rightarrow> ahci_sata_cmd option" where
  "ahci_sata_find_props cmd = find (\<lambda>c. sata_cmd c = cmd) ahci_sata_cmds"

definition ahci_sata_new :: "u8 \<Rightarrow> u64 \<Rightarrow> u64 \<Rightarrow> sata_fis_h2d option" where
  "ahci_sata_new cmd lba sector_count =
     map_option (\<lambda>c.
       let f = fis_zero\<lparr>fis_type := SATA_FIS_REG_H2D, fis_c := True, fis_command := cmd, fis_device := sata_device c\<rparr>;
           f = (if use_lba c then f\<lparr>lba0 := ucast (lba AND 0xFF), lba1 := ucast (drop_bit 8 lba AND 0xFF), lba2 := ucast (drop_bit 16 lba AND 0xFF),
                  lba3 := ucast (drop_bit 24 lba AND 0xFF), lba4 := ucast (drop_bit 32 lba AND 0xFF), lba5 := ucast (drop_bit 40 lba AND 0xFF)\<rparr> else f)
       in if use_sectors c then f\<lparr>fis_count := ucast sector_count\<rparr> else f)
       (ahci_sata_find_props cmd)"

definition upd_header :: "nat \<Rightarrow> (ahci_cmd_header \<Rightarrow> ahci_cmd_header) \<Rightarrow> ahci_port \<Rightarrow> ahci_port" where
  "upd_header slot f p = p\<lparr>headers := (headers p)[slot := f (headers p ! slot)]\<rparr>"

definition upd_table :: "u64 \<Rightarrow> (ahci_cmd_table \<Rightarrow> ahci_cmd_table) \<Rightarrow> ahci_port \<Rightarrow> ahci_port" where
  "upd_table a f p = p\<lparr>tables := (tables p)(a := f (tables p a))\<rparr>"

text \<open>A transfer: the result and, for a read, the bytes the device puts into the buffer at \<open>buf\<close>.\<close>

definition ahci_sata_port_read :: "ahci_hw \<Rightarrow> nat \<Rightarrow> vm \<Rightarrow> u64 \<Rightarrow> disk \<Rightarrow> u64 \<Rightarrow> u64 \<Rightarrow> u64 \<Rightarrow> ahci_port \<Rightarrow> (errcode \<times> u8 list \<times> ahci_port) option" where
  "ahci_sata_port_read hw fuel s vaddr d lba sector_count buf p = do {
     (err, slot, table, p1) \<leftarrow> ahci_cmd_setup hw s vaddr 20 (sector_count * sector_size d) buf p;
     if err \<noteq> 0 then Some (err, [], p1)
     else let p2 = upd_header slot (h_write_update (\<lambda>_. False)) (px_wr PxIS 0xffffffff p1) in
       case ahci_sata_new AHCI_ATA_READ_DMA_EXT lba sector_count of None \<Rightarrow> Some (- EFAULT, [], p2)
       | Some fis \<Rightarrow> do {
           (err, p3) \<leftarrow> ahci_cmd_issue hw fuel slot (upd_table table (cfis_update (\<lambda>_. fis)) p2);
           Some (err, px_dma hw (headers p3 ! slot) (tables p3 table), p3) } }"

definition ahci_sata_port_write :: "ahci_hw \<Rightarrow> nat \<Rightarrow> vm \<Rightarrow> u64 \<Rightarrow> disk \<Rightarrow> u64 \<Rightarrow> u64 \<Rightarrow> u64 \<Rightarrow> ahci_port \<Rightarrow> (errcode \<times> ahci_port) option" where
  "ahci_sata_port_write hw fuel s vaddr d lba sector_count buf p = do {
     (err, slot, table, p1) \<leftarrow> ahci_cmd_setup hw s vaddr 20 (sector_count * sector_size d) buf p;
     if err \<noteq> 0 then Some (err, p1)
     else let p2 = upd_header slot (h_write_update (\<lambda>_. True)) (px_wr PxIS 0xffffffff p1) in
       case ahci_sata_new AHCI_ATA_WRITE_DMA_EXT lba sector_count of None \<Rightarrow> Some (- EFAULT, p2)
       | Some fis \<Rightarrow> ahci_cmd_issue hw fuel slot (upd_table table (cfis_update (\<lambda>_. fis)) p2) }"

definition buffer_of :: "nat \<Rightarrow> u8 list \<Rightarrow> u8 list" where
  "buffer_of n bs = take n (bs @ replicate n 0)"

definition model_text :: "u8 list \<Rightarrow> buf" where
  "model_text info = concat (map (\<lambda>k. [info ! (54 + 2 * k + 1), info ! (54 + 2 * k)]) [0..<20]) @ [0]"

definition has_word :: "buf \<Rightarrow> u8 list \<Rightarrow> bool" where
  "has_word model w \<longleftrightarrow> (case strstr model (w @ [0]) of Some (Some _) \<Rightarrow> True | _ \<Rightarrow> False)"

definition disk_type_of :: "buf \<Rightarrow> disk_type \<Rightarrow> disk_type" where
  "disk_type_of model k =
     (if has_word model [72, 65, 82, 68, 68, 73, 83, 75] \<or> has_word model [72, 68, 68] then DISK_TYPE_HDD
      else if has_word model [83, 79, 76, 73, 68, 83, 84, 65, 84, 69] \<or> has_word model [83, 83, 68] then DISK_TYPE_SSD
      else if has_word model [67, 68] \<or> has_word model [68, 86, 68] then DISK_TYPE_OPTICAL
      else k)"

definition info16 :: "u8 list \<Rightarrow> nat \<Rightarrow> u64" where
  "info16 info i = ucast (info ! (2 * i)) OR push_bit 8 (ucast (info ! (2 * i + 1)))"

definition info_size :: "u8 list \<Rightarrow> u64" where
  "info_size info =
     (if bit (info16 info 100) 10 then push_bit 32 (info16 info 102) OR push_bit 16 (info16 info 101) OR info16 info 100
      else push_bit 16 (info16 info 61) OR info16 info 60)"

definition ahci_sata_port_info :: "ahci_hw \<Rightarrow> nat \<Rightarrow> vm \<Rightarrow> u64 \<Rightarrow> disk \<Rightarrow> u64 \<Rightarrow> ahci_port \<Rightarrow> (errcode \<times> disk \<times> ahci_port) option" where
  "ahci_sata_port_info hw fuel s vaddr d buf p = do {
     (err, slot, table, p1) \<leftarrow> ahci_cmd_setup hw s vaddr 20 512 buf p;
     if err \<noteq> 0 then Some (err, d, p1)
     else let p2 = upd_header slot (h_write_update (\<lambda>_. False)) (px_wr PxIS 0xffffffff p1) in
       case ahci_sata_new AHCI_ATA_IDENTIFY_DEVICE 0 0 of None \<Rightarrow> Some (- EFAULT, d, p2)
       | Some fis \<Rightarrow> do {
           (err, p3) \<leftarrow> ahci_cmd_issue hw fuel slot (upd_table table (cfis_update (\<lambda>_. fis)) p2);
           if err \<noteq> 0 then Some (err, d, p3)
           else let info = buffer_of 512 (px_dma hw (headers p3 ! slot) (tables p3 table)) in
             Some (0, d\<lparr>disk_kind := disk_type_of (model_text info) (disk_kind d), disk_size := info_size info * (8 * sector_size d)\<rparr>, p3) } }"

section \<open>ATAPI\<close>

abbreviation (input) AHCI_ATAPI_INQUIRY :: u8 where "AHCI_ATAPI_INQUIRY \<equiv> 0x12"
abbreviation (input) AHCI_ATAPI_READ_CAPACITY :: u8 where "AHCI_ATAPI_READ_CAPACITY \<equiv> 0x25"
abbreviation (input) AHCI_ATAPI_READ :: u8 where "AHCI_ATAPI_READ \<equiv> 0xA8"
abbreviation (input) AHCI_ATAPI_WRITE :: u8 where "AHCI_ATAPI_WRITE \<equiv> 0xAA"

definition ahci_atapi_cfis_setup :: "sata_fis_h2d \<Rightarrow> sata_fis_h2d" where
  "ahci_atapi_cfis_setup f = f\<lparr>fis_type := SATA_FIS_REG_H2D, fis_command := AHCI_ATA_PACKET, fis_c := True, feature_low := 1 OR push_bit 2 1\<rparr>"

text \<open>The packet of a transfer: operation, block address and number of blocks, most significant byte first.\<close>

definition atapi_packet :: "u8 \<Rightarrow> u64 \<Rightarrow> u64 \<Rightarrow> u8 list \<Rightarrow> u8 list" where
  "atapi_packet cmd lba n a =
     a[0 := cmd, 2 := ucast (drop_bit 24 lba AND 0xff), 3 := ucast (drop_bit 16 lba AND 0xff), 4 := ucast (drop_bit 8 lba AND 0xff),
       5 := ucast (lba AND 0xff), 6 := ucast (drop_bit 24 n AND 0xff), 7 := ucast (drop_bit 16 n AND 0xff),
       8 := ucast (drop_bit 8 n AND 0xff), 9 := ucast (n AND 0xff)]"

text \<open>The steps that every ATAPI operation takes: \<open>f\<close> fills in the packet.\<close>

definition atapi_run :: "ahci_hw \<Rightarrow> nat \<Rightarrow> vm \<Rightarrow> u64 \<Rightarrow> bool \<Rightarrow> u64 \<Rightarrow> u64 \<Rightarrow> (u8 list \<Rightarrow> u8 list) \<Rightarrow> ahci_port \<Rightarrow> (errcode \<times> u8 list \<times> ahci_port) option" where
  "atapi_run hw fuel s vaddr wr data_size buf f p = do {
     (err, slot, table, p1) \<leftarrow> ahci_cmd_setup hw s vaddr 20 data_size buf p;
     if err \<noteq> 0 then Some (err, [], p1)
     else do {
       let p2 = upd_header slot (\<lambda>h. h\<lparr>h_write := wr, h_atapi := True\<rparr>) (px_wr PxIS 0xffffffff p1);
       (err, p3) \<leftarrow> ahci_cmd_issue hw fuel slot (upd_table table (\<lambda>t. t\<lparr>cfis := ahci_atapi_cfis_setup (cfis t), acmd := f (acmd t)\<rparr>) p2);
       Some (err, px_dma hw (headers p3 ! slot) (tables p3 table), p3) } }"

definition ahci_atapi_port_read :: "ahci_hw \<Rightarrow> nat \<Rightarrow> vm \<Rightarrow> u64 \<Rightarrow> disk \<Rightarrow> u64 \<Rightarrow> u64 \<Rightarrow> u64 \<Rightarrow> ahci_port \<Rightarrow> (errcode \<times> u8 list \<times> ahci_port) option" where
  "ahci_atapi_port_read hw fuel s vaddr d lba sector_count buf p =
     atapi_run hw fuel s vaddr False (sector_count * sector_size d) buf (atapi_packet AHCI_ATAPI_READ lba sector_count) p"

definition ahci_atapi_port_write :: "ahci_hw \<Rightarrow> nat \<Rightarrow> vm \<Rightarrow> u64 \<Rightarrow> disk \<Rightarrow> u64 \<Rightarrow> u64 \<Rightarrow> u64 \<Rightarrow> ahci_port \<Rightarrow> (errcode \<times> ahci_port) option" where
  "ahci_atapi_port_write hw fuel s vaddr d lba sector_count buf p =
     map_option (\<lambda>(err, _, p1). (err, p1))
       (atapi_run hw fuel s vaddr True (sector_count * sector_size d) buf (atapi_packet AHCI_ATAPI_WRITE lba sector_count) p)"

definition ahci_atapi_port_inquiry :: "ahci_hw \<Rightarrow> nat \<Rightarrow> vm \<Rightarrow> u64 \<Rightarrow> disk \<Rightarrow> u64 \<Rightarrow> ahci_port \<Rightarrow> (errcode \<times> disk \<times> ahci_port) option" where
  "ahci_atapi_port_inquiry hw fuel s vaddr d buf p = do {
     (err, bs, p1) \<leftarrow> atapi_run hw fuel s vaddr False 36 buf (\<lambda>a. a[0 := AHCI_ATAPI_INQUIRY, 3 := 0, 4 := 36]) p;
     if err \<noteq> 0 then Some (err, d, p1)
     else let k = buffer_of 36 bs ! 0 AND 0x1f in
       Some (0, if k = 0 \<or> k = 0xe then d\<lparr>disk_kind := DISK_TYPE_HDD\<rparr> else if k = 5 then d\<lparr>disk_kind := DISK_TYPE_OPTICAL\<rparr> else d, p1) }"

text \<open>Four bytes, most significant first, put together as an \<^verbatim>\<open>int\<close> and widened with its sign.\<close>

definition be32 :: "u8 list \<Rightarrow> nat \<Rightarrow> u64" where
  "be32 bs i = scast (ucast (bs ! (i + 3)) OR push_bit 8 (ucast (bs ! (i + 2))) OR push_bit 16 (ucast (bs ! (i + 1))) OR push_bit 24 (ucast (bs ! i)) :: u32)"

definition ahci_atapi_port_capacity :: "ahci_hw \<Rightarrow> nat \<Rightarrow> vm \<Rightarrow> u64 \<Rightarrow> disk \<Rightarrow> u64 \<Rightarrow> ahci_port \<Rightarrow> (errcode \<times> disk \<times> ahci_port) option" where
  "ahci_atapi_port_capacity hw fuel s vaddr d buf p = do {
     (err, bs, p1) \<leftarrow> atapi_run hw fuel s vaddr False 8 buf (\<lambda>a. a[0 := AHCI_ATAPI_READ_CAPACITY]) p;
     if err \<noteq> 0 then Some (err, d, p1)
     else let c = buffer_of 8 bs in Some (0, d\<lparr>sector_size := be32 c 4, disk_size := scast (ucast (be32 c 0) + 1 :: u32) * be32 c 4\<rparr>, p1) }"

definition ahci_atapi_port_info :: "ahci_hw \<Rightarrow> nat \<Rightarrow> vm \<Rightarrow> u64 \<Rightarrow> disk \<Rightarrow> u64 \<Rightarrow> ahci_port \<Rightarrow> (errcode \<times> disk \<times> ahci_port) option" where
  "ahci_atapi_port_info hw fuel s vaddr d buf p = do {
     (err, d1, p1) \<leftarrow> ahci_atapi_port_inquiry hw fuel s vaddr d buf p;
     if err \<noteq> 0 then Some (err, d1, p1) else ahci_atapi_port_capacity hw fuel s vaddr d1 buf p1 }"

text \<open>The function that nothing calls: the test of the write protection compares bit 7 with 1.\<close>

definition ahci_atapi_port_mode_sense :: "ahci_hw \<Rightarrow> nat \<Rightarrow> vm \<Rightarrow> u64 \<Rightarrow> disk \<Rightarrow> u64 \<Rightarrow> ahci_port \<Rightarrow> (errcode \<times> disk \<times> ahci_port) option" where
  "ahci_atapi_port_mode_sense hw fuel s vaddr d buf p = do {
     (err, bs, p1) \<leftarrow> atapi_run hw fuel s vaddr False 254 buf (\<lambda>a. a[0 := 0x5A, 2 := 0x3F, 7 := 0, 8 := 254]) p;
     if err \<noteq> 0 then Some (err, d, p1)
     else Some (0, d\<lparr>read_only := (buffer_of 254 bs ! 3 AND push_bit 7 1 = 1)\<rparr>, p1) }"

section \<open>Dispatch\<close>

datatype ahci_protocol = AHCI_PROTOCOL_SATA | AHCI_PROTOCOL_ATAPI

text \<open>
  The functions of the table, by protocol and operation, and the table without them. \<open>stk\<close> is where the local buffers of the
  information requests lie.
\<close>

definition ahci_func :: "ahci_hw \<Rightarrow> nat \<Rightarrow> vm \<Rightarrow> u64 \<Rightarrow> ahci_protocol \<times> disk_op \<Rightarrow> disk \<Rightarrow> u64 \<Rightarrow> u64 \<Rightarrow> u64 \<Rightarrow> u64 \<Rightarrow> ahci_port \<Rightarrow>
    (errcode \<times> u8 list \<times> disk \<times> ahci_port) option" where
  "ahci_func hw fuel s vaddr f d stk lba sector_count buf p =
     (case f of
        (AHCI_PROTOCOL_SATA, DISK_OP_READ) \<Rightarrow> map_option (\<lambda>(e, bs, p1). (e, bs, d, p1)) (ahci_sata_port_read hw fuel s vaddr d lba sector_count buf p)
      | (AHCI_PROTOCOL_SATA, DISK_OP_WRITE) \<Rightarrow> map_option (\<lambda>(e, p1). (e, [], d, p1)) (ahci_sata_port_write hw fuel s vaddr d lba sector_count buf p)
      | (AHCI_PROTOCOL_SATA, DISK_OP_INFO) \<Rightarrow> map_option (\<lambda>(e, d1, p1). (e, [], d1, p1)) (ahci_sata_port_info hw fuel s vaddr d stk p)
      | (AHCI_PROTOCOL_ATAPI, DISK_OP_READ) \<Rightarrow> map_option (\<lambda>(e, bs, p1). (e, bs, d, p1)) (ahci_atapi_port_read hw fuel s vaddr d lba sector_count buf p)
      | (AHCI_PROTOCOL_ATAPI, DISK_OP_WRITE) \<Rightarrow> map_option (\<lambda>(e, p1). (e, [], d, p1)) (ahci_atapi_port_write hw fuel s vaddr d lba sector_count buf p)
      | (AHCI_PROTOCOL_ATAPI, DISK_OP_INFO) \<Rightarrow> map_option (\<lambda>(e, d1, p1). (e, [], d1, p1)) (ahci_atapi_port_info hw fuel s vaddr d stk p))"

record ahci_protocol_func =
  pf_protocol :: ahci_protocol
  pf_op :: disk_op
  pf_needs_buffer :: bool

definition ahci_protocol_funcs :: "ahci_protocol_func list" where
  "ahci_protocol_funcs =
     [\<lparr>pf_protocol = AHCI_PROTOCOL_SATA, pf_op = DISK_OP_READ, pf_needs_buffer = True\<rparr>,
      \<lparr>pf_protocol = AHCI_PROTOCOL_SATA, pf_op = DISK_OP_WRITE, pf_needs_buffer = True\<rparr>,
      \<lparr>pf_protocol = AHCI_PROTOCOL_SATA, pf_op = DISK_OP_INFO, pf_needs_buffer = False\<rparr>,
      \<lparr>pf_protocol = AHCI_PROTOCOL_ATAPI, pf_op = DISK_OP_READ, pf_needs_buffer = True\<rparr>,
      \<lparr>pf_protocol = AHCI_PROTOCOL_ATAPI, pf_op = DISK_OP_WRITE, pf_needs_buffer = True\<rparr>,
      \<lparr>pf_protocol = AHCI_PROTOCOL_ATAPI, pf_op = DISK_OP_INFO, pf_needs_buffer = False\<rparr>]"

text \<open>
  \<^verbatim>\<open>ahci_do\<close>: the result, the bytes stored into the buffer, the disk and the port.
\<close>

definition ahci_do :: "ahci_hw \<Rightarrow> nat \<Rightarrow> vm \<Rightarrow> u64 \<Rightarrow> ahci_protocol \<Rightarrow> disk \<Rightarrow> u64 \<Rightarrow> disk_op \<Rightarrow> u64 \<Rightarrow> u64 \<Rightarrow> u64 \<Rightarrow> ahci_port \<Rightarrow>
    (errcode \<times> u8 list \<times> disk \<times> ahci_port) option" where
  "ahci_do hw fuel s vaddr proto d stk op lba sector_count buf p =
     (case find (\<lambda>pf. pf_op pf = op \<and> pf_protocol pf = proto) ahci_protocol_funcs of
        None \<Rightarrow> Some (- EINVAL, [], d, p)
      | Some pf \<Rightarrow>
          if pf_needs_buffer pf \<and> (buf = 0 \<or> sector_count = 0) then Some (- EINVAL, [], d, p)
          else ahci_func hw fuel s vaddr (pf_protocol pf, pf_op pf) d stk lba sector_count buf p)"

text \<open>The table has an entry for every protocol and operation.\<close>

lemma ahci_do_cases:
  "ahci_do hw fuel s vaddr proto d stk op lba sector_count buf p =
     (if op \<noteq> DISK_OP_INFO \<and> (buf = 0 \<or> sector_count = 0) then Some (- EINVAL, [], d, p)
      else ahci_func hw fuel s vaddr (proto, op) d stk lba sector_count buf p)"
  by (cases proto; cases op) (simp_all add: ahci_do_def ahci_protocol_funcs_def)

section \<open>Bringing up the controller\<close>

text \<open>
  \<^verbatim>\<open>ahci_init\<close>. The registers of the controller are device memory like those of the ports. \<open>port_dev\<close> is the disk
  behind a port as the partition scan sees it, and allocations succeed, as the code assumes.
\<close>

datatype hba_reg = HbaGHC | HbaIS | HbaPI | HbaVS | HbaCAP2 | HbaBOHC

datatype hba_event = HRd hba_reg | HWr hba_reg u32

record ahci_hba =
  hba_reads :: "hba_event list \<Rightarrow> hba_reg \<Rightarrow> u32"
  hba_abar :: u32
  port_hw :: "nat \<Rightarrow> ahci_hw"
  port_dev :: "nat \<Rightarrow> disk_dev"

record ahci_port_data =
  pd_index :: nat
  pd_protocol :: ahci_protocol
  pd_vaddr :: u64

record ahci_drv =
  hba_log :: "hba_event list"
  drv_vm :: vm
  drv_ports :: "nat \<Rightarrow> ahci_port"
  drv_disks :: "disk list"
  drv_data :: "ahci_port_data list"

definition hba_rd :: "ahci_hba \<Rightarrow> hba_reg \<Rightarrow> ahci_drv \<Rightarrow> u32 \<times> ahci_drv" where
  "hba_rd hba r s = (hba_reads hba (hba_log s) r, s\<lparr>hba_log := hba_log s @ [HRd r]\<rparr>)"

definition hba_wr :: "hba_reg \<Rightarrow> u32 \<Rightarrow> ahci_drv \<Rightarrow> ahci_drv" where
  "hba_wr r v s = s\<lparr>hba_log := hba_log s @ [HWr r v]\<rparr>"

definition hba_bit :: "ahci_hba \<Rightarrow> hba_reg \<Rightarrow> nat \<Rightarrow> bool \<Rightarrow> ahci_drv \<Rightarrow> ahci_drv" where
  "hba_bit hba r b v s = (case hba_rd hba r s of (x, s1) \<Rightarrow> hba_wr r (if v then set_bit b x else unset_bit b x) s1)"

fun bohc_wait :: "ahci_hba \<Rightarrow> nat \<Rightarrow> ahci_drv \<Rightarrow> ahci_drv option" where
  "bohc_wait hba 0 s = None"
| "bohc_wait hba (Suc fuel) s =
     (let (x, s1) = hba_rd hba HbaBOHC s in
      if \<not> bit x 1 then bohc_wait hba fuel s1
      else let (y, s2) = hba_rd hba HbaBOHC s1 in if bit y 0 then bohc_wait hba fuel s2 else Some s2)"

fun ghc_wait :: "ahci_hba \<Rightarrow> nat \<Rightarrow> ahci_drv \<Rightarrow> ahci_drv option" where
  "ghc_wait hba 0 s = None"
| "ghc_wait hba (Suc fuel) s = (let (x, s1) = hba_rd hba HbaGHC s in if bit x 0 then ghc_wait hba fuel s1 else Some s1)"

definition hba_own :: "ahci_hba \<Rightarrow> nat \<Rightarrow> ahci_drv \<Rightarrow> ahci_drv option" where
  "hba_own hba fuel s =
     (let (x, s1) = hba_rd hba HbaCAP2 s in
      if \<not> bit x 0 then Some s1
      else let (y, s2) = hba_rd hba HbaBOHC s1 in
        if bit y 1 then Some s2 else bohc_wait hba fuel (hba_bit hba HbaBOHC 1 True s2))"

definition hba_reset :: "ahci_hba \<Rightarrow> nat \<Rightarrow> ahci_drv \<Rightarrow> ahci_drv option" where
  "hba_reset hba fuel s = do {
     s1 \<leftarrow> ghc_wait hba fuel (hba_bit hba HbaGHC 0 True s);
     Some (hba_wr HbaIS 0xffffffff (hba_bit hba HbaGHC 1 False (hba_bit hba HbaGHC 31 True s1))) }"

text \<open>One port of the enumeration; its disk goes to the front of the list.\<close>

definition ahci_init_port :: "ahci_hba \<Rightarrow> nat \<Rightarrow> nat \<Rightarrow> ahci_drv \<Rightarrow> ahci_drv option" where
  "ahci_init_port hba fuel i s =
     (let (x, s1) = hba_rd hba HbaPI s in
      if \<not> bit x i then Some s1
      else do {
        (connected, p1) \<leftarrow> ahci_port_is_connected (port_hw hba i) fuel (drv_ports s1 i);
        if \<not> connected then Some (s1\<lparr>drv_ports := (drv_ports s1)(i := p1)\<rparr>)
        else do {
          (vaddr, vm, p2) \<leftarrow> ahci_port_setup (port_hw hba i) fuel (drv_vm s1) p1;
          let (sig, p3) = px_rd (port_hw hba i) PxSIG p2;
          let (_, p4) = px_rd (port_hw hba i) PxSIG p3;
          (_, d) \<leftarrow> disk_part_scan True (port_dev hba i) (disk_new DISK_CONTROLLER_AHCI);
          Some (s1\<lparr>drv_vm := vm, drv_ports := (drv_ports s1)(i := p4), drv_disks := d # drv_disks s1,
            drv_data := \<lparr>pd_index = i, pd_protocol = (if sig = AHCI_SIGNATURE_ATAPI then AHCI_PROTOCOL_ATAPI else AHCI_PROTOCOL_SATA),
              pd_vaddr = vaddr\<rparr> # drv_data s1\<rparr>) } })"

fun ahci_init_ports :: "ahci_hba \<Rightarrow> nat \<Rightarrow> nat \<Rightarrow> nat \<Rightarrow> ahci_drv \<Rightarrow> ahci_drv option" where
  "ahci_init_ports hba fuel 0 i s = Some s"
| "ahci_init_ports hba fuel (Suc n) i s = do { s1 \<leftarrow> ahci_init_port hba fuel i s; ahci_init_ports hba fuel n (i + 1) s1 }"

definition ahci_init :: "ahci_hba \<Rightarrow> nat \<Rightarrow> ahci_drv \<Rightarrow> (errcode \<times> ahci_drv) option" where
  "ahci_init hba fuel s = do {
     (base, vm) \<leftarrow> vmm_map_paddr fuel (drv_vm s) (ucast (hba_abar hba) AND 0xfffffff0) (vmm_calc 4352) (VMM_ATTR_NO_CACHE OR VMM_ATTR_SAVE);
     if base = 0 then None
     else do {
       s1 \<leftarrow> hba_own hba fuel (s\<lparr>drv_vm := vm\<rparr>);
       s2 \<leftarrow> hba_reset hba fuel s1;
       s3 \<leftarrow> ahci_init_ports hba fuel 32 0 (snd (hba_rd hba HbaVS (snd (hba_rd hba HbaVS s2))));
       Some (0, s3) } }"

section \<open>Layout\<close>

lemma align_loop_up:
  assumes "0 < m"
  shows "align_loop m sz = (sz + (m - 1)) div m * m"
  using assms
proof (induction m sz rule: align_loop.induct)
  case (1 m sz)
  show ?case
  proof (cases "sz mod m = 0")
    case True
    then obtain k where "sz = m * k" by auto
    moreover have "(m * k + (m - 1)) div m = k" using "1.prems" by (intro div_nat_eqI) (auto simp: ac_simps)
    moreover have "align_loop m sz = sz" using True by (simp add: align_loop.simps [of m sz])
    ultimately show ?thesis by simp
  next
    case False
    have "sz + 1 + (m - 1) = sz div m * m + sz mod m + m" using "1.prems" by simp
    then have "(sz + 1 + (m - 1)) div m = Suc (sz div m)" using "1.prems" by (metis add.assoc div_mult_mod_eq div_add_self2 less_numeral_extra(3) Suc_eq_plus1)
    moreover have "sz + (m - 1) = sz div m * m + m + (sz mod m - 1)"
      using False "1.prems" div_mult_mod_eq [of sz m] by linarith
    then have "(sz + (m - 1)) div m = Suc (sz div m) + (sz mod m - 1) div m" using "1.prems"
      by (metis add.assoc add.commute div_mult_self3 mult_Suc less_numeral_extra(3))
    moreover have "(sz mod m - 1) div m = 0" using "1.prems" mod_less_divisor [of m sz] by (simp add: less_imp_diff_less)
    ultimately show ?thesis using False "1.IH" "1.prems" by (simp add: align_loop.simps [of m sz])
  qed
qed

lemma table_layout_aligned:
  "128 dvd sz \<Longrightarrow> table_layout n sz = (map (\<lambda>i. sz + 256 * i) [0..<n], sz + 256 * n)"
proof (induction n arbitrary: sz)
  case (Suc n)
  have a: "align_loop 128 sz = sz" using Suc.prems by (simp add: align_loop.simps)
  have "128 dvd sz + 256" using Suc.prems by (simp add: dvd_add)
  from Suc.IH [OF this] show ?case
    by (simp add: a upt_conv_Cons map_Suc_upt [symmetric] comp_def del: upt_Suc)
qed simp

lemma port_layout_value: "port_layout = (1024, map (\<lambda>i. 1408 + 256 * i) [0..<32], 9600)"
proof -
  have "table_layout (Suc 31) 1284 = table_layout (Suc 31) 1408" unfolding table_layout.simps by (simp add: align_loop_up)
  then have "table_layout 32 1284 = table_layout 32 1408" by simp
  then show ?thesis by (simp add: port_layout_def align_loop_up table_layout_aligned Let_def del: upt_rec_numeral)
qed

section \<open>Waiting\<close>

text \<open>
  A drive that completes commands: it is never busy for more than \<open>n\<close> polls, a command is done within \<open>n\<close> polls and the
  status never shows an error.
\<close>

definition drive_ok :: "ahci_hw \<Rightarrow> nat \<Rightarrow> bool" where
  "drive_ok hw n \<longleftrightarrow> (\<forall>log. \<not> bit (px_reads hw log PxTFD) 0 \<and> drop_bit 8 (px_reads hw log PxTFD) AND 0xFF \<noteq> 1 \<and>
     \<not> bit (px_reads hw log PxTFD) 7 \<and> \<not> bit (px_reads hw log PxTFD) 3) \<and>
     (\<forall>log b. \<exists>k < n. \<not> bit (px_reads hw (log @ concat (replicate k [Rd PxCI, Rd PxTFD, Rd PxTFD])) PxCI) b)"

lemma px_log_simps [simp]:
  "px_log (px_wr r v p) = px_log p @ [Wr r v]" "headers (px_wr r v p) = headers p" "tables (px_wr r v p) = tables p"
  "p_clb (px_wr r v p) = p_clb p"
  by (simp_all add: px_wr_def)

lemma check_error_ok:
  assumes "drive_ok hw n"
  shows "ahci_port_check_error hw p = (True, p\<lparr>px_log := px_log p @ [Rd PxTFD, Rd PxTFD]\<rparr>)"
  using assms by (simp add: ahci_port_check_error_def px_rd_def drive_ok_def)

text \<open>Reading registers does not change which slots are in use.\<close>

definition reads_only :: "px_event list \<Rightarrow> bool" where
  "reads_only log \<longleftrightarrow> list_all (\<lambda>e. case e of Rd _ \<Rightarrow> True | Wr _ _ \<Rightarrow> False) log"

lemma reads_only_simps [simp]:
  "reads_only []" "reads_only (Rd r # log) = reads_only log" "\<not> reads_only (Wr r v # log)"
  "reads_only (log1 @ log2) = (reads_only log1 \<and> reads_only log2)"
  by (simp_all add: reads_only_def)

lemma px_log_again [simp]: "p\<lparr>px_log := l1, px_log := l2\<rparr> = p\<lparr>px_log := l2\<rparr>" "p\<lparr>px_log := px_log p\<rparr> = p"
  by simp_all

lemma issue_loop_done:
  assumes "drive_ok hw n" and "\<not> bit (px_reads hw (px_log p @ concat (replicate k [Rd PxCI, Rd PxTFD, Rd PxTFD])) PxCI) slot" and "k < fuel"
  shows "\<exists>ext. issue_loop hw fuel slot p = Some (0, p\<lparr>px_log := px_log p @ ext @ [Rd PxCI, Rd PxTFD, Rd PxTFD]\<rparr>) \<and> reads_only ext \<and>
    \<not> bit (px_reads hw (px_log p @ ext) PxCI) slot"
  using assms(2,3)
proof (induction fuel arbitrary: p k)
  case (Suc fuel)
  let ?p = "p\<lparr>px_log := px_log p @ [Rd PxCI]\<rparr>"
  let ?q = "p\<lparr>px_log := px_log p @ [Rd PxCI, Rd PxTFD, Rd PxTFD]\<rparr>"
  have c: "ahci_port_check_error hw ?p = (True, ?q)" using check_error_ok [OF assms(1), of ?p] by simp
  show ?case
  proof (cases "bit (px_reads hw (px_log p) PxCI) slot")
    case False
    then show ?thesis using c by (intro exI [of _ "[]"]) (simp add: px_rd_def Let_def)
  next
    case True
    then obtain k' where k: "k = Suc k'" using Suc.prems(1) by (cases k) auto
    obtain ext where "issue_loop hw fuel slot ?q = Some (0, ?q\<lparr>px_log := px_log ?q @ ext @ [Rd PxCI, Rd PxTFD, Rd PxTFD]\<rparr>)" "reads_only ext"
        "\<not> bit (px_reads hw (px_log ?q @ ext) PxCI) slot"
      using Suc.IH [of ?q k'] Suc.prems k by auto
    then show ?thesis using True c
      by (intro exI [of _ "[Rd PxCI, Rd PxTFD, Rd PxTFD] @ ext"]) (simp add: px_rd_def Let_def)
  qed
qed simp

text \<open>\<open>issued\<close>: the log of a port after a command was issued in a slot and ran to its end.\<close>

definition issued :: "ahci_hw \<Rightarrow> nat \<Rightarrow> px_event list \<Rightarrow> px_event list \<Rightarrow> bool" where
  "issued hw slot log log' \<longleftrightarrow> (\<exists>pre ext. reads_only pre \<and> reads_only ext \<and>
     log' = (log @ pre @ [Wr PxCI (set_bit slot (px_reads hw (log @ [Rd PxTFD, Rd PxTFD]) PxCI))] @ ext) @ [Rd PxCI, Rd PxTFD, Rd PxTFD] \<and>
     \<not> bit (px_reads hw (log @ pre @ [Wr PxCI (set_bit slot (px_reads hw (log @ [Rd PxTFD, Rd PxTFD]) PxCI))] @ ext) PxCI) slot)"

lemma ahci_cmd_issue_ok:
  assumes "drive_ok hw fuel" and "0 < fuel"
  shows "\<exists>log. ahci_cmd_issue hw fuel slot p = Some (0, p\<lparr>px_log := log\<rparr>) \<and> issued hw slot (px_log p) log"
proof -
  let ?p1 = "p\<lparr>px_log := px_log p @ [Rd PxTFD, Rd PxTFD]\<rparr>"
  let ?p2 = "px_bit hw PxCI slot True ?p1" and ?w = "[Rd PxTFD, Rd PxTFD, Rd PxCI]"
  obtain f where f: "fuel = Suc f" using assms(2) by (cases fuel) auto
  have b: "busy_loop hw fuel p = Some ?p1"
    using assms(1) by (simp add: f ahci_port_is_busy_def px_rd_def drive_ok_def Let_def)
  have l: "px_log ?p2 = px_log p @ ?w @ [Wr PxCI (set_bit slot (px_reads hw (px_log p @ [Rd PxTFD, Rd PxTFD]) PxCI))]"
    by (simp add: px_bit_def px_rd_def)
  obtain k where "k < fuel" "\<not> bit (px_reads hw (px_log ?p2 @ concat (replicate k [Rd PxCI, Rd PxTFD, Rd PxTFD])) PxCI) slot"
    using assms(1) unfolding drive_ok_def by blast
  then obtain ext where "issue_loop hw fuel slot ?p2 = Some (0, ?p2\<lparr>px_log := px_log ?p2 @ ext @ [Rd PxCI, Rd PxTFD, Rd PxTFD]\<rparr>)"
      "reads_only ext" "\<not> bit (px_reads hw (px_log ?p2 @ ext) PxCI) slot"
    using issue_loop_done [OF assms(1)] by blast
  then have "issued hw slot (px_log p) (px_log ?p2 @ ext @ [Rd PxCI, Rd PxTFD, Rd PxTFD])"
    unfolding issued_def l by (intro exI [of _ ?w] exI [of _ ext]) simp
  moreover have "?p2\<lparr>px_log := log\<rparr> = p\<lparr>px_log := log\<rparr>" for log by (simp add: px_bit_def px_rd_def px_wr_def)
  ultimately show ?thesis using b \<open>issue_loop hw fuel slot ?p2 = _\<close> by (auto simp: ahci_cmd_issue_def)
qed

section \<open>Slots and descriptors\<close>

definition slots_used :: "ahci_hw \<Rightarrow> ahci_port \<Rightarrow> u32 \<Rightarrow> u32 \<Rightarrow> bool" where
  "slots_used hw p act ci \<longleftrightarrow> (\<forall>log. reads_only log \<longrightarrow> px_reads hw (px_log p @ log) PxSACT = act \<and> px_reads hw (px_log p @ log) PxCI = ci)"

lemma slots_used_read: "slots_used hw p act ci \<Longrightarrow> reads_only log \<Longrightarrow> slots_used hw (p\<lparr>px_log := px_log p @ log\<rparr>) act ci"
  unfolding slots_used_def reads_only_def by simp

lemma slot_loop_first:
  assumes "slots_used hw p act ci"
  shows "\<exists>log. slot_loop hw n i p = (find (\<lambda>j. \<not> bit act j \<and> \<not> bit ci j) [i..<i + n], p\<lparr>px_log := px_log p @ log\<rparr>) \<and> reads_only log"
  using assms
proof (induction n arbitrary: i p)
  case 0
  then show ?case by (intro exI [of _ "[]"]) simp
next
  case (Suc n)
  let ?p1 = "p\<lparr>px_log := px_log p @ [Rd PxSACT]\<rparr>" and ?p2 = "p\<lparr>px_log := px_log p @ [Rd PxSACT, Rd PxCI]\<rparr>"
  have u: "[i..<i + Suc n] = i # [i + 1..<i + 1 + n]" by (simp add: upt_conv_Cons)
  have a: "px_reads hw (px_log p) PxSACT = act" "px_reads hw (px_log p @ [Rd PxSACT]) PxCI = ci"
    using Suc.prems [unfolded slots_used_def, THEN spec, of "[]"] Suc.prems [unfolded slots_used_def, THEN spec, of "[Rd PxSACT]"]
    by simp_all
  have I1: "\<exists>log. slot_loop hw n (i + 1) ?p1 = (find (\<lambda>j. \<not> bit act j \<and> \<not> bit ci j) [i + 1..<i + 1 + n], ?p1\<lparr>px_log := px_log ?p1 @ log\<rparr>) \<and> reads_only log"
    using slots_used_read [OF Suc.prems] by (intro Suc.IH) simp
  have I2: "\<exists>log. slot_loop hw n (i + 1) ?p2 = (find (\<lambda>j. \<not> bit act j \<and> \<not> bit ci j) [i + 1..<i + 1 + n], ?p2\<lparr>px_log := px_log ?p2 @ log\<rparr>) \<and> reads_only log"
    using slots_used_read [OF Suc.prems] by (intro Suc.IH) simp
  consider "bit act i" | "\<not> bit act i" "bit ci i" | "\<not> bit act i" "\<not> bit ci i" by blast
  then show ?case
  proof cases
    case 1
    then show ?thesis using I1 a unfolding u by (force simp: px_rd_def Let_def simp del: upt_Suc)
  next
    case 2
    then show ?thesis using I2 a unfolding u by (force simp: px_rd_def Let_def simp del: upt_Suc)
  next
    case 3
    then show ?thesis using a unfolding u by (intro exI [of _ "[Rd PxSACT, Rd PxCI]"]) (simp add: px_rd_def Let_def del: upt_Suc)
  qed
qed

lemma prd_loop_covers:
  assumes "0 < n" and "i + n \<le> length ps" and "\<And>j. j < n \<Longrightarrow> vmm_resolve s (data + of_nat j * AHCI_PRD_DATA_MAX) = Some (pa j)"
    and "(n - 1) * 4194304 < unat sz" and "unat sz \<le> n * 4194304"
  shows "\<exists>ps'. prd_loop s n i data sz ps = Some ps' \<and> length ps' = length ps \<and> (\<forall>j < i. ps' ! j = ps ! j) \<and>
    (\<forall>j < n. dba (ps' ! (i + j)) = pa j) \<and> (\<Sum>j < n. unat (dbc (ps' ! (i + j))) + 1) = unat sz"
  using assms
proof (induction n arbitrary: i data sz ps pa)
  case (Suc n)
  have r: "vmm_resolve s data = Some (pa 0)" using Suc.prems(3) [of 0] by simp
  show ?case
  proof (cases "n = 0")
    case True
    have "unat sz \<le> 4194304" "0 < unat sz" using Suc.prems(4,5) True by simp_all
    moreover then have "unat (sz - 1) = unat sz - 1" by (subst unat_sub) (simp_all add: word_le_nat_alt)
    ultimately have "unat (take_bit 22 (ucast (sz - 1) :: u32)) + 1 = unat sz"
      by (simp add: unsigned_take_bit_eq unsigned_ucast_eq take_bit_nat_eq_self)
    then show ?thesis using True r Suc.prems(2) by simp
  next
    case False
    let ?e = "\<lparr>dba = pa 0, dbc = take_bit 22 (ucast (AHCI_PRD_DATA_MAX - 1) :: u32)\<rparr>"
    have big: "4194304 < unat sz" using Suc.prems(4) False by (cases n) simp_all
    have sz: "unat (sz - AHCI_PRD_DATA_MAX) = unat sz - 4194304"
      using big by (subst unat_sub) (simp_all add: word_le_nat_alt)
    have "\<exists>ps'. prd_loop s n (i + 1) (data + AHCI_PRD_DATA_MAX) (sz - AHCI_PRD_DATA_MAX) (ps[i := ?e]) = Some ps' \<and> length ps' = length (ps[i := ?e]) \<and>
        (\<forall>j < i + 1. ps' ! j = ps[i := ?e] ! j) \<and> (\<forall>j < n. dba (ps' ! (i + 1 + j)) = pa (Suc j)) \<and>
        (\<Sum>j < n. unat (dbc (ps' ! (i + 1 + j))) + 1) = unat (sz - AHCI_PRD_DATA_MAX)"
    proof (rule Suc.IH)
      show "vmm_resolve s (data + AHCI_PRD_DATA_MAX + of_nat j * AHCI_PRD_DATA_MAX) = Some (pa (Suc j))" if "j < n" for j
        using Suc.prems(3) [of "Suc j"] that by (simp add: algebra_simps)
      show "(n - 1) * 4194304 < unat (sz - AHCI_PRD_DATA_MAX)" "unat (sz - AHCI_PRD_DATA_MAX) \<le> n * 4194304"
        using Suc.prems(4,5) False by (cases n, simp_all add: sz)+
    qed (use False Suc.prems(2) in simp_all)
    then obtain ps' where ps': "prd_loop s n (i + 1) (data + AHCI_PRD_DATA_MAX) (sz - AHCI_PRD_DATA_MAX) (ps[i := ?e]) = Some ps'"
      "length ps' = length ps" "\<forall>j < i + 1. ps' ! j = ps[i := ?e] ! j" "\<forall>j < n. dba (ps' ! (i + 1 + j)) = pa (Suc j)"
      "(\<Sum>j < n. unat (dbc (ps' ! (i + 1 + j))) + 1) = unat sz - 4194304"
      unfolding sz by auto
    have "prd_loop s (Suc n) i data sz ps = Some ps'" using r ps'(1) False Suc.prems(2) by simp
    moreover have e: "ps' ! i = ?e" using ps'(3) Suc.prems(2) by simp
    moreover have "\<forall>j < Suc n. dba (ps' ! (i + j)) = pa j" using ps'(4) e by (auto simp: less_Suc_eq_0_disj)
    moreover have "(\<Sum>j < Suc n. unat (dbc (ps' ! (i + j))) + 1) = unat sz"
      using ps'(5) e big by (simp add: sum.lessThan_Suc_shift del: sum.lessThan_Suc)
    ultimately show ?thesis using ps'(2,3) by auto
  qed
qed simp

definition prd_count :: "u64 \<Rightarrow> nat" where
  "prd_count sz = (unat sz - 1) div 4194304 + 1"

lemma prd_count_bounds:
  assumes "0 < sz" and "unat sz \<le> 33554432"
  shows "0 < prd_count sz" "prd_count sz \<le> 8" "(prd_count sz - 1) * 4194304 < unat sz" "unat sz \<le> prd_count sz * 4194304"
    "div_ceil sz AHCI_PRD_DATA_MAX = Some (of_nat (prd_count sz))"
proof -
  have p: "0 < unat sz" using assms(1) by (simp add: word_less_nat_alt)
  then have "unat sz - 1 < 8 * 4194304" using assms(2) by simp
  then have "(unat sz - 1) div 4194304 < 8" by (simp add: less_mult_imp_div_less)
  then show "0 < prd_count sz" "prd_count sz \<le> 8" by (simp_all add: prd_count_def)
  have d: "(unat sz - 1) div 4194304 * 4194304 \<le> unat sz - 1" by simp
  then show "(prd_count sz - 1) * 4194304 < unat sz" using p by (simp add: prd_count_def)
  have "(unat sz - 1) mod 4194304 < 4194304" by simp
  then show "unat sz \<le> prd_count sz * 4194304" using p div_mult_mod_eq [of "unat sz - 1" 4194304]
    unfolding prd_count_def by (simp add: algebra_simps)
  obtain q where q: "div_ceil sz AHCI_PRD_DATA_MAX = Some q" "unat q = 1 + (unat sz - 1) div 4194304"
    using div_ceil_ceiling [of sz AHCI_PRD_DATA_MAX] assms(1) by auto
  have "q = of_nat (unat q)" by simp
  then have "q = of_nat (prd_count sz)" unfolding q(2) prd_count_def by (simp add: add.commute)
  then show "div_ceil sz AHCI_PRD_DATA_MAX = Some (of_nat (prd_count sz))" using q(1) by simp
qed

definition first_free :: "u32 \<Rightarrow> u32 \<Rightarrow> nat option" where
  "first_free act ci = find (\<lambda>j. \<not> bit act j \<and> \<not> bit ci j) [0..<32]"

lemma ahci_cmd_setup_run:
  assumes "slots_used hw p act ci" and "first_free act ci = Some slot" and "length (headers p) = 32"
    and "0 < sz" and "unat sz \<le> 33554432"
    and "\<And>j. j < prd_count sz \<Longrightarrow> vmm_resolve s (data + of_nat j * AHCI_PRD_DATA_MAX) = Some (pa j)"
  shows "\<exists>log prds. ahci_cmd_setup hw s vaddr 20 sz data p = Some (0, slot, vaddr + (ctba (headers p ! slot) - p_clb p),
      p\<lparr>px_log := px_log p @ log, headers := (headers p)[slot := (headers p ! slot)\<lparr>cfl := 5, prdtl := of_nat (prd_count sz)\<rparr>],
        tables := (tables p)(vaddr + (ctba (headers p ! slot) - p_clb p) := table_zero\<lparr>prdt := prds\<rparr>)\<rparr>) \<and>
    (\<forall>j < prd_count sz. dba (prds ! j) = pa j) \<and> (\<Sum>j < prd_count sz. unat (dbc (prds ! j)) + 1) = unat sz \<and> reads_only log"
proof -
  note b = prd_count_bounds [OF assms(4,5)]
  obtain log where l: "slot_loop hw 32 0 p = (Some slot, p\<lparr>px_log := px_log p @ log\<rparr>)" "reads_only log"
    using slot_loop_first [OF assms(1), of 32 0] assms(2) by (auto simp: first_free_def simp del: upt_rec_numeral)
  have sl: "slot < 32" using assms(2) by (auto simp: first_free_def find_Some_iff simp del: upt_rec_numeral)
  have u: "unat (ucast (of_nat (prd_count sz) :: u64) :: u16) = prd_count sz"
    using b(2) by (simp add: unsigned_ucast_eq unsigned_of_nat take_bit_nat_eq_self)
  have w: "(ucast (of_nat (prd_count sz) :: u64) :: u16) = of_nat (prd_count sz)"
    using u by (simp add: word_unat_eq_iff unsigned_of_nat)
  have "0 + prd_count sz \<le> length (prdt table_zero)" using b(2) by (simp add: table_zero_def)
  from prd_loop_covers [OF b(1) this assms(6) b(3,4)] obtain prds where
    "prd_loop s (prd_count sz) 0 data sz (prdt table_zero) = Some prds"
    "\<forall>j < prd_count sz. dba (prds ! j) = pa j" "(\<Sum>j < prd_count sz. unat (dbc (prds ! j)) + 1) = unat sz" by auto
  then show ?thesis using l sl assms(3) b(5) u
    by (intro exI [of _ log] exI [of _ prds]) (simp add: ahci_cmd_setup_def w [symmetric] Let_def take_bit_eq_mod)
qed

section \<open>The register FIS\<close>

definition fis_lba :: "sata_fis_h2d \<Rightarrow> u64" where
  "fis_lba f = ucast (lba0 f) OR push_bit 8 (ucast (lba1 f)) OR push_bit 16 (ucast (lba2 f)) OR push_bit 24 (ucast (lba3 f)) OR
     push_bit 32 (ucast (lba4 f)) OR push_bit 40 (ucast (lba5 f))"

lemma low_byte: "(ucast (x AND 0xFF :: u64) :: u8) = ucast x"
proof -
  have m: "(0xFF :: u64) = mask 8" by (simp add: mask_eq_exp_minus_1)
  show ?thesis unfolding m by (rule bit_word_eqI) (auto simp: bit_simps)
qed

lemma lba_bytes:
  fixes lba :: u64
  assumes "unat lba < 2 ^ 48"
  shows "(ucast (ucast lba :: u8) OR push_bit 8 (ucast (ucast (drop_bit 8 lba) :: u8)) OR push_bit 16 (ucast (ucast (drop_bit 16 lba) :: u8)) OR
    push_bit 24 (ucast (ucast (drop_bit 24 lba) :: u8)) OR push_bit 32 (ucast (ucast (drop_bit 32 lba) :: u8)) OR
    push_bit 40 (ucast (ucast (drop_bit 40 lba) :: u8)) :: u64) = lba" (is "?w = _")
proof (rule bit_word_eqI)
  fix n assume "n < LENGTH(64)"
  then have n: "n < 64" by simp
  have h: "bit lba n \<Longrightarrow> n < 48" using bit_lt_of_less [OF assms] .
  consider "n < 8" | "8 \<le> n" "n < 16" | "16 \<le> n" "n < 24" | "24 \<le> n" "n < 32" | "32 \<le> n" "n < 40" | "40 \<le> n" "n < 48" | "48 \<le> n"
    by atomize_elim linarith
  then show "bit ?w n = bit lba n" using n h by cases (auto simp: bit_simps)
qed

lemma ahci_sata_new_fis:
  assumes "cmd \<in> {AHCI_ATA_READ_DMA_EXT, AHCI_ATA_WRITE_DMA_EXT}"
  shows "\<exists>fis. ahci_sata_new cmd lba n = Some fis \<and> fis_command fis = cmd \<and> fis_type fis = 0x27 \<and> fis_c fis \<and> fis_count fis = ucast n \<and>
    (unat lba < 2 ^ 48 \<longrightarrow> fis_lba fis = lba)"
  using assms lba_bytes [of lba]
  by (auto simp: ahci_sata_new_def ahci_sata_find_props_def ahci_sata_cmds_def fis_lba_def fis_zero_def Let_def low_byte)

section \<open>One read after another\<close>

lemma ahci_read_run:
  assumes "drive_ok hw fuel" and "0 < fuel"
    and "\<And>h t. fis_command (cfis t) = 0x25 \<Longrightarrow> \<not> h_write h \<Longrightarrow> px_dma hw h t = drive (fis_lba (cfis t)) (unat (fis_count (cfis t)))"
    and "slots_used hw p act ci" and "first_free act ci \<noteq> None" and "length (headers p) = 32"
    and "unat lba < 2 ^ 48" and "0 < n" and "unat n < 65536" and "0 < n * sector_size d" and "unat (n * sector_size d) \<le> 33554432"
    and "\<And>j. j < prd_count (n * sector_size d) \<Longrightarrow> vmm_resolve s (buf + of_nat j * 0x400000) \<noteq> None" and "buf \<noteq> 0"
  shows "\<exists>q slot pre. ahci_do hw fuel s vaddr AHCI_PROTOCOL_SATA d stk DISK_OP_READ lba n buf p = Some (0, drive lba (unat n), d, q) \<and>
    length (headers q) = 32 \<and> first_free act ci = Some slot \<and> reads_only pre \<and> issued hw slot (px_log p @ pre @ [Wr PxIS 0xffffffff]) (px_log q)"
proof -
  obtain slot where sl: "first_free act ci = Some slot" using assms(5) by auto
  then have "slot < 32" by (auto simp: first_free_def find_Some_iff simp del: upt_rec_numeral)
  define pa where "pa j = the (vmm_resolve s (buf + of_nat j * 0x400000))" for j :: nat
  have pa: "vmm_resolve s (buf + of_nat j * 0x400000) = Some (pa j)" if "j < prd_count (n * sector_size d)" for j
    using assms(12) [OF that] by (auto simp: pa_def)
  let ?tb = "vaddr + (ctba (headers p ! slot) - p_clb p)"
  obtain p1 pre where p1: "ahci_cmd_setup hw s vaddr 20 (n * sector_size d) buf p = Some (0, slot, ?tb, p1)" "length (headers p1) = 32"
      "px_log p1 = px_log p @ pre" "reads_only pre"
    using ahci_cmd_setup_run [OF assms(4) sl assms(6,10,11), of s buf pa] pa assms(6) by fastforce
  obtain fis where f: "ahci_sata_new 0x25 lba n = Some fis" "fis_command fis = 0x25" "fis_count fis = ucast n" "fis_lba fis = lba"
    using ahci_sata_new_fis [of "0x25" lba n] assms(7) by auto
  let ?p = "upd_table ?tb (cfis_update (\<lambda>_. fis)) (upd_header slot (h_write_update (\<lambda>_. False)) (px_wr PxIS 0xffffffff p1))"
  obtain log where i: "ahci_cmd_issue hw fuel slot ?p = Some (0, ?p\<lparr>px_log := log\<rparr>)" "issued hw slot (px_log ?p) log"
    using ahci_cmd_issue_ok [OF assms(1,2)] by blast
  have "px_dma hw (headers ?p ! slot) (tables ?p ?tb) = drive lba (unat (ucast n :: u16))"
    using assms(3) [of "tables ?p ?tb" "headers ?p ! slot"] f \<open>slot < 32\<close> p1(2) by (simp add: upd_table_def upd_header_def)
  moreover have "unat (ucast n :: u16) = unat n" using assms(9) by (simp add: unsigned_ucast_eq take_bit_nat_eq_self)
  ultimately have "ahci_do hw fuel s vaddr AHCI_PROTOCOL_SATA d stk DISK_OP_READ lba n buf p = Some (0, drive lba (unat n), d, ?p\<lparr>px_log := log\<rparr>)"
    using p1(1) f(1) i(1) assms(8,13) by (auto simp: ahci_do_cases ahci_func_def ahci_sata_port_read_def Let_def)
  moreover have "px_log ?p = px_log p @ pre @ [Wr PxIS 0xffffffff]" "length (headers ?p) = 32"
    using p1(2,3) by (simp_all add: upd_table_def upd_header_def px_wr_def)
  ultimately show ?thesis using sl p1(4) i(2) by fastforce
qed

text \<open>
  The command registers of a drive. \<open>quiet\<close>: no command is issued, and reading registers does not change that.
  \<open>drive_cycles\<close>: clearing the interrupt status issues nothing, and once the bit of the only issued command reads as zero the port is quiet again.
\<close>

definition quiet :: "ahci_hw \<Rightarrow> px_event list \<Rightarrow> bool" where
  "quiet hw log \<longleftrightarrow> (\<forall>ext. reads_only ext \<longrightarrow> px_reads hw (log @ ext) PxSACT = 0 \<and> px_reads hw (log @ ext) PxCI = 0)"

definition drive_cycles :: "ahci_hw \<Rightarrow> bool" where
  "drive_cycles hw \<longleftrightarrow> (\<forall>log v. quiet hw log \<longrightarrow> quiet hw (log @ [Wr PxIS v])) \<and>
     (\<forall>log slot ext. quiet hw log \<and> slot < 32 \<and> reads_only ext \<and>
        \<not> bit (px_reads hw (log @ [Wr PxCI (set_bit slot 0)] @ ext) PxCI) slot \<longrightarrow>
        quiet hw (log @ [Wr PxCI (set_bit slot 0)] @ ext))"

lemma quiet_reads: "quiet hw log \<Longrightarrow> reads_only ext \<Longrightarrow> quiet hw (log @ ext)"
  by (simp add: quiet_def)

lemma quiet_slots: "quiet hw (px_log p) \<Longrightarrow> slots_used hw p 0 0"
  by (simp add: quiet_def slots_used_def)

lemma first_free_quiet: "first_free 0 0 = Some 0"
  by (simp add: first_free_def upt_rec [of 0])

lemma issued_quiet:
  assumes "drive_cycles hw" and "quiet hw log" and "slot < 32" and "issued hw slot log log'"
  shows "quiet hw log'"
proof -
  have "px_reads hw (log @ [Rd PxTFD, Rd PxTFD]) PxCI = 0" using assms(2) by (simp add: quiet_def)
  then obtain pre ext where e: "reads_only pre" "reads_only ext"
      "log' = (log @ pre @ [Wr PxCI (set_bit slot 0)] @ ext) @ [Rd PxCI, Rd PxTFD, Rd PxTFD]"
      "\<not> bit (px_reads hw (log @ pre @ [Wr PxCI (set_bit slot 0)] @ ext) PxCI) slot"
    using assms(4) unfolding issued_def by metis
  have "quiet hw (log @ pre)" using assms(2) e(1) by (rule quiet_reads)
  then have "quiet hw (log @ pre @ [Wr PxCI (set_bit slot 0)] @ ext)"
    using assms(1,3) e(2,4) unfolding drive_cycles_def by (metis append.assoc)
  then show ?thesis unfolding e(3) by (rule quiet_reads) simp
qed

section \<open>The drive as a controller of the disk layer\<close>

text \<open>
  A SATA disk: the hardware of its port, the bound for waiting, where the command tables and the buffer of each transfer
  lie, the disk structure, the size of the largest transfer for which there is a buffer, the contents of the drive and the state of the port. \<open>drive_ready\<close> collects what a read needs: the drive
  works and does what a read command says, the port is set up and quiet, and the buffers are mapped.
\<close>

record sata_drive =
  sd_hw :: ahci_hw
  sd_fuel :: nat
  sd_vm :: vm
  sd_vaddr :: u64
  sd_buf :: "u64 \<Rightarrow> u64 \<Rightarrow> u64"
  sd_disk :: disk
  sd_limit :: nat
  sd_img :: "nat \<Rightarrow> u8"
  sd_port :: ahci_port

definition sata_limit :: "disk \<Rightarrow> nat" where
  "sata_limit d = min (65535 * unat (sector_size d)) 33554432"

definition sata_bytes :: "sata_drive \<Rightarrow> u64 \<Rightarrow> nat \<Rightarrow> u8 list" where
  "sata_bytes v lba n = map (sd_img v) [unat lba * unat (sector_size (sd_disk v)) ..< (unat lba + n) * unat (sector_size (sd_disk v))]"

definition drive_ready :: "sata_drive \<Rightarrow> bool" where
  "drive_ready v \<longleftrightarrow> drive_ok (sd_hw v) (sd_fuel v) \<and> 0 < sd_fuel v \<and> drive_cycles (sd_hw v) \<and>
     (\<forall>h t. fis_command (cfis t) = AHCI_ATA_READ_DMA_EXT \<and> \<not> h_write h \<longrightarrow>
        px_dma (sd_hw v) h t = sata_bytes v (fis_lba (cfis t)) (unat (fis_count (cfis t)))) \<and>
     quiet (sd_hw v) (px_log (sd_port v)) \<and> length (headers (sd_port v)) = 32 \<and>
     controller (sd_disk v) = DISK_CONTROLLER_AHCI \<and> 0 < sector_size (sd_disk v) \<and> unat (sector_size (sd_disk v)) \<le> sd_limit v \<and> sd_limit v \<le> sata_limit (sd_disk v) \<and>
     (\<forall>lba n. 0 < n \<and> unat n * unat (sector_size (sd_disk v)) \<le> sd_limit v \<longrightarrow> sd_buf v lba n \<noteq> 0 \<and> (\<forall>j < prd_count (n * sector_size (sd_disk v)).
        vmm_resolve (sd_vm v) (sd_buf v lba n + of_nat j * AHCI_PRD_DATA_MAX) \<noteq> None))"

definition sata_read :: "u64 \<Rightarrow> u64 \<Rightarrow> sata_drive \<Rightarrow> (bool \<times> u8 list \<times> sata_drive) option" where
  "sata_read lba n v = map_option (\<lambda>(err, bs, _, q). (err = 0, bs, v\<lparr>sd_port := q\<rparr>))
     (ahci_do (sd_hw v) (sd_fuel v) (sd_vm v) (sd_vaddr v) AHCI_PROTOCOL_SATA (sd_disk v) 0 DISK_OP_READ lba n (sd_buf v lba n) (sd_port v))"

lemma sata_read_ready:
  assumes "drive_ready v" and "0 < n" and "unat n * unat (sector_size (sd_disk v)) \<le> sd_limit v" and "unat lba + unat n \<le> 2 ^ 48"
  shows "\<exists>q. sata_read lba n v = Some (True, sata_bytes v lba (unat n), v\<lparr>sd_port := q\<rparr>) \<and> drive_ready (v\<lparr>sd_port := q\<rparr>)"
proof -
  let ?ss = "sector_size (sd_disk v)"
  note r = assms(1) [unfolded drive_ready_def]
  have ss: "0 < unat ?ss" using r by (simp add: word_less_nat_alt)
  have lim: "sd_limit v \<le> 65535 * unat ?ss \<and> sd_limit v \<le> 33554432" using r by (simp add: sata_limit_def)
  have b: "unat n * unat ?ss \<le> 65535 * unat ?ss" "unat n * unat ?ss \<le> 33554432"
    using order.trans [OF assms(3) conjunct1 [OF lim]] order.trans [OF assms(3) conjunct2 [OF lim]] by blast+
  have n: "unat n < 65536" using b(1) ss by simp
  have sz: "unat (n * ?ss) = unat n * unat ?ss" using b(2) by (simp add: unat_mult_lem [THEN iffD1])
  then have pos: "0 < n * ?ss" using assms(2) ss by (simp add: word_less_nat_alt)
  have l: "unat lba < 2 ^ 48" using assms(2,4) by (simp add: word_less_nat_alt)
  have bf: "sd_buf v lba n \<noteq> 0" "vmm_resolve (sd_vm v) (sd_buf v lba n + of_nat j * AHCI_PRD_DATA_MAX) \<noteq> None"
    if "j < prd_count (n * ?ss)" for j using r assms(2,3) that by blast+
  have "sd_buf v lba n \<noteq> 0" using bf(1) [of 0] by (simp add: prd_count_def)
  moreover have "unat (n * ?ss) \<le> 33554432" using b(2) sz by simp
  moreover have "px_dma (sd_hw v) h t = sata_bytes v (fis_lba (cfis t)) (unat (fis_count (cfis t)))"
    if "fis_command (cfis t) = AHCI_ATA_READ_DMA_EXT" "\<not> h_write h" for h t using r that by blast
  moreover have "drive_ok (sd_hw v) (sd_fuel v)" "0 < sd_fuel v" "quiet (sd_hw v) (px_log (sd_port v))" "length (headers (sd_port v)) = 32" using r by blast+
  moreover have "first_free 0 0 \<noteq> None" by (simp add: first_free_quiet)
  ultimately have run: "\<exists>q slot pre. ahci_do (sd_hw v) (sd_fuel v) (sd_vm v) (sd_vaddr v) AHCI_PROTOCOL_SATA (sd_disk v) 0 DISK_OP_READ lba n (sd_buf v lba n) (sd_port v) =
        Some (0, sata_bytes v lba (unat n), sd_disk v, q) \<and>
      length (headers q) = 32 \<and> first_free 0 0 = Some slot \<and> reads_only pre \<and> issued (sd_hw v) slot (px_log (sd_port v) @ pre @ [Wr PxIS 0xffffffff]) (px_log q)"
    using n pos l assms(2) bf(2)
    by (intro ahci_read_run [where hw = "sd_hw v" and drive = "sata_bytes v" and p = "sd_port v" and act = 0 and ci = 0 and d = "sd_disk v" and s = "sd_vm v"
        and buf = "sd_buf v lba n" and vaddr = "sd_vaddr v" and stk = 0 and fuel = "sd_fuel v"] quiet_slots)
  obtain q slot pre where q: "ahci_do (sd_hw v) (sd_fuel v) (sd_vm v) (sd_vaddr v) AHCI_PROTOCOL_SATA (sd_disk v) 0 DISK_OP_READ lba n (sd_buf v lba n) (sd_port v) =
        Some (0, sata_bytes v lba (unat n), sd_disk v, q)" "length (headers q) = 32" "first_free 0 0 = Some slot" "reads_only pre"
      "issued (sd_hw v) slot (px_log (sd_port v) @ pre @ [Wr PxIS 0xffffffff]) (px_log q)"
    using run by blast
  have cyc: "drive_cycles (sd_hw v)" and quiet: "quiet (sd_hw v) (px_log (sd_port v))" using r by blast+
  have "quiet (sd_hw v) ((px_log (sd_port v) @ pre) @ [Wr PxIS 0xffffffff])"
    using cyc quiet_reads [OF quiet q(4)] unfolding drive_cycles_def by blast
  moreover have "slot < 32" using q(3) first_free_quiet by simp
  ultimately have "quiet (sd_hw v) (px_log q)" using issued_quiet [OF cyc _ _ q(5)] by simp
  then have "drive_ready (v\<lparr>sd_port := q\<rparr>)" using r q(2) by (simp add: drive_ready_def sata_bytes_def)
  then show ?thesis using q(1) by (intro exI [of _ q]) (simp add: sata_read_def)
qed

interpretation sata: sector_reader drive_ready sata_read sd_disk sd_limit sd_img
proof
  show "controller (sd_disk v) = DISK_CONTROLLER_AHCI \<and> 0 < sector_size (sd_disk v) \<and> unat (sector_size (sd_disk v)) \<le> sd_limit v"
    if "drive_ready v" for v
    using that by (auto simp: drive_ready_def)
  show "\<exists>w. sata_read lba n v = Some (True, map (sd_img v) [unat lba * unat (sector_size (sd_disk v)) ..< (unat lba + unat n) * unat (sector_size (sd_disk v))], w) \<and>
      drive_ready w \<and> sd_disk w = sd_disk v \<and> sd_limit w = sd_limit v \<and> sd_img w = sd_img v"
    if "drive_ready v" "0 < n" "unat n * unat (sector_size (sd_disk v)) \<le> sd_limit v" "unat lba + unat n \<le> 2 ^ 48" for v n lba
    using sata_read_ready [OF that] by (auto simp: sata_bytes_def)
qed

section \<open>Enumeration\<close>

text \<open>What the enumeration keeps: one disk per driven port, with well-formed partitions, the last port first.\<close>

definition drv_inv :: "nat \<Rightarrow> ahci_drv \<Rightarrow> bool" where
  "drv_inv i s \<longleftrightarrow> length (drv_disks s) = length (drv_data s) \<and> (\<forall>d \<in> set (drv_disks s). parts_inv d) \<and>
     sorted_wrt (>) (map pd_index (drv_data s)) \<and> (\<forall>d \<in> set (drv_data s). pd_index d < i)"

lemma drv_inv_same [simp]:
  "drv_inv i (s\<lparr>hba_log := l\<rparr>) = drv_inv i s" "drv_inv i (s\<lparr>drv_ports := ps\<rparr>) = drv_inv i s" "drv_inv i (s\<lparr>drv_vm := v\<rparr>) = drv_inv i s"
  by (simp_all add: drv_inv_def)

lemma drv_inv_mono: "drv_inv i s \<Longrightarrow> i \<le> j \<Longrightarrow> drv_inv j s"
  by (auto simp: drv_inv_def)

lemma hba_rd_inv: "hba_rd hba r s = (x, s') \<Longrightarrow> drv_inv i s' = drv_inv i s"
  by (auto simp: hba_rd_def)

lemma ahci_init_port_inv: "ahci_init_port hba fuel i s = Some s' \<Longrightarrow> drv_inv i s \<Longrightarrow> drv_inv (Suc i) s'"
proof (goal_cases)
  case 1
  obtain x s1 where r: "hba_rd hba HbaPI s = (x, s1)" by (cases "hba_rd hba HbaPI s")
  have i1: "drv_inv i s1" using 1(2) hba_rd_inv [OF r] by simp
  then have i2: "drv_inv (Suc i) s1" by (rule drv_inv_mono) simp
  show ?case
  proof (cases "bit x i")
    case False
    then show ?thesis using 1(1) r i2 by (simp add: ahci_init_port_def)
  next
    case True
    then obtain con p1 where c: "ahci_port_is_connected (port_hw hba i) fuel (drv_ports s1 i) = Some (con, p1)"
      using 1(1) r by (auto simp: ahci_init_port_def split: bind_splits)
    show ?thesis
    proof (cases con)
      case False
      then show ?thesis using 1(1) r c True i2 by (auto simp: ahci_init_port_def)
    next
      case con: True
      then obtain vm p4 ok d k v where d: "disk_part_scan True (port_dev hba i) (disk_new DISK_CONTROLLER_AHCI) = Some (ok, d)"
          and s': "s' = s1\<lparr>drv_vm := vm, drv_ports := (drv_ports s1)(i := p4), drv_disks := d # drv_disks s1,
            drv_data := \<lparr>pd_index = i, pd_protocol = k, pd_vaddr = v\<rparr> # drv_data s1\<rparr>"
        using 1(1) r c True by (auto simp: ahci_init_port_def split: bind_splits prod.splits)
      have "parts_inv (disk_new DISK_CONTROLLER_AHCI)" by (simp add: parts_inv_def disk_new_def)
      then have "parts_inv d" using disk_part_scan_inv [OF _ d] by blast
      then show ?thesis unfolding s' using i1 by (auto simp: drv_inv_def)
    qed
  qed
qed

lemma ahci_init_ports_inv: "ahci_init_ports hba fuel n i s = Some s' \<Longrightarrow> drv_inv i s \<Longrightarrow> drv_inv (i + n) s'"
proof (induction n arbitrary: i s)
  case (Suc n)
  then obtain s1 where s1: "ahci_init_port hba fuel i s = Some s1" "ahci_init_ports hba fuel n (i + 1) s1 = Some s'"
    by (auto split: bind_splits)
  then show ?case using Suc.IH [OF s1(2)] ahci_init_port_inv [OF s1(1) Suc.prems(2)] by simp
qed simp

lemma hba_wait_inv:
  "bohc_wait hba fuel s = Some s' \<Longrightarrow> drv_inv i s' = drv_inv i s"
  "ghc_wait hba fuel s = Some s' \<Longrightarrow> drv_inv i s' = drv_inv i s"
  by (induction fuel arbitrary: s) (auto simp: hba_rd_def Let_def split: if_splits)

lemma hba_bit_inv: "drv_inv i (hba_bit hba r b v s) = drv_inv i s" "drv_inv i (hba_wr r w s) = drv_inv i s"
  by (simp_all add: hba_bit_def hba_rd_def hba_wr_def)

text \<open>The driver starts with one disk per driven port, and with 32 ports at most.\<close>

theorem ahci_init_disks:
  assumes "ahci_init hba fuel s = Some (err, s')" and "drv_inv 0 s"
  shows "err = 0 \<and> drv_inv 32 s'"
proof -
  obtain base vm s1 s2 where s: "hba_own hba fuel (s\<lparr>drv_vm := vm\<rparr>) = Some s1" "hba_reset hba fuel s1 = Some s2"
      "ahci_init_ports hba fuel 32 0 (snd (hba_rd hba HbaVS (snd (hba_rd hba HbaVS s2)))) = Some s'" "err = 0"
    using assms(1) by (auto simp: ahci_init_def split: bind_splits if_splits)
  have "drv_inv 0 s1 = drv_inv 0 s"
    using s(1) by (auto simp: hba_own_def hba_rd_def hba_bit_inv dest!: hba_wait_inv(1) [where i = 0] split: if_splits)
  moreover have "drv_inv 0 s2 = drv_inv 0 s1"
    using s(2) by (auto simp: hba_reset_def hba_bit_inv dest!: hba_wait_inv(2) [where i = 0] split: bind_splits)
  ultimately have "drv_inv 0 (snd (hba_rd hba HbaVS (snd (hba_rd hba HbaVS s2))))" using assms(2) by (simp add: hba_rd_def)
  then show ?thesis using ahci_init_ports_inv [OF s(3)] s(4) by simp
qed


section \<open>Properties\<close>

text \<open>
  C36. The memory of a port fits together: the received FIS is aligned to 256 bytes, every command table to 128 bytes, the
  command list, the received FIS and the 32 tables do not overlap, and all of it lies in the three pages
  that are mapped.
\<close>

theorem ahci_port_layout_disjoint:
  "case port_layout of (fis, offs, sz) \<Rightarrow>
     fis mod 256 = 0 \<and> length offs = 32 \<and> 32 * 32 \<le> fis \<and> (\<forall>i < 32. offs ! i mod 128 = 0 \<and> fis + 260 \<le> offs ! i \<and> offs ! i + 256 \<le> sz \<and>
       (\<forall>j < i. offs ! j + 256 \<le> offs ! i)) \<and> sz \<le> 4096 * unat (vmm_calc (of_nat sz))"
proof -
  have v: "vmm_calc 9600 = 3" by code_simp
  have m: "(1408 + 256 * i) mod 128 = 0" for i :: nat by presburger
  show ?thesis by (simp add: port_layout_value v m del: upt_rec_numeral)
qed

theorem ahci_port_layout_disjoint_witness:
  "case port_layout of (fis, offs, sz) \<Rightarrow> offs ! 3 mod 128 = 0 \<and> offs ! 2 + 256 \<le> offs ! 3"
  using ahci_port_layout_disjoint by (simp add: port_layout_value del: upt_rec_numeral)


definition quick_drive :: ahci_hw where
  "quick_drive = \<lparr>px_reads = (\<lambda>_ _. 0), px_dma = (\<lambda>h t. replicate (unat (fis_count (cfis t))) (ucast (fis_lba (cfis t))))\<rparr>"

definition fresh_port :: ahci_port where
  "fresh_port = \<lparr>px_log = [], p_clb = 0x9000, p_fb = 0x9400,
     headers = replicate 32 \<lparr>cfl = 0, h_atapi = False, h_write = False, prdtl = 8, ctba = 0x9580\<rparr>, tables = (\<lambda>_. table_zero)\<rparr>"

lemma quick_drive_ok: "drive_ok quick_drive 1" "slots_used quick_drive fresh_port 0 0" "first_free 0 0 = Some 0"
  "prd_count 1024 = 1" "vmm_resolve vm_example 0x5123 = Some 0x8123"
proof -
  show "drive_ok quick_drive 1" "slots_used quick_drive fresh_port 0 0" by (simp_all add: drive_ok_def slots_used_def quick_drive_def)
  show "first_free 0 0 = Some 0" by (simp add: first_free_def upt_rec [of 0])
  show "prd_count 1024 = 1" by (simp add: prd_count_def)
  show "vmm_resolve vm_example 0x5123 = Some 0x8123" by code_simp
qed


text \<open>
  Reading from a SATA drive gives the sectors asked for: when the drive works and does what a read command says, a
  read of \<open>n\<close> sectors at \<open>lba\<close>, for an address of 48 bits and fewer than 65536 sectors of together at most 32 MiB,
  succeeds with the contents of the drive at that address.
\<close>

theorem ahci_read_sectors:
  assumes "drive_ok hw fuel" and "0 < fuel"
    and "\<And>h t. fis_command (cfis t) = 0x25 \<Longrightarrow> \<not> h_write h \<Longrightarrow> px_dma hw h t = drive (fis_lba (cfis t)) (unat (fis_count (cfis t)))"
    and "slots_used hw p act ci" and "first_free act ci \<noteq> None" and "length (headers p) = 32"
    and "unat lba < 2 ^ 48" and "0 < n" and "unat n < 65536" and "0 < n * sector_size d" and "unat (n * sector_size d) \<le> 33554432"
    and "\<And>j. j < prd_count (n * sector_size d) \<Longrightarrow> vmm_resolve s (buf + of_nat j * 0x400000) \<noteq> None" and "buf \<noteq> 0"
  shows "\<exists>q. ahci_do hw fuel s vaddr AHCI_PROTOCOL_SATA d stk DISK_OP_READ lba n buf p = Some (0, drive lba (unat n), d, q)"
  using ahci_read_run [OF assms] by blast

theorem ahci_read_sectors_witness:
  "\<exists>q. ahci_do quick_drive 1 vm_example 0x5000 AHCI_PROTOCOL_SATA (disk_new DISK_CONTROLLER_AHCI) 0 DISK_OP_READ 77 2 0x5123 fresh_port =
    Some (0, [77, 77], disk_new DISK_CONTROLLER_AHCI, q)"
proof -
  let ?d = "disk_new DISK_CONTROLLER_AHCI"
  have "\<exists>q. ahci_do quick_drive 1 vm_example 0x5000 AHCI_PROTOCOL_SATA ?d 0 DISK_OP_READ 77 2 0x5123 fresh_port =
      Some (0, (\<lambda>(l :: u64) n. replicate n (ucast l)) 77 (unat (2 :: u64)), ?d, q)"
  proof (rule ahci_read_sectors [where drive = "\<lambda>l n. replicate n (ucast l)", OF quick_drive_ok(1) _ _ quick_drive_ok(2)])
    show "vmm_resolve vm_example (0x5123 + of_nat j * 0x400000) \<noteq> None" if "j < prd_count (2 * sector_size ?d)" for j
      using that quick_drive_ok(4,5) by (simp add: disk_new_def)
  qed (simp_all add: quick_drive_def fresh_port_def disk_new_def quick_drive_ok(3))
  moreover have "replicate 2 (77 :: u8) = [77, 77]" by code_simp
  ultimately show ?thesis by simp
qed

end
