(* ===== verification/Fs.thy ===== *)
theory Fs
  imports Klist
begin

text \<open>
  Filesystems: the inodes and operation tables of \<^verbatim>\<open>inc/fs/fs.h\<close>, the dispatch of \<^verbatim>\<open>kernel/fs/fs.c\<close>,
  and the device filesystem, \<^verbatim>\<open>kernel/fs/devfs/devfs.c\<close> and \<^verbatim>\<open>devfs/devices.c\<close>. A C string is the
  list of its bytes before the terminating zero, and comparing strings is comparing such lists; the
  byte-level routines are in \<open>Str_Util\<close>. The device list is a list in link order. An operation that
  fills a buffer returns the bytes with its result code.
\<close>

section \<open>Inodes and operation tables\<close>

type_synonym cstr = "u8 list"

datatype fs_entry_type = FS_ENTRY_TYPE_FILE | FS_ENTRY_TYPE_LINK | FS_ENTRY_TYPE_DIR

record fs_inode =
  i_type :: fs_entry_type
  i_size :: u64
  i_addr :: u64
  i_serial :: u64
  i_ctime :: u64
  i_atime :: u64
  i_mtime :: u64
  i_mode :: u32

definition inode_zero :: fs_inode where
  "inode_zero = \<lparr>i_type = FS_ENTRY_TYPE_FILE, i_size = 0, i_addr = 0, i_serial = 0, i_ctime = 0, i_atime = 0,
     i_mtime = 0, i_mode = 0\<rparr>"

definition fs_inode_serial :: "u64 \<Rightarrow> fs_inode \<Rightarrow> u64" where
  "fs_inode_serial fs_ptr i = fs_ptr + i_addr i + i_size i"

record fs_ops =
  op_open :: "(fs_inode \<Rightarrow> errcode) option"
  op_close :: "(fs_inode \<Rightarrow> errcode) option"
  op_read :: "(fs_inode \<Rightarrow> u64 \<Rightarrow> u64 \<Rightarrow> int \<times> u8 list) option"
  op_write :: "(fs_inode \<Rightarrow> u64 \<Rightarrow> u64 \<Rightarrow> u8 list \<Rightarrow> int) option"
  op_namei :: "(fs_inode option \<Rightarrow> cstr option \<Rightarrow> errcode \<times> fs_inode) option"
  op_free :: "u64 list option"

record fs =
  fs_kind :: nat
  fs_part :: u64
  ops :: fs_ops

abbreviation (input) FS_TYPE_FAT32 :: nat where "FS_TYPE_FAT32 \<equiv> 1"
abbreviation (input) FS_TYPE_DEVFS :: nat where "FS_TYPE_DEVFS \<equiv> 2"
abbreviation (input) FS_TYPE_DETECT :: nat where "FS_TYPE_DETECT \<equiv> 0"

definition fs_ops_zero :: fs_ops where
  "fs_ops_zero = \<lparr>op_open = None, op_close = None, op_read = None, op_write = None, op_namei = None, op_free = None\<rparr>"

section \<open>Dispatch\<close>

text \<open>The names of \<^verbatim>\<open>fs_type_data\<close>: FAT32 and DEVFS.\<close>

definition fs_type_names :: "cstr list" where
  "fs_type_names = [[70, 65, 84, 51, 50], [68, 69, 86, 70, 83]]"

definition fs_is_valid_type :: "nat \<Rightarrow> bool" where
  "fs_is_valid_type t \<longleftrightarrow> 2 \<ge> t \<and> t \<ge> 1"

definition fs_type_name :: "nat \<Rightarrow> cstr" where
  "fs_type_name t = (if fs_is_valid_type t then fs_type_names ! (t - 1) else [117, 110, 107, 110, 111, 119, 110])"

definition fs_type :: "cstr \<Rightarrow> nat" where
  "fs_type name = (if fs_type_names ! 0 = name then 1 else if fs_type_names ! 1 = name then 2 else 0)"

text \<open>\<open>fat32\<close> says whether FAT32 is configured in, \<open>news\<close> are the two constructors of the table.\<close>

definition fs_new1 :: "bool \<Rightarrow> (nat \<Rightarrow> fs \<Rightarrow> errcode \<times> fs) \<Rightarrow> fs \<Rightarrow> nat \<Rightarrow> errcode \<times> fs" where
  "fs_new1 fat32 news f t =
     (if \<not> fs_is_valid_type t then (- EINVAL, f)
      else if t = FS_TYPE_FAT32 \<and> \<not> fat32 then (- ENODEV, f)
      else case news t f of (err, f') \<Rightarrow> (err, if err = 0 then f'\<lparr>fs_kind := t\<rparr> else f'))"

text \<open>
  \<^verbatim>\<open>fs_new\<close>, for an allocation that succeeds (its result is not checked): FAT32 is the only type
  that is detected, and the type is cut to the \<^verbatim>\<open>uint8_t\<close> parameter of \<^verbatim>\<open>__fs_new\<close>.
\<close>

definition fs_new :: "bool \<Rightarrow> (nat \<Rightarrow> fs \<Rightarrow> errcode \<times> fs) \<Rightarrow> nat \<Rightarrow> u64 \<Rightarrow> errcode \<times> fs option" where
  "fs_new fat32 news t part =
     (let f = \<lparr>fs_kind = 0, fs_part = part, ops = fs_ops_zero\<rparr> in
      if t \<noteq> FS_TYPE_DETECT
      then (case fs_new1 fat32 news f (t mod 256) of (err, f') \<Rightarrow> if err = 0 then (0, Some f') else (err, None))
      else if fat32
      then (case fs_new1 fat32 news f FS_TYPE_FAT32 of (err, f') \<Rightarrow> if err = 0 then (0, Some f') else (- EFAULT, None))
      else (- EFAULT, None))"

definition fs_name :: "fs \<Rightarrow> cstr" where
  "fs_name f = fs_type_name (fs_kind f)"

definition fs_default :: errcode where
  "fs_default = 0"

definition fs_open :: "fs \<Rightarrow> fs_inode \<Rightarrow> errcode" where
  "fs_open f i = (case op_open (ops f) of Some g \<Rightarrow> g i | None \<Rightarrow> - ENOSYS)"

definition fs_close :: "fs \<Rightarrow> fs_inode \<Rightarrow> errcode" where
  "fs_close f i = (case op_close (ops f) of Some g \<Rightarrow> g i | None \<Rightarrow> - ENOSYS)"

definition fs_read :: "fs \<Rightarrow> fs_inode \<Rightarrow> u64 \<Rightarrow> u64 \<Rightarrow> int \<times> u8 list" where
  "fs_read f i off sz = (case op_read (ops f) of Some g \<Rightarrow> g i off sz | None \<Rightarrow> (- ENOSYS, []))"

definition fs_write :: "fs \<Rightarrow> fs_inode \<Rightarrow> u64 \<Rightarrow> u64 \<Rightarrow> u8 list \<Rightarrow> int" where
  "fs_write f i off sz buf = (case op_write (ops f) of Some g \<Rightarrow> g i off sz buf | None \<Rightarrow> - ENOSYS)"

definition fs_namei :: "fs \<Rightarrow> fs_inode option \<Rightarrow> cstr option \<Rightarrow> errcode \<times> fs_inode" where
  "fs_namei f dir name = (case op_namei (ops f) of Some g \<Rightarrow> g dir name | None \<Rightarrow> (- ENOSYS, inode_zero))"

text \<open>
  \<^verbatim>\<open>fs_free\<close>: the heap blocks that are freed, in order. The \<^verbatim>\<open>free\<close> operation of a filesystem is the list of the
  blocks it frees; it is called without a test, so that \<open>None\<close> is the call of a null pointer.
\<close>

definition fs_free :: "u64 \<Rightarrow> fs \<Rightarrow> u64 list option" where
  "fs_free a f = map_option (\<lambda>bs. bs @ [a]) (op_free (ops f))"

definition fs_is_rootfs :: "fs option \<Rightarrow> errcode" where
  "fs_is_rootfs fs =
     (case fs of
        None \<Rightarrow> - EINVAL
      | Some f \<Rightarrow>
          (case fs_namei f None None of (err, root) \<Rightarrow>
             if err \<noteq> 0 then err
             else case fs_namei f (Some root) (Some [105, 110, 105, 116]) of (err, i) \<Rightarrow>
               if err \<noteq> 0 then err
               else if i_type i \<noteq> FS_ENTRY_TYPE_FILE then - EINVAL
               else if i_size i = 0 then - EINVAL
               else 0))"

section \<open>Devices\<close>

record devfs_ops =
  d_open :: "fs_inode \<Rightarrow> errcode"
  d_close :: "fs_inode \<Rightarrow> errcode"
  d_read :: "fs_inode \<Rightarrow> u64 \<Rightarrow> u64 \<Rightarrow> int \<times> u8 list"
  d_write :: "fs_inode \<Rightarrow> u64 \<Rightarrow> u64 \<Rightarrow> u8 list \<Rightarrow> int"

record devfs_device =
  dev_name :: cstr
  dev_ops :: devfs_ops
  dev_mode :: u32
  dev_addr :: int

definition devfs_device_from_name :: "devfs_device list \<Rightarrow> cstr option \<Rightarrow> devfs_device option" where
  "devfs_device_from_name devs name = (case name of None \<Rightarrow> None | Some n \<Rightarrow> find (\<lambda>d. dev_name d = n) devs)"

text \<open>\<^verbatim>\<open>devfs_device_next\<close>: a device is known by the list that starts with it, and \<^verbatim>\<open>NULL\<close> asks for the first.\<close>

definition devfs_device_next :: "devfs_device list \<Rightarrow> devfs_device list option \<Rightarrow> devfs_device list" where
  "devfs_device_next devs dev = (case dev of None \<Rightarrow> devs | Some ds \<Rightarrow> tl ds)"

text \<open>The address parameter is an \<^verbatim>\<open>int32_t\<close>: the 64-bit inode address is cut to it.\<close>

definition devfs_device_from_addr :: "devfs_device list \<Rightarrow> u64 \<Rightarrow> devfs_device option" where
  "devfs_device_from_addr devs addr = find (\<lambda>d. dev_addr d = sint (ucast addr :: 32 word)) devs"

text \<open>\<^verbatim>\<open>devfs_device_register\<close>, for an allocation that succeeds: its result is not checked.\<close>

definition devfs_device_register :: "devfs_device list \<Rightarrow> cstr option \<Rightarrow> devfs_ops option \<Rightarrow> u32 \<Rightarrow> int \<times> devfs_device list" where
  "devfs_device_register devs name dops mode =
     (case (name, dops) of
        (Some n, Some p) \<Rightarrow>
          if devfs_device_from_name devs name \<noteq> None then (- EFAULT, devs)
          else let addr = (if devs = [] then 1 else dev_addr (hd devs) + 1)
               in (addr, \<lparr>dev_name = take NAME_MAX n, dev_ops = p, dev_mode = mode, dev_addr = addr\<rparr> # devs)
      | _ \<Rightarrow> (- EINVAL, devs))"

definition devfs_device_unregister :: "devfs_device list \<Rightarrow> cstr option \<Rightarrow> errcode \<times> devfs_device list" where
  "devfs_device_unregister devs name =
     (case (name, devfs_device_from_name devs name) of
        (Some n, Some _) \<Rightarrow> (0, takeWhile (\<lambda>d. dev_name d \<noteq> n) devs @ tl (dropWhile (\<lambda>d. dev_name d \<noteq> n) devs))
      | _ \<Rightarrow> (- EFAULT, devs))"

definition devfs_open :: "devfs_device list \<Rightarrow> fs_inode \<Rightarrow> errcode" where
  "devfs_open devs i =
     (if i_addr i = 0 then 0
      else case devfs_device_from_addr devs (i_addr i) of None \<Rightarrow> - EIO | Some d \<Rightarrow> d_open (dev_ops d) i)"

definition devfs_close :: "devfs_device list \<Rightarrow> fs_inode \<Rightarrow> errcode" where
  "devfs_close devs i =
     (if i_addr i = 0 then 0
      else case devfs_device_from_addr devs (i_addr i) of None \<Rightarrow> - EIO | Some d \<Rightarrow> d_close (dev_ops d) i)"

text \<open>The name buffer of a device has \<^verbatim>\<open>NAME_MAX + 1\<close> bytes and is copied with its padding.\<close>

definition devfs_read :: "devfs_device list \<Rightarrow> fs_inode \<Rightarrow> u64 \<Rightarrow> u64 \<Rightarrow> int \<times> u8 list" where
  "devfs_read devs i offset sz =
     (if i_addr i = 0
      then if unat offset < length devs
           then let n = min (unat sz) (NAME_MAX + 1);
                    d = devs ! unat offset
                in (int n, take n (dev_name d @ replicate (NAME_MAX + 1 - length (dev_name d)) 0))
           else (0, [])
      else case devfs_device_from_addr devs (i_addr i) of
        None \<Rightarrow> (- EIO, [])
      | Some d \<Rightarrow> d_read (dev_ops d) i offset sz)"

definition devfs_write :: "devfs_device list \<Rightarrow> fs_inode \<Rightarrow> u64 \<Rightarrow> u64 \<Rightarrow> u8 list \<Rightarrow> int" where
  "devfs_write devs i offset sz buf =
     (if i_addr i = 0 then - EISDIR
      else case devfs_device_from_addr devs (i_addr i) of
        None \<Rightarrow> - EIO
      | Some d \<Rightarrow> d_write (dev_ops d) i offset sz buf)"

text \<open>\<^verbatim>\<open>devfs_namei\<close>: \<open>fs_ptr\<close> is the address of the filesystem structure, part of the serial number.\<close>

definition devfs_namei :: "devfs_device list \<Rightarrow> u64 \<Rightarrow> fs_inode option \<Rightarrow> cstr option \<Rightarrow> errcode \<times> fs_inode" where
  "devfs_namei devs fs_ptr dir name =
     (case dir of
        None \<Rightarrow> (0, inode_zero\<lparr>i_type := FS_ENTRY_TYPE_DIR, i_serial := fs_inode_serial fs_ptr inode_zero, i_mode := 365\<rparr>)
      | Some d \<Rightarrow>
          if i_addr d \<noteq> 0 then (- EINVAL, inode_zero)
          else case devfs_device_from_name devs name of
            None \<Rightarrow> (- ENOENT, inode_zero)
          | Some dev \<Rightarrow>
              let i = inode_zero\<lparr>i_addr := of_int (dev_addr dev)\<rparr>
              in (0, i\<lparr>i_serial := fs_inode_serial fs_ptr i, i_mode := dev_mode dev\<rparr>))"

text \<open>\<^verbatim>\<open>devfs_free\<close> has nothing to free: the devices outlive every mount.\<close>

definition devfs_free :: "u64 list" where
  "devfs_free = []"

definition devfs_new :: "devfs_device list \<Rightarrow> u64 \<Rightarrow> fs \<Rightarrow> errcode \<times> fs" where
  "devfs_new devs fs_ptr f =
     (0, f\<lparr>ops := \<lparr>op_open = Some (devfs_open devs), op_close = Some (devfs_close devs), op_read = Some (devfs_read devs),
        op_write = Some (devfs_write devs), op_namei = Some (devfs_namei devs fs_ptr), op_free = Some devfs_free\<rparr>\<rparr>)"

section \<open>The filesystem interface\<close>

text \<open>
  What the layer above relies on: the lookup without a directory gives a directory inode, and a
  successful lookup of a name happens in a directory.
\<close>

locale file_system =
  fixes namei :: "fs_inode option \<Rightarrow> cstr option \<Rightarrow> errcode \<times> fs_inode"
    and is_dir :: "fs_inode \<Rightarrow> bool"
  assumes root_found: "fst (namei None name) = 0"
    and root_dir: "is_dir (snd (namei None name))"
    and found_in_dir: "fst (namei (Some d) name) = 0 \<Longrightarrow> is_dir d"
begin

text \<open>A path that starts at the root goes through directories only.\<close>

fun lookup :: "fs_inode \<Rightarrow> cstr list \<Rightarrow> fs_inode option" where
  "lookup i [] = Some i"
| "lookup i (n # ns) = (case namei (Some i) (Some n) of (err, j) \<Rightarrow> if err = 0 then lookup j ns else None)"

lemma lookup_through_dirs:
  "lookup i (ns @ n # ms) = Some j \<Longrightarrow> \<exists>d. lookup i ns = Some d \<and> is_dir d"
proof (induction ns arbitrary: i)
  case Nil
  then show ?case using found_in_dir [of i "Some n"] by (auto split: prod.splits if_splits)
next
  case (Cons m ns)
  then show ?case by (auto split: prod.splits if_splits)
qed

end

interpretation devfs: file_system "devfs_namei devs fs_ptr" "\<lambda>i. i_addr i = 0"
  by unfold_locales (auto simp: devfs_namei_def inode_zero_def split: if_splits)

section \<open>The device table\<close>

definition devs_inv :: "devfs_device list \<Rightarrow> bool" where
  "devs_inv devs \<longleftrightarrow> sorted_wrt (>) (map dev_addr devs) \<and> (\<forall>d \<in> set devs. 0 < dev_addr d \<and> dev_addr d < 2147483647)"

lemma sint_addr: "0 \<le> a \<Longrightarrow> a < 2147483648 \<Longrightarrow> sint (ucast (of_int a :: u64) :: 32 word) = a"
proof -
  assume a: "0 \<le> a" "a < 2147483648"
  then have "uint (of_int a :: u64) = a" by (simp add: uint_word_of_int_eq take_bit_int_eq_self)
  then show ?thesis using a by (simp add: signed_ucast_eq signed_take_bit_int_eq_self)
qed

lemma sorted_find: "sorted_wrt (>) (map f xs) \<Longrightarrow> x \<in> set xs \<Longrightarrow> find (\<lambda>y. f y = (f x :: int)) xs = Some x"
  by (induction xs) auto

lemma from_addr_member:
  assumes "devs_inv devs" and "d \<in> set devs"
  shows "devfs_device_from_addr devs (of_int (dev_addr d)) = Some d"
proof -
  have "0 \<le> dev_addr d" "dev_addr d < 2147483648" using assms by (auto simp: devs_inv_def)
  then have "sint (ucast (of_int (dev_addr d) :: u64) :: 32 word) = dev_addr d" by (rule sint_addr)
  then show ?thesis using assms sorted_find [of dev_addr devs d] by (simp add: devfs_device_from_addr_def devs_inv_def)
qed

lemma devs_inv_register:
  assumes "devs_inv devs" and "\<And>d. d \<in> set devs \<Longrightarrow> dev_addr d < 2147483646"
    and "devfs_device_register devs (Some n) (Some p) mode = (a, devs')" and "devfs_device_from_name devs (Some n) = None"
  shows "devs_inv devs' \<and> 0 < a \<and> devs' = \<lparr>dev_name = take NAME_MAX n, dev_ops = p, dev_mode = mode, dev_addr = a\<rparr> # devs"
proof (cases devs)
  case Nil
  then show ?thesis using assms(3,4) by (auto simp: devfs_device_register_def devs_inv_def)
next
  case (Cons d ds)
  have "dev_addr x < dev_addr d + 1" if "x \<in> set devs" for x
    using that assms(1) Cons by (auto simp: devs_inv_def)
  moreover have "a = dev_addr d + 1 \<and> devs' = \<lparr>dev_name = take NAME_MAX n, dev_ops = p, dev_mode = mode, dev_addr = a\<rparr> # devs"
    using assms(3,4) Cons by (auto simp: devfs_device_register_def Let_def)
  ultimately show ?thesis using assms(1) assms(2) [of d] Cons by (auto simp: devs_inv_def)
qed

lemma sorted_wrt_split_drop: "sorted_wrt P (xs @ y # ys) \<Longrightarrow> sorted_wrt P (xs @ ys)"
  by (auto simp: sorted_wrt_append)

lemma devs_inv_unregister [kernel_inv]:
  assumes "devs_inv devs"
  shows "devs_inv (snd (devfs_device_unregister devs name))"
proof (cases "\<exists>n d. name = Some n \<and> devfs_device_from_name devs name = Some d")
  case False
  then show ?thesis using assms by (auto simp: devfs_device_unregister_def split: option.splits)
next
  case True
  then obtain n d where n: "name = Some n" "devfs_device_from_name devs (Some n) = Some d" by auto
  let ?P = "\<lambda>d. dev_name d \<noteq> n"
  obtain ys z zs where yz: "devs = ys @ z # zs" "takeWhile ?P devs = ys" "dropWhile ?P devs = z # zs"
  proof (cases "dropWhile ?P devs")
    case Nil
    then have "\<forall>d \<in> set devs. dev_name d \<noteq> n" by (simp add: dropWhile_eq_Nil_conv)
    then show ?thesis using n(2) by (auto simp: devfs_device_from_name_def find_Some_iff)
  next
    case (Cons z zs)
    then show ?thesis using that [of "takeWhile ?P devs" z zs] takeWhile_dropWhile_id [of ?P devs] by simp
  qed
  have "snd (devfs_device_unregister devs name) = ys @ zs" using n yz by (simp add: devfs_device_unregister_def)
  then show ?thesis using assms yz(1) sorted_wrt_split_drop [of "(>)" "map dev_addr ys" "dev_addr z" "map dev_addr zs"]
    by (simp add: devs_inv_def)
qed

section \<open>Properties\<close>

text \<open>
  C17. A device that is registered under a new name of at most 255 bytes is found under it: the lookup
  in the root gives an inode through which every open, read and write reaches exactly this device's
  operations, and every device registered before keeps its own inode address.
\<close>

theorem devfs_register_reaches_device:
  assumes "devs_inv devs" and "\<And>d. d \<in> set devs \<Longrightarrow> dev_addr d < 2147483646" and "length n \<le> NAME_MAX"
    and "devfs_device_from_name devs (Some n) = None" and "i_addr root = 0"
    and "devfs_device_register devs (Some n) (Some p) mode = (a, devs')"
  shows "\<exists>i. devfs_namei devs' fs_ptr (Some root) (Some n) = (0, i) \<and> i_type i = FS_ENTRY_TYPE_FILE \<and>
    devfs_open devs' i = d_open p i \<and> devfs_read devs' i off sz = d_read p i off sz \<and>
    devfs_write devs' i off sz buf = d_write p i off sz buf \<and>
    (\<forall>d \<in> set devs. devfs_device_from_addr devs' (of_int (dev_addr d)) = Some d)"
proof -
  let ?d = "\<lparr>dev_name = n, dev_ops = p, dev_mode = mode, dev_addr = a\<rparr>"
  have r: "devs_inv devs'" "0 < a" "devs' = ?d # devs"
    using devs_inv_register [OF assms(1,2) assms(6,4)] assms(3) by auto
  have f: "devfs_device_from_name devs' (Some n) = Some ?d" using r by (simp add: devfs_device_from_name_def)
  define i where "i = (let i = inode_zero\<lparr>i_addr := of_int a\<rparr> in i\<lparr>i_serial := fs_inode_serial fs_ptr i, i_mode := mode\<rparr>)"
  have ni: "devfs_namei devs' fs_ptr (Some root) (Some n) = (0, i)"
    using f assms(5) by (simp add: devfs_namei_def i_def Let_def)
  have a: "devfs_device_from_addr devs' (of_int a) = Some ?d"
    using from_addr_member [OF r(1), of ?d] r by simp
  have "a < 2147483648" using r by (auto simp: devs_inv_def)
  then have "uint (of_int a :: u64) = a" using r(2) by (simp add: uint_word_of_int_eq take_bit_int_eq_self)
  then have "(of_int a :: u64) \<noteq> 0" using r(2) by auto
  then have "i_addr i = of_int a" "i_addr i \<noteq> 0" "i_type i = FS_ENTRY_TYPE_FILE"
    by (simp_all add: i_def Let_def inode_zero_def)
  moreover have "\<forall>d \<in> set devs. devfs_device_from_addr devs' (of_int (dev_addr d)) = Some d"
    using from_addr_member [OF r(1)] r(3) by auto
  ultimately show ?thesis using ni a
    by (intro exI [of _ i]) (simp add: devfs_open_def devfs_read_def devfs_write_def)
qed

definition null_ops :: devfs_ops where
  "null_ops = \<lparr>d_open = (\<lambda>_. 0), d_close = (\<lambda>_. 0), d_read = (\<lambda>_ _ _. (7, [])), d_write = (\<lambda>_ _ _ _. 0)\<rparr>"

theorem devfs_register_reaches_device_witness:
  "\<exists>i. devfs_namei (snd (devfs_device_register [] (Some [116, 116, 121]) (Some null_ops) 0)) 64 (Some inode_zero)
     (Some [116, 116, 121]) = (0, i) \<and>
     devfs_read (snd (devfs_device_register [] (Some [116, 116, 121]) (Some null_ops) 0)) i 0 4 = (7, [])"
proof -
  have reg: "devfs_device_register [] (Some [116, 116, 121]) (Some null_ops) 0 =
    (1, snd (devfs_device_register [] (Some [116, 116, 121]) (Some null_ops) 0))"
    by (simp add: devfs_device_register_def devfs_device_from_name_def)
  show ?thesis
    using devfs_register_reaches_device [OF _ _ _ _ _ reg, of inode_zero 64 0 4]
    by (auto simp: devs_inv_def devfs_device_from_name_def inode_zero_def null_ops_def)
qed

end
