(* ===== verification/Timestamp.thy ===== *)
theory Timestamp
  imports Prelude
begin

text \<open>
  Calendar dates as seconds since 1970, \<^verbatim>\<open>kernel/util/timestamp.c\<close>. The fields are bytes and the year a
  16-bit integer, here natural numbers; the result is a 64-bit word.
\<close>

section \<open>The code\<close>

definition IS_LEAP :: "nat \<Rightarrow> bool" where
  "IS_LEAP y \<longleftrightarrow> (y mod 4 = 0 \<and> y mod 100 \<noteq> 0) \<or> y mod 400 = 0"

definition days_in_month :: "nat \<Rightarrow> nat \<Rightarrow> nat" where
  "days_in_month month year =
     (if month \<in> {1, 3, 5, 7, 8, 10, 12} then 31
      else if month \<in> {4, 6, 9, 11} then 30
      else if month = 2 then (if IS_LEAP year then 29 else 28)
      else 0)"

abbreviation (input) SECS_PER_DAY :: nat where "SECS_PER_DAY \<equiv> 86400"

function year_loop :: "nat \<Rightarrow> nat \<Rightarrow> u64 \<Rightarrow> u64" where
  "year_loop i year res =
     (if i < year then year_loop (i + 1) year (res + of_nat ((if IS_LEAP i then 366 else 365) * SECS_PER_DAY)) else res)"
  by pat_completeness auto
termination
  by (relation "measure (\<lambda>(i, year, _). year - i)") auto

function month_loop :: "nat \<Rightarrow> nat \<Rightarrow> nat \<Rightarrow> u64 \<Rightarrow> u64" where
  "month_loop i month year res =
     (if i < month then month_loop (i + 1) month year (res + of_nat (days_in_month i year * SECS_PER_DAY)) else res)"
  by pat_completeness auto
termination
  by (relation "measure (\<lambda>(i, month, _). month - i)") auto

declare year_loop.simps [simp del] month_loop.simps [simp del]

text \<open>A day of 0 subtracts a day.\<close>

definition timestamp_calc :: "nat \<Rightarrow> nat \<Rightarrow> nat \<Rightarrow> nat \<Rightarrow> nat \<Rightarrow> nat \<Rightarrow> u64" where
  "timestamp_calc year month day hour minute second =
     month_loop 1 month year (year_loop 1970 year 0) + of_int ((int day - 1) * int SECS_PER_DAY) +
     of_nat (hour * 3600) + of_nat (minute * 60) + of_nat second"

section \<open>The calendar\<close>

text \<open>Leap years up to and including \<open>y\<close>, by the Gregorian rule.\<close>

definition leaps :: "nat \<Rightarrow> nat" where
  "leaps y = y div 4 - y div 100 + y div 400"

text \<open>Days before the first of a month in a common year.\<close>

definition month_start :: "nat \<Rightarrow> nat" where
  "month_start m = [0, 0, 31, 59, 90, 120, 151, 181, 212, 243, 273, 304, 334] ! m"

definition epoch_days :: "nat \<Rightarrow> nat \<Rightarrow> nat \<Rightarrow> nat" where
  "epoch_days y m d =
     365 * (y - 1970) + (leaps (y - 1) - leaps 1969) + month_start m + (if 2 < m \<and> IS_LEAP y then 1 else 0) + (d - 1)"

lemma leaps_Suc: "leaps (Suc y) = leaps y + (if IS_LEAP (Suc y) then 1 else 0)"
proof -
  have "y div 100 \<le> y div 4" by (rule div_le_mono2) simp_all
  moreover have "Suc y mod 100 = 0 \<Longrightarrow> Suc y mod 4 = 0" using mod_mod_cancel [of 4 100 "Suc y"] by simp
  moreover have "Suc y mod 400 = 0 \<Longrightarrow> Suc y mod 100 = 0" using mod_mod_cancel [of 100 400 "Suc y"] by simp
  ultimately show ?thesis by (auto simp: leaps_def IS_LEAP_def div_Suc)
qed

lemma leaps_mono: "x \<le> y \<Longrightarrow> leaps x \<le> leaps y"
  by (induction rule: dec_induct) (simp_all add: leaps_Suc)

lemma year_loop_days:
  "i \<le> y \<Longrightarrow> year_loop (Suc i) (Suc y) res = res + of_nat ((365 * (y - i) + (leaps y - leaps i)) * SECS_PER_DAY)"
proof (induction "y - i" arbitrary: i res)
  case 0
  then show ?case by (simp add: year_loop.simps)
next
  case (Suc k)
  then have i: "Suc i \<le> y" "i < y" by simp_all
  have "year_loop (Suc i) (Suc y) res = year_loop (Suc (Suc i)) (Suc y) (res + of_nat ((if IS_LEAP (Suc i) then 366 else 365) * SECS_PER_DAY))"
    using i by (subst year_loop.simps) simp
  also have "\<dots> = res + of_nat ((if IS_LEAP (Suc i) then 366 else 365) * SECS_PER_DAY)
      + of_nat ((365 * (y - Suc i) + (leaps y - leaps (Suc i))) * SECS_PER_DAY)"
    using Suc i by (intro Suc.hyps(1)) auto
  also have "\<dots> = res + of_nat (((if IS_LEAP (Suc i) then 366 else 365) + (365 * (y - Suc i) + (leaps y - leaps (Suc i)))) * SECS_PER_DAY)"
    by (simp only: add_mult_distrib of_nat_add add.assoc)
  also have "(if IS_LEAP (Suc i) then 366 else 365) + (365 * (y - Suc i) + (leaps y - leaps (Suc i))) =
      365 * (y - i) + (leaps y - leaps i)"
    using leaps_mono [OF i(1)] i by (simp add: leaps_Suc)
  finally show ?case .
qed

lemma month_loop_days:
  assumes "1 \<le> m" and "m \<le> 12"
  shows "month_loop 1 m y res = res + of_nat ((month_start m + (if 2 < m \<and> IS_LEAP y then 1 else 0)) * SECS_PER_DAY)"
proof -
  have "m \<in> {1, 2, 3, 4, 5, 6, 7, 8, 9, 10, 11, 12}" using assms unfolding insert_iff empty_iff by presburger
  then show ?thesis by (elim insertE emptyE) (simp_all add: month_loop.simps days_in_month_def month_start_def)
qed

section \<open>Properties\<close>

text \<open>
  C27. For every date from 1970 on with a month from 1 to 12, the two loops compute the seconds of
  the date in the proleptic Gregorian calendar, given here in closed form with the leap years
  counted by division.
\<close>

theorem timestamp_calc_gregorian:
  assumes "1970 \<le> year" and "1 \<le> month" and "month \<le> 12" and "1 \<le> day"
  shows "timestamp_calc year month day hour minute second =
    of_nat (epoch_days year month day * 86400 + hour * 3600 + minute * 60 + second)"
proof -
  obtain y where y: "year = Suc y" "1969 \<le> y" using assms(1) by (cases year) auto
  have yl: "year_loop 1970 year 0 = of_nat ((365 * (y - 1969) + (leaps y - leaps 1969)) * SECS_PER_DAY)"
    using year_loop_days [OF y(2), of 0] y by simp
  have d: "of_int ((int day - 1) * int SECS_PER_DAY) = (of_nat ((day - 1) * SECS_PER_DAY) :: u64)"
    using assms(4) by (cases day) simp_all
  have "timestamp_calc year month day hour minute second =
    of_nat ((365 * (y - 1969) + (leaps y - leaps 1969)) * SECS_PER_DAY) +
    of_nat ((month_start month + (if 2 < month \<and> IS_LEAP year then 1 else 0)) * SECS_PER_DAY) +
    of_nat ((day - 1) * SECS_PER_DAY) + of_nat (hour * 3600) + of_nat (minute * 60) + of_nat second"
    unfolding timestamp_calc_def month_loop_days [OF assms(2,3)] yl d ..
  also have "\<dots> = of_nat ((365 * (y - 1969) + (leaps y - leaps 1969)) * SECS_PER_DAY +
    (month_start month + (if 2 < month \<and> IS_LEAP year then 1 else 0)) * SECS_PER_DAY +
    (day - 1) * SECS_PER_DAY + hour * 3600 + minute * 60 + second)"
    by (simp only: of_nat_add)
  also have "\<dots> = of_nat (epoch_days year month day * 86400 + hour * 3600 + minute * 60 + second)"
    using y(1) by (simp add: epoch_days_def add_mult_distrib)
  finally show ?thesis .
qed

theorem timestamp_calc_gregorian_witness: "timestamp_calc 2000 3 1 0 0 1 = 951868801"
proof -
  have "leaps 1999 - leaps 1969 = 7" by (simp add: leaps_def)
  then show ?thesis
    using timestamp_calc_gregorian [of 2000 3 1 0 0 1] by (simp add: epoch_days_def month_start_def IS_LEAP_def)
qed

end
