(* ===== verification/Fat32.thy ===== *)
theory Fat32
  imports Fs Disk Timestamp
begin

text \<open>
  The FAT32 driver, \<^verbatim>\<open>kernel/fs/fat32/fat32.c\<close> and \<^verbatim>\<open>fat32/entry.c\<close>, over the disks of \<open>Disk\<close>. The
  mounted filesystem is a record of the partition, the disk and the fields of \<^verbatim>\<open>struct fat32_data\<close>.
  Packed structures are read from byte lists at their offsets. A pointer into a cluster buffer is the
  list of the bytes from there to the end of the buffer, and reading behind the end gives \<open>None\<close>, as
  does a division by a zero sector size or, for the walks along cluster chains, the end of the fuel: a
  chain of the disk may be a cycle.
\<close>

section \<open>State\<close>

record fat32 =
  f_ptr :: u64
  f_dev :: disk_dev
  f_disk :: disk
  f_start :: u64
  cluster_sector_count :: u8
  fat_sector :: u16
  first_data_sector :: u64
  root_cluster :: u64

definition fat32_data_cluster_to_sector :: "fat32 \<Rightarrow> u64 \<Rightarrow> u64" where
  "fat32_data_cluster_to_sector f cluster = first_data_sector f + ucast (cluster_sector_count f) * (cluster - 2)"

definition fat32_data_bytes_per_cluster :: "fat32 \<Rightarrow> u64" where
  "fat32_data_bytes_per_cluster f = sector_size (f_disk f) * ucast (cluster_sector_count f)"

definition fat32_data_cluster_to_bytes :: "fat32 \<Rightarrow> u64 \<Rightarrow> u64" where
  "fat32_data_cluster_to_bytes f cluster = fat32_data_cluster_to_sector f cluster * sector_size (f_disk f)"

definition fat32_read_raw :: "fat32 \<Rightarrow> u64 \<Rightarrow> u64 \<Rightarrow> (bool \<times> u8 list) option" where
  "fat32_read_raw f lba n = disk_read_raw (f_dev f) (f_disk f) (f_start f + lba) n"

definition fat32_read_lba :: "fat32 \<Rightarrow> u64 \<Rightarrow> u64 \<Rightarrow> (bool \<times> u8 list) option" where
  "fat32_read_lba f lba sz = disk_read_lba (f_dev f) (f_disk f) (f_start f + lba) sz"

definition fat32_read_cluster :: "fat32 \<Rightarrow> u64 \<Rightarrow> (bool \<times> u8 list) option" where
  "fat32_read_cluster f cluster = fat32_read_raw f (fat32_data_cluster_to_sector f cluster) (ucast (cluster_sector_count f))"

definition fat32_read_at :: "fat32 \<Rightarrow> u64 \<Rightarrow> u64 \<Rightarrow> (bool \<times> u8 list) option" where
  "fat32_read_at f offset sz = disk_read (f_dev f) (f_disk f) (offset + f_start f * sector_size (f_disk f)) sz"

section \<open>Mounting\<close>

text \<open>
  \<^verbatim>\<open>fat32_new\<close>. The boot record has 90 bytes, the information sector 512. The first data sector is
  computed in 32 bits. \<open>alloc\<close> says whether the allocation of the data structure succeeds.
\<close>

definition fat32_verify_extended :: "u8 list \<Rightarrow> bool" where
  "fat32_verify_extended boot \<longleftrightarrow> le 1 boot 66 = 0x29 \<or> le 1 boot 66 = 0x28"

definition fat32_verify_fsinfo :: "u8 list \<Rightarrow> bool" where
  "fat32_verify_fsinfo i \<longleftrightarrow> le 4 i 0 = 0x41615252 \<and> le 4 i 484 = 0x61417272 \<and> le 4 i 508 = 0xAA550000"

definition fat32_new :: "bool \<Rightarrow> fat32 option \<Rightarrow> (errcode \<times> fat32 option) option" where
  "fat32_new alloc part =
     (case part of
        None \<Rightarrow> Some (- EINVAL, None)
      | Some f \<Rightarrow> do {
          (ok, boot) \<leftarrow> fat32_read_lba f 0 90;
          if \<not> ok then Some (- EFAULT, None)
          else if \<not> fat32_verify_extended boot then Some (- EFAULT, None)
          else do {
            (ok, fsinfo) \<leftarrow> fat32_read_lba f (le 2 boot 48) 512;
            if \<not> ok then Some (- EFAULT, None)
            else if \<not> fat32_verify_fsinfo fsinfo then Some (- EFAULT, None)
            else if \<not> alloc then Some (- EFAULT, None)
            else Some (0, Some (f\<lparr>
              cluster_sector_count := ucast (le 1 boot 13),
              fat_sector := ucast (le 2 boot 14),
              first_data_sector := ucast (ucast (le 2 boot 14) + ucast (le 1 boot 16) * ucast (le 4 boot 36) :: u32),
              root_cluster := le 4 boot 44\<rparr>)) } })"

section \<open>Clusters\<close>

text \<open>\<^verbatim>\<open>fat32_cluster_next\<close>: \<open>0\<close> is the end of the chain, a bad cluster or a failed read.\<close>

definition fat32_cluster_next :: "fat32 \<Rightarrow> u64 \<Rightarrow> u64 option" where
  "fat32_cluster_next f cluster =
     (if sector_size (f_disk f) = 0 then None
      else
        let offset = ucast (cluster * 4 mod sector_size (f_disk f)) :: u32
        in do {
          (ok, fat_table) \<leftarrow> fat32_read_raw f (ucast (fat_sector f)) 1;
          if \<not> ok then Some 0
          else
            let c = le 4 fat_table (unat offset) AND 0x0FFFFFFF
            in Some (if c \<ge> 0x0FFFFFF8 \<or> c = 0x0FFFFFF7 then 0 else c) })"

section \<open>Directory entries\<close>

abbreviation (input) FAT32_ATTR_LFN :: u8 where "FAT32_ATTR_LFN \<equiv> 0x0f"
abbreviation (input) FAT32_ATTR_DIRECTORY :: u8 where "FAT32_ATTR_DIRECTORY \<equiv> 0x10"

definition fat32_entry_is_last :: "u8 list \<Rightarrow> bool" where
  "fat32_entry_is_last e \<longleftrightarrow> e ! 0 = 0"

definition fat32_entry_is_unused :: "u8 list \<Rightarrow> bool" where
  "fat32_entry_is_unused e \<longleftrightarrow> e ! 0 = 0xe5"

definition fat32_entry_cluster :: "u8 list \<Rightarrow> u64" where
  "fat32_entry_cluster e = push_bit 16 (le 2 e 20) OR le 2 e 26"

text \<open>The packed bit fields of times and dates, low bits first.\<close>

definition fat32_entry_time_to_timestamp :: "u8 list \<Rightarrow> nat \<Rightarrow> nat option \<Rightarrow> u64" where
  "fat32_entry_time_to_timestamp e date time =
     (let d = unat (le 2 e date); t = (case time of None \<Rightarrow> 0 | Some o' \<Rightarrow> unat (le 2 e o')) in
      timestamp_calc (d div 512 + 1980) (d div 32 mod 16) (d mod 32) (t div 2048) (t div 32 mod 64) (t mod 32 * 2))"

text \<open>The characters of a long-name entry: the low bytes of the three groups, each up to a 0 or 0xff.\<close>

definition lfn_chars :: "u8 list \<Rightarrow> nat \<Rightarrow> nat \<Rightarrow> u8 list" where
  "lfn_chars e off n = takeWhile (\<lambda>c. c \<noteq> 0 \<and> c \<noteq> 0xff) (map (\<lambda>k. e ! (off + 2 * k)) [0..<n])"

definition fat32_lfn_read :: "u8 list \<Rightarrow> u8 list" where
  "fat32_lfn_read e = lfn_chars e 1 5 @ lfn_chars e 14 6 @ lfn_chars e 28 2"

definition fat32_lfn_calc_size :: "u8 list \<Rightarrow> nat \<Rightarrow> nat" where
  "fat32_lfn_calc_size e last_size =
     (let order = unat (e ! 0 AND 31) in
      if \<not> bit (e ! 0) 6 then 0
      else if order \<le> 0 then 0
      else (order - 1) * 13 + last_size)"

definition name_check :: "nat \<Rightarrow> int \<Rightarrow> errcode" where
  "name_check s sz = (if s > NAME_MAX then - ENAMETOOLONG else if int s > sz then - EOVERFLOW else 0)"

text \<open>\<open>put_at\<close> is \<^verbatim>\<open>memcpy\<close> into the middle of a buffer.\<close>

definition put_at :: "nat \<Rightarrow> u8 list \<Rightarrow> u8 list \<Rightarrow> u8 list" where
  "put_at k bs buf = take k buf @ bs @ drop (k + length bs) buf"

definition name_append :: "u8 \<Rightarrow> int \<Rightarrow> nat \<times> u8 list \<Rightarrow> errcode \<times> nat \<times> u8 list" where
  "name_append c sz nb =
     (case nb of (name_index, name) \<Rightarrow>
        let err = name_check (name_index + 1) sz in
        if err \<noteq> 0 then (err, name_index, name) else (0, name_index + 1, name[name_index := c]))"

text \<open>The 8.3 name, up to its first space.\<close>

fun short_name :: "nat \<Rightarrow> u8 list \<Rightarrow> int \<Rightarrow> nat \<times> u8 list \<Rightarrow> errcode \<times> nat \<times> u8 list" where
  "short_name i [] sz nb = (0, nb)"
| "short_name i (c # cs) sz nb =
     (if c = 0x20 then (0, nb)
      else case (if i = 8 then name_append 46 sz nb else (0, nb)) of (err, nb1) \<Rightarrow>
        if err \<noteq> 0 then (err, nb1)
        else case name_append c sz nb1 of (err, nb2) \<Rightarrow>
          if err \<noteq> 0 then (err, nb2) else short_name (i + 1) cs sz nb2)"

text \<open>The next used entry: \<open>True\<close> and its position, or \<open>False\<close> and the position of the last entry.\<close>

function entry_next :: "u8 list \<Rightarrow> (bool \<times> u8 list) option" where
  "entry_next e =
     (let e' = drop 32 e in
      if length e' < 32 then None
      else if fat32_entry_is_last e' then Some (False, e')
      else if \<not> fat32_entry_is_unused e' then Some (True, e')
      else entry_next e')"
  by pat_completeness auto
termination
  by (relation "measure length") auto

declare entry_next.simps [simp del]

lemma entry_next_shorter: "entry_next e = Some (b, e') \<Longrightarrow> length e' + 32 \<le> length e"
proof (induction e rule: entry_next.induct)
  case (1 e)
  then show ?case by (subst (asm) (2) entry_next.simps) (auto simp: Let_def split: if_splits)
qed

text \<open>
  \<^verbatim>\<open>__fat32_entry_name\<close>: the result, the entry pointer, which is moved over the long-name entries, and
  the name buffer. \<open>name_index\<close> is a 16-bit integer.
\<close>

function fat32_entry_name :: "u8 list \<Rightarrow> int \<Rightarrow> nat \<Rightarrow> nat \<Rightarrow> u8 list \<Rightarrow> (int \<times> u8 list \<times> u8 list) option" where
  "fat32_entry_name e sz name_index lfn_total name =
     (if length e < 32 then None
      else if e ! 11 \<noteq> FAT32_ATTR_LFN then
        (case (if name_index \<noteq> 0 then (0, name_index, name) else short_name 0 (take 11 e) sz (name_index, name)) of
          (err, nb) \<Rightarrow>
            if err \<noteq> 0 then Some (err, e, snd nb)
            else case name_append 0 sz nb of (err, k, name') \<Rightarrow> Some (if err \<noteq> 0 then err else int k, e, name'))
      else
        let lfn = fat32_lfn_read e;
            total' = (if lfn_total = 0 then fat32_lfn_calc_size e (length lfn) else lfn_total);
            index' = (if lfn_total = 0 then total' else name_index);
            index2 = (index' + 65536 - length lfn) mod 65536;
            err = (if total' \<noteq> 0 then name_check (index2 + length lfn) sz else 0)
        in
          if err \<noteq> 0 then Some (err, e, name)
          else
            case entry_next e of
              None \<Rightarrow> None
            | Some (False, e') \<Rightarrow> Some (- ERANGE, e', if total' \<noteq> 0 then put_at index2 lfn name else name)
            | Some (True, e') \<Rightarrow>
                if total' \<noteq> 0
                then fat32_entry_name e' sz (if index2 = 0 then total' else index2) total' (put_at index2 lfn name)
                else fat32_entry_name e' sz 0 0 name)"
  by pat_completeness auto
termination
  by (relation "measure (\<lambda>(e, _). length e)") (auto dest!: entry_next_shorter)

declare fat32_entry_name.simps [simp del]

lemma entry_name_shorter:
  "fat32_entry_name e sz k n name = Some (r, e', name') \<Longrightarrow> length e' \<le> length e \<and> 32 \<le> length e"
proof (induction "length e" arbitrary: e k n name rule: less_induct)
  case less
  show ?case
  proof (cases "length e < 32 \<or> e ! 11 \<noteq> FAT32_ATTR_LFN")
    case True
    then show ?thesis using less.prems by (subst (asm) fat32_entry_name.simps) (auto split: prod.splits if_splits)
  next
    case False
    have step: "length e' \<le> length e"
      if "entry_next e = Some (True, d)" "fat32_entry_name d sz k' n' b = Some (r, e', name')" for d k' n' b
      using entry_next_shorter [OF that(1)] less.hyps [OF _ that(2)] by simp
    have last: "length d \<le> length e" if "entry_next e = Some (False, d)" for d
      using entry_next_shorter [OF that] by simp
    show ?thesis using False less.prems
      by (subst (asm) fat32_entry_name.simps)
         (auto simp: Let_def split: option.splits prod.splits bool.splits if_splits dest: step last)
  qed
qed

text \<open>
  The entry loop of \<^verbatim>\<open>fat32_entry_from\<close> in one cluster: the entry that was found, or the name buffer at
  the last entry, after which the next cluster is read. The null name is equal to no string.
\<close>

function entry_scan :: "cstr option \<Rightarrow> int \<Rightarrow> u8 list \<Rightarrow> u8 list \<Rightarrow> (u8 list + u8 list) option" where
  "entry_scan name sz e buf =
     (if length e < 32 then None
      else if fat32_entry_is_last e then Some (Inl buf)
      else if fat32_entry_is_unused e then entry_scan name sz (drop 32 e) buf
      else
        case fat32_entry_name e sz 0 0 buf of
          None \<Rightarrow> None
        | Some (r, e', buf') \<Rightarrow>
            if r < 0 then entry_scan name sz (drop 32 e') buf'
            else if Some (takeWhile (\<lambda>c. c \<noteq> 0) buf') = name then Some (Inr (take 32 e'))
            else entry_scan name sz (drop 32 e') buf')"
  by pat_completeness auto
termination
  by (relation "measure (\<lambda>(_, _, e, _). length e)") (auto dest!: entry_name_shorter)

declare entry_scan.simps [simp del]

fun entry_from_loop :: "nat \<Rightarrow> fat32 \<Rightarrow> cstr option \<Rightarrow> int \<Rightarrow> u64 \<Rightarrow> u8 list \<Rightarrow> (errcode \<times> u8 list) option" where
  "entry_from_loop 0 f name sz cluster buf = None"
| "entry_from_loop (Suc n) f name sz cluster buf = do {
     (ok, bytes) \<leftarrow> fat32_read_cluster f cluster;
     if \<not> ok then Some (- EFAULT, [])
     else do {
       res \<leftarrow> entry_scan name sz bytes buf;
       case res of
         Inr entry \<Rightarrow> Some (0, entry)
       | Inl buf' \<Rightarrow> do {
           cluster' \<leftarrow> fat32_cluster_next f cluster;
           if cluster' = 0 then Some (- ENOENT, []) else entry_from_loop n f name sz cluster' buf' } } }"

text \<open>\<open>junk\<close> is the uninitialised content of the name buffer on the stack.\<close>

definition fat32_entry_from :: "nat \<Rightarrow> u8 list \<Rightarrow> fat32 \<Rightarrow> u64 \<Rightarrow> cstr option \<Rightarrow> (errcode \<times> u8 list) option" where
  "fat32_entry_from n junk f cluster name =
     (let name_size = length (case name of None \<Rightarrow> [] | Some m \<Rightarrow> m) + 1 in
      if name_size > NAME_MAX + 1 then Some (- ENAMETOOLONG, [])
      else entry_from_loop n f name (int name_size) cluster (take name_size junk))"

text \<open>The entry loop of \<^verbatim>\<open>fat32_entry_get\<close>: the entry at the offset, or the offset that is left.\<close>

function entry_at :: "u64 \<Rightarrow> u8 list \<Rightarrow> (u64 + u8 list) option" where
  "entry_at offset e =
     (if length e < 32 then None
      else if fat32_entry_is_last e then Some (Inl offset)
      else if fat32_entry_is_unused e then entry_at offset (drop 32 e)
      else if offset \<noteq> 0 \<and> e ! 11 = FAT32_ATTR_LFN then entry_at offset (drop 32 e)
      else if offset = 0 then Some (Inr e)
      else entry_at (offset - 1) (drop 32 e))"
  by pat_completeness auto
termination
  by (relation "measure (\<lambda>(_, e). length e)") auto

declare entry_at.simps [simp del]

text \<open>\<open>buffer\<close> is the old content of the caller's buffer, the result its new content.\<close>

fun fat32_entry_get :: "nat \<Rightarrow> fat32 \<Rightarrow> u64 \<Rightarrow> u64 \<Rightarrow> int \<Rightarrow> u8 list \<Rightarrow> (int \<times> u8 list) option" where
  "fat32_entry_get 0 f cluster offset sz buffer = None"
| "fat32_entry_get (Suc n) f cluster offset sz buffer = do {
     (ok, bytes) \<leftarrow> fat32_read_cluster f cluster;
     if \<not> ok then Some (- EFAULT, buffer)
     else do {
       res \<leftarrow> entry_at offset bytes;
       case res of
         Inr e \<Rightarrow> map_option (\<lambda>(r, _, name). (r, name)) (fat32_entry_name e sz 0 0 buffer)
       | Inl offset' \<Rightarrow> do {
           cluster' \<leftarrow> fat32_cluster_next f cluster;
           if cluster' = 0 then Some (- ERANGE, buffer) else fat32_entry_get n f cluster' offset' sz buffer } } }"

section \<open>Files\<close>

text \<open>
  The loop of \<^verbatim>\<open>fat32_read\<close> that skips whole clusters: whether the chain is long enough, the cluster and
  the offset in it.
\<close>

fun read_skip :: "nat \<Rightarrow> fat32 \<Rightarrow> u64 \<Rightarrow> u64 \<Rightarrow> (bool \<times> u64 \<times> u64) option" where
  "read_skip 0 f cluster offset = None"
| "read_skip (Suc n) f cluster offset =
     (let cluster_size = fat32_data_bytes_per_cluster f in
      if offset > cluster_size then do {
        cluster' \<leftarrow> fat32_cluster_next f cluster;
        if cluster' = 0 then Some (False, 0, offset) else read_skip n f cluster' (offset - cluster_size) }
      else Some (True, cluster, offset))"

text \<open>
  The loop over the clusters that are read in full. The byte position of the cluster is used as sector
  number and the cluster size in bytes as the number of sectors. \<open>pos\<close> is the position in the buffer.
\<close>

fun read_full :: "nat \<Rightarrow> fat32 \<Rightarrow> u64 \<Rightarrow> u64 \<Rightarrow> u64 \<Rightarrow> nat \<Rightarrow> u8 list \<Rightarrow> (errcode \<times> u64 \<times> u64 \<times> u64 \<times> nat \<times> u8 list) option" where
  "read_full 0 f cluster offset cur_size pos buffer = None"
| "read_full (Suc n) f cluster offset cur_size pos buffer =
     (let cluster_size = fat32_data_bytes_per_cluster f in
      if cur_size > cluster_size then do {
        (ok, bytes) \<leftarrow> fat32_read_raw f (fat32_data_cluster_to_bytes f cluster + offset) cluster_size;
        let buffer' = put_at pos bytes buffer;
        if \<not> ok then Some (- EIO, cluster, offset, cur_size, pos, buffer')
        else do {
          cluster' \<leftarrow> fat32_cluster_next f cluster;
          if cluster' = 0 then Some (- EINVAL, cluster, offset, cur_size, pos, buffer')
          else read_full n f cluster' 0 (cur_size - cluster_size) (pos + unat cluster_size) buffer' } }
      else Some (0, cluster, offset, cur_size, pos, buffer))"

definition fat32_read :: "nat \<Rightarrow> fat32 \<Rightarrow> fs_inode \<Rightarrow> u64 \<Rightarrow> u64 \<Rightarrow> u8 list option \<Rightarrow> (int \<times> u8 list) option" where
  "fat32_read n f inode offset sz buffer =
     (case buffer of
        None \<Rightarrow> Some (- EINVAL, [])
      | Some buf \<Rightarrow>
          if sz = 0 then Some (- EINVAL, buf)
          else case i_type inode of
            FS_ENTRY_TYPE_DIR \<Rightarrow>
              map_option (\<lambda>(err, b). (if err = - ERANGE then 0 else err, b)) (fat32_entry_get n f (i_addr inode) offset (sint sz) buf)
          | FS_ENTRY_TYPE_FILE \<Rightarrow>
              if offset \<ge> i_size inode then Some (0, buf)
              else do {
                let sz = (if sz > i_size inode - offset then i_size inode - offset else sz);
                (found, cluster, offset) \<leftarrow> read_skip n f (i_addr inode) offset;
                if \<not> found then Some (- EINVAL, buf)
                else do {
                  (err, cluster, offset, cur_size, pos, buf1) \<leftarrow> read_full n f cluster offset sz 0 buf;
                  if err \<noteq> 0 then Some (err, buf1)
                  else if cur_size > 0 then do {
                    (ok, bytes) \<leftarrow> fat32_read_at f (fat32_data_cluster_to_bytes f cluster + offset) cur_size;
                    if \<not> ok then Some (- EIO, put_at pos bytes buf1) else Some (sint sz, put_at pos bytes buf1) }
                  else Some (sint sz, buf1) } }
          | FS_ENTRY_TYPE_LINK \<Rightarrow> Some (- EINVAL, buf))"

definition fat32_write :: "fat32 \<Rightarrow> fs_inode \<Rightarrow> u64 \<Rightarrow> u64 \<Rightarrow> u8 list \<Rightarrow> int" where
  "fat32_write f inode offset sz buffer = - ENOSYS"

definition fat32_namei :: "nat \<Rightarrow> u8 list \<Rightarrow> fat32 \<Rightarrow> fs_inode option \<Rightarrow> cstr option \<Rightarrow> (errcode \<times> fs_inode) option" where
  "fat32_namei n junk f dir name =
     (case dir of
        None \<Rightarrow>
          let i = inode_zero\<lparr>i_type := FS_ENTRY_TYPE_DIR, i_addr := root_cluster f\<rparr>
          in Some (0, i\<lparr>i_serial := fs_inode_serial (f_ptr f) i, i_mode := 511\<rparr>)
      | Some d \<Rightarrow> do {
          (err, entry) \<leftarrow> fat32_entry_from n junk f (i_addr d) name;
          if err \<noteq> 0 then Some (err, inode_zero)
          else
            let i = inode_zero\<lparr>i_type := (if entry ! 11 AND FAT32_ATTR_DIRECTORY \<noteq> 0 then FS_ENTRY_TYPE_DIR else FS_ENTRY_TYPE_FILE),
                      i_addr := fat32_entry_cluster entry, i_size := le 4 entry 28\<rparr>
            in Some (0, i\<lparr>i_serial := fs_inode_serial (f_ptr f) i,
                 i_ctime := fat32_entry_time_to_timestamp entry 16 (Some 14),
                 i_mtime := fat32_entry_time_to_timestamp entry 24 (Some 22),
                 i_atime := fat32_entry_time_to_timestamp entry 18 None,
                 i_mode := i_mode d\<rparr>) })"

section \<open>Long names\<close>

text \<open>
  How a long name is stored: chunks of 13 characters, the last one first, the last one marked in its
  order byte and padded with a 0 and with 0xff, and the 8.3 entry behind them.
\<close>

definition lfn_pad :: "u8 list \<Rightarrow> u8 list" where
  "lfn_pad chunk = take 13 (chunk @ 0 # replicate 13 0xff)"

definition wide :: "u8 list \<Rightarrow> u8 list" where
  "wide cs = concat (map (\<lambda>c. [c, 0]) cs)"

definition lfn_entry :: "u8 \<Rightarrow> u8 list \<Rightarrow> u8 list" where
  "lfn_entry order chunk =
     [order] @ wide (take 5 (lfn_pad chunk)) @ [0x0f, 0, 0] @ wide (take 6 (drop 5 (lfn_pad chunk))) @ [0, 0] @
     wide (drop 11 (lfn_pad chunk))"

primrec lfn_dir :: "nat \<Rightarrow> u8 list \<Rightarrow> u8 list" where
  "lfn_dir 0 name = []"
| "lfn_dir (Suc k) name = lfn_entry (of_nat (Suc k)) (take 13 (drop (13 * k) name)) @ lfn_dir k name"

definition lfn_encode :: "u8 list \<Rightarrow> u8 list \<Rightarrow> u8 list" where
  "lfn_encode name short =
     (let n = (length name - 1) div 13 in
      lfn_entry (0x40 OR of_nat (Suc n)) (drop (13 * n) name) @ lfn_dir n name @ short)"

definition short_entry :: "u8 list \<Rightarrow> bool" where
  "short_entry e \<longleftrightarrow> length e = 32 \<and> e ! 11 \<noteq> FAT32_ATTR_LFN \<and> e ! 0 \<noteq> 0 \<and> e ! 0 \<noteq> 0xe5"

definition name_chars :: "u8 list \<Rightarrow> bool" where
  "name_chars name \<longleftrightarrow> (\<forall>c \<in> set name. c \<noteq> 0 \<and> c \<noteq> 0xff)"

lemma length_wide [simp]: "length (wide cs) = 2 * length cs"
  by (induction cs) (simp_all add: wide_def)

lemma wide_nth: "k < length cs \<Longrightarrow> wide cs ! (2 * k) = cs ! k"
proof (induction cs arbitrary: k)
  case (Cons c cs)
  then show ?case by (cases k) (simp_all add: wide_def)
qed simp

lemma length_lfn_pad [simp]: "length (lfn_pad chunk) = 13"
  by (simp add: lfn_pad_def)

lemma length_lfn_entry [simp]: "length (lfn_entry order chunk) = 32"
  by (simp add: lfn_entry_def)

lemma wide_window:
  assumes "e = p @ wide cs @ q"
  shows "map (\<lambda>k. e ! (length p + 2 * k)) [0..<length cs] = cs"
  by (rule nth_equalityI) (simp_all add: assms nth_append wide_nth)

lemma take_drop_take: "k + n \<le> m \<Longrightarrow> take n (drop k (take m xs)) = take n (drop k xs)"
  by (simp add: drop_take)

lemma takeWhile_window:
  assumes "\<And>c. c \<in> set xs \<Longrightarrow> P c" and "\<And>c. c \<in> set ys \<Longrightarrow> \<not> P c"
  shows "takeWhile P (take n (drop k (xs @ ys))) = take n (drop k xs)"
proof -
  have x: "\<forall>c \<in> set (take n (drop k xs)). P c" using assms(1) by (meson in_set_dropD in_set_takeD)
  have "takeWhile P zs = []" if "set zs \<subseteq> set ys" for zs using that assms(2) by (cases zs) auto
  moreover have "set (take m (drop j ys)) \<subseteq> set ys" for m j by (auto dest: in_set_takeD in_set_dropD)
  ultimately show ?thesis using x by (simp add: takeWhile_append2)
qed

lemma lfn_read_entry:
  assumes "name_chars chunk" and "length chunk \<le> 13"
  shows "fat32_lfn_read (lfn_entry order chunk @ r) = chunk"
proof -
  let ?e = "lfn_entry order chunk @ r" and ?P = "\<lambda>c :: u8. c \<noteq> 0 \<and> c \<noteq> 0xff"
  let ?c = "lfn_pad chunk"
  have w: "map (\<lambda>k. ?e ! (1 + 2 * k)) [0..<5] = take 5 ?c" "map (\<lambda>k. ?e ! (14 + 2 * k)) [0..<6] = take 6 (drop 5 ?c)"
    "map (\<lambda>k. ?e ! (28 + 2 * k)) [0..<2] = drop 11 ?c"
    using wide_window [of ?e "[order]" "take 5 ?c" "[0x0f, 0, 0] @ wide (take 6 (drop 5 ?c)) @ [0, 0] @ wide (drop 11 ?c) @ r"]
      wide_window [of ?e "[order] @ wide (take 5 ?c) @ [0x0f, 0, 0]" "take 6 (drop 5 ?c)" "[0, 0] @ wide (drop 11 ?c) @ r"]
      wide_window [of ?e "[order] @ wide (take 5 ?c) @ [0x0f, 0, 0] @ wide (take 6 (drop 5 ?c)) @ [0, 0]" "drop 11 ?c" r]
    by (simp_all add: lfn_entry_def)
  have p: "takeWhile ?P (take n (drop k ?c)) = take n (drop k chunk)" if "k + n \<le> 13" for n k
  proof -
    have "take n (drop k ?c) = take n (drop k (chunk @ 0 # replicate 13 0xff))"
      unfolding lfn_pad_def using that by (rule take_drop_take)
    then show ?thesis using assms(1) takeWhile_window [of chunk ?P "0 # replicate 13 0xff" n k]
      by (auto simp: name_chars_def)
  qed
  have "drop 11 ?c = take 2 (drop 11 ?c)" by simp
  then have "fat32_lfn_read ?e = take 5 chunk @ take 6 (drop 5 chunk) @ take 2 (drop 11 chunk)"
    using p [of 0 5] p [of 5 6] p [of 11 2] unfolding fat32_lfn_read_def lfn_chars_def w by simp
  also have "\<dots> = take (5 + (6 + 2)) chunk" by (simp only: take_add drop_drop) (simp add: add.commute)
  finally show ?thesis using assms(2) by simp
qed

lemma lfn_entry_nth: "(lfn_entry order chunk @ r) ! 0 = order" "(lfn_entry order chunk @ r) ! 11 = 0x0f"
  by (simp_all add: lfn_entry_def nth_append)

lemma entry_next_used:
  "length x = 32 \<Longrightarrow> 32 \<le> length e \<Longrightarrow> e ! 0 \<noteq> 0 \<Longrightarrow> e ! 0 \<noteq> 0xe5 \<Longrightarrow> entry_next (x @ e) = Some (True, e)"
  by (subst entry_next.simps) (simp add: fat32_entry_is_last_def fat32_entry_is_unused_def)

lemma small_order:
  assumes "0 < k" and "k \<le> 20"
  shows "(of_nat k :: u8) \<noteq> 0" "(of_nat k :: u8) \<noteq> 0xe5" "(0x40 OR of_nat k :: u8) \<noteq> 0" "(0x40 OR of_nat k :: u8) \<noteq> 0xe5"
    "bit (0x40 OR of_nat k :: u8) 6" "unat ((0x40 OR of_nat k :: u8) AND 31) = k"
proof -
  have "k \<in> {1, 2, 3, 4, 5, 6, 7, 8, 9, 10, 11, 12, 13, 14, 15, 16, 17, 18, 19, 20}"
    using assms unfolding insert_iff empty_iff by presburger
  then show "(of_nat k :: u8) \<noteq> 0" "(of_nat k :: u8) \<noteq> 0xe5" "(0x40 OR of_nat k :: u8) \<noteq> 0" "(0x40 OR of_nat k :: u8) \<noteq> 0xe5"
    "bit (0x40 OR of_nat k :: u8) 6" "unat ((0x40 OR of_nat k :: u8) AND 31) = k"
    by (elim insertE emptyE; simp)+
qed

lemma lfn_dir_start:
  assumes "short_entry short" and "k \<le> 20"
  shows "32 \<le> length (lfn_dir k name @ short @ r)" "(lfn_dir k name @ short @ r) ! 0 \<noteq> 0" "(lfn_dir k name @ short @ r) ! 0 \<noteq> 0xe5"
proof -
  show "32 \<le> length (lfn_dir k name @ short @ r)" using assms(1) by (simp add: short_entry_def)
  show "(lfn_dir k name @ short @ r) ! 0 \<noteq> 0" "(lfn_dir k name @ short @ r) ! 0 \<noteq> 0xe5"
  proof (atomize (full), cases k)
    case 0
    have "(short @ r) ! 0 = short ! 0" using assms(1) by (simp add: short_entry_def nth_append)
    then show "(lfn_dir k name @ short @ r) ! 0 \<noteq> 0 \<and> (lfn_dir k name @ short @ r) ! 0 \<noteq> 0xe5"
      using assms(1) 0 by (simp add: short_entry_def)
  next
    case (Suc m)
    then show "(lfn_dir k name @ short @ r) ! 0 \<noteq> 0 \<and> (lfn_dir k name @ short @ r) ! 0 \<noteq> 0xe5"
      using small_order(1,2) [of k] assms(2) by (simp add: lfn_entry_nth del: of_nat_Suc)
  qed
qed

lemma put_at_chunk:
  assumes "k + length c = m" and "m \<le> length b" and "drop m (take n b) = xs" and "m \<le> n"
  shows "drop k (take n (put_at k c b)) = c @ xs" "length (put_at k c b) = length b"
    "drop n (put_at k c b) = drop n b"
  using assms by (auto simp: put_at_def drop_take)

text \<open>One long-name entry in the loop, for a name whose total size is known.\<close>

lemma entry_name_step:
  assumes "name_chars c" and "length c \<le> 13" and "length e \<ge> 32" and "e ! 0 \<noteq> 0" and "e ! 0 \<noteq> 0xe5"
    and "tot \<noteq> 0" and "k + length c \<le> NAME_MAX" and "int (k + length c) \<le> sz"
    and "lfn = 0 \<and> fat32_lfn_calc_size (lfn_entry order c @ e) (length c) = tot \<and> tot = k + length c \<or>
         lfn = tot \<and> index = k + length c"
  shows "fat32_entry_name (lfn_entry order c @ e) sz index lfn buf =
    fat32_entry_name e sz (if k = 0 then tot else k) tot (put_at k c buf)"
proof -
  have r: "fat32_lfn_read (lfn_entry order c @ e) = c" using assms(1,2) by (rule lfn_read_entry)
  have x: "entry_next (lfn_entry order c @ e) = Some (True, e)" using assms(3-5) by (intro entry_next_used) simp_all
  have k: "(k + length c + 65536 - length c) mod 65536 = k" using assms(7) by simp
  have "name_check (k + length c) sz = 0" using assms(7,8) by (simp add: name_check_def)
  then show ?thesis using assms(6,9) r x k
    by (subst fat32_entry_name.simps) (auto simp: lfn_entry_nth Let_def)
qed

lemma entry_name_finish:
  assumes "short_entry short" and "L \<noteq> 0" and "Suc L \<le> NAME_MAX" and "int (Suc L) \<le> sz"
  shows "fat32_entry_name (short @ r) sz L n buf = Some (int (Suc L), short @ r, buf[L := 0])"
proof -
  have "(short @ r) ! 11 = short ! 11" using assms(1) by (simp add: short_entry_def nth_append)
  then show ?thesis using assms
    by (subst fat32_entry_name.simps) (simp add: short_entry_def name_append_def name_check_def Let_def)
qed

lemma entry_name_dir:
  assumes "name_chars name" and "short_entry short" and "name \<noteq> []" and "length name < NAME_MAX"
  shows "k \<le> 20 \<Longrightarrow> 13 * k \<le> length name \<Longrightarrow> length name < length buf \<Longrightarrow>
    drop (13 * k) (take (length name) buf) = drop (13 * k) name \<Longrightarrow>
    fat32_entry_name (lfn_dir k name @ short @ r) (int (length buf)) (if k = 0 then length name else 13 * k) (length name) buf =
      Some (int (Suc (length name)), short @ r, name @ 0 # drop (Suc (length name)) buf)"
proof (induction k arbitrary: buf)
  case 0
  let ?L = "length name"
  have "buf = name @ buf ! ?L # drop (Suc ?L) buf" using 0 by (metis append_take_drop_id Cons_nth_drop_Suc drop_0 mult_0_right)
  then have "buf[?L := 0] = name @ 0 # drop (Suc ?L) buf" by (metis list_update_length)
  then show ?case using entry_name_finish [OF assms(2), of ?L "int (length buf)" r ?L buf] 0 assms by simp
next
  case (Suc k)
  let ?c = "take 13 (drop (13 * k) name)" and ?L = "length name"
  have c: "name_chars ?c" "length ?c = 13" using assms(1) Suc.prems by (auto simp: name_chars_def dest: in_set_takeD in_set_dropD)
  have b: "drop (13 * k) (take ?L (put_at (13 * k) ?c buf)) = ?c @ drop (13 * Suc k) name"
    "length (put_at (13 * k) ?c buf) = length buf" "drop ?L (put_at (13 * k) ?c buf) = drop ?L buf"
    using put_at_chunk [of "13 * k" ?c "13 * Suc k" buf ?L "drop (13 * Suc k) name"] c Suc.prems by simp_all
  have "?c @ drop (13 * Suc k) name = drop (13 * k) name"
    using append_take_drop_id [of 13 "drop (13 * k) name"] by (simp add: add.commute)
  then have ih: "fat32_entry_name (lfn_dir k name @ short @ r) (int (length buf)) (if k = 0 then ?L else 13 * k) ?L (put_at (13 * k) ?c buf) =
      Some (int (Suc ?L), short @ r, name @ 0 # drop (Suc ?L) (put_at (13 * k) ?c buf))"
    using Suc.IH [of "put_at (13 * k) ?c buf"] Suc.prems b by simp
  have "fat32_entry_name (lfn_entry (of_nat (Suc k)) ?c @ lfn_dir k name @ short @ r) (int (length buf)) (13 * Suc k) ?L buf =
      fat32_entry_name (lfn_dir k name @ short @ r) (int (length buf)) (if 13 * k = 0 then ?L else 13 * k) ?L (put_at (13 * k) ?c buf)"
    using c Suc.prems assms lfn_dir_start [OF assms(2), of k name r] by (intro entry_name_step) auto
  moreover have "drop (Suc ?L) (put_at (13 * k) ?c buf) = drop (Suc ?L) buf"
    using arg_cong [OF b(3), of "drop 1"] by simp
  ultimately show ?case using ih by (simp del: of_nat_Suc)
qed

definition sample_entry :: "u8 list" where
  "sample_entry = [73, 78, 73, 84, 32, 32, 32, 32, 32, 32, 32, 0x20] @ replicate 20 0"

definition sample_fat :: fat32 where
  "sample_fat = \<lparr>f_ptr = 64,
     f_dev = \<lparr>dev_read = (\<lambda>lba n. (True, map of_nat [unat lba * 512 ..< (unat lba + unat n) * 512])),
       dev_write = (\<lambda>_ _ _. True), dev_info = (True, DISK_TYPE_HDD, 512, 100)\<rparr>,
     f_disk = disk_new DISK_CONTROLLER_AHCI, f_start = 1, cluster_sector_count = 1, fat_sector = 1,
     first_data_sector = 4, root_cluster = 2\<rparr>"

definition sample_file :: fs_inode where
  "sample_file = inode_zero\<lparr>i_size := 1000, i_addr := 3\<rparr>"

text \<open>A disk of four-byte sectors, all of them 0xff.\<close>

definition ones_fat :: fat32 where
  "ones_fat = sample_fat\<lparr>f_dev := \<lparr>dev_read = (\<lambda>lba n. (True, map (\<lambda>_. 0xff) [unat lba * 4 ..< (unat lba + unat n) * 4])),
       dev_write = (\<lambda>_ _ _. True), dev_info = (True, DISK_TYPE_HDD, 4, 100)\<rparr>,
     f_disk := (disk_new DISK_CONTROLLER_AHCI)\<lparr>sector_size := 4\<rparr>\<rparr>"

lemma ones_serves: "dev_serves 64 (f_dev ones_fat) (f_disk ones_fat) (\<lambda>_. 0xff)"
  by (simp add: dev_serves_def ones_fat_def disk_new_def)

lemma sample_serves: "dev_serves 4096 (f_dev sample_fat) (f_disk sample_fat) of_nat"
  by (simp add: dev_serves_def sample_fat_def disk_new_def)

lemma fat32_read_within_cluster:
  assumes "dev_serves lim (f_dev f) (f_disk f) img" and "i_type inode = FS_ENTRY_TYPE_FILE" and "offset < i_size inode" and "sz \<noteq> 0"
    and "m = min sz (i_size inode - offset)" and "m \<le> fat32_data_bytes_per_cluster f" and "offset \<le> fat32_data_bytes_per_cluster f"
    and "B = fat32_data_cluster_to_bytes f (i_addr inode) + offset + f_start f * sector_size (f_disk f)"
    and "disk_reach lim (f_disk f) B m"
  shows "fat32_read (Suc n) f inode offset sz (Some buf) =
    Some (sint m, put_at 0 (map img [unat B ..< unat B + unat m]) buf)"
proof -
  have m: "(if sz > i_size inode - offset then i_size inode - offset else sz) = m" using assms(5) by (auto simp: min_def not_less)
  have "i_size inode - offset \<noteq> 0" using assms(3) by auto
  then have "m > 0" using assms(4,5) by (auto simp: word_gt_0 min_def)
  moreover have "fat32_read_at f (fat32_data_cluster_to_bytes f (i_addr inode) + offset) m =
      Some (True, map img [unat B ..< unat B + unat m])"
    using disk_read_serves [OF assms(1), of B m] assms(8,9) by (simp add: fat32_read_at_def)
  moreover have "\<not> fat32_data_bytes_per_cluster f < m" "\<not> fat32_data_bytes_per_cluster f < offset" "\<not> i_size inode \<le> offset"
    using assms(3,6,7) by (simp_all only: not_less not_le)
  ultimately show ?thesis using assms(2,4) m by (simp add: fat32_read_def Let_def)
qed

section \<open>Properties\<close>

text \<open>
  C25. Long names round-trip: the entries that store a name of at most 254 bytes, whatever follows
  them, are read back as exactly this name and its terminating zero, the entry pointer is left at the
  8.3 entry, and the rest of the buffer is untouched.
\<close>

theorem fat32_long_name_roundtrip:
  assumes "name \<noteq> []" and "length name < NAME_MAX" and "name_chars name" and "short_entry short" and "length name < length buf"
  shows "fat32_entry_name (lfn_encode name short @ r) (int (length buf)) 0 0 buf =
    Some (int (Suc (length name)), short @ r, name @ 0 # drop (Suc (length name)) buf)"
proof -
  let ?L = "length name"
  define n where "n = (?L - 1) div 13"
  let ?c = "drop (13 * n) name" and ?e = "lfn_dir n name @ short @ r"
  have L: "0 < ?L" using assms(1) by simp
  have dm: "13 * n + (?L - 1) mod 13 = ?L - 1" unfolding n_def by (metis mult_div_mod_eq)
  have n: "13 * n < ?L" "?L \<le> 13 * n + 13" using dm L mod_less_divisor [of 13 "?L - 1"] by linarith+
  have n20: "Suc n \<le> 20" using n(1) assms(2) by linarith
  have c: "name_chars ?c" "length ?c \<le> 13" "13 * n + length ?c = ?L"
    using assms(3) n by (auto simp: name_chars_def dest: in_set_dropD)
  have "fat32_lfn_calc_size (lfn_entry (0x40 OR of_nat (Suc n)) ?c @ ?e) (length ?c) = ?L"
    using small_order(5,6) [of "Suc n"] n20 c(3) by (simp add: fat32_lfn_calc_size_def lfn_entry_nth Let_def mult.commute del: of_nat_Suc)
  then have "fat32_entry_name (lfn_entry (0x40 OR of_nat (Suc n)) ?c @ ?e) (int (length buf)) 0 0 buf =
      fat32_entry_name ?e (int (length buf)) (if 13 * n = 0 then ?L else 13 * n) ?L (put_at (13 * n) ?c buf)"
    using c assms(2,5) L lfn_dir_start [OF assms(4), of n name r] n20 by (intro entry_name_step) auto
  moreover have b: "drop (13 * n) (take ?L (put_at (13 * n) ?c buf)) = ?c @ []" "length (put_at (13 * n) ?c buf) = length buf"
    "drop ?L (put_at (13 * n) ?c buf) = drop ?L buf"
    using put_at_chunk [of "13 * n" ?c ?L buf ?L "[]"] c assms(5) by simp_all
  moreover have "fat32_entry_name ?e (int (length buf)) (if n = 0 then ?L else 13 * n) ?L (put_at (13 * n) ?c buf) =
      Some (int (Suc ?L), short @ r, name @ 0 # drop (Suc ?L) (put_at (13 * n) ?c buf))"
    using entry_name_dir [OF assms(3,4,1,2), of n "put_at (13 * n) ?c buf" r] b n n20 assms(5) by simp
  moreover have "drop (Suc ?L) (put_at (13 * n) ?c buf) = drop (Suc ?L) buf"
    using arg_cong [OF b(3), of "drop 1"] by simp
  moreover have "lfn_encode name short @ r = lfn_entry (0x40 OR of_nat (Suc n)) ?c @ ?e"
    by (simp add: lfn_encode_def n_def Let_def del: of_nat_Suc)
  ultimately show ?thesis by (simp del: of_nat_Suc)
qed

theorem fat32_long_name_roundtrip_witness:
  "fat32_entry_name (lfn_encode [105, 110, 105, 116] sample_entry) 6 0 0 [9, 9, 9, 9, 9, 9] =
     Some (5, sample_entry, [105, 110, 105, 116, 0, 9])"
proof -
  have "short_entry sample_entry" by (simp add: short_entry_def sample_entry_def)
  then show ?thesis
    using fat32_long_name_roundtrip [of "[105, 110, 105, 116]" sample_entry "[9, 9, 9, 9, 9, 9]" "[]"]
    by (simp add: name_chars_def)
qed

text \<open>
  C26. A read that starts in the first cluster of a file and is not longer than a cluster gives the
  bytes that follow the start position on the disk, cut at the file size, without looking at the file
  allocation table. (For a read that crosses the end of the cluster these are the bytes of the
  neighbouring cluster, whichever file it belongs to.)
\<close>

theorem fat32_read_contiguous:
  assumes "dev_serves lim (f_dev f) (f_disk f) img" and "i_type inode = FS_ENTRY_TYPE_FILE" and "offset < i_size inode" and "sz \<noteq> 0"
    and "m = min sz (i_size inode - offset)" and "m \<le> fat32_data_bytes_per_cluster f" and "offset \<le> fat32_data_bytes_per_cluster f"
    and "B = fat32_data_cluster_to_bytes f (i_addr inode) + offset + f_start f * sector_size (f_disk f)"
    and "disk_reach lim (f_disk f) B m"
  shows "fat32_read (Suc n) f inode offset sz (Some buf) =
    Some (sint m, put_at 0 (map img [unat B ..< unat B + unat m]) buf)"
  using assms by (rule fat32_read_within_cluster)

theorem fat32_read_contiguous_witness: "fat32_read 1 sample_fat sample_file 7 2 (Some [1, 2, 3]) = Some (2, [7, 8, 3])"
proof -
  have e: "map of_nat [3079..<3081] = [7 :: u8, 8]" by (simp add: upt_rec)
  show ?thesis
    using fat32_read_contiguous [OF sample_serves, of sample_file 7 2 2 3079 0 "[1, 2, 3]"] e
    by (simp add: sample_file_def inode_zero_def sample_fat_def fat32_data_bytes_per_cluster_def put_at_def
        fat32_data_cluster_to_bytes_def fat32_data_cluster_to_sector_def disk_new_def disk_reach_def)
qed

text \<open>
  A read of more than one cluster addresses the disk wrongly: for its first cluster, the byte
  position of the cluster is taken as a sector number and the cluster size in bytes as a number of
  sectors, so that the transfer comes from another place and is longer than the buffer part it is for
  by the factor of the sector size.
\<close>

theorem fat32_read_full_misaddressed:
  assumes "dev_serves lim (f_dev f) (f_disk f) img" and "i_type inode = FS_ENTRY_TYPE_FILE" and "offset < i_size inode" and "sz \<noteq> 0"
    and "fat32_data_bytes_per_cluster f < min sz (i_size inode - offset)" and "offset \<le> fat32_data_bytes_per_cluster f"
    and "lba = f_start f + (fat32_data_cluster_to_bytes f (i_addr inode) + offset)"
    and "fat32_cluster_next f (i_addr inode) = Some 0" and "0 < fat32_data_bytes_per_cluster f"
    and "unat (fat32_data_bytes_per_cluster f) * unat (sector_size (f_disk f)) \<le> lim"
    and "unat lba + unat (fat32_data_bytes_per_cluster f) \<le> 2 ^ 48"
  shows "fat32_read (Suc n) f inode offset sz (Some buf) =
    Some (- EINVAL, put_at 0 (map img [unat lba * unat (sector_size (f_disk f)) ..<
      (unat lba + unat (fat32_data_bytes_per_cluster f)) * unat (sector_size (f_disk f))]) buf)"
proof -
  let ?m = "if sz > i_size inode - offset then i_size inode - offset else sz"
  have m: "?m > fat32_data_bytes_per_cluster f" using assms(5) by (auto simp: min_def not_less split: if_splits)
  have r: "fat32_read_raw f (fat32_data_cluster_to_bytes f (i_addr inode) + offset) (fat32_data_bytes_per_cluster f) =
      Some (True, map img [unat lba * unat (sector_size (f_disk f)) ..<
        (unat lba + unat (fat32_data_bytes_per_cluster f)) * unat (sector_size (f_disk f))])"
    using read_raw_serves [OF assms(1), of "fat32_data_bytes_per_cluster f" lba] assms(7,9-11) by (simp add: fat32_read_raw_def)
  have "\<not> fat32_data_bytes_per_cluster f < offset" "\<not> i_size inode \<le> offset"
    using assms(3,6) by (simp_all only: not_less not_le)
  then show ?thesis using assms(2,4,8) m r by (simp add: fat32_read_def Let_def)
qed

theorem fat32_read_full_misaddressed_witness:
  "fat32_read 1 ones_fat sample_file 0 5 (Some [1, 2, 3, 4, 5]) = Some (- EINVAL, [0xff, 0xff, 0xff, 0xff, 0xff, 0xff, 0xff, 0xff, 0xff, 0xff, 0xff, 0xff, 0xff, 0xff, 0xff, 0xff])"
proof -
  have c: "fat32_cluster_next ones_fat 3 = Some 0"
    by code_simp
  have b: "fat32_data_bytes_per_cluster ones_fat = 4" "sector_size (f_disk ones_fat) = 4" "f_start ones_fat = 1"
    "fat32_data_cluster_to_bytes ones_fat 3 = 20"
    by (simp_all add: ones_fat_def sample_fat_def fat32_data_bytes_per_cluster_def fat32_data_cluster_to_bytes_def
        fat32_data_cluster_to_sector_def)
  show ?thesis
    using fat32_read_full_misaddressed [OF ones_serves, of sample_file 0 5 21 0 "[1, 2, 3, 4, 5]"] c b
    by (simp add: sample_file_def inode_zero_def put_at_def map_replicate_const)
qed

end
