(* ===== verification/Io.thy ===== *)
theory Io
  imports Prelude
begin

text \<open>
  Port input and output, \<^verbatim>\<open>kernel/util/io.c\<close>. The devices behind the ports are not part of the source: they
  are an argument \<open>hw\<close>, which gives what a port reads after a history of accesses. Every operation
  appends its accesses to the history, the newest last.
\<close>

datatype io_event = Out8 u16 u8 | Out16 u16 u16 | Out32 u16 u32 | In8 u16 | In16 u16 | In32 u16

type_synonym history = "io_event list"

record ports =
  reads8 :: "history \<Rightarrow> u16 \<Rightarrow> u8"
  reads16 :: "history \<Rightarrow> u16 \<Rightarrow> u16"
  reads32 :: "history \<Rightarrow> u16 \<Rightarrow> u32"

type_synonym 'a io = "history \<Rightarrow> 'a \<times> history"

definition out8 :: "u16 \<Rightarrow> u8 \<Rightarrow> bool io" where
  "out8 port val t = (if port = 0 then (False, t) else (True, t @ [Out8 port val]))"

definition out16 :: "u16 \<Rightarrow> u16 \<Rightarrow> bool io" where
  "out16 port val t = (if port = 0 then (False, t) else (True, t @ [Out16 port val]))"

definition out32 :: "u16 \<Rightarrow> u32 \<Rightarrow> bool io" where
  "out32 port val t = (if port = 0 then (False, t) else (True, t @ [Out32 port val]))"

definition in8 :: "ports \<Rightarrow> u16 \<Rightarrow> u8 io" where
  "in8 hw port t = (if port = 0 then (0, t) else (reads8 hw t port, t @ [In8 port]))"

definition in16 :: "ports \<Rightarrow> u16 \<Rightarrow> u16 io" where
  "in16 hw port t = (if port = 0 then (0, t) else (reads16 hw t port, t @ [In16 port]))"

definition in32 :: "ports \<Rightarrow> u16 \<Rightarrow> u32 io" where
  "in32 hw port t = (if port = 0 then (0, t) else (reads32 hw t port, t @ [In32 port]))"

definition io_wait :: "history \<Rightarrow> history" where
  "io_wait t = snd (out8 0x80 0 t)"

definition out8_wait :: "u16 \<Rightarrow> u8 \<Rightarrow> bool io" where
  "out8_wait port val t = (case out8 port val t of (ret, t1) \<Rightarrow> (ret, io_wait t1))"

definition out16_wait :: "u16 \<Rightarrow> u16 \<Rightarrow> bool io" where
  "out16_wait port val t = (case out16 port val t of (ret, t1) \<Rightarrow> (ret, io_wait t1))"

definition out32_wait :: "u16 \<Rightarrow> u32 \<Rightarrow> bool io" where
  "out32_wait port val t = (case out32 port val t of (ret, t1) \<Rightarrow> (ret, io_wait t1))"

text \<open>\<^verbatim>\<open>a && b\<close>: the second operation runs when the first succeeds.\<close>

definition and_then :: "bool io \<Rightarrow> bool io \<Rightarrow> bool io" where
  "and_then a b t = (case a t of (ok, t1) \<Rightarrow> if ok then b t1 else (False, t1))"

lemmas io_defs = out8_def out16_def out32_def in8_def in16_def in32_def io_wait_def out8_wait_def out16_wait_def
  out32_wait_def and_then_def

end
