(* ===== verification/Pci.thy ===== *)
theory Pci
  imports Io "HOL-Library.Monad_Syntax"
begin

text \<open>
  The PCI bus, \<^verbatim>\<open>kernel/core/pci/pci.c\<close> and \<^verbatim>\<open>kernel/core/pci/device.c\<close>: access to the configuration space over
  two ports, the enumeration of the functions and the choice of a driver. The host bridge is the
  device of \<open>Io\<close>. \<open>alloc n\<close> tells whether the heap has room for a list of \<open>n\<close> devices; the source does not check
  it, and \<open>None\<close> is the use of a null pointer.
\<close>

section \<open>The configuration space\<close>

abbreviation (input) PCI_ADDRESS_PORT :: u16 where "PCI_ADDRESS_PORT \<equiv> 0xCF8"
abbreviation (input) PCI_DATA_PORT :: u16 where "PCI_DATA_PORT \<equiv> 0xCFC"

definition pci_addr :: "u8 \<Rightarrow> u8 \<Rightarrow> u8 \<Rightarrow> u8 \<Rightarrow> u32" where
  "pci_addr bus slot func offset =
     push_bit 31 1 OR push_bit 16 (ucast bus) OR push_bit 11 (ucast slot) OR push_bit 8 (ucast func) OR ucast offset"

definition pci_read32 :: "ports \<Rightarrow> u8 \<Rightarrow> u8 \<Rightarrow> u8 \<Rightarrow> u8 \<Rightarrow> u32 io" where
  "pci_read32 hw bus slot func offset t =
     (case out32 PCI_ADDRESS_PORT (pci_addr bus slot func offset) t of (ok, t1) \<Rightarrow>
        if \<not> ok then (0, t1) else in32 hw PCI_DATA_PORT t1)"

definition pci_read16 :: "ports \<Rightarrow> u8 \<Rightarrow> u8 \<Rightarrow> u8 \<Rightarrow> u8 \<Rightarrow> u16 io" where
  "pci_read16 hw bus slot func offset t =
     (case out32 PCI_ADDRESS_PORT (pci_addr bus slot func offset) t of (ok, t1) \<Rightarrow>
        if \<not> ok then (0, t1) else in16 hw (PCI_DATA_PORT + ucast (offset AND 2)) t1)"

definition pci_read8 :: "ports \<Rightarrow> u8 \<Rightarrow> u8 \<Rightarrow> u8 \<Rightarrow> u8 \<Rightarrow> u8 io" where
  "pci_read8 hw bus slot func offset t =
     (case out32 PCI_ADDRESS_PORT (pci_addr bus slot func offset) t of (ok, t1) \<Rightarrow>
        if \<not> ok then (0, t1) else in8 hw (PCI_DATA_PORT + ucast (offset AND 3)) t1)"

definition pci_write32 :: "u8 \<Rightarrow> u8 \<Rightarrow> u8 \<Rightarrow> u8 \<Rightarrow> u32 \<Rightarrow> bool io" where
  "pci_write32 bus slot func offset val =
     and_then (out32 PCI_ADDRESS_PORT (pci_addr bus slot func (offset AND 0xfc))) (out32 PCI_DATA_PORT val)"

definition pci_write16 :: "u8 \<Rightarrow> u8 \<Rightarrow> u8 \<Rightarrow> u8 \<Rightarrow> u16 \<Rightarrow> bool io" where
  "pci_write16 bus slot func offset val =
     and_then (out32 (PCI_ADDRESS_PORT + ucast (offset AND 2)) (pci_addr bus slot func (offset AND 0xfc)))
       (out16 (PCI_DATA_PORT + ucast (offset AND 2)) val)"

definition pci_write8 :: "u8 \<Rightarrow> u8 \<Rightarrow> u8 \<Rightarrow> u8 \<Rightarrow> u8 \<Rightarrow> bool io" where
  "pci_write8 bus slot func offset val =
     and_then (out32 (PCI_ADDRESS_PORT + ucast (offset AND 3)) (pci_addr bus slot func (offset AND 0xfc)))
       (out8 (PCI_DATA_PORT + ucast (offset AND 3)) val)"

definition pci_exists :: "ports \<Rightarrow> u8 \<Rightarrow> u8 \<Rightarrow> u8 \<Rightarrow> bool io" where
  "pci_exists hw bus slot func t = (case pci_read16 hw bus slot func 0 t of (v, t1) \<Rightarrow> (v \<noteq> 0xffff, t1))"

section \<open>Devices\<close>

record pci_device =
  pci_bus :: u8
  pci_slot :: u8
  pci_func :: u8
  vendor_id :: u16
  device_id :: u16
  command :: u16
  status :: u16
  revision_id :: u8
  progif :: u8
  pci_subclass :: u8
  pci_class :: u8
  pci_type :: u8
  bist :: u8
  int_line :: u8

definition pci_device_load :: "ports \<Rightarrow> u8 \<Rightarrow> u8 \<Rightarrow> u8 \<Rightarrow> pci_device io" where
  "pci_device_load hw bus slot func t0 =
     (let read16 = pci_read16 hw bus slot func; read8 = pci_read8 hw bus slot func;
          (vendor, t1) = read16 0 t0; (device, t2) = read16 2 t1; (comm, t3) = read16 4 t2; (stat, t4) = read16 6 t3;
          (rev_id, t5) = read8 8 t4; (prog, t6) = read8 9 t5; (sub, t7) = read8 10 t6; (cls, t8) = read8 11 t7;
          (typ, t9) = read8 14 t8; (bst, t10) = read8 15 t9; (line, t11) = read8 60 t10
      in (\<lparr>pci_bus = bus, pci_slot = slot, pci_func = func, vendor_id = vendor, device_id = device, command = comm,
           status = stat, revision_id = rev_id, progif = prog, pci_subclass = sub, pci_class = cls, pci_type = typ,
           bist = bst, int_line = line\<rparr>, t11))"

section \<open>Enumeration\<close>

abbreviation (input) PCI_BUS_COUNT :: nat where "PCI_BUS_COUNT \<equiv> 256"
abbreviation (input) PCI_SLOT_COUNT :: nat where "PCI_SLOT_COUNT \<equiv> 32"
abbreviation (input) PCI_FUNC_COUNT :: nat where "PCI_FUNC_COUNT \<equiv> 8"

record pci_data =
  pci_list :: "pci_device list"
  pci_ports :: history

function pci_enum_single :: "ports \<Rightarrow> (nat \<Rightarrow> bool) \<Rightarrow> u8 \<Rightarrow> u8 \<Rightarrow> nat \<Rightarrow> pci_data \<Rightarrow> pci_data option" where
  "pci_enum_single hw alloc bus slot func s =
     (if func \<ge> PCI_FUNC_COUNT then Some s
      else case pci_exists hw bus slot (of_nat func) (pci_ports s) of (found, t1) \<Rightarrow>
        if \<not> found then
          (if func \<noteq> 0 then pci_enum_single hw alloc bus slot (func + 1) (s\<lparr>pci_ports := t1\<rparr>)
           else Some (s\<lparr>pci_ports := t1\<rparr>))
        else if \<not> alloc (length (pci_list s) + 1) then None
        else case pci_device_load hw bus slot (of_nat func) t1 of (cur, t2) \<Rightarrow>
          (let s1 = \<lparr>pci_list = pci_list s @ [cur], pci_ports = t2\<rparr> in
           if func = 0 \<and> pci_type cur AND 0x80 \<noteq> 0 then pci_enum_single hw alloc bus slot (func + 1) s1
           else if func \<noteq> 0 then pci_enum_single hw alloc bus slot (func + 1) s1
           else Some s1))"
  by pat_completeness auto
termination by (relation "measure (\<lambda>(hw, alloc, bus, slot, func, s). 8 - func)") auto

declare pci_enum_single.simps [simp del]

fun pci_enum_slots :: "ports \<Rightarrow> (nat \<Rightarrow> bool) \<Rightarrow> (u8 \<times> u8) list \<Rightarrow> pci_data \<Rightarrow> pci_data option" where
  "pci_enum_slots hw alloc [] s = Some s"
| "pci_enum_slots hw alloc ((bus, slot) # bs) s =
     Option.bind (pci_enum_single hw alloc bus slot 0 s) (pci_enum_slots hw alloc bs)"

definition pci_slots :: "(u8 \<times> u8) list" where
  "pci_slots = concat (map (\<lambda>b. map (\<lambda>s. (of_nat b, of_nat s)) [0..<PCI_SLOT_COUNT]) [0..<PCI_BUS_COUNT])"

definition pci_enum :: "ports \<Rightarrow> (nat \<Rightarrow> bool) \<Rightarrow> pci_data \<Rightarrow> pci_data option" where
  "pci_enum hw alloc = pci_enum_slots hw alloc pci_slots"

section \<open>Drivers\<close>

record 's pci_driver =
  drv_vendor :: u16
  drv_device :: u16
  drv_subclass :: u8
  drv_class :: u8
  drv_type :: u8
  drv_init :: "(pci_device \<Rightarrow> 's \<Rightarrow> int \<times> 's) option"

definition drv_match :: "'s pci_driver \<Rightarrow> pci_device \<Rightarrow> bool" where
  "drv_match c d \<longleftrightarrow>
     (drv_vendor c = 0xffff \<or> drv_vendor c = vendor_id d) \<and>
     (drv_device c = 0xffff \<or> drv_device c = device_id d) \<and>
     (drv_type c = 0xff \<or> drv_class c = pci_class d) \<and>
     (drv_class c = 0xff \<or> drv_class c = pci_class d) \<and>
     (drv_subclass c = 0xff \<or> drv_subclass c = pci_subclass d)"

definition pci_device_init :: "'s pci_driver list \<Rightarrow> pci_device \<Rightarrow> 's \<Rightarrow> int \<times> 's" where
  "pci_device_init drivers d w =
     (case find (\<lambda>c. drv_match c d) drivers of
        None \<Rightarrow> (- ENOSYS, w)
      | Some cur \<Rightarrow> (case drv_init cur of None \<Rightarrow> (0, w) | Some f \<Rightarrow> f d w))"

text \<open>The counters of the loops over the list have 16 bits: with 65536 devices they never end, which is \<open>None\<close>.\<close>

definition pci_init :: "ports \<Rightarrow> (nat \<Rightarrow> bool) \<Rightarrow> 's pci_driver list \<Rightarrow> history \<Rightarrow> 's \<Rightarrow> (int \<times> pci_data \<times> 's) option" where
  "pci_init hw alloc drivers t w = do {
     s \<leftarrow> pci_enum hw alloc \<lparr>pci_list = [], pci_ports = t\<rparr>;
     if length (pci_list s) \<ge> 2 ^ 16 then None
     else Some (0, s, fold (\<lambda>d w. snd (pci_device_init drivers d w)) (pci_list s) w) }"

section \<open>Addresses\<close>

lemma top_bit: "bit (push_bit 31 1 :: u32) n \<longleftrightarrow> n = 31"
  unfolding bit_push_bit_iff bit_1_iff by auto

lemma pci_addr_bit: "bit (pci_addr bus slot func offset) n \<longleftrightarrow>
    n < 32 \<and> (n = 31 \<or> n \<ge> 16 \<and> bit bus (n - 16) \<or> n \<ge> 11 \<and> bit slot (n - 11) \<or> n \<ge> 8 \<and> bit func (n - 8) \<or> bit offset n)"
  unfolding pci_addr_def bit_or_iff top_bit by (auto simp: bit_simps)

section \<open>The host bridge\<close>

text \<open>
  What the host bridge promises: after an address was written, the four data ports read the bytes of the
  addressed double word, and two neighbouring ports together its halves. \<open>cfg\<close> is the configuration space.
\<close>

definition le16 :: "(u32 \<Rightarrow> u8) \<Rightarrow> u32 \<Rightarrow> u16" where
  "le16 cfg a = ucast (cfg a) OR push_bit 8 (ucast (cfg (a + 1)))"

definition host_bridge :: "(u32 \<Rightarrow> u8) \<Rightarrow> ports \<Rightarrow> bool" where
  "host_bridge cfg hw \<longleftrightarrow>
     (\<forall>t a k. k \<in> {0, 1, 2, 3} \<longrightarrow> reads8 hw (t @ [Out32 0xCF8 a]) (0xCFC + ucast k) = cfg ((a AND NOT 3) + k)) \<and>
     (\<forall>t a k. k \<in> {0, 2} \<longrightarrow> reads16 hw (t @ [Out32 0xCF8 a]) (0xCFC + ucast k) = le16 cfg ((a AND NOT 3) + k))"

lemma low_two_bits: "(x :: u8) AND 3 = (if bit x 0 then 1 else 0) OR (if bit x 1 then 2 else 0)"
    "(x :: u8) AND 2 = (if bit x 1 then 2 else 0)"
proof -
  have m: "(3 :: u8) = mask 2" "(2 :: u8) = push_bit 1 1" by (simp_all add: mask_eq_exp_minus_1)
  show "x AND 3 = (if bit x 0 then 1 else 0) OR (if bit x 1 then 2 else 0)"
    unfolding m by (rule bit_word_eqI) (auto simp: bit_simps less_Suc_eq numeral_2_eq_2)
  show "x AND 2 = (if bit x 1 then 2 else 0)" unfolding m by (rule bit_word_eqI) (auto simp: bit_simps)
qed

lemma low_two_cases: "ucast ((x :: u8) AND 3) \<in> {0, 1, 2, 3 :: u32}" "ucast ((x :: u8) AND 2) \<in> {0, 2 :: u32}"
  unfolding low_two_bits by simp_all

lemma data_port: "k \<in> {0, 1, 2, 3 :: u32} \<Longrightarrow> (0xCFC :: u16) + ucast k \<noteq> 0"
  by auto

lemma pci_addr_low: "(pci_addr bus slot func offset AND NOT 3) + ucast (offset AND 3) = pci_addr bus slot func offset"
proof -
  let ?a = "pci_addr bus slot func offset"
  have m: "(3 :: u32) = mask 2" "(3 :: u8) = mask 2" by (simp_all add: mask_eq_exp_minus_1)
  have "ucast (offset AND 3) = ?a AND 3"
    unfolding m by (rule bit_word_eqI) (auto simp: bit_simps pci_addr_bit)
  moreover have "(?a AND NOT 3) AND (?a AND 3) = 0" by (rule bit_word_eqI) (simp only: bit_simps, auto)
  ultimately have "(?a AND NOT 3) + ucast (offset AND 3) = (?a AND NOT 3) OR (?a AND 3)"
    by (simp only: disjunctive_add_eq_or)
  also have "\<dots> = ?a" by (rule bit_word_eqI) (simp only: bit_simps, auto)
  finally show ?thesis .
qed

lemma ucast_low: "(ucast (x AND y :: u8) :: u16) = ucast (ucast (x AND y) :: u32)"
  by (rule bit_word_eqI) (auto simp: bit_simps)

lemma pci_read8_cfg:
  assumes "host_bridge cfg hw"
  shows "pci_read8 hw bus slot func offset t = (cfg (pci_addr bus slot func offset),
    t @ [Out32 0xCF8 (pci_addr bus slot func offset), In8 (0xCFC + ucast (offset AND 3))])"
proof -
  let ?k = "ucast (offset AND 3) :: u32"
  have "reads8 hw (t @ [Out32 0xCF8 (pci_addr bus slot func offset)]) (0xCFC + ucast ?k) = cfg (pci_addr bus slot func offset)"
    using assms low_two_cases(1) [of offset] unfolding host_bridge_def by (metis pci_addr_low)
  then show ?thesis using data_port [OF low_two_cases(1) [of offset]]
    unfolding pci_read8_def ucast_low by (simp add: out32_def in8_def)
qed

lemma pci_read16_cfg:
  assumes "host_bridge cfg hw" and "\<not> bit offset 0"
  shows "pci_read16 hw bus slot func offset t = (le16 cfg (pci_addr bus slot func offset),
    t @ [Out32 0xCF8 (pci_addr bus slot func offset), In16 (0xCFC + ucast (offset AND 2))])"
proof -
  let ?k = "ucast (offset AND 2) :: u32"
  have e: "offset AND 2 = offset AND 3" unfolding low_two_bits using assms(2) by simp
  have "reads16 hw (t @ [Out32 0xCF8 (pci_addr bus slot func offset)]) (0xCFC + ucast ?k) = le16 cfg (pci_addr bus slot func offset)"
    using assms(1) low_two_cases(2) [of offset] unfolding host_bridge_def by (metis pci_addr_low e)
  then show ?thesis using data_port [OF low_two_cases(1) [of offset], folded e]
    unfolding pci_read16_def ucast_low by (simp add: out32_def in16_def)
qed

text \<open>The functions of a slot and their devices, read off the configuration space.\<close>

definition cfg_device :: "(u32 \<Rightarrow> u8) \<Rightarrow> u8 \<Rightarrow> u8 \<Rightarrow> u8 \<Rightarrow> pci_device" where
  "cfg_device cfg bus slot func =
     (let r16 = (\<lambda>off. le16 cfg (pci_addr bus slot func off)); r8 = (\<lambda>off. cfg (pci_addr bus slot func off)) in
      \<lparr>pci_bus = bus, pci_slot = slot, pci_func = func, vendor_id = r16 0, device_id = r16 2, command = r16 4,
       status = r16 6, revision_id = r8 8, progif = r8 9, pci_subclass = r8 10, pci_class = r8 11, pci_type = r8 14,
       bist = r8 15, int_line = r8 60\<rparr>)"

definition cfg_exists :: "(u32 \<Rightarrow> u8) \<Rightarrow> u8 \<Rightarrow> u8 \<Rightarrow> u8 \<Rightarrow> bool" where
  "cfg_exists cfg bus slot func \<longleftrightarrow> le16 cfg (pci_addr bus slot func 0) \<noteq> 0xffff"

definition cfg_devices :: "(u32 \<Rightarrow> u8) \<Rightarrow> u8 \<Rightarrow> u8 \<Rightarrow> pci_device list" where
  "cfg_devices cfg bus slot =
     (if \<not> cfg_exists cfg bus slot 0 then []
      else if pci_type (cfg_device cfg bus slot 0) AND 0x80 = 0 then [cfg_device cfg bus slot 0]
      else map (cfg_device cfg bus slot) (filter (cfg_exists cfg bus slot) (map of_nat [0..<8])))"

lemma pci_exists_cfg:
  assumes "host_bridge cfg hw"
  shows "\<exists>t'. pci_exists hw bus slot func t = (cfg_exists cfg bus slot func, t')"
  using pci_read16_cfg [OF assms, of 0 bus slot func t] by (auto simp: pci_exists_def cfg_exists_def)

lemma pci_device_load_cfg:
  assumes "host_bridge cfg hw"
  shows "\<exists>t'. pci_device_load hw bus slot func t = (cfg_device cfg bus slot func, t')"
proof -
  have o: "\<not> bit (0 :: u8) 0" "\<not> bit (2 :: u8) 0" "\<not> bit (4 :: u8) 0" "\<not> bit (6 :: u8) 0" by simp_all
  show ?thesis unfolding pci_device_load_def Let_def pci_read8_cfg [OF assms] o [THEN pci_read16_cfg [OF assms]]
    by (simp add: cfg_device_def)
qed

lemma pci_enum_upper:
  assumes "host_bridge cfg hw" and "\<forall>n. alloc n" and "0 < func"
  shows "\<exists>t'. pci_enum_single hw alloc bus slot func s = Some \<lparr>pci_list = pci_list s @
    map (cfg_device cfg bus slot) (filter (cfg_exists cfg bus slot) (map of_nat [func..<8])), pci_ports = t'\<rparr>"
  using assms(3)
proof (induction "8 - func" arbitrary: func s)
  case 0
  then show ?case by (cases s) (simp add: pci_enum_single.simps)
next
  case (Suc n)
  obtain t1 where t1: "pci_exists hw bus slot (of_nat func) (pci_ports s) = (cfg_exists cfg bus slot (of_nat func), t1)"
    using pci_exists_cfg [OF assms(1)] by blast
  obtain t2 where t2: "pci_device_load hw bus slot (of_nat func) t1 = (cfg_device cfg bus slot (of_nat func), t2)"
    using pci_device_load_cfg [OF assms(1)] by blast
  have u: "[func..<8] = func # [func + 1..<8]" using Suc.hyps(2) by (simp add: upt_rec)
  have IH: "\<exists>t'. pci_enum_single hw alloc bus slot (func + 1) s' = Some \<lparr>pci_list = pci_list s' @
    map (cfg_device cfg bus slot) (filter (cfg_exists cfg bus slot) (map of_nat [func + 1..<8])), pci_ports = t'\<rparr>" for s'
    using Suc.hyps by simp
  show ?case
    using Suc.hyps(2) Suc.prems assms(2) IH [of "s\<lparr>pci_ports := t1\<rparr>"]
      IH [of "\<lparr>pci_list = pci_list s @ [cfg_device cfg bus slot (of_nat func)], pci_ports = t2\<rparr>"]
    by (subst pci_enum_single.simps) (auto simp: u t1 t2 Let_def simp del: upt.simps)
qed

lemma pci_enum_slot:
  assumes "host_bridge cfg hw" and "\<forall>n. alloc n"
  shows "\<exists>t'. pci_enum_single hw alloc bus slot 0 s = Some \<lparr>pci_list = pci_list s @ cfg_devices cfg bus slot, pci_ports = t'\<rparr>"
proof -
  obtain t1 where t1: "pci_exists hw bus slot 0 (pci_ports s) = (cfg_exists cfg bus slot 0, t1)"
    using pci_exists_cfg [OF assms(1)] by blast
  obtain t2 where t2: "pci_device_load hw bus slot 0 t1 = (cfg_device cfg bus slot 0, t2)"
    using pci_device_load_cfg [OF assms(1)] by blast
  have p: "s\<lparr>pci_ports := t1\<rparr> = \<lparr>pci_list = pci_list s, pci_ports = t1\<rparr>" by (cases s) simp
  have u: "[0..<8] = 0 # [Suc 0..<8]" by (simp add: upt_rec)
  show ?thesis
    using pci_enum_upper [OF assms, of 1 bus slot "\<lparr>pci_list = pci_list s @ [cfg_device cfg bus slot 0], pci_ports = t2\<rparr>"]
    by (subst pci_enum_single.simps) (auto simp: spec [OF assms(2), of "length (pci_list s) + 1", simplified] u t1 t2 p Let_def cfg_devices_def simp del: upt.simps)
qed

lemma pci_enum_slots_cfg:
  assumes "host_bridge cfg hw" and "\<forall>n. alloc n"
  shows "\<exists>t'. pci_enum_slots hw alloc bs s = Some \<lparr>pci_list = pci_list s @ concat (map (\<lambda>(b, sl). cfg_devices cfg b sl) bs), pci_ports = t'\<rparr>"
proof (induction bs arbitrary: s)
  case Nil
  then show ?case by (cases s) simp
next
  case (Cons x bs)
  obtain t1 where "pci_enum_single hw alloc (fst x) (snd x) 0 s =
      Some \<lparr>pci_list = pci_list s @ cfg_devices cfg (fst x) (snd x), pci_ports = t1\<rparr>"
    using pci_enum_slot [OF assms] by blast
  then show ?case using Cons [of "\<lparr>pci_list = pci_list s @ cfg_devices cfg (fst x) (snd x), pci_ports = t1\<rparr>"]
    by (cases x) auto
qed

text \<open>The header type of a device is never compared with the one a driver asks for.\<close>

lemma drv_match_any_type: "drv_match c (d\<lparr>pci_type := x\<rparr>) = drv_match c d"
  by (simp add: drv_match_def)

section \<open>Properties\<close>

text \<open>
  With a host bridge that serves the configuration space and room on the heap, the enumeration ends and
  lists exactly the functions that are there, in the order of bus, slot and function, each with the contents of
  its header: nothing for a slot without function 0, function 0 alone for a device with one function, and
  every present function for a device with several.
\<close>

theorem pci_enum_lists_config_space:
  assumes "host_bridge cfg hw" and "\<forall>n. alloc n"
  shows "\<exists>s. pci_enum hw alloc \<lparr>pci_list = [], pci_ports = t\<rparr> = Some s \<and>
    pci_list s = concat (map (\<lambda>(bus, slot). cfg_devices cfg bus slot) pci_slots)"
  using pci_enum_slots_cfg [OF assms, of pci_slots "\<lparr>pci_list = [], pci_ports = t\<rparr>"] by (auto simp: pci_enum_def)

definition one_device :: "u32 \<Rightarrow> u8" where
  "one_device a = (if a AND 0xFFFFFF00 = 0x80001800 then (if a AND 0xFF = 0 then 0x86 else if a AND 0xFF = 1 then 0x80 else 0) else 0xff)"

fun last_out32 :: "io_event list \<Rightarrow> u32" where
  "last_out32 [] = 0"
| "last_out32 (Out32 _ a # es) = a"
| "last_out32 (_ # es) = last_out32 es"

definition bridge :: "(u32 \<Rightarrow> u8) \<Rightarrow> ports" where
  "bridge cfg = \<lparr>reads8 = (\<lambda>t p. cfg ((last_out32 (rev t) AND NOT 3) + (ucast p - 0xCFC))),
     reads16 = (\<lambda>t p. le16 cfg ((last_out32 (rev t) AND NOT 3) + (ucast p - 0xCFC))), reads32 = (\<lambda>t p. 0)\<rparr>"

lemma bridge_host: "host_bridge cfg (bridge cfg)"
  by (auto simp: host_bridge_def bridge_def)

theorem pci_enum_lists_config_space_witness:
  "host_bridge one_device (bridge one_device) \<and>
   (\<exists>s. pci_enum (bridge one_device) (\<lambda>n. True) \<lparr>pci_list = [], pci_ports = []\<rparr> = Some s \<and>
    pci_list s = concat (map (\<lambda>(bus, slot). cfg_devices one_device bus slot) pci_slots) \<and>
    cfg_devices one_device 0 3 \<noteq> [] \<and> cfg_devices one_device 0 4 = [])"
proof -
  have "cfg_devices one_device 0 3 \<noteq> []" "cfg_devices one_device 0 4 = []" by code_simp+
  then show ?thesis
    using bridge_host pci_enum_lists_config_space [OF bridge_host, of "\<lambda>n. True" one_device "[]"] by blast
qed

text \<open>
  The address word keeps the four parts apart: bus, slot, function and offset can be read back from it, so two
  different functions never share an address.
\<close>

theorem pci_addr_roundtrip:
  fixes bus slot func offset :: u8
  assumes "unat slot < 32" and "unat func < 8"
  shows "ucast (drop_bit 16 (pci_addr bus slot func offset)) = bus \<and>
    ucast (take_bit 5 (drop_bit 11 (pci_addr bus slot func offset))) = slot \<and>
    ucast (take_bit 3 (drop_bit 8 (pci_addr bus slot func offset))) = func \<and>
    ucast (pci_addr bus slot func offset) = offset"
proof -
  have s: "bit slot n \<Longrightarrow> n < 5" and f: "bit func n \<Longrightarrow> n < 3" for n
    using assms bit_lt_of_less [of slot 5] bit_lt_of_less [of func 3] by simp_all
  have "ucast (drop_bit 16 (pci_addr bus slot func offset)) = bus"
    by (rule bit_word_eqI) (auto simp: bit_simps pci_addr_bit dest: s f bit_imp_le_length)
  moreover have "ucast (take_bit 5 (drop_bit 11 (pci_addr bus slot func offset))) = slot"
    by (rule bit_word_eqI) (auto simp: bit_simps pci_addr_bit dest: s f bit_imp_le_length)
  moreover have "ucast (take_bit 3 (drop_bit 8 (pci_addr bus slot func offset))) = func"
    by (rule bit_word_eqI) (auto simp: bit_simps pci_addr_bit dest: s f bit_imp_le_length)
  moreover have "ucast (pci_addr bus slot func offset) = offset"
    by (rule bit_word_eqI) (auto simp: bit_simps pci_addr_bit dest: s f bit_imp_le_length)
  ultimately show ?thesis by blast
qed

theorem pci_addr_roundtrip_witness:
  "unat (31 :: u8) < 32 \<and> unat (7 :: u8) < 8 \<and> (ucast (take_bit 3 (drop_bit 8 (pci_addr 5 31 7 0x3c))) :: u8) = 7"
  using pci_addr_roundtrip [of 31 7 5 "0x3c"] by simp

text \<open>
  A 16-bit write to the upper half of a double word does not reach the device: the address goes to the port two
  above the address port.
\<close>

theorem pci_write16_upper_half:
  assumes "bit offset 1"
  shows "pci_write16 bus slot func offset val t =
    (True, t @ [Out32 0xCFA (pci_addr bus slot func (offset AND 0xfc)), Out16 0xCFE val])"
  using assms unfolding pci_write16_def low_two_bits by (simp add: io_defs)

theorem pci_write16_upper_half_witness:
  "bit (6 :: u8) 1 \<and> pci_write16 0 3 0 6 0x10 [] = (True, [Out32 0xCFA 0x80001804, Out16 0xCFE 0x10])"
proof -
  have "bit (6 :: u8) 1" "pci_addr 0 3 0 (6 AND 0xfc) = 0x80001804" by (code_simp)+
  then show ?thesis using pci_write16_upper_half [of 6 0 3 0 "0x10" "[]"] by simp
qed

end
