(* ===== verification/Vfs.thy ===== *)
theory Vfs
  imports Fs "HOL-Library.Monad_Syntax"
begin

text \<open>
  The virtual filesystem, \<^verbatim>\<open>kernel/fs/vfs/node.c\<close> and \<^verbatim>\<open>kernel/fs/vfs/vfs.c\<close>: a tree of nodes linked by
  parent, child and sibling pointers. The nodes live in a store from addresses to node records, in
  which a freed node is absent; the null pointer is \<open>0\<close>. An operation gives \<open>None\<close> when it follows a
  pointer to a node that is not there (memory that was never allocated or was freed) or when its fuel
  runs out; the lemmas on well-formed trees show that it does neither. The addresses \<^verbatim>\<open>heap_alloc\<close>
  returns are an input, the list \<open>fresh\<close>, in which \<open>0\<close> is a failed allocation. \<open>fst_of\<close> is the memory
  that holds the filesystem structures.
\<close>

section \<open>Nodes\<close>

record vfs_node =
  v_fs :: u64
  v_inode :: fs_inode
  v_name :: cstr
  v_refs :: u64
  v_mount_fs :: u64
  v_mount :: fs_inode
  v_parent :: u64
  v_child :: u64
  v_sibling :: u64

record vfs =
  nodes :: "u64 \<Rightarrow> vfs_node option"
  vfs_root :: u64
  fresh :: "u64 list"

type_synonym fs_store = "u64 \<Rightarrow> fs"

definition node_upd :: "u64 \<Rightarrow> (vfs_node \<Rightarrow> vfs_node) \<Rightarrow> vfs \<Rightarrow> vfs" where
  "node_upd p f s = s\<lparr>nodes := (nodes s)(p := map_option f (nodes s p))\<rparr>"

definition vfs_node_is_directory :: "vfs_node \<Rightarrow> bool" where
  "vfs_node_is_directory v \<longleftrightarrow> i_type (v_inode v) = FS_ENTRY_TYPE_DIR"

definition vfs_node_is_mountpoint :: "vfs_node \<Rightarrow> bool" where
  "vfs_node_is_mountpoint v \<longleftrightarrow> v_mount_fs v \<noteq> 0"

definition vfs_node_is_fs_root :: "vfs \<Rightarrow> vfs_node \<Rightarrow> bool option" where
  "vfs_node_is_fs_root s v =
     (if v_parent v = 0 then Some True
      else do { w \<leftarrow> nodes s (v_parent v); Some (v_fs v \<noteq> v_fs w) })"

text \<open>\<^verbatim>\<open>__vfs_node_deleteable\<close> and its loop over the children.\<close>

fun vfs_node_deleteable :: "nat \<Rightarrow> vfs \<Rightarrow> u64 \<Rightarrow> bool option"
  and deleteable_childs :: "nat \<Rightarrow> vfs \<Rightarrow> u64 \<Rightarrow> bool option" where
  "vfs_node_deleteable 0 s p = None"
| "vfs_node_deleteable (Suc n) s p =
     do { v \<leftarrow> nodes s p;
          if v_refs v \<noteq> 0 then Some False else deleteable_childs n s (v_child v) }"
| "deleteable_childs 0 s c = None"
| "deleteable_childs (Suc n) s c =
     (if c = 0 then Some True
      else do { d \<leftarrow> vfs_node_deleteable n s c;
                if \<not> d then Some False
                else do { v \<leftarrow> nodes s c; deleteable_childs n s (v_sibling v) } })"

text \<open>
  \<^verbatim>\<open>vfs_node_new\<close>. \<^verbatim>\<open>strncpy\<close> copies nothing of a null name (the root's), so that the name stays empty.
\<close>

definition vfs_node_new :: "fs_store \<Rightarrow> vfs \<Rightarrow> u64 \<Rightarrow> cstr option \<Rightarrow> u64 \<Rightarrow> (u64 \<times> vfs) option" where
  "vfs_node_new fst_of s parent name fs =
     (if fs = 0 then Some (0, s)
      else do {
        dir \<leftarrow> (if parent = 0 then Some None else map_option (\<lambda>v. Some (v_inode v)) (nodes s parent));
        let (err, inode) = fs_namei (fst_of fs) dir name;
        if err \<noteq> 0 then Some (0, s)
        else
          let a = (case fresh s of [] \<Rightarrow> 0 | a # _ \<Rightarrow> a);
              s1 = s\<lparr>fresh := tl (fresh s)\<rparr>;
              v = \<lparr>v_fs = fs, v_inode = inode, v_name = (case name of None \<Rightarrow> [] | Some m \<Rightarrow> take NAME_MAX m),
                   v_refs = 0, v_mount_fs = 0, v_mount = inode_zero, v_parent = parent, v_child = 0, v_sibling = 0\<rparr>
          in if a = 0 then Some (0, s1)
             else if parent = 0 then Some (a, s1\<lparr>nodes := (nodes s1)(a \<mapsto> v), vfs_root := a\<rparr>)
             else do {
               w \<leftarrow> nodes s1 parent;
               Some (a, node_upd parent (\<lambda>w. w\<lparr>v_child := a\<rparr>)
                          (s1\<lparr>nodes := (nodes s1)(a \<mapsto> v\<lparr>v_sibling := v_child w\<rparr>)\<rparr>)) } })"

fun child_find :: "nat \<Rightarrow> vfs \<Rightarrow> cstr \<Rightarrow> u64 \<Rightarrow> u64 option" where
  "child_find 0 s name c = None"
| "child_find (Suc n) s name c =
     (if c = 0 then Some 0
      else do { v \<leftarrow> nodes s c; if v_name v = name then Some c else child_find n s name (v_sibling v) })"

definition node_ref :: "u64 \<Rightarrow> vfs \<Rightarrow> vfs" where
  "node_ref p s = (if p = 0 then s else node_upd p (\<lambda>v. v\<lparr>v_refs := v_refs v + 1\<rparr>) s)"

definition vfs_node_get :: "nat \<Rightarrow> fs_store \<Rightarrow> vfs \<Rightarrow> u64 \<Rightarrow> cstr option \<Rightarrow> (u64 \<times> vfs) option" where
  "vfs_node_get n fst_of s parent name =
     (if parent = 0 then Some (vfs_root s, node_ref (vfs_root s) s)
      else case name of
        None \<Rightarrow> Some (0, s)
      | Some m \<Rightarrow>
          do { v \<leftarrow> nodes s parent;
               c \<leftarrow> child_find n s m (v_child v);
               (c', s1) \<leftarrow> (if c \<noteq> 0 then Some (c, s) else vfs_node_new fst_of s parent name (v_fs v));
               Some (c', node_ref c' s1) })"

text \<open>The loop that takes a node out of its parent's list; it goes on to the end of the list.\<close>

fun unlink_loop :: "nat \<Rightarrow> u64 \<Rightarrow> u64 \<Rightarrow> vfs \<Rightarrow> u64 \<Rightarrow> u64 \<Rightarrow> vfs option" where
  "unlink_loop 0 node parent s trav prev = None"
| "unlink_loop (Suc n) node parent s trav prev =
     (if trav = 0 then Some s
      else do {
        v \<leftarrow> nodes s trav;
        let s1 = (if trav \<noteq> node then s
                  else if prev = 0 then node_upd parent (\<lambda>w. w\<lparr>v_child := v_sibling v\<rparr>) s
                  else node_upd prev (\<lambda>w. w\<lparr>v_sibling := v_sibling v\<rparr>) s);
        v1 \<leftarrow> nodes s1 trav;
        unlink_loop n node parent s1 (v_sibling v1) trav })"

definition node_unref :: "u64 \<Rightarrow> vfs_node \<Rightarrow> vfs \<Rightarrow> vfs" where
  "node_unref p v s = (if v_refs v \<noteq> 0 then node_upd p (\<lambda>v. v\<lparr>v_refs := v_refs v - 1\<rparr>) s else s)"

text \<open>\<^verbatim>\<open>vfs_node_put\<close>: the loop over the children puts the sibling of each child, not the child.\<close>

fun vfs_node_put :: "nat \<Rightarrow> vfs \<Rightarrow> u64 \<Rightarrow> (errcode \<times> vfs) option"
  and put_childs :: "nat \<Rightarrow> vfs \<Rightarrow> u64 \<Rightarrow> u64 \<Rightarrow> (errcode \<times> vfs \<times> u64) option" where
  "vfs_node_put 0 s p = None"
| "vfs_node_put (Suc n) s p =
     (if p = 0 then Some (- EINVAL, s)
      else do {
        v \<leftarrow> nodes s p;
        let s1 = node_unref p v s;
        d \<leftarrow> vfs_node_deleteable n s1 p;
        if \<not> d then Some (- EBUSY, s1)
        else do {
          (err, s2, prev) \<leftarrow> put_childs n s1 (v_child v) 0;
          if err \<noteq> 0 then Some (err, s2)
          else do {
            w \<leftarrow> nodes s2 p;
            if v_parent w = 0 then Some (0, s2\<lparr>vfs_root := 0, nodes := (nodes s2)(p := None)\<rparr>)
            else do {
              q \<leftarrow> nodes s2 (v_parent w);
              s3 \<leftarrow> unlink_loop n p (v_parent w) s2 (v_child q) prev;
              Some (0, s3\<lparr>nodes := (nodes s3)(p := None)\<rparr>) } } } })"
| "put_childs 0 s trav prev = None"
| "put_childs (Suc n) s trav prev =
     (if trav = 0 then Some (0, s, prev)
      else do {
        v \<leftarrow> nodes s trav;
        (err, s1) \<leftarrow> vfs_node_put n s (v_sibling v);
        if err \<noteq> 0 then Some (err, s1, trav) else put_childs n s1 (v_sibling v) trav })"

section \<open>Paths\<close>

text \<open>
  \<^verbatim>\<open>__vfs_path_next\<close>: the next component, which is written to a buffer of \<^verbatim>\<open>NAME_MAX + 1\<close> bytes with a
  terminating zero at its length, and the rest of the path.
\<close>

fun vfs_path_next :: "nat \<Rightarrow> cstr \<Rightarrow> (cstr \<times> cstr) option" where
  "vfs_path_next i [] = Some ([], [])"
| "vfs_path_next i (c # path) =
     (if i > NAME_MAX then None
      else if c = 47 then Some ([], path)
      else do { (name, rest) \<leftarrow> vfs_path_next (i + 1) path; Some (c # name, rest) })"

lemma path_next_length: "vfs_path_next i path = Some (name, rest) \<Longrightarrow> length name + length rest \<le> length path"
  by (induction i path arbitrary: name rest rule: vfs_path_next.induct)
     (auto split: if_splits simp: bind_eq_Some_conv)

lemma path_next_shorter: "vfs_path_next i (c # path) = Some (name, rest) \<Longrightarrow> length rest < Suc (length path)"
  by (auto split: if_splits simp: bind_eq_Some_conv dest!: path_next_length)

text \<open>The loop of \<^verbatim>\<open>__vfs_find\<close>. A component that is too long ends it without a put of the current node.\<close>

function vfs_find_loop :: "nat \<Rightarrow> fs_store \<Rightarrow> vfs \<Rightarrow> u64 \<Rightarrow> cstr \<Rightarrow> (u64 \<times> vfs) option" where
  "vfs_find_loop n fst_of s cur path =
     (if cur = 0 \<or> path = [] then Some (cur, s)
      else case vfs_path_next 0 path of
        None \<Rightarrow> Some (0, s)
      | Some (name, rest) \<Rightarrow>
          if name = [] \<or> name = [46] then vfs_find_loop n fst_of s cur rest
          else do {
            v \<leftarrow> nodes s cur;
            if name = [46, 46] then vfs_find_loop n fst_of s (if v_parent v = 0 then cur else v_parent v) rest
            else do {
              (c, s1) \<leftarrow> vfs_node_get n fst_of s cur (Some name);
              (err, s2) \<leftarrow> vfs_node_put n s1 cur;
              vfs_find_loop n fst_of s2 c rest } })"
  by pat_completeness auto
termination
  by (relation "measure (\<lambda>(n, fst_of, s, cur, path). length path)")
     (auto simp: neq_Nil_conv dest!: path_next_shorter)

declare vfs_find_loop.simps [simp del]

definition vfs_find :: "nat \<Rightarrow> fs_store \<Rightarrow> vfs \<Rightarrow> cstr option \<Rightarrow> (u64 \<times> vfs) option" where
  "vfs_find n fst_of s path =
     (case path of
        Some (c # rest) \<Rightarrow>
          if c = 47 then do { (cur, s1) \<leftarrow> vfs_node_get n fst_of s 0 None; vfs_find_loop n fst_of s1 cur rest }
          else Some (0, s)
      | _ \<Rightarrow> Some (0, s))"

section \<open>Operations on paths\<close>

text \<open>\<^verbatim>\<open>vfs_open\<close>: the result code and the node pointer it stores.\<close>

definition vfs_open :: "nat \<Rightarrow> fs_store \<Rightarrow> vfs \<Rightarrow> cstr option \<Rightarrow> (errcode \<times> u64 \<times> vfs) option" where
  "vfs_open n fst_of s path =
     (if path = None \<or> path = Some [] then Some (- EINVAL, 0, s)
      else do {
        (node, s1) \<leftarrow> vfs_find n fst_of s path;
        if node = 0 then Some (- ENOENT, 0, s1)
        else do {
          v \<leftarrow> nodes s1 node;
          let err = fs_open (fst_of (v_fs v)) (v_inode v);
          if err \<noteq> 0 then do { (_, s2) \<leftarrow> vfs_node_put n s1 node; Some (err, node, s2) }
          else Some (0, node, s1) } })"

definition vfs_close :: "nat \<Rightarrow> fs_store \<Rightarrow> vfs \<Rightarrow> u64 \<Rightarrow> (errcode \<times> vfs) option" where
  "vfs_close n fst_of s node =
     (if node = 0 then Some (- EINVAL, s)
      else do {
        v \<leftarrow> nodes s node;
        let err = fs_close (fst_of (v_fs v)) (v_inode v);
        if err \<noteq> 0 then Some (err, s)
        else do {
          (err, s1) \<leftarrow> vfs_node_put n s node;
          Some (if err \<noteq> 0 \<and> err \<noteq> - EBUSY then err else 0, s1) } })"

definition vfs_read :: "fs_store \<Rightarrow> vfs \<Rightarrow> u64 \<Rightarrow> u64 \<Rightarrow> u64 \<Rightarrow> bool \<Rightarrow> (int \<times> u8 list) option" where
  "vfs_read fst_of s node offset sz has_buffer =
     (if node = 0 \<or> \<not> has_buffer then Some (0, [])
      else do { v \<leftarrow> nodes s node; Some (fs_read (fst_of (v_fs v)) (v_inode v) offset sz) })"

definition vfs_write :: "fs_store \<Rightarrow> vfs \<Rightarrow> u64 \<Rightarrow> u64 \<Rightarrow> u64 \<Rightarrow> u8 list option \<Rightarrow> int option" where
  "vfs_write fst_of s node offset sz buffer =
     (case buffer of
        None \<Rightarrow> Some 0
      | Some b \<Rightarrow>
          if node = 0 then Some 0
          else do { v \<leftarrow> nodes s node; Some (fs_write (fst_of (v_fs v)) (v_inode v) offset sz b) })"

text \<open>
  The second half of \<^verbatim>\<open>vfs_mount\<close>. The \<^verbatim>\<open>memcpy\<close> that is to save the inode goes the other way: it
  overwrites the inode with the (cleared) saved one. A filesystem without a \<^verbatim>\<open>namei\<close> operation leaves
  it at that.
\<close>

definition vfs_mount_node :: "nat \<Rightarrow> fs_store \<Rightarrow> vfs \<Rightarrow> u64 \<Rightarrow> u64 \<Rightarrow> (errcode \<times> vfs) option" where
  "vfs_mount_node n fst_of s node fs =
     do {
       v \<leftarrow> nodes s node;
       let (err, inode) = fs_namei (fst_of fs) None None;
       let s1 = node_upd node (\<lambda>v. v\<lparr>v_inode := (if op_namei (ops (fst_of fs)) = None then v_mount v else inode)\<rparr>) s;
       if err \<noteq> 0 then do { (_, s2) \<leftarrow> vfs_node_put n s1 node; Some (err, s2) }
       else Some (0, node_upd node (\<lambda>v. v\<lparr>v_mount_fs := v_fs v, v_fs := fs\<rparr>) s1) }"

definition vfs_mount :: "nat \<Rightarrow> fs_store \<Rightarrow> vfs \<Rightarrow> cstr option \<Rightarrow> u64 \<Rightarrow> (errcode \<times> vfs) option" where
  "vfs_mount n fst_of s path fs =
     (if path = None \<or> fs = 0 then Some (- EINVAL, s)
      else if path = Some [47] then do {
        (node, s1) \<leftarrow> vfs_node_new fst_of s 0 None fs;
        if node = 0 then Some (- ENOMEM, s1)
        else vfs_mount_node n fst_of (node_ref node s1) node fs }
      else do {
        (node, s1) \<leftarrow> vfs_find n fst_of s path;
        if node = 0 then Some (- ENOENT, s1)
        else do {
          v \<leftarrow> nodes s1 node;
          if \<not> vfs_node_is_directory v then Some (- EINVAL, s1)
          else vfs_mount_node n fst_of s1 node fs } })"

definition vfs_umount :: "nat \<Rightarrow> fs_store \<Rightarrow> vfs \<Rightarrow> cstr option \<Rightarrow> (errcode \<times> vfs) option" where
  "vfs_umount n fst_of s path =
     (if path = None then Some (- EINVAL, s)
      else do {
        (node, s1) \<leftarrow> vfs_find n fst_of s path;
        if node = 0 then Some (- ENOENT, s1)
        else do {
          v \<leftarrow> nodes s1 node;
          r \<leftarrow> vfs_node_is_fs_root s1 v;
          if \<not> r \<or> \<not> vfs_node_is_mountpoint v then Some (- EINVAL, s1)
          else do {
            let s2 = node_upd node (\<lambda>v. v\<lparr>v_mount := v_inode v, v_fs := v_mount_fs v\<rparr>) s1;
            let s3 = node_upd node (\<lambda>v. v\<lparr>v_mount := inode_zero, v_mount_fs := 0\<rparr>) s2;
            (_, s4) \<leftarrow> vfs_node_put n s3 node;
            vfs_node_put n s4 node } } })"

definition vfs_fs :: "nat \<Rightarrow> fs_store \<Rightarrow> vfs \<Rightarrow> cstr option \<Rightarrow> (u64 \<times> vfs) option" where
  "vfs_fs n fst_of s path =
     (if path = None then Some (0, s)
      else do {
        (node, s1) \<leftarrow> vfs_find n fst_of s path;
        if node = 0 then Some (0, s1)
        else do {
          (_, s2) \<leftarrow> vfs_node_put n s1 node;
          v \<leftarrow> nodes s2 node;
          Some (v_fs v, s2) } })"

section \<open>Lists of children\<close>

text \<open>The addresses on the sibling chain that starts at \<open>c\<close>.\<close>

fun sibs :: "vfs \<Rightarrow> u64 \<Rightarrow> u64 list \<Rightarrow> bool" where
  "sibs s c [] \<longleftrightarrow> c = 0"
| "sibs s c (x # xs) \<longleftrightarrow> c = x \<and> x \<noteq> 0 \<and> (\<exists>v. nodes s x = Some v \<and> sibs s (v_sibling v) xs)"

lemma sibs_agree:
  assumes "\<And>x. x \<in> set xs \<Longrightarrow> map_option v_sibling (nodes s' x) = map_option v_sibling (nodes s x)"
  shows "sibs s' c xs = sibs s c xs"
  using assms
proof (induction xs arbitrary: c)
  case (Cons x xs)
  have "map_option v_sibling (nodes s' x) = map_option v_sibling (nodes s x)" using Cons.prems by simp
  moreover have "\<And>d. sibs s' d xs = sibs s d xs" using Cons by simp
  ultimately show ?case by (cases "nodes s x"; cases "nodes s' x") auto
qed simp

lemma sibs_nonzero: "sibs s c xs \<Longrightarrow> x \<in> set xs \<Longrightarrow> x \<noteq> 0 \<and> nodes s x \<noteq> None"
  by (induction xs arbitrary: c) auto

lemma child_find_sibs:
  "sibs s c xs \<Longrightarrow> length xs < n \<Longrightarrow>
   child_find n s name c =
     Some (case find (\<lambda>x. map_option v_name (nodes s x) = Some name) xs of Some x \<Rightarrow> x | None \<Rightarrow> 0)"
proof (induction xs arbitrary: c n)
  case Nil
  then show ?case by (cases n) auto
next
  case (Cons x xs)
  then show ?case by (cases n) auto
qed

lemma unlink_skip:
  "sibs s c xs \<Longrightarrow> node \<notin> set xs \<Longrightarrow> length xs < n \<Longrightarrow> unlink_loop n node parent s c prev = Some s"
proof (induction xs arbitrary: c n prev)
  case Nil
  then show ?case by (cases n) auto
next
  case (Cons x xs)
  then show ?case by (cases n) auto
qed

text \<open>The link that points to the node: the parent's child field or the sibling field before it.\<close>

definition relink :: "u64 \<Rightarrow> u64 \<Rightarrow> u64 \<Rightarrow> vfs \<Rightarrow> vfs" where
  "relink parent prev c s =
     (if prev = 0 then node_upd parent (\<lambda>w. w\<lparr>v_child := c\<rparr>) s else node_upd prev (\<lambda>w. w\<lparr>v_sibling := c\<rparr>) s)"

lemma unlink_hit:
  assumes "sibs s c (xs @ a # ys)" and "distinct (xs @ a # ys)" and "prev \<notin> set (xs @ a # ys)"
    and "parent \<notin> set (xs @ a # ys)" and "nodes s a = Some v" and "length (xs @ a # ys) < n"
  shows "unlink_loop n a parent s c prev = Some (relink parent (last (prev # xs)) (v_sibling v) s)"
  using assms
proof (induction xs arbitrary: c n prev)
  case Nil
  then obtain m where n: "n = Suc m" by (cases n) auto
  let ?s = "relink parent prev (v_sibling v) s"
  have "sibs ?s (v_sibling v) ys"
    using Nil.prems sibs_agree [of ys ?s s "v_sibling v"] by (fastforce simp: relink_def node_upd_def)
  moreover have "nodes ?s a = Some v" using Nil.prems by (auto simp: relink_def node_upd_def)
  ultimately show ?case using Nil.prems n unlink_skip [of ?s "v_sibling v" ys a m parent a]
    by (auto simp: relink_def Let_def split: if_splits)
next
  case (Cons x xs)
  then obtain m u where n: "n = Suc m" "nodes s x = Some u" "sibs s (v_sibling u) (xs @ a # ys)" by (cases n) auto
  have "unlink_loop m a parent s (v_sibling u) x = Some (relink parent (last (x # xs)) (v_sibling v) s)"
    using Cons.prems n by (intro Cons.IH) auto
  then show ?case using Cons.prems n by (auto simp: Let_def)
qed

lemma sibs_relink:
  assumes "sibs s c (xs @ a # ys)" and "distinct (xs @ a # ys)" and "parent \<notin> set (xs @ a # ys)"
    and "nodes s a = Some v" and "xs \<noteq> []"
  shows "sibs (relink parent (last xs) (v_sibling v) s) c (xs @ ys)"
  using assms
proof (induction xs arbitrary: c)
  case (Cons x xs)
  then obtain u where u: "c = x" "x \<noteq> 0" "nodes s x = Some u" "sibs s (v_sibling u) (xs @ a # ys)" by auto
  show ?case
  proof (cases "xs = []")
    case True
    have "sibs (relink parent x (v_sibling v) s) (v_sibling v) ys = sibs s (v_sibling v) ys"
      using Cons.prems True by (intro sibs_agree) (auto simp: relink_def node_upd_def)
    then show ?thesis using True u Cons.prems by (auto simp: relink_def node_upd_def)
  next
    case False
    then have "last xs \<in> set xs" by simp
    then have "x \<noteq> last xs" using Cons.prems by auto
    moreover have "sibs (relink parent (last xs) (v_sibling v) s) (v_sibling u) (xs @ ys)"
      using Cons.prems u False by (intro Cons.IH) auto
    moreover have "last xs \<noteq> 0" using sibs_nonzero [OF u(4), of "last xs"] \<open>last xs \<in> set xs\<close> by simp
    ultimately show ?thesis using u False by (auto simp: relink_def node_upd_def)
  qed
qed simp

text \<open>Putting a node without children whose last reference is given back.\<close>

lemma node_put_leaf:
  assumes v: "nodes s a = Some v" "v_child v = 0" "v_refs v \<le> 1" "v_parent v = p" and nz: "p \<noteq> 0" "a \<noteq> 0"
    and w: "nodes s p = Some w" "sibs s (v_child w) (xs @ a # ys)" and d: "distinct (xs @ a # ys)"
    and p: "p \<notin> set (xs @ a # ys)" and n: "length (xs @ a # ys) + 2 < n"
    and s1: "s1 = s\<lparr>nodes := (nodes s)(a \<mapsto> v\<lparr>v_refs := 0\<rparr>)\<rparr>"
    and s2: "s2 = relink p (last (0 # xs)) (v_sibling v) s1"
  shows "vfs_node_put n s a = Some (0, s2\<lparr>nodes := (nodes s2)(a := None)\<rparr>)"
proof -
  obtain m where m: "n = Suc m" "length (xs @ a # ys) < m" using n by (cases n) auto
  then obtain k where k: "m = Suc (Suc k)" by (cases m; cases "m - 1") auto
  have "v_refs v = 0 \<or> v_refs v = 1" using v(3) by unat_arith
  then have e: "node_unref a v s = s1"
    using v(1) by (cases v) (auto simp: s1 node_unref_def node_upd_def map_upd_triv)
  have del: "vfs_node_deleteable m s1 a = Some True" using k v by (simp add: s1)
  have pc: "put_childs m s1 0 0 = Some (0, s1, 0)" using k by simp
  have pw: "nodes s1 p = Some w" using w p by (auto simp: s1)
  have sb: "sibs s1 (v_child w) (xs @ a # ys)"
    using w(2) v(1) sibs_agree [of "xs @ a # ys" s1 s "v_child w"] by (simp add: s1)
  have "0 \<notin> set (xs @ a # ys)" using sibs_nonzero [OF w(2)] by blast
  then have "unlink_loop m a p s1 (v_child w) 0 = Some s2"
    using unlink_hit [OF sb d _ p, of 0 "v\<lparr>v_refs := 0\<rparr>" m] m(2) by (simp add: s1 s2)
  then show ?thesis using m(1) v e del pc pw nz by (simp add: s1 Let_def)
qed

text \<open>What the operations on references leave alone.\<close>

definition same_file :: "vfs_node \<Rightarrow> vfs_node \<Rightarrow> bool" where
  "same_file v w \<longleftrightarrow> v_fs v = v_fs w \<and> v_inode v = v_inode w \<and> v_name v = v_name w \<and> v_parent v = v_parent w \<and>
     v_mount_fs v = v_mount_fs w \<and> v_mount v = v_mount w"

definition nodes_kept :: "vfs \<Rightarrow> vfs \<Rightarrow> bool" where
  "nodes_kept s s' \<longleftrightarrow> (\<forall>p v'. nodes s' p = Some v' \<longrightarrow> (\<exists>v. nodes s p = Some v \<and> same_file v v'))"

lemma same_file_refl [simp]: "same_file v v"
  by (simp add: same_file_def)

lemma nodes_kept_refl [simp]: "nodes_kept s s"
  by (simp add: nodes_kept_def)

lemma nodes_kept_trans: "nodes_kept s s' \<Longrightarrow> nodes_kept s' s'' \<Longrightarrow> nodes_kept s s''"
  by (fastforce simp: nodes_kept_def same_file_def)

lemma nodes_kept_upd: "(\<And>v. same_file v (f v)) \<Longrightarrow> nodes_kept s (node_upd p f s)"
  by (auto simp: nodes_kept_def node_upd_def)

lemma nodes_kept_free: "nodes_kept s s' \<Longrightarrow> nodes_kept s (s'\<lparr>nodes := (nodes s')(p := None)\<rparr>)"
  "nodes_kept s s' \<Longrightarrow> nodes_kept s (s'\<lparr>vfs_root := r, nodes := (nodes s')(p := None)\<rparr>)"
  by (auto simp: nodes_kept_def)

lemma unlink_loop_kept: "unlink_loop n node parent s trav prev = Some s' \<Longrightarrow> nodes_kept s s'"
proof (induction n arbitrary: s trav prev)
  case (Suc n)
  have "nodes_kept s (node_upd q (\<lambda>w. w\<lparr>v_child := c\<rparr>) s)" "nodes_kept s (node_upd q (\<lambda>w. w\<lparr>v_sibling := c\<rparr>) s)" for q c
    by (rule nodes_kept_upd, simp add: same_file_def)+
  then have k: "nodes_kept s (if trav \<noteq> node then s else if prev = 0 then node_upd parent (\<lambda>w. w\<lparr>v_child := c\<rparr>) s
      else node_upd prev (\<lambda>w. w\<lparr>v_sibling := c\<rparr>) s)" for c
    by simp
  show ?case
  proof (cases "trav = 0")
    case False
    then show ?thesis using Suc.prems nodes_kept_trans [OF k Suc.IH]
      unfolding unlink_loop.simps Let_def by (simp only: if_False bind_eq_Some_conv) blast
  qed (use Suc.prems in simp)
qed simp

lemma node_put_kept:
  "vfs_node_put n s p = Some (err, s') \<Longrightarrow> nodes_kept s s'"
  "put_childs n s c prev = Some (err, s', prev') \<Longrightarrow> nodes_kept s s'"
proof (induction n arbitrary: s p err s' c prev prev')
  case (Suc n)
  have d: "nodes_kept s (node_unref p v s)" for p v s by (simp add: node_unref_def nodes_kept_upd same_file_def)
  {
    case 1
    show ?case
    proof (cases "p = 0")
      case False
      then obtain v del where v: "nodes s p = Some v" "vfs_node_deleteable n (node_unref p v s) p = Some del"
        using 1 by (auto simp: bind_eq_Some_conv Let_def)
      show ?thesis
      proof (cases del)
        case True
        then obtain e s2 prev where c: "put_childs n (node_unref p v s) (v_child v) 0 = Some (e, s2, prev)"
          using 1 v False by (auto simp: bind_eq_Some_conv Let_def)
        have k: "nodes_kept s s2" using d [of s p v] Suc.IH(2) [OF c] by (rule nodes_kept_trans)
        then show ?thesis using 1 v c True False
          by (auto simp: bind_eq_Some_conv Let_def split: if_splits
              intro!: nodes_kept_free intro: nodes_kept_trans [OF _ unlink_loop_kept])
      qed (use 1 v False d [of s p v] in \<open>auto simp: Let_def\<close>)
    qed (use 1 in simp)
  next
    case 2
    then show ?case using Suc.IH by (auto simp: bind_eq_Some_conv split: if_splits) (blast intro: nodes_kept_trans)
  }
qed simp_all

lemma put_childs_error:
  "put_childs n s c prev = Some (err, s', prev') \<Longrightarrow> c \<noteq> 0 \<Longrightarrow> err \<noteq> 0"
proof (induction n arbitrary: s c prev)
  case (Suc n)
  then obtain v e s1 where v: "nodes s c = Some v" "vfs_node_put n s (v_sibling v) = Some (e, s1)"
    by (auto simp: bind_eq_Some_conv)
  show ?case
  proof (cases "v_sibling v = 0")
    case True
    then have "e = - EINVAL" using v(2) by (cases n) auto
    then show ?thesis using Suc.prems v by simp
  next
    case False
    then show ?thesis using Suc.prems v Suc.IH [of s1 "v_sibling v" c] by (auto split: if_splits)
  qed
qed simp

lemma node_put_umount_kept:
  assumes "vfs_node_put n s p = Some (e, s1)" and "vfs_node_put n s1 p = Some (err, s2)" and "nodes s2 q = Some v'"
  shows "\<exists>v. nodes s q = Some v \<and> same_file v v'"
  using nodes_kept_trans [OF node_put_kept(1) node_put_kept(1), OF assms(1,2)] assms(3) by (auto simp: nodes_kept_def)

lemma path_next_split:
  "i \<le> 256 \<Longrightarrow> vfs_path_next i path =
     (let name = takeWhile (\<lambda>c. c \<noteq> 47) path
      in if i + length name \<le> NAME_MAX \<or> i + length name = NAME_MAX + 1 \<and> name = path
         then Some (name, drop (length name + 1) path) else None)"
proof (induction path arbitrary: i)
  case (Cons c path)
  show ?case
  proof (cases "i = 256")
    case False
    then show ?thesis using Cons.IH [of "i + 1"] Cons.prems by (auto simp: Let_def simp del: takeWhile_eq_all_conv)
  qed simp
qed auto

text \<open>A root directory, and a filesystem that knows a file for every name, for the concrete runs.\<close>

definition dir_inode :: fs_inode where
  "dir_inode = inode_zero\<lparr>i_type := FS_ENTRY_TYPE_DIR\<rparr>"

definition any_fs :: fs where
  "any_fs = \<lparr>fs_kind = 1, fs_part = 0,
     ops = fs_ops_zero\<lparr>op_namei := Some (\<lambda>dir name. (0, if dir = None then dir_inode else inode_zero))\<rparr>\<rparr>"

definition vnode :: "u64 \<Rightarrow> u64 \<Rightarrow> vfs_node" where
  "vnode parent c = \<lparr>v_fs = 1, v_inode = dir_inode, v_name = [97], v_refs = 1, v_mount_fs = 0, v_mount = inode_zero,
     v_parent = parent, v_child = c, v_sibling = 0\<rparr>"

section \<open>Properties\<close>

text \<open>
  C23. Looking up a name that has no node yet in a directory node makes one at the front of the
  directory's children with one reference and the inode the filesystem gives, and putting that node
  frees it and restores the tree exactly.
\<close>

theorem vfs_node_get_put_roundtrip:
  assumes "nodes s p = Some w" and "p \<noteq> 0" and "v_fs w \<noteq> 0" and "sibs s (v_child w) xs" and "distinct xs" and "p \<notin> set xs"
    and "\<And>x u. x \<in> set xs \<Longrightarrow> nodes s x = Some u \<Longrightarrow> v_name u \<noteq> name"
    and "fs_namei (fst_of (v_fs w)) (Some (v_inode w)) (Some name) = (0, inode)"
    and "fresh s = a # rest" and "a \<noteq> 0" and "nodes s a = None" and "length xs + 3 < n"
  shows "\<exists>s1 v s2. vfs_node_get n fst_of s p (Some name) = Some (a, s1) \<and>
    nodes s1 a = Some v \<and> v_inode v = inode \<and> v_refs v = 1 \<and> v_parent v = p \<and>
    (\<exists>w'. nodes s1 p = Some w' \<and> sibs s1 (v_child w') (a # xs)) \<and>
    vfs_node_put n s1 a = Some (0, s2) \<and> nodes s2 = nodes s \<and> vfs_root s2 = vfs_root s"
proof -
  have "find (\<lambda>x. map_option v_name (nodes s x) = Some name) xs = None"
    using assms(7) by (auto simp: find_None_iff)
  then have cf: "child_find n s name (v_child w) = Some 0"
    using child_find_sibs [OF assms(4), of n name] assms(12) by simp
  let ?v = "\<lparr>v_fs = v_fs w, v_inode = inode, v_name = take NAME_MAX name, v_refs = 1, v_mount_fs = 0,
    v_mount = inode_zero, v_parent = p, v_child = 0, v_sibling = v_child w\<rparr>"
  define s1 where "s1 = s\<lparr>fresh := rest, nodes := (nodes s)(a \<mapsto> ?v\<lparr>v_refs := 0\<rparr>, p \<mapsto> w\<lparr>v_child := a\<rparr>, a \<mapsto> ?v)\<rparr>"
  have pa: "p \<noteq> a" "a \<notin> set xs" using assms(1,11) sibs_nonzero [OF assms(4), of a] by auto
  have g: "vfs_node_get n fst_of s p (Some name) = Some (a, s1)"
    using assms cf pa by (auto simp: vfs_node_get_def vfs_node_new_def node_ref_def node_upd_def s1_def Let_def)
  have "sibs s1 (v_child w) xs = sibs s (v_child w) xs"
    using assms(6) pa by (intro sibs_agree) (auto simp: s1_def)
  then have sb: "sibs s1 a ([] @ a # xs)" using assms(4,10) by (simp add: s1_def)
  define s2 where "s2 = relink p (last [0]) (v_sibling ?v) (s1\<lparr>nodes := (nodes s1)(a \<mapsto> ?v\<lparr>v_refs := 0\<rparr>)\<rparr>)"
  have "vfs_node_put n s1 a = Some (0, s2\<lparr>nodes := (nodes s2)(a := None)\<rparr>)"
    using sb pa assms
    by (intro node_put_leaf [of s1 a ?v p "w\<lparr>v_child := a\<rparr>" "[]" xs n _ s2]) (auto simp: s1_def s2_def)
  moreover have "(nodes s2)(a := None) = nodes s"
    using pa assms(1,11) by (auto simp: s2_def s1_def relink_def node_upd_def fun_eq_iff)
  moreover have "vfs_root s2 = vfs_root s" by (simp add: s2_def s1_def relink_def node_upd_def)
  ultimately show ?thesis using g sb pa 
    by (intro exI [of _ s1] exI [of _ ?v] exI [of _ "s2\<lparr>nodes := (nodes s2)(a := None)\<rparr>"]) (auto simp: s1_def)
qed

theorem vfs_node_get_put_roundtrip_witness:
  "\<exists>s1 s2. vfs_node_get 4 (\<lambda>_. any_fs) \<lparr>nodes = [16 \<mapsto> vnode 0 0], vfs_root = 16, fresh = [32]\<rparr> 16 (Some [98]) = Some (32, s1) \<and>
     vfs_node_put 4 s1 32 = Some (0, s2) \<and> nodes s2 = [16 \<mapsto> vnode 0 0]"
proof -
  let ?s = "\<lparr>nodes = [16 \<mapsto> vnode 0 0], vfs_root = 16, fresh = [32]\<rparr>"
  have n: "fs_namei any_fs (Some dir_inode) (Some [98]) = (0, inode_zero)"
    by (simp add: any_fs_def fs_namei_def)
  show ?thesis
    using vfs_node_get_put_roundtrip [of ?s 16 "vnode 0 0" "[]" "[98]" "\<lambda>_. any_fs" inode_zero 32 "[]" 4] n
    by (simp add: vnode_def) blast
qed

text \<open>
  A node that still has a child node is never deleted, also when no node below it is referenced:
  the loop over the children puts the sibling behind each child instead of the child and ends with a
  put of the null pointer, whose error is returned.
\<close>

theorem vfs_node_put_with_child_fails:
  assumes "nodes s p = Some v" and "v_child v \<noteq> 0" and "vfs_node_put n s p = Some (err, s')"
  shows "err \<noteq> 0"
proof (cases n)
  case (Suc m)
  then show ?thesis using assms
    by (auto simp: bind_eq_Some_conv Let_def split: if_splits dest: put_childs_error)
qed (use assms in simp)

theorem vfs_node_put_with_child_fails_witness:
  "vfs_node_put 6 \<lparr>nodes = [16 \<mapsto> vnode 0 32, 32 \<mapsto> (vnode 16 0)\<lparr>v_refs := 0\<rparr>], vfs_root = 16, fresh = []\<rparr> 16 =
     Some (- EINVAL, \<lparr>nodes = [16 \<mapsto> (vnode 0 32)\<lparr>v_refs := 0\<rparr>, 32 \<mapsto> (vnode 16 0)\<lparr>v_refs := 0\<rparr>], vfs_root = 16, fresh = []\<rparr>) \<and>
   - EINVAL \<noteq> 0"
proof -
  let ?s = "\<lparr>nodes = [16 \<mapsto> vnode 0 32, 32 \<mapsto> (vnode 16 0)\<lparr>v_refs := 0\<rparr>], vfs_root = 16, fresh = []\<rparr>"
  have six: "6 = Suc (Suc (Suc (Suc (Suc (Suc 0)))))" by simp
  have r: "vfs_node_put 6 ?s 16 = Some (- EINVAL, \<lparr>nodes = [16 \<mapsto> (vnode 0 32)\<lparr>v_refs := 0\<rparr>, 32 \<mapsto> (vnode 16 0)\<lparr>v_refs := 0\<rparr>],
      vfs_root = 16, fresh = []\<rparr>)"
    unfolding six by (simp add: node_unref_def node_upd_def vnode_def fun_upd_twist Let_def)
  then show ?thesis using vfs_node_put_with_child_fails [OF _ _ r, of "vnode 0 32"] by (simp add: vnode_def)
qed

text \<open>
  C24. Unmounting gives the node its old filesystem back but not its old inode: after a successful
  search for a mount point, the node keeps the inode of the filesystem that is gone.
\<close>

theorem vfs_umount_keeps_mounted_inode:
  assumes "vfs_find n fst_of s path = Some (p, s1)" and "p \<noteq> 0" and "path \<noteq> None"
    and "nodes s1 p = Some v" and "vfs_node_is_fs_root s1 v = Some True" and "vfs_node_is_mountpoint v"
    and "vfs_umount n fst_of s path = Some (err, s')" and "nodes s' p = Some v'"
  shows "v_fs v' = v_mount_fs v \<and> v_inode v' = v_inode v \<and> v_mount v' = inode_zero \<and> v_mount_fs v' = 0"
proof -
  define s2 where "s2 = node_upd p (\<lambda>v. v\<lparr>v_mount := v_inode v, v_fs := v_mount_fs v\<rparr>) s1"
  define s3 where "s3 = node_upd p (\<lambda>v. v\<lparr>v_mount := inode_zero, v_mount_fs := 0\<rparr>) s2"
  obtain e s4 where "vfs_node_put n s3 p = Some (e, s4)" "vfs_node_put n s4 p = Some (err, s')"
    using assms(1-7) by (auto simp: vfs_umount_def bind_eq_Some_conv Let_def s2_def s3_def)
  then obtain u where u: "nodes s3 p = Some u" "same_file u v'" using node_put_umount_kept assms(8) by blast
  have "nodes s3 p = Some (v\<lparr>v_mount := inode_zero, v_mount_fs := 0, v_fs := v_mount_fs v\<rparr>)"
    using assms(4) by (simp add: s3_def s2_def node_upd_def)
  then show ?thesis using u by (auto simp: same_file_def)
qed

theorem vfs_umount_keeps_mounted_inode_witness:
  "\<exists>s' v'. vfs_umount 5 (\<lambda>_. any_fs) \<lparr>nodes = [16 \<mapsto> (vnode 0 0)\<lparr>v_refs := 2, v_fs := 7, v_mount_fs := 3\<rparr>], vfs_root = 16, fresh = []\<rparr>
       (Some [47]) = Some (- EBUSY, s') \<and> nodes s' 16 = Some v' \<and> v_fs v' = 3 \<and> v_inode v' = dir_inode"
proof -
  let ?v = "\<lambda>r. (vnode 0 0)\<lparr>v_refs := r, v_fs := 7, v_mount_fs := 3\<rparr>"
  let ?s = "\<lambda>r. \<lparr>nodes = [16 \<mapsto> ?v r], vfs_root = 16, fresh = []\<rparr>"
  let ?w = "(vnode 0 0)\<lparr>v_refs := 1, v_fs := 3\<rparr>"
  let ?s' = "\<lparr>nodes = [16 \<mapsto> ?w], vfs_root = 16, fresh = []\<rparr>"
  have f: "vfs_find 5 (\<lambda>_. any_fs) (?s 2) (Some [47]) = Some (16, ?s 3)"
    by (simp add: vfs_find_def vfs_node_get_def node_ref_def node_upd_def vfs_find_loop.simps vnode_def)
  have five: "5 = Suc (Suc (Suc (Suc (Suc 0))))" by simp
  have u: "vfs_umount 5 (\<lambda>_. any_fs) (?s 2) (Some [47]) = Some (- EBUSY, ?s')"
    using f unfolding five by (simp add: vfs_umount_def vfs_node_is_fs_root_def vfs_node_is_mountpoint_def node_unref_def node_upd_def
        vnode_def Let_def)
  have "v_fs ?w = v_mount_fs (?v 3) \<and> v_inode ?w = v_inode (?v 3) \<and> v_mount ?w = inode_zero \<and> v_mount_fs ?w = 0"
    by (rule vfs_umount_keeps_mounted_inode [OF f _ _ _ _ _ u])
       (simp_all add: vfs_node_is_fs_root_def vfs_node_is_mountpoint_def vnode_def)
  then show ?thesis using u by (intro exI [of _ ?s'] exI [of _ ?w]) (simp add: vnode_def)
qed

text \<open>
  The path scanner gives the bytes up to the next slash and the path behind it, and refuses longer
  names than 255 bytes, with one exception: a last component of 256 bytes is accepted, so that its
  terminating zero is written one byte behind the name buffer.
\<close>

theorem vfs_path_next_bounds:
  "vfs_path_next 0 path =
     (let name = takeWhile (\<lambda>c. c \<noteq> 47) path
      in if length name \<le> NAME_MAX \<or> length name = NAME_MAX + 1 \<and> name = path
         then Some (name, drop (length name + 1) path) else None)"
  using path_next_split [of 0 path] by simp

end
