(* ===== verification/Syscall.thy ===== *)
theory Syscall
  imports Sched Vfs
begin

text \<open>
  The system calls, \<^verbatim>\<open>kernel/syscall/*.c\<close>, on top of the scheduler, the descriptor table and the
  virtual filesystem. The state joins the scheduler, the VFS, the filesystem structures and the open
  file objects. A call gives \<open>None\<close> where one of the components below does: a panic, a pointer to
  nothing, or the end of the fuel. What \<^verbatim>\<open>heap_alloc\<close> returns is an argument, \<open>0\<close> for \<^verbatim>\<open>NULL\<close>. A
  blocking call gives up the processor with \<^verbatim>\<open>sched()\<close>; \<open>resched\<close> is the state in which the caller
  runs again. \<^verbatim>\<open>sys_exec\<close> is in \<open>Exec\<close>.
\<close>

section \<open>State\<close>

record task_file =
  file_node :: u64
  file_flags :: i32
  file_offset :: u64

record sys =
  sys_sched :: sched
  sys_vfs :: vfs
  sys_fs :: fs_store
  sys_files :: "u64 \<Rightarrow> task_file option"

abbreviation (input) cur_task :: "sys \<Rightarrow> task" where
  "cur_task s \<equiv> tasks (sys_sched s) (task_current (sys_sched s))"

definition cur_put :: "(task \<Rightarrow> task) \<Rightarrow> sys \<Rightarrow> sys" where
  "cur_put f s = s\<lparr>sys_sched := task_put (task_current (sys_sched s)) f (sys_sched s)\<rparr>"

section \<open>Files\<close>

text \<open>The end of \<^verbatim>\<open>sys_open\<close>: on an error the node is closed, whether or not it was opened.\<close>

definition sys_open_end :: "nat \<Rightarrow> sys \<Rightarrow> int \<Rightarrow> u64 \<Rightarrow> (int \<times> sys) option" where
  "sys_open_end n s fd node =
     (if fd < 0 then do { (_, v) \<leftarrow> vfs_close n (sys_fs s) (sys_vfs s) node; Some (fd, s\<lparr>sys_vfs := v\<rparr>) }
      else Some (fd, s))"

definition sys_open :: "nat \<Rightarrow> u64 \<Rightarrow> sys \<Rightarrow> cstr option \<Rightarrow> i32 \<Rightarrow> (int \<times> sys) option" where
  "sys_open n addr s path flags = do {
     (err, node, v) \<leftarrow> vfs_open n (sys_fs s) (sys_vfs s) path;
     let s1 = s\<lparr>sys_vfs := v\<rparr>;
     if err \<noteq> 0 then sys_open_end n s1 err node
     else do {
       (fd, t) \<leftarrow> task_file_fd_next (cur_task s1);
       let s2 = cur_put (\<lambda>_. t) s1;
       if fd < 0 then sys_open_end n s2 fd node
       else
         let s3 = cur_put (\<lambda>t. if fd > fd_last t then t\<lparr>fd_last := fd\<rparr> else t) s2
         in if addr = 0 then sys_open_end n s3 (- ENOMEM) node
            else sys_open_end n
              (cur_put (\<lambda>t. t\<lparr>files := (files t)[nat fd := addr]\<rparr>)
                (s3\<lparr>sys_files := (sys_files s3)(addr \<mapsto> \<lparr>file_node = node, file_flags = flags, file_offset = 0\<rparr>)\<rparr>)) fd node } }"

definition sys_close :: "nat \<Rightarrow> sys \<Rightarrow> int \<Rightarrow> (errcode \<times> sys) option" where
  "sys_close n s fd = do {
     file \<leftarrow> task_file_from (cur_task s) fd;
     if file = 0 then Some (- EBADF, s)
     else do {
       f \<leftarrow> sys_files s file;
       (cerr, v) \<leftarrow> vfs_close n (sys_fs s) (sys_vfs s) (file_node f);
       let s1 = s\<lparr>sys_vfs := v\<rparr>;
       case task_file_free cerr False of (err, freed) \<Rightarrow>
         let s2 = (if freed then s1\<lparr>sys_files := (sys_files s1)(file := None)\<rparr> else s1)
         in if err \<noteq> 0 then Some (err, s2)
            else Some (0, cur_put (\<lambda>t. (if fd = fd_last t then t\<lparr>fd_last := fd_last t - 1\<rparr> else t)
                   \<lparr>files := (files t)[nat fd := 0]\<rparr>) s2) } }"

text \<open>\<^verbatim>\<open>sys_read\<close>: the result and the bytes that are stored into the user's buffer.\<close>

definition sys_read :: "sys \<Rightarrow> int \<Rightarrow> bool \<Rightarrow> u64 \<Rightarrow> (int \<times> u8 list \<times> sys) option" where
  "sys_read s fd has_buf sz = do {
     file \<leftarrow> task_file_from (cur_task s) fd;
     if file = 0 then Some (- EBADF, [], s)
     else do {
       f \<leftarrow> sys_files s file;
       (ret, bytes) \<leftarrow> vfs_read (sys_fs s) (sys_vfs s) (file_node f) (file_offset f) sz has_buf;
       if ret > 0 then do {
         v \<leftarrow> nodes (sys_vfs s) (file_node f);
         let f' = (if vfs_node_is_directory v then f\<lparr>file_offset := file_offset f + 1\<rparr>
                   else f\<lparr>file_offset := file_offset f + of_int ret\<rparr>);
         Some (ret, bytes, s\<lparr>sys_files := (sys_files s)(file \<mapsto> f')\<rparr>) }
       else Some (ret, bytes, s) } }"

definition sys_write :: "sys \<Rightarrow> int \<Rightarrow> u8 list option \<Rightarrow> u64 \<Rightarrow> (int \<times> sys) option" where
  "sys_write s fd buf sz = do {
     file \<leftarrow> task_file_from (cur_task s) fd;
     if file = 0 then Some (- EBADF, s)
     else do {
       f \<leftarrow> sys_files s file;
       ret \<leftarrow> vfs_write (sys_fs s) (sys_vfs s) (file_node f) (file_offset f) sz buf;
       Some (ret, if ret > 0 then s\<lparr>sys_files := (sys_files s)(file \<mapsto> f\<lparr>file_offset := file_offset f + of_int ret\<rparr>)\<rparr> else s) } }"

section \<open>Mounting\<close>

text \<open>
  \<^verbatim>\<open>sys_mount\<close>: \<open>news\<close> are the constructors of the filesystem types and \<open>addr\<close> is the address of the new
  structure. The source is not looked at beyond being given: the partition is always null.
\<close>

definition sys_mount :: "nat \<Rightarrow> bool \<Rightarrow> (nat \<Rightarrow> fs \<Rightarrow> errcode \<times> fs) \<Rightarrow> u64 \<Rightarrow> sys \<Rightarrow> cstr option \<Rightarrow> cstr option \<Rightarrow> cstr option \<Rightarrow> (errcode \<times> sys) option" where
  "sys_mount n fat32 news addr s source target filesystem =
     (if target = None \<or> source = None \<and> filesystem = None then Some (- EINVAL, s)
      else
        let type = (case filesystem of None \<Rightarrow> FS_TYPE_DETECT | Some name \<Rightarrow> fs_type name)
        in if filesystem \<noteq> None \<and> type = 0 then Some (- ENODEV, s)
           else case fs_new fat32 news type 0 of
             (err, None) \<Rightarrow> Some (err, s)
           | (err, Some fs) \<Rightarrow>
               if err \<noteq> 0 then Some (err, s)
               else do {
                 (err, v) \<leftarrow> vfs_mount n ((sys_fs s)(addr := fs)) (sys_vfs s) target addr;
                 if err \<noteq> 0 then Some (err, s\<lparr>sys_vfs := v\<rparr>)
                 else Some (0, s\<lparr>sys_vfs := v, sys_fs := (sys_fs s)(addr := fs)\<rparr>) })"

definition sys_umount :: "nat \<Rightarrow> sys \<Rightarrow> cstr option \<Rightarrow> (errcode \<times> sys) option" where
  "sys_umount n s target =
     (if target = None then Some (- EINVAL, s)
      else do {
        (fs, v) \<leftarrow> vfs_fs n (sys_fs s) (sys_vfs s) target;
        if fs = 0 then Some (- EINVAL, s\<lparr>sys_vfs := v\<rparr>)
        else do {
          (err, v') \<leftarrow> vfs_umount n (sys_fs s) v target;
          Some (err, s\<lparr>sys_vfs := v'\<rparr>) } })"

section \<open>Tasks\<close>

definition sys_exit :: "nat \<Rightarrow> sys \<Rightarrow> i32 \<Rightarrow> sys option" where
  "sys_exit n s code = do {
     r \<leftarrow> sched_exit n (sys_sched s) code;
     case r of Inl _ \<Rightarrow> Some s | Inr sc \<Rightarrow> Some (s\<lparr>sys_sched := sc\<rparr>) }"

definition sys_fork :: "(sys \<Rightarrow> sys option) \<Rightarrow> sys \<Rightarrow> (int \<times> sys) option" where
  "sys_fork resched s =
     (let caller = pid (cur_task s) in do {
        s1 \<leftarrow> resched (cur_put (\<lambda>t. t\<lparr>state := TASK_STATE_FORK\<rparr>) s);
        Some (if caller = pid (cur_task s1) then cpid (cur_task s1) else 0, s1) })"

fun wait_loop :: "nat \<Rightarrow> (sys \<Rightarrow> sys option) \<Rightarrow> sys \<Rightarrow> sys option" where
  "wait_loop 0 resched s = None"
| "wait_loop (Suc n) resched s =
     (if waitq_head (cur_task s) = 0 then do {
        s1 \<leftarrow> resched (cur_put (\<lambda>t. t\<lparr>state := TASK_STATE_WAIT\<rparr>) s);
        wait_loop n resched s1 }
      else Some s)"

text \<open>\<^verbatim>\<open>sys_wait\<close>: the result and the status that is stored for the caller.\<close>

definition sys_wait :: "nat \<Rightarrow> (sys \<Rightarrow> sys option) \<Rightarrow> sys \<Rightarrow> (int \<times> i32 option \<times> sys) option" where
  "sys_wait n resched s = do {
     child \<leftarrow> (if waitq_head (cur_task s) \<noteq> 0 then Some 1
               else sched_child n (sys_sched s) (task_current (sys_sched s)) 0);
     if child = 0 then Some (- ECHILD, None, s)
     else do {
       s1 \<leftarrow> wait_loop n resched s;
       (waitq, ob, t) \<leftarrow> task_waitq_pop n (objects (sys_sched s1)) (Some (cur_task s1));
       let s2 = cur_put (\<lambda>_. the t) (s1\<lparr>sys_sched := (sys_sched s1)\<lparr>objects := ob\<rparr>\<rparr>);
       Some (wq_pid ob waitq, Some (wq_status ob waitq), s2) } }"

section \<open>The descriptor table\<close>

text \<open>
  The table has 32 slots and everything above \<^verbatim>\<open>fd_last\<close> is free; every used slot points to a file
  object of its own.
\<close>

definition fd_inv :: "task \<Rightarrow> bool" where
  "fd_inv t \<longleftrightarrow> length (files t) = CONFIG_TASK_FILES_MAX \<and> - 1 \<le> fd_last t \<and> fd_last t < int CONFIG_TASK_FILES_MAX \<and>
     (\<forall>i < CONFIG_TASK_FILES_MAX. fd_last t < int i \<longrightarrow> files t ! i = 0)"

definition files_inv :: "task \<Rightarrow> (u64 \<Rightarrow> task_file option) \<Rightarrow> bool" where
  "files_inv t fs \<longleftrightarrow> fd_inv t \<and> (\<forall>i < CONFIG_TASK_FILES_MAX. files t ! i \<noteq> 0 \<longrightarrow> fs (files t ! i) \<noteq> None) \<and>
     (\<forall>i < CONFIG_TASK_FILES_MAX. \<forall>j < CONFIG_TASK_FILES_MAX. files t ! i = files t ! j \<and> files t ! i \<noteq> 0 \<longrightarrow> i = j)"

lemma cur_put_simps [simp]:
  "sys_vfs (cur_put f s) = sys_vfs s" "sys_files (cur_put f s) = sys_files s" "sys_fs (cur_put f s) = sys_fs s"
  "task_current (sys_sched (cur_put f s)) = task_current (sys_sched s)" 
  "tasks (sys_sched (cur_put f s)) a = (if a = task_current (sys_sched s) then f (cur_task s) else tasks (sys_sched s) a)"
  by (simp_all add: cur_put_def)

lemma fd_next_inv:
  assumes "fd_inv t" and "task_file_fd_next t = Some (fd, t')"
  shows "t' = t \<and> (fd = - EMFILE \<or> 0 \<le> fd \<and> fd < int CONFIG_TASK_FILES_MAX \<and> fd_last t \<le> fd \<and> files t ! nat fd = 0)"
proof -
  have t: "length (files t) = 32" "fd_last t < 32" "- 1 \<le> fd_last t" using assms(1) by (auto simp: fd_inv_def)
  have "\<exists>r. fd_scan t (fd_last t) = Some r \<and> fd_last t \<le> r \<and> 0 \<le> r \<and> r \<le> 32 \<and> (r < 32 \<longrightarrow> files t ! nat r = 0)"
  proof (cases "fd_last t = - 1")
    case True
    have "files_get t (- 1) = Some 0xffffffff" using True by (simp add: files_get_def)
    then have "fd_scan t (- 1) = fd_scan t 0" by (subst fd_scan.simps) simp
    then show ?thesis using True fd_scan_first [of t 0] t by auto
  next
    case False
    then show ?thesis using fd_scan_first [of t "fd_last t"] t by auto
  qed
  then show ?thesis using assms(2) t by (auto simp: task_file_fd_next_def)
qed

lemma open_end_keeps:
  "sys_open_end n s fd node = Some (r, s') \<Longrightarrow> r = fd \<and> sys_sched s' = sys_sched s \<and> sys_files s' = sys_files s"
  by (auto simp: sys_open_end_def bind_eq_Some_conv split: if_splits)

text \<open>What opening a file changes: the descriptor table of the caller and the file objects.\<close>

lemma open_cases:
  assumes "sys_open n addr s path flags = Some (r, s')" and inv: "fd_inv (cur_task s)"
  obtains (failed) "r \<noteq> 0" "cur_task s' = cur_task s" "sys_files s' = sys_files s"
  | (nomem) fd where "r = - ENOMEM" "addr = 0" "fd_last (cur_task s) \<le> fd" "0 \<le> fd" "fd < 32" "files (cur_task s) ! nat fd = 0"
      "cur_task s' = (cur_task s)\<lparr>fd_last := fd\<rparr>" "sys_files s' = sys_files s"
  | (opened) node where "addr \<noteq> 0" "fd_last (cur_task s) \<le> r" "0 \<le> r" "r < 32" "files (cur_task s) ! nat r = 0"
      "cur_task s' = (cur_task s)\<lparr>fd_last := r, files := (files (cur_task s))[nat r := addr]\<rparr>"
      "sys_files s' = (sys_files s)(addr \<mapsto> \<lparr>file_node = node, file_flags = flags, file_offset = 0\<rparr>)"
proof -
  obtain err node v where o: "vfs_open n (sys_fs s) (sys_vfs s) path = Some (err, node, v)"
    using assms(1) by (auto simp: sys_open_def bind_eq_Some_conv)
  show thesis
  proof (cases "err = 0")
    case False
    then show thesis using assms(1) o failed by (auto simp: sys_open_def dest!: open_end_keeps)
  next
    case True
    then obtain fd t where f: "task_file_fd_next (cur_task s) = Some (fd, t)"
      using assms(1) o by (auto simp: sys_open_def bind_eq_Some_conv)
    have t: "t = cur_task s" "fd = - EMFILE \<or> 0 \<le> fd \<and> fd < 32 \<and> fd_last (cur_task s) \<le> fd \<and> files (cur_task s) ! nat fd = 0"
      using fd_next_inv [OF inv f] by auto
    have e: "(\<lambda>t. if fd > fd_last t then t\<lparr>fd_last := fd\<rparr> else t) (cur_task s) = (cur_task s)\<lparr>fd_last := fd\<rparr>"
      if "fd_last (cur_task s) \<le> fd" using that by (cases "fd_last (cur_task s) = fd") auto
    show thesis
    proof (cases "fd < 0")
      case True
      then show thesis using assms(1) o \<open>err = 0\<close> f t failed
        by (auto simp: sys_open_def Let_def dest!: open_end_keeps)
    next
      case False
      then have r: "0 \<le> fd" "fd < 32" "fd_last (cur_task s) \<le> fd" "files (cur_task s) ! nat fd = 0" using t(2) by auto
      show thesis
      proof (cases "addr = 0")
        case True
        then show thesis using assms(1) o \<open>err = 0\<close> f t(1) r e nomem [of fd]
          by (auto simp: sys_open_def Let_def dest!: open_end_keeps)
      next
        case False
        then show thesis using assms(1) o \<open>err = 0\<close> f t(1) r e opened [of node]
          by (auto simp: sys_open_def Let_def dest!: open_end_keeps)
      qed
    qed
  qed
qed

lemma fd_inv_open:
  assumes "fd_inv t" and "fd_last t \<le> fd" and "0 \<le> fd" and "fd < 32" and "a = 0 \<longrightarrow> files t ! nat fd = 0"
  shows "fd_inv (t\<lparr>fd_last := fd, files := (files t)[nat fd := a]\<rparr>)"
  using assms by (auto simp: fd_inv_def nth_list_update)

lemma files_inv_open:
  assumes "files_inv t fs" and "fd_last t \<le> fd" and "0 \<le> fd" and "fd < 32" and "a \<noteq> 0" and "fs a = None"
  shows "files_inv (t\<lparr>fd_last := fd, files := (files t)[nat fd := a]\<rparr>) (fs(a \<mapsto> f))"
proof -
  have "fd_inv (t\<lparr>fd_last := fd, files := (files t)[nat fd := a]\<rparr>)"
    using assms by (intro fd_inv_open) (simp_all add: files_inv_def)
  moreover have "files t ! i \<noteq> a" if "i < 32" for i using that assms(1,5,6) by (auto simp: files_inv_def)
  moreover have "(files t)[nat fd := a] ! i = (if i = nat fd then a else files t ! i)" if "i < 32" for i
    using that assms(1) by (auto simp: files_inv_def fd_inv_def nth_list_update)
  ultimately show ?thesis using assms(1) unfolding files_inv_def by (auto split: if_splits)
qed

lemma fd_inv_close:
  assumes "fd_inv t" and "0 \<le> fd" and "fd < 32"
  shows "fd_inv ((if fd = fd_last t then t\<lparr>fd_last := fd_last t - 1\<rparr> else t)\<lparr>files := (files t)[nat fd := 0]\<rparr>)"
  using assms by (auto simp: fd_inv_def nth_list_update)

lemma files_inv_close:
  assumes "files_inv t fs" and "0 \<le> fd" and "fd < 32"
  shows "files_inv ((if fd = fd_last t then t\<lparr>fd_last := fd_last t - 1\<rparr> else t)\<lparr>files := (files t)[nat fd := 0]\<rparr>) (fs(files t ! nat fd := None))"
proof -
  have u: "(files t)[nat fd := 0] ! i = (if i = nat fd then 0 else files t ! i)" if "i < 32" for i
    using that assms(1) by (auto simp: files_inv_def fd_inv_def nth_list_update)
  have "nat fd < 32" using assms by simp
  then have "files t ! i \<noteq> files t ! nat fd" if "i < 32" "i \<noteq> nat fd" "files t ! i \<noteq> 0" for i
    using that assms(1) by (auto simp: files_inv_def)
  then show ?thesis using assms(1) fd_inv_close [OF _ assms(2,3), of t] u
    unfolding files_inv_def by (auto split: if_splits)
qed

section \<open>Sequences of calls\<close>

text \<open>A file call of the running task. An object the heap hands out is not in use.\<close>

inductive file_call :: "sys \<Rightarrow> sys \<Rightarrow> bool" where
  opens: "sys_open n addr s path flags = Some (r, s') \<Longrightarrow> addr = 0 \<or> sys_files s addr = None \<Longrightarrow> file_call s s'"
| closes: "sys_close n s fd = Some (r, s') \<Longrightarrow> file_call s s'"
| reads: "sys_read s fd has_buf sz = Some (r, bytes, s') \<Longrightarrow> file_call s s'"
| writes: "sys_write s fd buf sz = Some (r, s') \<Longrightarrow> file_call s s'"
| mounts: "sys_mount n fat32 news addr s source target filesystem = Some (r, s') \<Longrightarrow> file_call s s'"
| umounts: "sys_umount n s target = Some (r, s') \<Longrightarrow> file_call s s'"

inductive_cases file_callE: "file_call s s'"

lemma close_inv:
  assumes "sys_close n s fd = Some (r, s')" and "files_inv (cur_task s) (sys_files s)"
  shows "files_inv (cur_task s') (sys_files s')"
proof -
  have l: "length (files (cur_task s)) = 32" using assms(2) by (simp add: files_inv_def fd_inv_def)
  show ?thesis
  proof (cases "0 \<le> fd \<and> fd < 32")
    case True
    then show ?thesis using assms l files_inv_close [OF assms(2), of fd]
      by (auto simp: sys_close_def task_file_from_def files_get_def task_file_free_def bind_eq_Some_conv Let_def split: if_splits)
  next
    case False
    then show ?thesis using assms l by (auto simp: sys_close_def task_file_from_def files_get_def split: if_splits)
  qed
qed

lemma files_inv_touch: "files_inv t fs \<Longrightarrow> files_inv t (fs(a \<mapsto> f))"
  by (auto simp: files_inv_def)

lemma file_call_inv:
  assumes "file_call s s'" and inv: "files_inv (cur_task s) (sys_files s)"
  shows "files_inv (cur_task s') (sys_files s')"
  using assms(1)
proof cases
  case (opens n addr path flags r)
  have fd: "fd_inv (cur_task s)" using inv by (simp add: files_inv_def)
  show ?thesis
  proof (cases rule: open_cases [OF opens(1) fd])
    case 1
    then show ?thesis using inv by simp
  next
    case (2 k)
    then have "(files (cur_task s))[nat k := 0] = files (cur_task s)" by (metis list_update_id)
    then have "fd_inv ((cur_task s)\<lparr>fd_last := k\<rparr>)" using fd_inv_open [OF fd, of k 0] 2 by simp
    then show ?thesis using inv 2 unfolding files_inv_def by auto
  next
    case (3 node)
    then show ?thesis using files_inv_open [OF inv, of r addr] opens(2) by auto
  qed
next
  case (closes n fd r)
  then show ?thesis using close_inv inv by blast
next
  case (reads fd has_buf sz r bytes)
  then show ?thesis using inv
    by (auto simp: sys_read_def bind_eq_Some_conv Let_def files_inv_touch split: if_splits)
next
  case (writes fd buf sz r)
  then show ?thesis using inv by (auto simp: sys_write_def bind_eq_Some_conv files_inv_touch split: if_splits)
next
  case (mounts n fat32 news addr source target filesystem r)
  then show ?thesis using inv
    by (auto simp: sys_mount_def bind_eq_Some_conv Let_def split: if_splits option.splits prod.splits)
next
  case (umounts n target r)
  then show ?thesis using inv by (auto simp: sys_umount_def bind_eq_Some_conv split: if_splits)
qed

lemma file_calls_inv: "file_call\<^sup>*\<^sup>* s s' \<Longrightarrow> files_inv (cur_task s) (sys_files s) \<Longrightarrow> files_inv (cur_task s') (sys_files s')"
  by (induction rule: rtranclp_induct) (auto intro: file_call_inv)

text \<open>A number of reads of the same size, one after the other.\<close>

fun read_times :: "nat \<Rightarrow> sys \<Rightarrow> int \<Rightarrow> u64 \<Rightarrow> (u8 list \<times> sys) option" where
  "read_times 0 s fd sz = Some ([], s)"
| "read_times (Suc k) s fd sz = do {
     (_, bytes, s1) \<leftarrow> sys_read s fd True sz;
     (rest, s2) \<leftarrow> read_times k s1 fd sz;
     Some (bytes @ rest, s2) }"

text \<open>A regular file whose filesystem serves reads from its content \<open>cont\<close>.\<close>

definition serves_file :: "fs \<Rightarrow> fs_inode \<Rightarrow> u8 list \<Rightarrow> bool" where
  "serves_file f i cont \<longleftrightarrow> (\<forall>off sz. 0 < sz \<longrightarrow> fs_read f i off sz =
     (int (min (unat sz) (length cont - unat off)), take (unat sz) (drop (unat off) cont)))"

lemma read_step:
  assumes "task_file_from (cur_task s) fd = Some a" and "a \<noteq> 0" and "sys_files s a = Some f" and "file_node f \<noteq> 0"
    and "nodes (sys_vfs s) (file_node f) = Some v" and "\<not> vfs_node_is_directory v"
    and "serves_file (sys_fs s (v_fs v)) (v_inode v) cont" and "length cont < 2 ^ 64" and "unat (file_offset f) \<le> length cont" and "0 < sz"
  shows "\<exists>f'. sys_read s fd True sz =
      Some (int (min (unat sz) (length cont - unat (file_offset f))), take (unat sz) (drop (unat (file_offset f)) cont),
        s\<lparr>sys_files := (sys_files s)(a \<mapsto> f')\<rparr>) \<and>
    file_node f' = file_node f \<and> unat (file_offset f') = min (unat (file_offset f) + unat sz) (length cont)"
proof -
  let ?o = "file_offset f" and ?n = "min (unat sz) (length cont - unat (file_offset f))"
  have n: "unat (of_nat ?n :: u64) = ?n" using assms(8) by (intro unat_of_nat64) linarith
  have u: "unat (?o + of_nat ?n) = min (unat ?o + unat sz) (length cont)"
    using n unat_plus64 [of ?o "of_nat ?n"] assms(8,9) by simp
  show ?thesis
  proof (cases "?n = 0")
    case True
    then have "min (unat ?o + unat sz) (length cont) = unat ?o" using assms(9) by auto
    moreover have "s\<lparr>sys_files := (sys_files s)(a \<mapsto> f)\<rparr> = s" using assms(3) by (simp add: fun_upd_idem)
    ultimately show ?thesis using True assms(1-7,10)
      by (intro exI [of _ f]) (simp add: sys_read_def vfs_read_def serves_file_def)
  next
    case False
    then show ?thesis using assms(1-7,10) u
      by (intro exI [of _ "f\<lparr>file_offset := ?o + of_nat ?n\<rparr>"]) (simp add: sys_read_def vfs_read_def serves_file_def)
  qed
qed

lemma read_times_content:
  assumes "task_file_from (cur_task s) fd = Some a" and "a \<noteq> 0" and "file_node f \<noteq> 0"
    and "nodes (sys_vfs s) (file_node f) = Some v" and "\<not> vfs_node_is_directory v"
    and "serves_file (sys_fs s (v_fs v)) (v_inode v) cont" and "length cont < 2 ^ 64" and "0 < sz"
  shows "sys_files s a = Some f \<Longrightarrow> unat (file_offset f) \<le> length cont \<Longrightarrow>
    \<exists>s'. read_times k s fd sz = Some (take (k * unat sz) (drop (unat (file_offset f)) cont), s')"
  using assms
proof (induction k arbitrary: s f)
  case (Suc k)
  obtain f' where f': "sys_read s fd True sz =
      Some (int (min (unat sz) (length cont - unat (file_offset f))), take (unat sz) (drop (unat (file_offset f)) cont),
        s\<lparr>sys_files := (sys_files s)(a \<mapsto> f')\<rparr>)"
    "file_node f' = file_node f" "unat (file_offset f') = min (unat (file_offset f) + unat sz) (length cont)"
    using read_step [OF Suc.prems(3,4,1,5-9,2,10)] by blast
  let ?s = "s\<lparr>sys_files := (sys_files s)(a \<mapsto> f')\<rparr>"
  obtain s' where "read_times k ?s fd sz = Some (take (k * unat sz) (drop (unat (file_offset f')) cont), s')"
    using Suc.IH [of ?s f'] Suc.prems f' by auto
  moreover have "drop (unat (file_offset f')) cont = drop (unat sz) (drop (unat (file_offset f)) cont)"
    using f'(3) by (cases "unat (file_offset f) + unat sz \<le> length cont") (simp_all add: add.commute)
  ultimately show ?case using f'(1) by (simp add: take_add)
qed simp

text \<open>A task with one open file of five bytes, for the concrete runs.\<close>

definition five_fs :: fs where
  "five_fs = \<lparr>fs_kind = 1, fs_part = 0, ops = fs_ops_zero\<lparr>op_close := Some (\<lambda>_. 0),
     op_read := Some (\<lambda>_ off sz. (int (min (unat sz) (length [1, 2, 3, 4, 5 :: u8] - unat off)), take (unat sz) (drop (unat off) [1, 2, 3, 4, 5])))\<rparr>\<rparr>"

definition one_file :: sys where
  "one_file = \<lparr>sys_sched = sched_boot\<lparr>task_current := 8, tasks := (\<lambda>_. task_zero\<lparr>files := (replicate 32 0)[0 := 64]\<rparr>)\<rparr>,
     sys_vfs = \<lparr>nodes = [16 \<mapsto> (vnode 0 0)\<lparr>v_refs := 2, v_inode := inode_zero\<rparr>], vfs_root = 16, fresh = []\<rparr>,
     sys_fs = (\<lambda>_. five_fs), sys_files = [64 \<mapsto> \<lparr>file_node = 16, file_flags = 0, file_offset = 0\<rparr>]\<rparr>"

lemma one_file_inv: "files_inv (cur_task one_file) (sys_files one_file)"
  by (auto simp: files_inv_def fd_inv_def one_file_def sched_boot_def task_zero_def nth_list_update)

section \<open>Properties\<close>

text \<open>
  C18. Whatever sequence of open, close, read, write, mount and unmount calls a task makes, its
  descriptor table stays well-formed: \<^verbatim>\<open>fd_last\<close> stays between -1 and 31, everything above it is free,
  every used descriptor points to a live file object, and no two descriptors share one.
\<close>

theorem sys_file_calls_invariant:
  assumes "file_call\<^sup>*\<^sup>* s s'" and "files_inv (cur_task s) (sys_files s)"
  shows "files_inv (cur_task s') (sys_files s')"
  using assms by (rule file_calls_inv)

theorem sys_file_calls_invariant_witness:
  "\<exists>s'. sys_close 5 one_file 0 = Some (0, s') \<and> fd_last (cur_task s') = - 1 \<and> files_inv (cur_task s') (sys_files s')"
proof -
  have "task_file_from (cur_task one_file) 0 = Some 64" "fd_last (cur_task one_file) = 0"
    by (simp_all add: task_file_from_def files_get_def one_file_def sched_boot_def task_zero_def)
  moreover have "sys_files one_file 64 = Some \<lparr>file_node = 16, file_flags = 0, file_offset = 0\<rparr>" by (simp add: one_file_def)
  moreover obtain v where "vfs_close 5 (sys_fs one_file) (sys_vfs one_file) 16 = Some (0, v)"
  proof -
    have five: "5 = Suc (Suc (Suc (Suc (Suc 0))))" by simp
    have "\<exists>v. vfs_close 5 (sys_fs one_file) (sys_vfs one_file) 16 = Some (0, v)"
      unfolding five by (simp add: vfs_close_def one_file_def fs_close_def five_fs_def node_unref_def node_upd_def vnode_def Let_def)
    then show thesis using that by blast
  qed
  ultimately obtain s' where s': "sys_close 5 one_file 0 = Some (0, s')" "fd_last (cur_task s') = - 1"
    by (auto simp: sys_close_def task_file_free_def Let_def)
  then have "file_call\<^sup>*\<^sup>* one_file s'" by (blast intro: file_call.closes)
  then show ?thesis using s' sys_file_calls_invariant one_file_inv by blast
qed



text \<open>
  The mount call cannot mount a filesystem of a disk: it always passes a null partition, for which
  the FAT32 constructor fails, so with FAT32 named, or with the type left to detection, the call returns
  an error and leaves the state as it was.
\<close>

theorem sys_mount_no_disk:
  assumes "\<And>f. fs_part f = 0 \<Longrightarrow> fst (news FS_TYPE_FAT32 f) = - EINVAL" and "filesystem = None \<or> filesystem = Some [70, 65, 84, 51, 50]"
  shows "\<exists>err. sys_mount n fat32 news addr s source target filesystem = Some (err, s) \<and> err < 0"
proof -
  let ?f = "\<lparr>fs_kind = 0, fs_part = 0, ops = fs_ops_zero\<rparr>"
  obtain f' where "news FS_TYPE_FAT32 ?f = (- EINVAL, f')" using assms(1) [of ?f] by (cases "news FS_TYPE_FAT32 ?f") auto
  then have "fs_new fat32 news FS_TYPE_FAT32 0 = (if fat32 then - EINVAL else - ENODEV, None)"
    "fs_new fat32 news FS_TYPE_DETECT 0 = (- EFAULT, None)"
    by (simp_all add: fs_new_def fs_new1_def fs_is_valid_type_def Let_def)
  then show ?thesis using assms(2) by (auto simp: sys_mount_def fs_type_def fs_type_names_def)
qed

theorem sys_mount_no_disk_witness:
  "\<exists>err. sys_mount 0 True (\<lambda>_ f. (- EINVAL, f)) 64 one_file (Some [97]) (Some [47]) None = Some (err, one_file) \<and> err < 0"
  by (rule sys_mount_no_disk) simp_all

end
