(* ===== verification/Storage.thy ===== *)
theory Storage
  imports Ahci Fat32 Pci Syscall
begin

text \<open>
  The way of a file's bytes from the drive to the program: \<^verbatim>\<open>sys_read\<close> calls the read operation of \<^verbatim>\<open>fs/fat32/fat32.c\<close>
  through the dispatch of \<^verbatim>\<open>fs/fs.c\<close>, which reads with \<^verbatim>\<open>core/disk/disk.c\<close>, which transfers sectors with \<^verbatim>\<open>core/ahci/ahci.c\<close>.
  The components are those of the other theories; here are the operation table of FAT32, which ties the upper two
  together, the driver table of \<^verbatim>\<open>core/pci/device.c\<close>, which starts the lowest, and the theorems about the whole path.
\<close>

section \<open>The operations of FAT32\<close>

text \<open>
  A buffer of the caller is seen as the bytes that a read stores into it. \<open>n\<close> bounds the clusters that are followed, \<open>junk\<close> is what the
  memory holds that a directory lookup does not initialise; a call that runs out of them or panics gives no bytes.
\<close>

definition fat32_op_read :: "nat \<Rightarrow> fat32 \<Rightarrow> fs_inode \<Rightarrow> u64 \<Rightarrow> u64 \<Rightarrow> int \<times> u8 list" where
  "fat32_op_read n f i off sz =
     (case fat32_read n f i off sz (Some (replicate (unat sz) 0)) of None \<Rightarrow> (0, [])
      | Some (ret, bs) \<Rightarrow> (ret, take (nat ret) bs))"

definition fat32_op_namei :: "nat \<Rightarrow> u8 list \<Rightarrow> fat32 \<Rightarrow> fs_inode option \<Rightarrow> cstr option \<Rightarrow> errcode \<times> fs_inode" where
  "fat32_op_namei n junk f dir name = (case fat32_namei n junk f dir name of None \<Rightarrow> (- EFAULT, inode_zero) | Some r \<Rightarrow> r)"

text \<open>\<^verbatim>\<open>fat32_free\<close>: the block of the data structure, \<open>f_ptr\<close>.\<close>

definition fat32_free :: "u64 \<Rightarrow> u64 list" where
  "fat32_free data = [data]"

definition fat32_ops :: "nat \<Rightarrow> u8 list \<Rightarrow> u64 \<Rightarrow> fat32 \<Rightarrow> fs_ops" where
  "fat32_ops n junk data f = \<lparr>op_open = Some (\<lambda>_. fs_default), op_close = Some (\<lambda>_. fs_default), op_read = Some (fat32_op_read n f),
     op_write = Some (fat32_write f), op_namei = Some (fat32_op_namei n junk f), op_free = Some (fat32_free data)\<rparr>"

section \<open>The driver table\<close>

text \<open>
  The only driver is the one of \<^verbatim>\<open>core/ahci/ahci.c\<close>. \<open>hba\<close> gives the registers of a controller; \<open>None\<close> as the state is a start that did not
  come to its end.
\<close>

definition ahci_start :: "(pci_device \<Rightarrow> ahci_hba) \<Rightarrow> nat \<Rightarrow> pci_device \<Rightarrow> ahci_drv option \<Rightarrow> int \<times> ahci_drv option" where
  "ahci_start hba fuel d w =
     (case Option.bind w (ahci_init (hba d) fuel) of None \<Rightarrow> (0, None) | Some (err, s) \<Rightarrow> (err, Some s))"

definition ahci_driver :: "(pci_device \<Rightarrow> ahci_hba) \<Rightarrow> nat \<Rightarrow> ahci_drv option pci_driver" where
  "ahci_driver hba fuel = \<lparr>drv_vendor = 0xffff, drv_device = 0xffff, drv_subclass = 6, drv_class = 1, drv_type = 0,
     drv_init = Some (ahci_start hba fuel)\<rparr>"

definition pci_drivers :: "(pci_device \<Rightarrow> ahci_hba) \<Rightarrow> nat \<Rightarrow> ahci_drv option pci_driver list" where
  "pci_drivers hba fuel = [ahci_driver hba fuel]"

definition sata_controller :: "pci_device \<Rightarrow> bool" where
  "sata_controller d \<longleftrightarrow> pci_class d = 1 \<and> pci_subclass d = 6"

lemma pci_device_init_ahci:
  "pci_device_init (pci_drivers hba fuel) d w = (if sata_controller d then ahci_start hba fuel d w else (- ENOSYS, w))"
  by (auto simp: pci_device_init_def pci_drivers_def ahci_driver_def drv_match_def sata_controller_def)

lemma fold_ahci:
  "fold (\<lambda>d w. snd (pci_device_init (pci_drivers hba fuel) d w)) ds w = fold (\<lambda>d w. snd (ahci_start hba fuel d w)) (filter sata_controller ds) w"
  by (induction ds arbitrary: w) (simp_all add: pci_device_init_ahci)

section \<open>Files\<close>

text \<open>The position of the first byte of a file, and the files this theory is about: not longer than a cluster, on sectors the disk reaches.\<close>

definition file_base :: "fat32 \<Rightarrow> fs_inode \<Rightarrow> u64" where
  "file_base f i = fat32_data_cluster_to_bytes f (i_addr i) + f_start f * sector_size (f_disk f)"

definition file_on_disk :: "nat \<Rightarrow> fat32 \<Rightarrow> fs_inode \<Rightarrow> bool" where
  "file_on_disk lim f i \<longleftrightarrow> i_type i = FS_ENTRY_TYPE_FILE \<and> i_size i \<le> fat32_data_bytes_per_cluster f \<and>
     unat (i_size i) < 2 ^ 63 \<and> unat (i_size i) + unat (sector_size (f_disk f)) \<le> lim \<and>
     unat (file_base f i) + unat (i_size i) \<le> 2 ^ 48 * unat (sector_size (f_disk f)) \<and> unat (file_base f i) + unat (i_size i) < 2 ^ 64"

definition file_bytes :: "(nat \<Rightarrow> u8) \<Rightarrow> fat32 \<Rightarrow> fs_inode \<Rightarrow> u8 list" where
  "file_bytes img f i = map img [unat (file_base f i) ..< unat (file_base f i) + unat (i_size i)]"

lemma file_bytes_piece:
  assumes "m \<le> unat (i_size i) - k" and "k < unat (i_size i)"
  shows "take m (drop k (file_bytes img f i)) = map img [unat (file_base f i) + k ..< unat (file_base f i) + k + m]"
  using assms by (simp add: file_bytes_def drop_map take_map drop_upt take_upt)

lemma fat32_op_read_file:
  assumes serves: "dev_serves lim (f_dev f) (f_disk f) img" and on_disk: "file_on_disk lim f i" and "0 < sz"
  shows "fat32_op_read (Suc n) f i off sz =
    (int (min (unat sz) (unat (i_size i) - unat off)), take (unat sz) (drop (unat off) (file_bytes img f i)))"
proof (cases "off < i_size i")
  case False
  then have o: "i_size i \<le> off" "unat (i_size i) \<le> unat off" by (simp_all add: word_le_nat_alt not_less)
  moreover have "i_type i = FS_ENTRY_TYPE_FILE" "sz \<noteq> 0" using on_disk assms(3) by (auto simp: file_on_disk_def)
  ultimately have "fat32_read (Suc n) f i off sz (Some (replicate (unat sz) 0)) = Some (0, replicate (unat sz) 0)"
    by (simp add: fat32_read_def)
  then show ?thesis using o(2) by (simp add: fat32_op_read_def file_bytes_def)
next
  case True
  let ?b = "file_base f i" and ?z = "i_size i" and ?ss = "sector_size (f_disk f)"
  define m where "m = min sz (?z - off)"
  note o = True [unfolded word_less_nat_alt]
  have d: "unat (?z - off) = unat ?z - unat off" using o by (simp add: unat_sub word_le_nat_alt)
  have m: "unat m = min (unat sz) (unat ?z - unat off)" unfolding m_def min_def by (simp add: word_le_nat_alt d)
  have mp: "0 < m" using assms(3) o m by (simp add: word_less_nat_alt)
  have z: "unat ?z < 2 ^ 63" "unat ?z + unat ?ss \<le> lim" "unat ?b + unat ?z \<le> 2 ^ 48 * unat ?ss" "unat ?b + unat ?z < 2 ^ 64"
    "?z \<le> fat32_data_bytes_per_cluster f" "i_type i = FS_ENTRY_TYPE_FILE"
    using on_disk unfolding file_on_disk_def by blast+
  have B: "unat (?b + off) = unat ?b + unat off" using o z(4) by (intro unat_plus64) linarith
  have r: "unat ((?b + off) mod ?ss) \<le> unat ?ss" using serves
    by (simp add: dev_serves_def unat_mod_distrib word_less_nat_alt less_imp_le)
  have "unat m \<le> unat ?z" using m by simp
  then have "disk_reach lim (f_disk f) (?b + off) m" unfolding disk_reach_def using mp B m o z r by linarith
  then have "fat32_read (Suc n) f i off sz (Some (replicate (unat sz) 0)) =
      Some (sint m, put_at 0 (map img [unat (?b + off) ..< unat (?b + off) + unat m]) (replicate (unat sz) 0))"
    using serves z(5,6) True assms(3) m o
    by (intro fat32_read_within_cluster) (auto simp: m_def file_base_def word_le_nat_alt word_gt_0 ac_simps)
  moreover have "sint m = int (unat m)"
    using m z(1) by (simp add: sint_u64)
  moreover have "take (unat sz) (drop (unat off) (file_bytes img f i)) = take (unat m) (drop (unat off) (file_bytes img f i))"
    using m by (simp add: file_bytes_def min_def)
  moreover have "take (unat m) (drop (unat off) (file_bytes img f i)) = map img [unat (?b + off) ..< unat (?b + off) + unat m]"
    using file_bytes_piece [of "unat m" i "unat off" img f] m o B by simp
  ultimately show ?thesis using m by (simp add: fat32_op_read_def put_at_def)
qed

text \<open>So the filesystem serves such a file from its bytes on the disk.\<close>

lemma fat32_serves_file:
  assumes "dev_serves lim (f_dev f) (f_disk f) img" and "file_on_disk lim f i" and "ops s = fat32_ops (Suc n) junk data f"
  shows "serves_file s i (file_bytes img f i)"
  using fat32_op_read_file [OF assms(1,2)] by (simp add: serves_file_def fs_read_def assms(3) fat32_ops_def file_bytes_def)

section \<open>A drive that takes its time\<close>

text \<open>
  The command register of a drive that completes a command when it is polled for the second time: the issued commands, and the
  number of times the register was read since.
\<close>

fun ci_step :: "px_event \<Rightarrow> u32 \<times> nat \<Rightarrow> u32 \<times> nat" where
  "ci_step (Rd PxCI) (v, c) = (v, Suc c)"
| "ci_step (Wr PxCI w) (v, c) = (w, 0)"
| "ci_step _ vc = vc"

definition ci_state :: "px_event list \<Rightarrow> u32 \<times> nat" where
  "ci_state log = fold ci_step log (0, 0)"

definition slow_drive :: "(nat \<Rightarrow> u8) \<Rightarrow> ahci_hw" where
  "slow_drive img = \<lparr>px_reads = (\<lambda>log r. if r = PxCI then (case ci_state log of (v, c) \<Rightarrow> if c < 2 then v else 0) else 0),
     px_dma = (\<lambda>h t. map img [unat (fis_lba (cfis t)) * 512 ..< (unat (fis_lba (cfis t)) + unat (fis_count (cfis t))) * 512])\<rparr>"

lemma ci_step_reads: "reads_only ext \<Longrightarrow> \<exists>k. fold ci_step ext (v, c) = (v, c + k)"
proof (induction ext arbitrary: c)
  case (Cons e ext)
  obtain r where e: "e = Rd r" using Cons.prems by (cases e) auto
  obtain c' where "ci_step e (v, c) = (v, c + c')" unfolding e by (cases r) (auto intro: exI [of _ 0] exI [of _ 1])
  then show ?case using Cons.IH [of "c + c'"] Cons.prems e by (auto simp: add.assoc)
qed simp

lemma quiet_slow: "quiet (slow_drive img) log \<longleftrightarrow> fst (ci_state log) = 0 \<or> 2 \<le> snd (ci_state log)"
proof -
  obtain v c where s: "ci_state log = (v, c)" by fastforce
  have e: "\<exists>k. ci_state (log @ ext) = (v, c + k)" if "reads_only ext" for ext
    using ci_step_reads [OF that, of v c] s by (simp add: ci_state_def)
  show ?thesis
  proof
    assume "quiet (slow_drive img) log"
    from this [unfolded quiet_def, THEN spec, of "[]"] show "fst (ci_state log) = 0 \<or> 2 \<le> snd (ci_state log)"
      using s by (simp add: slow_drive_def split: if_splits)
  next
    assume "fst (ci_state log) = 0 \<or> 2 \<le> snd (ci_state log)"
    then show "quiet (slow_drive img) log" using e s by (fastforce simp: quiet_def slow_drive_def)
  qed
qed

lemma slow_drive_cycles: "drive_cycles (slow_drive img)"
proof -
  have "fst (ci_state (log @ [Wr PxCI w] @ ext)) = 0 \<or> 2 \<le> snd (ci_state (log @ [Wr PxCI w] @ ext))"
    if "reads_only ext" "\<not> bit (px_reads (slow_drive img) (log @ [Wr PxCI w] @ ext) PxCI) slot" "bit w slot" for log w ext slot
  proof -
    obtain v c where "ci_state log = (v, c)" by fastforce
    then show ?thesis using ci_step_reads [OF that(1), of w 0] that(2,3)
      by (auto simp: ci_state_def slow_drive_def split: if_splits)
  qed
  moreover have "ci_state (log @ [Wr PxIS w]) = ci_state log" for log w by (cases "ci_state log") (simp add: ci_state_def)
  moreover have "bit (set_bit slot 0 :: u32) slot" if "slot < 32" for slot using that by (simp add: bit_simps)
  ultimately show ?thesis unfolding drive_cycles_def quiet_slow by metis
qed

lemma slow_drive_ok: "drive_ok (slow_drive img) 3"
proof -
  have "\<exists>k < 3. \<not> bit (px_reads (slow_drive img) (log @ concat (replicate k [Rd PxCI, Rd PxTFD, Rd PxTFD])) PxCI) b" for log b
    by (cases "ci_state log", intro exI [of _ 2]) (simp add: slow_drive_def ci_state_def numeral_2_eq_2)
  then show ?thesis by (simp add: drive_ok_def slow_drive_def)
qed

text \<open>A disk whose byte \<open>k\<close> is \<open>k\<close>, with buffers of up to two pages' sectors.\<close>

definition slow_disk :: sata_drive where
  "slow_disk = \<lparr>sd_hw = slow_drive of_nat, sd_fuel = 3, sd_vm = vm_example, sd_vaddr = 0x5000, sd_buf = (\<lambda>_ _. 0x5123),
     sd_disk = disk_new DISK_CONTROLLER_AHCI, sd_limit = 1024, sd_img = of_nat, sd_port = fresh_port\<rparr>"

lemma slow_disk_ready: "drive_ready slow_disk"
proof -
  have "prd_count (n * 512) = 1" if "unat n * 512 \<le> 1024" for n :: u64
  proof -
    have "unat (n * 512) = unat n * 512" using that by (subst unat_mult_lem [THEN iffD1]) simp_all
    then show ?thesis using that by (simp add: prd_count_def)
  qed
  moreover have "quiet (slow_drive of_nat) []" by (simp add: quiet_slow ci_state_def)
  ultimately show ?thesis using slow_drive_ok slow_drive_cycles quick_drive_ok(5)
    by (auto simp: drive_ready_def slow_disk_def disk_new_def fresh_port_def sata_limit_def sata_bytes_def slow_drive_def)
qed

section \<open>Properties\<close>






definition drive_fat :: fat32 where
  "drive_fat = sample_fat\<lparr>f_dev := reader_dev sata_read slow_disk\<rparr>"

definition drive_file :: fs_inode where
  "drive_file = inode_zero\<lparr>i_size := 5, i_addr := 3\<rparr>"

definition drive_sys :: sys where
  "drive_sys = one_file\<lparr>sys_vfs := \<lparr>nodes = [16 \<mapsto> (vnode 0 0)\<lparr>v_refs := 2, v_inode := drive_file\<rparr>], vfs_root = 16, fresh = []\<rparr>,
     sys_fs := (\<lambda>_. \<lparr>fs_kind = 1, fs_part = 64, ops = fat32_ops 1 [] 64 drive_fat\<rparr>)\<rparr>"


text \<open>
  C30. The AHCI driver is started for exactly the SATA controllers of the bus, once each and in the order of bus, slot and function: the
  enumeration, the table of drivers and its tests find every device of class 1 and subclass 6, whatever else is there.
\<close>

theorem pci_starts_ahci:
  assumes "host_bridge cfg hw" and "\<forall>n. alloc n"
    and "ds = concat (map (\<lambda>(bus, slot). cfg_devices cfg bus slot) pci_slots)" and "length ds < 65536"
  shows "\<exists>s. pci_init hw alloc (pci_drivers hba fuel) t w =
    Some (0, s, fold (\<lambda>d w. snd (ahci_start hba fuel d w)) (filter sata_controller ds) w)"
proof -
  obtain s where "pci_enum hw alloc \<lparr>pci_list = [], pci_ports = t\<rparr> = Some s" "pci_list s = ds"
    using pci_enum_slots_cfg [OF assms(1,2), of pci_slots "\<lparr>pci_list = [], pci_ports = t\<rparr>"] assms(3) by (auto simp: pci_enum_def)
  then show ?thesis using assms(4) by (simp add: pci_init_def fold_ahci)
qed

text \<open>A bus with one device, a SATA controller.\<close>

definition one_sata :: "u32 \<Rightarrow> u8" where
  "one_sata a = (if ucast (drop_bit 16 a) = (0 :: u8) \<and> ucast (take_bit 5 (drop_bit 11 a)) = (0 :: u8)
     then (if ucast a = (10 :: u8) then 6 else if ucast a = (11 :: u8) then 1 else 0) else 0xff)"

definition idle_hba :: ahci_hba where
  "idle_hba = \<lparr>hba_reads = (\<lambda>_ _. 0), hba_abar = 0xfebf1000, port_hw = (\<lambda>_. quick_drive),
     port_dev = (\<lambda>_. reader_dev sata_read slow_disk)\<rparr>"

lemma pci_addr_next: "pci_addr bus slot func 0 + 1 = pci_addr bus slot func 1"
proof -
  have m: "(3 :: u32) = mask 2" "(3 :: u8) = mask 2" by (simp_all add: mask_eq_exp_minus_1)
  have "pci_addr bus slot func 1 AND NOT 3 = pci_addr bus slot func 0"
    unfolding m by (rule bit_word_eqI) (auto simp: bit_simps pci_addr_bit bit_1_iff)
  then show ?thesis using pci_addr_low [of bus slot func 1] by simp
qed

lemma concat_map_concat: "concat (map g (concat (map h xs))) = concat (map (\<lambda>x. concat (map g (h x))) xs)"
  by (induction xs) simp_all

lemma one_sata_slots:
  "concat (map (\<lambda>(bus, slot). cfg_devices one_sata bus slot) pci_slots) = cfg_devices one_sata 0 0"
proof -
  have none: "cfg_devices one_sata (of_nat b) (of_nat s) = []" if "b < 256" "s < 32" "b \<noteq> 0 \<or> s \<noteq> 0" for b s :: nat
  proof -
    have u: "unat (of_nat b :: u8) = b" "unat (of_nat s :: u8) = s" using that by (simp_all add: unsigned_of_nat take_bit_nat_eq_self)
    then have "(of_nat b :: u8) \<noteq> 0 \<or> (of_nat s :: u8) \<noteq> 0" using that(3) by (metis unsigned_0)
    then have off: "one_sata (pci_addr (of_nat b) (of_nat s) 0 k) = 0xff" for k
      using pci_addr_roundtrip [of "of_nat s" 0 "of_nat b" k] u(2) that(2) unfolding one_sata_def by (metis unsigned_0 zero_less_numeral)
    show ?thesis unfolding cfg_devices_def cfg_exists_def le16_def pci_addr_next off by code_simp
  qed
  have "concat (map (\<lambda>s. cfg_devices one_sata (of_nat b) (of_nat s)) [0..<32]) = (if b = 0 then cfg_devices one_sata 0 0 else [])" if "b < 256" for b
  proof -
    have "concat (map (\<lambda>s. cfg_devices one_sata (of_nat b) (of_nat s)) [1..<32]) = []" using none [OF that] by (simp add: concat_eq_Nil_conv del: upt_rec_numeral)
    moreover have "[0..<32] = 0 # [1..<32 :: nat]" by (simp add: upt_conv_Cons del: upt_rec_numeral)
    ultimately show ?thesis using none [OF that, of 0] by (cases "b = 0") (simp_all del: concat_eq_Nil_conv)
  qed
  then have r: "map (\<lambda>b. concat (map (\<lambda>s. cfg_devices one_sata (of_nat b) (of_nat s)) [0..<32])) [0..<256] =
      map (\<lambda>b. if b = 0 then cfg_devices one_sata 0 0 else []) [0..<256]"
    by (intro map_cong refl) simp
  have z: "concat (map (\<lambda>b :: nat. if b = 0 then xs else []) [1..<256]) = []" for xs :: "pci_device list"
    by (simp add: concat_eq_Nil_conv del: upt_rec_numeral)
  have "[0..<256] = 0 # [1..<256 :: nat]" by (simp add: upt_conv_Cons del: upt_rec_numeral)
  then have "concat (map (\<lambda>b. concat (map (\<lambda>s. cfg_devices one_sata (of_nat b) (of_nat s)) [0..<32])) [0..<256]) = cfg_devices one_sata 0 0"
    unfolding r using z by (simp del: upt_rec_numeral)
  then show ?thesis by (simp add: pci_slots_def concat_map_concat comp_def del: upt_rec_numeral)
qed

theorem pci_starts_ahci_witness:
  "\<exists>s d. pci_init (bridge one_sata) (\<lambda>_. True) (pci_drivers (\<lambda>_. idle_hba) 3) [] None =
     Some (0, s, snd (ahci_start (\<lambda>_. idle_hba) 3 d None)) \<and> pci_class d = 1 \<and> pci_slot d = 0"
proof -
  obtain d where d: "cfg_devices one_sata 0 0 = [d]" "sata_controller d" "pci_slot d = 0"
  proof
    show "cfg_devices one_sata 0 0 = [cfg_device one_sata 0 0 0]" "sata_controller (cfg_device one_sata 0 0 0)" "pci_slot (cfg_device one_sata 0 0 0) = 0"
      by code_simp+
  qed
  then show ?thesis
    using pci_starts_ahci [OF bridge_host, of "\<lambda>_. True" "[d]" one_sata "\<lambda>_. idle_hba" 3 "[]" None] one_sata_slots
    by (fastforce simp: sata_controller_def)
qed

end
