(* ===== verification/Fb.thy ===== *)
theory Fb
  imports Prelude
begin

text \<open>
  The text console, \<^verbatim>\<open>kernel/video/fb.c\<close>, behind the driver interface of \<^verbatim>\<open>video/video.c\<close>. The memory of
  the frame buffer is a function from byte offsets to bytes; the position fields are 32-bit words, and
  the offsets are computed in them, as in the source. The position
  registers of the hardware cursor are left out; the switches of the cursor are in \<open>Boot\<close>.
\<close>

section \<open>State\<close>

record fb_data =
  width :: u32
  height :: u32
  char_size :: u8
  fb_x :: u32
  fb_y :: u32
  color :: u8
  fb_mem :: "nat \<Rightarrow> u8"

text \<open>\<^verbatim>\<open>fb_color_map\<close>, by the numbers of \<^verbatim>\<open>video_color_t\<close>.\<close>

definition fb_color_map :: "u8 list" where
  "fb_color_map = [0x0, 0xf, 0x1, 0x2, 0x4, 0x6, 0xe, 0x9, 0xa, 0xc]"

definition fb_pos :: "fb_data \<Rightarrow> u32" where
  "fb_pos f = fb_y f * (width f * ucast (char_size f)) + fb_x f * ucast (char_size f)"

definition fb_cursor_pos :: "fb_data \<Rightarrow> u32" where
  "fb_cursor_pos f = fb_y f * width f + fb_x f"

text \<open>A cell of the buffer seen as 16-bit words.\<close>

definition cell :: "(nat \<Rightarrow> u8) \<Rightarrow> nat \<Rightarrow> u8 \<times> u8" where
  "cell m i = (m (2 * i), m (2 * i + 1))"

definition cell_put :: "nat \<Rightarrow> u8 \<times> u8 \<Rightarrow> (nat \<Rightarrow> u8) \<Rightarrow> nat \<Rightarrow> u8" where
  "cell_put i c m = m(2 * i := fst c, 2 * i + 1 := snd c)"

section \<open>Drawing\<close>

text \<open>
  \<^verbatim>\<open>fb_init\<close>: what the boot loader's frame buffer tag gives, its bits per cell and its size;
  \<open>mapped\<close> says whether the pages are mapped.
\<close>

definition fb_init :: "(u8 \<times> u32 \<times> u32) option \<Rightarrow> bool \<Rightarrow> (nat \<Rightarrow> u8) \<Rightarrow> fb_data \<Rightarrow> errcode \<times> fb_data" where
  "fb_init tag mapped m f =
     (case tag of
        None \<Rightarrow> (- EINVAL, f)
      | Some (bpp, w, h) \<Rightarrow>
          if bpp \<noteq> 16 then (- EINVAL, f)
          else (if mapped then 0 else - EFAULT,
            \<lparr>width = w, height = h, char_size = 2, fb_x = 0, fb_y = 0, color = 0, fb_mem = m\<rparr>))"

text \<open>The bound of the loop of \<^verbatim>\<open>fb_clear\<close> is a 32-bit product, kept in a wider variable.\<close>

function clear_loop :: "u32 \<Rightarrow> u32 \<Rightarrow> (nat \<Rightarrow> u8) \<Rightarrow> nat \<Rightarrow> u8" where
  "clear_loop i limit m = (if i < limit then clear_loop (i + 1) limit (cell_put (unat i) (0, 0) m) else m)"
  by pat_completeness auto
termination
  by (relation "measure (\<lambda>(i :: u32, limit, _). unat limit - unat i)") (auto, unat_arith)

definition fb_clear :: "fb_data \<Rightarrow> fb_data" where
  "fb_clear f = f\<lparr>fb_mem := clear_loop 0 (width f * height f) (fb_mem f), fb_x := 0, fb_y := 0\<rparr>"

text \<open>The inner loop of \<^verbatim>\<open>__fb_scroll\<close>: one line is overwritten with the line below it.\<close>

function copy_loop :: "u32 \<Rightarrow> u32 \<Rightarrow> u32 \<Rightarrow> (nat \<Rightarrow> u8) \<Rightarrow> nat \<Rightarrow> u8" where
  "copy_loop w i stop m = (if i < stop then copy_loop w (i + 1) stop (cell_put (unat i) (cell m (unat (i + w))) m) else m)"
  by pat_completeness auto
termination
  by (relation "measure (\<lambda>(_, i :: u32, stop, _). unat stop - unat i)") (auto, unat_arith)

definition zero_bytes :: "nat \<Rightarrow> nat \<Rightarrow> (nat \<Rightarrow> u8) \<Rightarrow> nat \<Rightarrow> u8" where
  "zero_bytes a n m = (\<lambda>j. if a \<le> j \<and> j < a + n then 0 else m j)"

function line_loop :: "fb_data \<Rightarrow> u32 \<Rightarrow> (nat \<Rightarrow> u8) \<Rightarrow> nat \<Rightarrow> u8" where
  "line_loop f line m =
     (if line < height f
      then line_loop f (line + 1)
        (if line = height f - 1
         then zero_bytes (2 * unat (line * width f)) (unat (width f * ucast (char_size f))) m
         else copy_loop (width f) (line * width f) ((line + 1) * width f) m)
      else m)"
  by pat_completeness auto
termination
  by (relation "measure (\<lambda>(f, line, _). unat (height f) - unat line)") (auto, unat_arith)

declare clear_loop.simps [simp del] copy_loop.simps [simp del] line_loop.simps [simp del]

text \<open>The recursion of \<^verbatim>\<open>__fb_scroll\<close> does not end for a height of 0, so it carries fuel.\<close>

fun fb_scroll :: "nat \<Rightarrow> fb_data \<Rightarrow> fb_data option" where
  "fb_scroll 0 f = None"
| "fb_scroll (Suc n) f =
     (if height f > fb_y f then Some f
      else fb_scroll n (f\<lparr>fb_mem := line_loop f 0 (fb_mem f), fb_y := fb_y f - 1\<rparr>))"

text \<open>\<^verbatim>\<open>__fb_cursor_update\<close>: a cell without a character gets the current color, for the cursor.\<close>

definition cursor_mark :: "fb_data \<Rightarrow> fb_data" where
  "cursor_mark f =
     (let pos = unat (fb_cursor_pos f) in
      if fst (cell (fb_mem f) pos) = 0 then f\<lparr>fb_mem := cell_put pos (0, color f) (fb_mem f)\<rparr> else f)"

definition fb_cursor_update :: "nat \<Rightarrow> fb_data \<Rightarrow> fb_data option" where
  "fb_cursor_update n f = map_option cursor_mark (fb_scroll n f)"

definition fb_cursor_get_pos :: "fb_data \<Rightarrow> u32 \<times> u32" where
  "fb_cursor_get_pos f = (fb_x f, fb_x f)"

fun set_pos_loop :: "nat \<Rightarrow> u32 \<Rightarrow> u32 \<Rightarrow> u32 \<Rightarrow> (u32 \<times> u32) option" where
  "set_pos_loop 0 w x y = None"
| "set_pos_loop (Suc n) w x y = (if x > w then set_pos_loop n w (x - w) (y + 1) else Some (x, y))"

definition fb_cursor_set_pos :: "nat \<Rightarrow> u32 \<Rightarrow> u32 \<Rightarrow> fb_data \<Rightarrow> fb_data option" where
  "fb_cursor_set_pos n x y f =
     (case set_pos_loop n (width f) x y of
        None \<Rightarrow> None
      | Some (x', y') \<Rightarrow> fb_cursor_update n (f\<lparr>fb_x := x', fb_y := y'\<rparr>))"

definition fb_write :: "nat \<Rightarrow> u8 \<Rightarrow> fb_data \<Rightarrow> fb_data option" where
  "fb_write n c f =
     (if c = 10 then fb_cursor_update n (f\<lparr>fb_x := 0, fb_y := fb_y f + 1\<rparr>)
      else if c = 13 then fb_cursor_update n (f\<lparr>fb_x := 0\<rparr>)
      else if c = 0 then Some f
      else
        let pos = fb_pos f;
            f1 = f\<lparr>fb_mem := (fb_mem f)(unat pos := c, unat (pos + 1) := color f)\<rparr>;
            f2 = f1\<lparr>fb_x := fb_x f1 + 1\<rparr>;
            f3 = (if fb_x f2 > width f2 - 1 then f2\<lparr>fb_y := fb_y f2 + 1, fb_x := 0\<rparr> else f2)
        in fb_cursor_update n f3)"

section \<open>Colors\<close>

fun color_index :: "u8 \<Rightarrow> nat \<Rightarrow> u8 list \<Rightarrow> nat" where
  "color_index c i [] = 0"
| "color_index c i (d # ds) = (if d = c then i else color_index c (i + 1) ds)"

definition fb_fg_get :: "fb_data \<Rightarrow> nat" where
  "fb_fg_get f = color_index (color f AND 0x0F) 0 fb_color_map"

definition fb_bg_get :: "fb_data \<Rightarrow> nat" where
  "fb_bg_get f = color_index (drop_bit 4 (color f AND 0xF0)) 0 fb_color_map"

text \<open>
  \<^verbatim>\<open>__fb_color(c)\<close> is a conditional expression without parentheses around it. In \<^verbatim>\<open>fb_fg_set\<close> the old
  background and the operator \<^verbatim>\<open>|\<close> in front of it become part of its condition. A color number is
  one of the ten of the map; a number behind them is \<open>None\<close>, or 0 for the numbers above 10.
\<close>

definition fb_color_at :: "nat \<Rightarrow> u8 option" where
  "fb_color_at c = (if c < length fb_color_map then Some (fb_color_map ! c) else None)"

definition fb_fg_set :: "nat \<Rightarrow> fb_data \<Rightarrow> fb_data option" where
  "fb_fg_set c f =
     (if (color f AND 0xF0) OR (if c > length fb_color_map then 1 else 0) \<noteq> 0 then Some (f\<lparr>color := 0\<rparr>)
      else map_option (\<lambda>v. f\<lparr>color := v\<rparr>) (fb_color_at c))"

definition fb_bg_set :: "nat \<Rightarrow> fb_data \<Rightarrow> fb_data option" where
  "fb_bg_set c f =
     (if c > length fb_color_map then Some (f\<lparr>color := color f AND 0x0F\<rparr>)
      else map_option (\<lambda>v. f\<lparr>color := (color f AND 0x0F) OR push_bit 4 v\<rparr>) (fb_color_at c))"

section \<open>The driver switch\<close>

text \<open>
  \<^verbatim>\<open>video.c\<close>: the selected driver is none or the frame buffer, and every operation is passed on to it.
  \<^verbatim>\<open>video_init\<close> lets the mode behind the driver table through and calls the initialisation of the entry of
  \<^verbatim>\<open>VIDEO_MODE_NONE\<close>, a null pointer; both are \<open>None\<close> here.
\<close>

record video =
  video_current :: bool
  video_fb :: fb_data

definition video_fg_set :: "nat \<Rightarrow> video \<Rightarrow> video option" where
  "video_fg_set c v = (if video_current v then map_option (\<lambda>f. v\<lparr>video_fb := f\<rparr>) (fb_fg_set c (video_fb v)) else Some v)"

definition video_bg_set :: "nat \<Rightarrow> video \<Rightarrow> video option" where
  "video_bg_set c v = (if video_current v then map_option (\<lambda>f. v\<lparr>video_fb := f\<rparr>) (fb_bg_set c (video_fb v)) else Some v)"

definition video_write :: "nat \<Rightarrow> u8 \<Rightarrow> video \<Rightarrow> video option" where
  "video_write n c v = (if video_current v then map_option (\<lambda>f. v\<lparr>video_fb := f\<rparr>) (fb_write n c (video_fb v)) else Some v)"

definition video_clear :: "video \<Rightarrow> video" where
  "video_clear v = (if video_current v then v\<lparr>video_fb := fb_clear (video_fb v)\<rparr> else v)"

definition video_fg_get :: "video \<Rightarrow> nat" where
  "video_fg_get v = (if video_current v then fb_fg_get (video_fb v) else 0)"

definition video_bg_get :: "video \<Rightarrow> nat" where
  "video_bg_get v = (if video_current v then fb_bg_get (video_fb v) else 0)"

definition video_mode :: "video \<Rightarrow> nat" where
  "video_mode v = (if video_current v then 1 else 0)"

definition video_cursor_get_pos :: "video \<Rightarrow> errcode \<times> (u32 \<times> u32) option" where
  "video_cursor_get_pos v = (if video_current v then (0, Some (fb_cursor_get_pos (video_fb v))) else (- EFAULT, None))"

definition video_cursor_set_pos :: "nat \<Rightarrow> u32 \<Rightarrow> u32 \<Rightarrow> video \<Rightarrow> (errcode \<times> video) option" where
  "video_cursor_set_pos n x y v =
     (if video_current v then map_option (\<lambda>f. (0, v\<lparr>video_fb := f\<rparr>)) (fb_cursor_set_pos n x y (video_fb v))
      else Some (- EFAULT, v))"

definition video_init :: "(u8 \<times> u32 \<times> u32) option \<Rightarrow> bool \<Rightarrow> (nat \<Rightarrow> u8) \<Rightarrow> nat \<Rightarrow> video \<Rightarrow> (errcode \<times> video) option" where
  "video_init tag mapped m mode v =
     (if mode > 2 then Some (- EINVAL, v)
      else if mode \<noteq> 1 then None
      else case fb_init tag mapped m (video_fb v) of (err, f) \<Rightarrow>
        if err \<noteq> 0 then Some (err, v\<lparr>video_fb := f\<rparr>)
        else map_option (Pair 0) (Option.bind (video_bg_set 0 (v\<lparr>video_current := True, video_fb := f\<rparr>)) (video_fg_set 1)))"

section \<open>Scrolling\<close>

text \<open>
  A screen whose cells can be counted in 32 bits, byte offsets included, with the cursor on it or
  just below it.
\<close>

definition fb_fits :: "fb_data \<Rightarrow> bool" where
  "fb_fits f \<longleftrightarrow> char_size f = 2 \<and> 0 < unat (width f) \<and> 0 < unat (height f) \<and>
     2 * (unat (width f) * unat (height f)) < 2 ^ 32 \<and> unat (fb_x f) < unat (width f)"

definition fb_inv :: "fb_data \<Rightarrow> bool" where
  "fb_inv f \<longleftrightarrow> fb_fits f \<and> unat (fb_y f) < unat (height f)"

lemma unat_mult32: "unat x * unat y < 2 ^ 32 \<Longrightarrow> unat (x * y :: u32) = unat x * unat y"
  by (simp add: unat_word_ariths)

lemma unat_plus32: "unat x + unat y < 2 ^ 32 \<Longrightarrow> unat (x + y :: u32) = unat x + unat y"
  by (simp add: unat_word_ariths)

lemma unat_Suc32: "(i :: u32) < n \<Longrightarrow> unat (i + 1) = unat i + 1"
  by unat_arith

lemma fb_fits_row: "fb_fits f \<Longrightarrow> unat (width f * ucast (char_size f)) = 2 * unat (width f)"
proof -
  assume f: "fb_fits f"
  have le: "unat (width f) \<le> unat (width f) * unat (height f)" using f by (simp add: fb_fits_def)
  have "2 * (unat (width f) * unat (height f)) < 2 ^ 32" using f unfolding fb_fits_def by blast
  then have "2 * unat (width f) < 2 ^ 32" using le by linarith
  then have "unat (width f) * unat (2 :: u32) < 2 ^ 32" by simp
  then show ?thesis using f unat_mult32 [of "width f" 2] by (simp add: fb_fits_def)
qed

lemma cell_cell_put [simp]: "cell (cell_put i c m) j = (if j = i then c else cell m j)"
proof -
  have "2 * j + 1 \<noteq> 2 * i" "2 * j \<noteq> 2 * i + 1" by presburger+
  then show ?thesis by (auto simp: cell_def cell_put_def)
qed

lemma mem_eq_cells: "(\<And>j. cell m j = cell m' j) \<Longrightarrow> m = m'"
proof
  fix k assume c: "\<And>j. cell m j = cell m' j"
  show "m k = m' k" using c [of "k div 2"] by (cases "even k") (auto simp: cell_def elim!: evenE oddE)
qed

lemma copy_loop_cells:
  assumes "unat stop + unat w < 2 ^ 32" and that: "0 < unat w"
  shows "unat i \<le> unat stop \<Longrightarrow> cell (copy_loop w i stop m) j =
    (if unat i \<le> j \<and> j < unat stop then cell m (j + unat w) else cell m j)"
proof (induction "unat stop - unat i" arbitrary: i m)
  case 0
  then show ?case by (subst copy_loop.simps) (auto simp: word_less_nat_alt)
next
  case (Suc k)
  then have "i < stop" by (simp add: word_less_nat_alt)
  then have i: "i < stop" "unat (i + 1) = unat i + 1" by (simp_all only: unat_Suc32)
  have w: "unat (i + w) = unat i + unat w" using i assms by (intro unat_plus32) (auto simp: word_less_nat_alt)
  have "cell (copy_loop w i stop m) j = cell (copy_loop w (i + 1) stop (cell_put (unat i) (cell m (unat i + unat w)) m)) j"
    using i w by (subst copy_loop.simps) simp
  also have "\<dots> = (if unat (i + 1) \<le> j \<and> j < unat stop then cell (cell_put (unat i) (cell m (unat i + unat w)) m) (j + unat w)
      else cell (cell_put (unat i) (cell m (unat i + unat w)) m) j)"
    using Suc i by (intro Suc.hyps(1)) (auto simp: word_less_nat_alt)
  finally show ?case using i that by (auto simp: word_less_nat_alt)
qed

lemma zero_bytes_cell: "cell (zero_bytes (2 * a) (2 * n) m) j = (if a \<le> j \<and> j < a + n then (0, 0) else cell m j)"
  by (auto simp: cell_def zero_bytes_def)

text \<open>One line moved, then the lines behind it: \<open>a\<close> and \<open>b\<close> are the ends of the line, \<open>c\<close> and \<open>d\<close> those of the last.\<close>

lemma shift_cases:
  fixes a b c d w :: nat
  assumes "b = a + w" and "d = c + w" and "e \<Longrightarrow> a = c" and "\<not> e \<Longrightarrow> b \<le> c"
    and "\<And>j. M1 j = (if a \<le> j \<and> j < b then (if e then z else M (j + w)) else M j)"
  shows "(if b \<le> j \<and> j < d then (if j < c then M1 (j + w) else z) else M1 j) =
    (if a \<le> j \<and> j < d then (if j < c then M (j + w) else z) else M j)"
  using assms(1-4) unfolding assms(5) by (cases e) auto

text \<open>The line loop moves every line up by one and empties the last one.\<close>

lemma line_loop_cells:
  assumes fits: "fb_fits f" and W: "W = unat (width f)" and H: "H = unat (height f)"
  shows "unat line \<le> H \<Longrightarrow> cell (line_loop f line m) j =
    (if unat line * W \<le> j \<and> j < H * W then (if j < (H - 1) * W then cell m (j + W) else (0, 0)) else cell m j)"
proof (induction "H - unat line" arbitrary: line m)
  case 0
  then show ?case using H by (subst line_loop.simps) (auto simp: word_less_nat_alt)
next
  case (Suc k)
  have WH: "0 < W" "0 < H" "2 * (W * H) < 2 ^ 32" using fits W H by (auto simp: fb_fits_def)
  have "line < height f" using Suc H by (simp add: word_less_nat_alt)
  then have l: "line < height f" "unat (line + 1) = unat line + 1" by (simp_all only: unat_Suc32)
  let ?l = "unat line"
  have lH: "?l < H" using l(1) H by (simp add: word_less_nat_alt)
  have le: "?l * W \<le> (H - 1) * W" "(?l + 1) * W \<le> H * W" using lH by (auto intro!: mult_le_mono1 simp del: add_mult_distrib mult_Suc)
  have lw: "unat (line * width f) = ?l * W" "unat ((line + 1) * width f) = (?l + 1) * W"
    using WH le l(2) W by (simp_all add: unat_mult32 mult.commute)
  have one: "unat (height f - 1) = H - 1" using WH(2) H by (simp add: unat_sub word_le_nat_alt)
  define m1 where "m1 = (if line = height f - 1
      then zero_bytes (2 * unat (line * width f)) (unat (width f * ucast (char_size f))) m
      else copy_loop (width f) (line * width f) ((line + 1) * width f) m)"
  have m1: "cell m1 j = (if ?l * W \<le> j \<and> j < (?l + 1) * W then (if ?l = H - 1 then (0, 0) else cell m (j + W)) else cell m j)" for j
  proof (cases "line = height f - 1")
    case True
    then have "?l = H - 1" using one by simp
    moreover have "unat (width f * ucast (char_size f)) = 2 * W" using fb_fits_row [OF fits] W by simp
    ultimately show ?thesis using True lw zero_bytes_cell [of "?l * W" W m j] by (simp add: m1_def add_mult_distrib)
  next
    case False
    then have "?l \<noteq> H - 1" using one by (metis word_unat_eq_iff)
    then have "?l + 1 < H" using lH by simp
    then have "(?l + 1) * W + W \<le> H * W" by (metis Suc_leI Suc_eq_plus1 add_mult_distrib mult_1 mult_le_mono1)
    then have "unat ((line + 1) * width f) + unat (width f) < 2 ^ 32" using lw W WH(3) by (simp add: mult.commute)
    then show ?thesis using copy_loop_cells [of "(line + 1) * width f" "width f" "line * width f" m j] lw W WH(1) False \<open>?l \<noteq> H - 1\<close>
      by (simp add: m1_def)
  qed
  have "cell (line_loop f line m) j = cell (line_loop f (line + 1) m1) j"
    using l(1) by (subst line_loop.simps) (simp add: m1_def)
  also have "\<dots> = (if unat (line + 1) * W \<le> j \<and> j < H * W then (if j < (H - 1) * W then cell m1 (j + W) else (0, 0)) else cell m1 j)"
    using Suc l lH by (intro Suc.hyps(1)) auto
  also have "\<dots> = (if ?l * W \<le> j \<and> j < H * W then (if j < (H - 1) * W then cell m (j + W) else (0, 0)) else cell m j)"
    unfolding l(2)
  proof (rule shift_cases [where e = "?l = H - 1"])
    show "(?l + 1) * W = ?l * W + W" by simp
    show "H * W = (H - 1) * W + W" using WH(2) by (cases H) auto
    show "(?l + 1) * W \<le> (H - 1) * W" if "?l \<noteq> H - 1" using that lH by (intro mult_le_mono1) auto
  qed (use m1 in auto)
  finally show ?case .
qed

text \<open>A cursor one line below the screen: everything moves up by one line.\<close>

lemma scroll_one:
  assumes "fb_fits f" and "fb_y f = height f"
  shows "fb_scroll (Suc (Suc n)) f = Some (f\<lparr>fb_mem := line_loop f 0 (fb_mem f), fb_y := height f - 1\<rparr>)"
proof -
  have "height f - 1 < height f" using assms(1) by (simp add: fb_fits_def word_less_nat_alt unat_sub word_le_nat_alt)
  then show ?thesis using assms by simp
qed

lemma cursor_mark_keeps [simp]:
  "width (cursor_mark f) = width f" "height (cursor_mark f) = height f" "char_size (cursor_mark f) = char_size f"
  "fb_x (cursor_mark f) = fb_x f" "fb_y (cursor_mark f) = fb_y f" "color (cursor_mark f) = color f"
  by (simp_all add: cursor_mark_def Let_def)

lemma cursor_update_inv:
  assumes "fb_fits f" and "unat (fb_y f) \<le> unat (height f)" and "1 < n"
  shows "\<exists>f'. fb_cursor_update n f = Some f' \<and> fb_inv f' \<and> width f' = width f \<and> height f' = height f"
proof -
  obtain k where k: "n = Suc (Suc k)" using assms(3) by (cases n; cases "n - 1") auto
  show ?thesis
  proof (cases "fb_y f = height f")
    case True
    have "unat (height f - 1) < unat (height f)" using assms(1) by (simp add: fb_fits_def unat_sub word_le_nat_alt)
    then show ?thesis using k assms(1) scroll_one [OF assms(1) True] by (simp add: fb_cursor_update_def fb_inv_def fb_fits_def)
  next
    case False
    then have "fb_y f < height f" using assms(2) by (metis le_neq_implies_less word_less_nat_alt word_unat_eq_iff)
    then show ?thesis using k assms(1) by (simp add: fb_cursor_update_def fb_inv_def fb_fits_def word_less_nat_alt)
  qed
qed

lemma fb_pos_bounds:
  assumes "fb_inv f"
  shows "unat (fb_pos f) = 2 * (unat (fb_y f) * unat (width f) + unat (fb_x f))"
    "unat (fb_pos f + 1) = unat (fb_pos f) + 1"
    "unat (fb_pos f) + 1 < 2 * (unat (width f) * unat (height f))"
proof -
  let ?x = "unat (fb_x f)" and ?y = "unat (fb_y f)" and ?w = "unat (width f)" and ?h = "unat (height f)"
  have f: "fb_fits f" "?y < ?h" "?x < ?w" "2 * (?w * ?h) < 2 ^ 32" "char_size f = 2"
    using assms by (auto simp: fb_inv_def fb_fits_def)
  have "(?y + 1) * ?w \<le> ?h * ?w" using f(2) by (intro mult_le_mono1) simp
  then have b: "?y * ?w + ?w \<le> ?w * ?h" by (simp add: mult.commute)
  have r: "unat (width f * ucast (char_size f)) = 2 * ?w" by (rule fb_fits_row [OF f(1)])
  have yw: "?y * (2 * ?w) = 2 * (?y * ?w)" by simp
  have "?y * (2 * ?w) < 2 ^ 32" using b f(4) unfolding yw by linarith
  then have p1: "unat (fb_y f * (width f * ucast (char_size f))) = ?y * (2 * ?w)" using r by (subst unat_mult32) simp_all
  have "?x * 2 < 2 ^ 32" using b f(3,4) by linarith
  then have p2: "unat (fb_x f * ucast (char_size f)) = ?x * 2" using f(5) unat_mult32 [of "fb_x f" 2] by simp
  have s: "?y * (2 * ?w) + ?x * 2 + 1 < 2 * (?w * ?h)" using b f(3) unfolding yw by linarith
  then have "?y * (2 * ?w) + ?x * 2 < 2 ^ 32" using f(4) by linarith
  then have p: "unat (fb_pos f) = ?y * (2 * ?w) + ?x * 2" unfolding fb_pos_def using p1 p2 by (subst unat_plus32) simp_all
  then show "unat (fb_pos f) = 2 * (?y * ?w + ?x)" by simp
  show "unat (fb_pos f) + 1 < 2 * (?w * ?h)" using p s by simp
  then have "unat (fb_pos f) + 1 < 2 ^ 32" using f(4) by linarith
  then show "unat (fb_pos f + 1) = unat (fb_pos f) + 1" by (subst unat_plus32) simp_all
qed

text \<open>Cells behind the screen are not written.\<close>

definition fb_frame :: "fb_data \<Rightarrow> fb_data \<Rightarrow> bool" where
  "fb_frame f f' \<longleftrightarrow> width f' = width f \<and> height f' = height f \<and>
     (\<forall>j \<ge> unat (width f) * unat (height f). cell (fb_mem f') j = cell (fb_mem f) j)"

lemma fb_frame_trans: "fb_frame f g \<Longrightarrow> fb_frame g h \<Longrightarrow> fb_frame f h"
  by (simp add: fb_frame_def)

lemma double_less: "2 * a + 1 < 2 * b \<Longrightarrow> a < (b :: nat)"
  by arith

lemma cursor_pos_bounds:
  assumes "fb_inv f"
  shows "unat (fb_cursor_pos f) = unat (fb_y f) * unat (width f) + unat (fb_x f)"
    "unat (fb_cursor_pos f) < unat (width f) * unat (height f)"
proof -
  let ?x = "unat (fb_x f)" and ?y = "unat (fb_y f)" and ?w = "unat (width f)" and ?h = "unat (height f)"
  have "2 * (?y * ?w + ?x) + 1 < 2 * (?w * ?h)" using fb_pos_bounds(1,3) [OF assms] by simp
  then have b1: "?y * ?w + ?x < ?w * ?h" by (rule double_less)
  have "2 * (?w * ?h) < 2 ^ 32" using assms unfolding fb_inv_def fb_fits_def by blast
  then have b: "?y * ?w + ?x < ?w * ?h" "?y * ?w + ?x < 2 ^ 32" "?y * ?w < 2 ^ 32" using b1 by linarith+
  have "unat (fb_y f * width f) = ?y * ?w" using b(3) by (rule unat_mult32)
  then show "unat (fb_cursor_pos f) = ?y * ?w + ?x" unfolding fb_cursor_pos_def using b by (subst unat_plus32) auto
  then show "unat (fb_cursor_pos f) < ?w * ?h" using b(1) by linarith
qed

lemma cursor_mark_frame: "fb_inv f \<Longrightarrow> fb_frame f (cursor_mark f)"
  using cursor_pos_bounds(2) [of f] by (auto simp: fb_frame_def cursor_mark_def Let_def)

lemma scroll_frame:
  assumes "fb_fits f" and "unat (fb_y f) \<le> unat (height f)" and "fb_scroll n f = Some f'" and "1 < n"
  shows "fb_inv f' \<and> fb_frame f f'"
proof (cases "fb_y f = height f")
  case True
  obtain k where k: "n = Suc (Suc k)" using assms(4) by (cases n; cases "n - 1") auto
  have f': "f' = f\<lparr>fb_mem := line_loop f 0 (fb_mem f), fb_y := height f - 1\<rparr>"
    using scroll_one [OF assms(1) True, of k] assms(3) k by simp
  moreover have "unat (height f - 1) < unat (height f)" using assms(1) by (simp add: fb_fits_def unat_sub word_le_nat_alt)
  ultimately show ?thesis using assms(1) line_loop_cells [OF assms(1) refl refl, of 0 "fb_mem f"]
    by (simp add: fb_inv_def fb_fits_def fb_frame_def mult.commute)
next
  case False
  then have "fb_y f < height f" using assms(2) by (metis le_neq_implies_less word_less_nat_alt word_unat_eq_iff)
  then show ?thesis using assms by (cases n) (auto simp: fb_inv_def fb_frame_def word_less_nat_alt)
qed

lemma cursor_update_frame:
  assumes "fb_fits f" and "unat (fb_y f) \<le> unat (height f)" and "fb_cursor_update n f = Some f'" and "1 < n"
  shows "fb_frame f f'"
proof -
  obtain g where g: "fb_scroll n f = Some g" "f' = cursor_mark g" using assms(3) by (auto simp: fb_cursor_update_def)
  have "fb_inv g \<and> fb_frame f g" using assms(1,2) g(1) assms(4) by (rule scroll_frame)
  then show ?thesis using g(2) cursor_mark_frame fb_frame_trans by blast
qed

lemma fb_write_inv [kernel_inv]:
  assumes "fb_inv f" and "1 < n"
  shows "\<exists>f'. fb_write n c f = Some f' \<and> fb_inv f' \<and> fb_frame f f'"
proof -
  have f: "fb_fits f" "unat (fb_y f) < unat (height f)" "unat (fb_x f) < unat (width f)"
    using assms(1) by (auto simp: fb_inv_def fb_fits_def)
  have y: "unat (fb_y f + 1) = unat (fb_y f) + 1" "unat (fb_x f + 1) = unat (fb_x f) + 1"
    using unat_Suc32 [of "fb_y f" "height f"] unat_Suc32 [of "fb_x f" "width f"] f by (simp_all add: word_less_nat_alt)
  have w: "unat (width f - 1) = unat (width f) - 1" using f(3) by (simp add: unat_sub word_le_nat_alt)
  define m where "m = (fb_mem f)(unat (fb_pos f) := c, unat (fb_pos f + 1) := color f)"
  define g where "g = (if fb_x f + 1 > width f - 1 then f\<lparr>fb_mem := m, fb_y := fb_y f + 1, fb_x := 0\<rparr> else f\<lparr>fb_mem := m, fb_x := fb_x f + 1\<rparr>)"
  have nl: "fb_fits (f\<lparr>fb_x := 0, fb_y := fb_y f + 1\<rparr>)" "fb_fits (f\<lparr>fb_x := 0\<rparr>)" using f by (auto simp: fb_fits_def)
  have g: "fb_fits g" "unat (fb_y g) \<le> unat (height g)" "width g = width f" "height g = height f"
    using f y w by (auto simp: g_def fb_fits_def word_less_nat_alt)
  have "cell m j = cell (fb_mem f) j" if "unat (width f) * unat (height f) \<le> j" for j
    using that fb_pos_bounds(2,3) [OF assms(1)] by (auto simp: m_def cell_def)
  then have fr: "fb_frame f g" by (simp add: fb_frame_def g_def)
  have up: "\<exists>f'. fb_cursor_update n h = Some f' \<and> fb_inv f' \<and> fb_frame f f'"
    if "fb_fits h" "unat (fb_y h) \<le> unat (height h)" "fb_frame f h" for h
    using cursor_update_inv [OF that(1,2) assms(2)] cursor_update_frame [OF that(1,2) _ assms(2)] fb_frame_trans [OF that(3)] by blast
  have "fb_write n c f = (if c = 10 then fb_cursor_update n (f\<lparr>fb_x := 0, fb_y := fb_y f + 1\<rparr>)
      else if c = 13 then fb_cursor_update n (f\<lparr>fb_x := 0\<rparr>) else if c = 0 then Some f else fb_cursor_update n g)"
    by (simp add: fb_write_def g_def m_def Let_def)
  then show ?thesis
    using up [OF nl(1)] up [OF nl(2)] up [OF g(1,2) fr] f y assms(1) by (auto simp: fb_frame_def)
qed

text \<open>Writing a string, one character after the other, as \<^verbatim>\<open>__print\<close> does through \<^verbatim>\<open>video_write\<close>.\<close>

fun fb_puts :: "u8 list \<Rightarrow> fb_data \<Rightarrow> fb_data option" where
  "fb_puts [] f = Some f"
| "fb_puts (c # cs) f = Option.bind (fb_write 2 c f) (fb_puts cs)"

lemma fb_puts_inv: "fb_inv f \<Longrightarrow> \<exists>f'. fb_puts cs f = Some f' \<and> fb_inv f' \<and> fb_frame f f'"
proof (induction cs arbitrary: f)
  case Nil
  then show ?case by (simp add: fb_frame_def)
next
  case (Cons c cs)
  obtain g where "fb_write 2 c f = Some g" "fb_inv g" "fb_frame f g" using fb_write_inv [OF Cons.prems, of 2 c] by auto
  moreover obtain h where "fb_puts cs g = Some h" "fb_inv h" "fb_frame g h" using Cons.IH [OF \<open>fb_inv g\<close>] by blast
  ultimately show ?case using fb_frame_trans by auto
qed

text \<open>Setting the foreground erases both colors unless the background is black.\<close>

lemma fb_fg_set_on_background:
  "color f AND 0xF0 \<noteq> 0 \<Longrightarrow> fb_fg_set c f = Some (f\<lparr>color := 0\<rparr>)"
  "color f AND 0xF0 = 0 \<Longrightarrow> c < 10 \<Longrightarrow> fb_fg_set c f = Some (f\<lparr>color := fb_color_map ! c\<rparr>)"
  by (simp_all add: fb_fg_set_def fb_color_at_def fb_color_map_def or_eq_0_iff)

lemma video_init_inv:
  assumes "0 < unat w" and "0 < unat h" and "2 * (unat w * unat h) < 2 ^ 32"
  shows "\<exists>v'. video_init (Some (16, w, h)) True m 1 v = Some (0, v') \<and> video_mode v' = 1 \<and> fb_inv (video_fb v') \<and>
    video_fg_get v' = 1 \<and> video_bg_get v' = 0"
  using assms by (simp add: video_init_def fb_init_def video_bg_set_def video_fg_set_def fb_bg_set_def fb_fg_set_def fb_color_at_def
      fb_color_map_def video_mode_def fb_inv_def fb_fits_def video_fg_get_def video_bg_get_def fb_fg_get_def fb_bg_get_def)

definition small_screen :: fb_data where
  "small_screen = \<lparr>width = 2, height = 2, char_size = 2, fb_x = 0, fb_y = 1, color = 7, fb_mem = (\<lambda>j. of_nat (j + 1))\<rparr>"

lemma small_screen_inv: "fb_inv small_screen"
  by (simp add: fb_inv_def fb_fits_def small_screen_def)

section \<open>Properties\<close>

text \<open>
  C28. Printing any text keeps the console sane: every character is drawn without running out of
  steps, the cursor stays on the screen, and no memory outside the cells of the screen is written.
\<close>

theorem fb_puts_stays_on_screen:
  assumes "fb_inv f"
  shows "\<exists>f'. fb_puts cs f = Some f' \<and> unat (fb_x f') < unat (width f') \<and> unat (fb_y f') < unat (height f') \<and> fb_frame f f'"
  using fb_puts_inv [OF assms, of cs] by (auto simp: fb_inv_def fb_fits_def)

theorem fb_puts_stays_on_screen_witness:
  "\<exists>f'. fb_puts [97, 10, 98, 99, 100] small_screen = Some f' \<and> unat (fb_x f') < unat (width f') \<and>
     unat (fb_y f') < unat (height f') \<and> fb_frame small_screen f'"
  using fb_puts_stays_on_screen [OF small_screen_inv] .

text \<open>
  A line feed in the last line scrolls the screen: every line takes the content of the line below
  it, the last line is cleared, and the cursor stands at its start.
\<close>

theorem fb_newline_scrolls:
  assumes "fb_inv f" and "fb_y f = height f - 1" and "W = unat (width f)" and "H = unat (height f)"
  shows "\<exists>f'. fb_write 2 10 f = Some f' \<and> fb_x f' = 0 \<and> fb_y f' = height f - 1 \<and>
    (\<forall>j < (H - 1) * W. cell (fb_mem f') j = cell (fb_mem f) (j + W)) \<and>
    (\<forall>j. (H - 1) * W \<le> j \<and> j < H * W \<longrightarrow> fst (cell (fb_mem f') j) = 0)"
proof -
  let ?g = "f\<lparr>fb_x := 0, fb_y := fb_y f + 1\<rparr>"
  have g: "fb_fits ?g" "fb_y ?g = height ?g" using assms(1,2) by (auto simp: fb_inv_def fb_fits_def)
  define h where "h = ?g\<lparr>fb_mem := line_loop ?g 0 (fb_mem f), fb_y := height f - 1\<rparr>"
  have s: "fb_scroll 2 ?g = Some h" using scroll_one [OF g, of 0] by (simp add: h_def numeral_2_eq_2)
  have c: "cell (fb_mem h) j = (if j < H * W then (if j < (H - 1) * W then cell (fb_mem f) (j + W) else (0, 0)) else cell (fb_mem f) j)" for j
    using line_loop_cells [OF g(1), of W H 0 "fb_mem f" j] assms(3,4) by (simp add: h_def)
  have inv: "fb_inv h" using scroll_frame [OF g(1) _ s] g(2) by simp
  have "unat (height f - 1) = H - 1" using assms(1,4) by (simp add: fb_inv_def fb_fits_def unat_sub word_le_nat_alt)
  then have p: "unat (fb_cursor_pos h) = (H - 1) * W" using cursor_pos_bounds(1) [OF inv] assms(3) by (simp add: h_def)
  have "fb_write 2 10 f = Some (cursor_mark h)" using s by (simp add: fb_write_def fb_cursor_update_def)
  moreover have "cell (fb_mem (cursor_mark h)) j = (if j = (H - 1) * W \<and> fst (cell (fb_mem h) j) = 0 then (0, color h) else cell (fb_mem h) j)" for j
    using p by (auto simp: cursor_mark_def Let_def)
  moreover have "j < H * W" if "j < (H - 1) * W" for j
    using that mult_le_mono1 [OF diff_le_self, of H 1 W] by (rule less_le_trans)
  ultimately show ?thesis using c by (intro exI [of _ "cursor_mark h"]) (simp add: h_def)
qed

theorem fb_newline_scrolls_witness:
  "\<exists>f'. fb_write 2 10 small_screen = Some f' \<and> fb_y f' = 1 \<and> cell (fb_mem f') 0 = (5, 6) \<and> cell (fb_mem f') 1 = (7, 8) \<and>
     fst (cell (fb_mem f') 2) = 0"
proof -
  have s: "fb_y small_screen = height small_screen - 1" "2 = unat (width small_screen)" "2 = unat (height small_screen)"
    "height small_screen - 1 = 1"
    by (simp_all add: small_screen_def)
  have e: "(2 - 1) * 2 = (2 :: nat)" "2 * 2 = (4 :: nat)" by simp_all
  obtain f' where f': "fb_write 2 10 small_screen = Some f'" "fb_y f' = 1"
    "\<forall>j < 2. cell (fb_mem f') j = cell (fb_mem small_screen) (j + 2)" "\<forall>j. 2 \<le> j \<and> j < 4 \<longrightarrow> fst (cell (fb_mem f') j) = 0"
    using fb_newline_scrolls [OF small_screen_inv s(1-3)] unfolding s(4) e by blast
  have "cell (fb_mem f') 0 = cell (fb_mem small_screen) 2" "cell (fb_mem f') 1 = cell (fb_mem small_screen) 3"
    using f'(3) [rule_format, of 0] f'(3) [rule_format, of 1] by (simp_all add: eval_nat_numeral)
  then show ?thesis using f'(1,2) f'(4) [rule_format, of 2] by (simp add: cell_def small_screen_def)
qed

end
