(* ===== verification/Printk.thy ===== *)
theory Printk
  imports Str_Util Fb
begin

text \<open>
  Formatted output, \<^verbatim>\<open>kernel/util/printk.c\<close>. Everything a call prints goes to the screen and to the first serial
  port; it is a list of events. \<open>None\<close> is an access outside of a buffer or string, an argument that is
  missing or of the wrong kind, or a padding that wraps around.
\<close>

datatype out_event = Screen u8 | Wire "u8 list" | Fg nat | Bg nat

type_synonym console = "out_event list"

text \<open>An argument slot holds an integer of 64 bits or a pointer.\<close>

datatype va = VInt u64 | VPtr "buf option"

section \<open>Operations\<close>

definition print :: "buf option \<Rightarrow> console \<Rightarrow> (nat \<times> console) option" where
  "print msg out =
     (case msg of None \<Rightarrow> Some (0, out)
      | Some s \<Rightarrow> map_option (\<lambda>i. (i, out @ map Screen (take i s) @ [Wire (take i s)])) (strlen_loop s))"

definition print_char :: "u8 \<Rightarrow> console \<Rightarrow> (nat \<times> console) option" where
  "print_char c = print (Some [c, 0])"

fun print_pad :: "nat \<Rightarrow> console \<Rightarrow> (nat \<times> console) option" where
  "print_pad 0 out = Some (0, out)"
| "print_pad (Suc n) out = Option.bind (print_pad n out) (\<lambda>(k, out1). map_option (\<lambda>(_, out2). (Suc k, out2)) (print_char 48 out1))"

text \<open>Two calls whose sizes are added.\<close>

definition seq :: "(console \<Rightarrow> (nat \<times> console) option) \<Rightarrow> (console \<Rightarrow> (nat \<times> console) option) \<Rightarrow> console \<Rightarrow> (nat \<times> console) option" where
  "seq a b out = Option.bind (a out) (\<lambda>(n, out1). map_option (\<lambda>(m, out2). (n + m, out2)) (b out1))"

definition print_num :: "(nat \<times> buf option) option \<Rightarrow> console \<Rightarrow> (nat \<times> console) option" where
  "print_num r out = Option.bind r (\<lambda>(_, str). print str out)"

definition print_padded :: "nat \<Rightarrow> (nat \<times> buf option) option \<Rightarrow> console \<Rightarrow> (nat \<times> console) option" where
  "print_padded w r out =
     Option.bind r (\<lambda>(n, str). if n > w then None else seq (print_pad (w - n)) (print str) out)"

definition guid_section :: "buf \<Rightarrow> nat list \<Rightarrow> u64" where
  "guid_section guid gs = (\<Sum>(i, g) \<leftarrow> zip [0..<length gs] gs. pow 256 (of_nat i) * ucast (guid ! g))"

definition print_guid :: "buf \<Rightarrow> console \<Rightarrow> (nat \<times> console) option" where
  "print_guid guid =
     (let sec = (\<lambda>w gs. print_padded w (itoh (guid_section guid gs) (Some (replicate 14 0)))) in
      if length guid < 16 then (\<lambda>_. None)
      else seq (sec 8 [0, 1, 2, 3]) (seq (print_char 45) (seq (sec 4 [4, 5]) (seq (print_char 45) (seq (sec 4 [6, 7])
        (seq (print_char 45) (seq (sec 4 [9, 8]) (seq (print_char 45) (sec 12 [15, 14, 13, 12, 11, 10])))))))))"

text \<open>One conversion: \<open>f\<close> is the character behind the percent sign. An unknown one prints nothing and takes no argument.\<close>

definition conv :: "u8 \<Rightarrow> va list \<Rightarrow> console \<Rightarrow> (nat \<times> va list \<times> console) option" where
  "conv f args out =
     (let done = (\<lambda>r. map_option (\<lambda>(n, out1). (n, tl args, out1)) r) in
      if f \<in> {100, 99, 108, 117, 120, 112} then
        (case args of
           VInt v # _ \<Rightarrow> done (
             if f = 100 then let d = scast (ucast v :: u32) :: i64 in print_num (itod d (Some (replicate (gd (sint d) + 1) 0))) out
             else if f = 99 then print (Some [ucast v, 0]) out
             else if f = 108 then print_num (itod v (Some (replicate (gd (sint v) + 1) 0))) out
             else if f = 117 then print_num (itou v (Some (replicate (gd (sint v) + 1) 0))) out
             else if f = 120 then print_num (itoh v (Some (replicate (gdu v + 1) 0))) out
             else print_padded 16 (itoh v (Some (replicate (gdu v + 1) 0))) out)
         | _ \<Rightarrow> None)
      else if f = 115 then (case args of VPtr s # _ \<Rightarrow> done (print s out) | _ \<Rightarrow> None)
      else if f = 103 then (case args of VPtr (Some g) # _ \<Rightarrow> done (print_guid g out) | _ \<Rightarrow> None)
      else Some (0, args, out))"

fun vprintf_loop :: "bool \<Rightarrow> buf \<Rightarrow> va list \<Rightarrow> nat \<Rightarrow> console \<Rightarrow> (nat \<times> console) option" where
  "vprintf_loop formatted [] args sz out = None"
| "vprintf_loop formatted (f # fmt) args sz out =
     (if f = 0 then Some (sz, out)
      else if \<not> formatted \<and> f = 37 then vprintf_loop True fmt args sz out
      else if \<not> formatted then Option.bind (print_char f out) (\<lambda>(_, out1). vprintf_loop False fmt args (sz + 1) out1)
      else Option.bind (conv f args out) (\<lambda>(n, args1, out1). vprintf_loop False fmt args1 (sz + n) out1))"

definition vprintf :: "buf \<Rightarrow> va list \<Rightarrow> console \<Rightarrow> (nat \<times> console) option" where
  "vprintf fmt args out = vprintf_loop False fmt args 0 out"

definition printf :: "buf \<Rightarrow> va list \<Rightarrow> console \<Rightarrow> (nat \<times> console) option" where
  "printf fmt args out = vprintf fmt args out"

datatype printk_level = KERN_INFO | KERN_WARN | KERN_FAIL | KERN_DEBG

fun level_head :: "printk_level \<Rightarrow> nat \<times> u8 list" where
  "level_head KERN_INFO = (7, [73, 78, 70, 79])"
| "level_head KERN_WARN = (6, [87, 65, 82, 78])"
| "level_head KERN_FAIL = (9, [70, 65, 73, 76])"
| "level_head KERN_DEBG = (5, [68, 69, 66, 71])"

definition printk :: "bool \<Rightarrow> printk_level \<Rightarrow> buf \<Rightarrow> va list \<Rightarrow> console \<Rightarrow> (nat \<times> console) option" where
  "printk CONFIG_DEBUG level fmt args out =
     (if level = KERN_DEBG \<and> \<not> CONFIG_DEBUG then Some (0, out)
      else let (fg, head) = level_head level in
        seq (\<lambda>o1. print (Some (head @ [0])) (o1 @ [Bg 0, Fg fg]))
          (seq (\<lambda>o2. print_char 32 (o2 @ [Bg 0, Fg 1])) (vprintf fmt args)) out)"

fun dump_loop :: "buf \<Rightarrow> nat \<Rightarrow> nat \<Rightarrow> nat \<Rightarrow> console \<Rightarrow> (nat \<times> console) option" where
  "dump_loop buffer i 0 res out = Some (res, out)"
| "dump_loop buffer i (Suc n) res out =
     Option.bind (if i mod 10 = 0 then
        Option.bind (if i \<noteq> 0 then map_option (\<lambda>(_, o1). (res + 1, o1)) (print_char 10 out) else Some (res, out))
          (\<lambda>(res1, o1). map_option (\<lambda>(k, o2). (res1 + k, o2)) (print (Some [32, 32, 32, 32, 32, 32, 0]) o1))
      else Some (res, out)) (\<lambda>(res2, o2).
     if i \<ge> length buffer then None
     else Option.bind (printf [37, 120, 0] [VInt (ucast (buffer ! i))] o2) (\<lambda>(k, o3).
       Option.bind (if k = 1 then map_option snd (print_char 48 o3) else Some o3) (\<lambda>o4.
       Option.bind (print_char 32 o4) (\<lambda>(_, o5). dump_loop buffer (i + 1) n (res2 + 3) o5))))"

definition dump :: "buf \<Rightarrow> nat \<Rightarrow> console \<Rightarrow> (nat \<times> console) option" where
  "dump buffer sz out =
     Option.bind (dump_loop buffer 0 sz 0 out) (\<lambda>(res, o1).
     if res > 0 then map_option (\<lambda>(_, o2). (res + 1, o2)) (print_char 10 o1) else Some (res, o1))"

section \<open>What was printed\<close>

fun screen_text :: "console \<Rightarrow> u8 list" where
  "screen_text [] = []"
| "screen_text (Screen c # es) = c # screen_text es"
| "screen_text (_ # es) = screen_text es"

fun wire_text :: "console \<Rightarrow> u8 list" where
  "wire_text [] = []"
| "wire_text (Wire s # es) = s @ wire_text es"
| "wire_text (_ # es) = wire_text es"

definition plain :: "out_event \<Rightarrow> bool" where
  "plain e \<longleftrightarrow> (case e of Fg _ \<Rightarrow> False | Bg _ \<Rightarrow> False | _ \<Rightarrow> True)"

definition says :: "console \<Rightarrow> u8 list \<Rightarrow> bool" where
  "says ev s \<longleftrightarrow> screen_text ev = s \<and> wire_text ev = s \<and> list_all plain ev"

text \<open>A run \<open>r\<close> from \<open>out\<close> that prints \<open>s\<close> on both devices, setting no color, and counts it.\<close>

definition prints :: "u8 list \<Rightarrow> (console \<Rightarrow> (nat \<times> console) option) \<Rightarrow> bool" where
  "prints s r \<longleftrightarrow> (\<forall>out. \<exists>ev. r out = Some (length s, out @ ev) \<and> says ev (s))"

lemma text_append [simp]: "screen_text (a @ b) = screen_text a @ screen_text b" "wire_text (a @ b) = wire_text a @ wire_text b"
proof -
  show "screen_text (a @ b) = screen_text a @ screen_text b" by (induction a rule: screen_text.induct) auto
  show "wire_text (a @ b) = wire_text a @ wire_text b" by (induction a rule: wire_text.induct) auto
qed

lemma text_screen [simp]: "screen_text (map Screen s) = s" "wire_text (map Screen s) = []"
  by (induction s) simp_all

lemma says_print [simp]: "says (map Screen s @ [Wire s]) s"
  by (simp add: says_def list_all_iff plain_def)

lemma says_nil [simp]: "says [] s \<longleftrightarrow> s = []"
  by (auto simp: says_def)

lemma says_append: "says a s \<Longrightarrow> says b s' \<Longrightarrow> says (a @ b) (s @ s')"
  by (simp add: says_def)

lemma prints_print: "strlen_loop s = Some n \<Longrightarrow> n \<le> length s \<Longrightarrow> prints (take n s) (print (Some s))"
  by (auto simp: prints_def print_def)

lemma prints_cstr: "0 \<notin> set s \<Longrightarrow> prints s (print (Some (s @ 0 # r)))"
  using strlen_cstr [of s r] prints_print [of "s @ 0 # r" "length s"] by (simp add: strlen_def)

lemma prints_char: "c \<noteq> 0 \<Longrightarrow> prints [c] (print_char c)"
  using prints_cstr [of "[c]" "[]"] by (simp add: print_char_def)

lemma prints_null: "prints [] (print None)"
  by (simp add: prints_def print_def)

lemma prints_seq:
  assumes "prints a f" and "prints b g"
  shows "prints (a @ b) (seq f g)"
  unfolding prints_def
proof
  fix out
  obtain e1 where e1: "f out = Some (length a, out @ e1)" "says e1 (a)"
    using assms(1) unfolding prints_def by blast
  obtain e2 where e2: "g (out @ e1) = Some (length b, (out @ e1) @ e2)" "says e2 (b)"
    using assms(2) unfolding prints_def by blast
  show "\<exists>ev. seq f g out = Some (length (a @ b), out @ ev) \<and> says ev (a @ b)"
    using e1 e2 by (intro exI [of _ "e1 @ e2"]) (simp add: seq_def says_append)
qed

lemma prints_pad: "prints (replicate n 48) (print_pad n)"
proof (induction n)
  case (Suc n)
  have "prints (replicate n 48 @ [48]) (seq (print_pad n) (print_char 48))"
    using Suc by (intro prints_seq prints_char) simp_all
  moreover have "seq (print_pad n) (print_char 48) out = print_pad (Suc n) out" for out
  proof -
    obtain e1 where e1: "print_pad n out = Some (n, e1)" using Suc unfolding prints_def by force
    obtain e2 where "print_char 48 e1 = Some (1, e2)" using prints_char [of 48] unfolding prints_def by force
    then show ?thesis using e1 by (simp add: seq_def)
  qed
  ultimately show ?case by (simp add: replicate_append_same prints_def)
qed (simp add: prints_def)

text \<open>Hexadecimal text of a width.\<close>

fun hexw :: "nat \<Rightarrow> nat \<Rightarrow> u8 list" where
  "hexw 0 n = []"
| "hexw (Suc w) n = hexw w (n div 16) @ [hex_chars ! (n mod 16)]"

lemma hexw_length [simp]: "length (hexw w n) = w"
  by (induction w n rule: hexw.induct) auto

lemma hexw_zero: "hexw w 0 = replicate w 48"
  by (induction w) (auto simp: hex_chars_def replicate_append_same)

lemma hexw_hex_rev:
  "unat v < 16 ^ w \<Longrightarrow> 0 < w \<Longrightarrow> length (hex_rev v) \<le> w \<and> hexw w (unat v) = replicate (w - length (hex_rev v)) 48 @ rev (hex_rev v)"
proof (induction v arbitrary: w rule: hex_rev.induct)
  case (1 v)
  obtain k where w: "w = Suc k" using "1.prems"(2) by (cases w) auto
  have d: "unat v div 16 < 16 ^ k" using "1.prems"(1) w by (simp add: less_mult_imp_div_less ac_simps)
  show ?case
  proof (cases "v div 16 = 0")
    case True
    then have "unat (v div 16) = 0" by simp
    then have "unat v div 16 = 0" by (simp add: unat_div_distrib)
    then show ?thesis using True w by (simp add: hex_rev.simps [of v] hexw_zero unat_mod_distrib)
  next
    case False
    then have "unat (v div 16) \<noteq> 0" by (simp add: unat_eq_0)
    then have "0 < k" using d by (cases k) (auto simp: unat_div_distrib)
    then show ?thesis using "1.IH" [OF False, of k] d w False
      by (auto simp: hex_rev.simps [of v] unat_div_distrib unat_mod_distrib Suc_diff_le)
  qed
qed

lemma print_padded_hex:
  assumes "unat v < 16 ^ w" and "0 < w" and "length (hex_rev v) < length d"
  shows "prints (hexw w (unat v)) (print_padded w (itoh v (Some d)))"
proof -
  note h = hexw_hex_rev [OF assms(1,2)]
  have "prints (replicate (w - length (hex_rev v)) 48 @ rev (hex_rev v))
      (seq (print_pad (w - length (hex_rev v))) (print (Some (rev (hex_rev v) @ 0 # drop (Suc (length (hex_rev v))) d))))"
    using hex_rev_props [of v] by (intro prints_seq prints_pad prints_cstr) simp
  then show ?thesis using h itoh_run [OF assms(3)] by (simp add: print_padded_def prints_def)
qed

section \<open>GUIDs\<close>

lemma byte_less: "unat (b :: u8) < 256"
  using unsigned_less [of b, where 'a = nat] by simp

fun nle :: "nat list \<Rightarrow> nat" where
  "nle [] = 0"
| "nle (b # bs) = b + 256 * nle bs"

lemma nle_bound: "\<forall>b \<in> set bs. b < 256 \<Longrightarrow> nle bs < 256 ^ length bs"
proof (induction bs)
  case (Cons b bs)
  then have "b < 256" "Suc (nle bs) \<le> 256 ^ length bs" by simp_all
  then have "b + 256 * nle bs < 256 * 256 ^ length bs" by linarith
  then show ?case by simp
qed simp

lemma nle_hexw: "\<forall>b \<in> set bs. b < 256 \<Longrightarrow> hexw (2 * length bs) (nle bs) = concat (map (hexw 2) (rev bs))"
proof (induction bs)
  case (Cons b bs)
  have d: "(b + 256 * n) div 16 = b div 16 + 16 * n" for n using div_mult_self2 [of 16 b "16 * n"] by simp
  have "(b + 256 * n) mod 16 = b mod 16" for n using mod_mult_self2 [of b 16 "16 * n"] by simp
  moreover have "(b + 256 * n) div 16 mod 16 = b div 16 mod 16" "(b + 256 * n) div 16 div 16 = n" for n
    using Cons.prems unfolding d by (simp_all add: div_mult2_eq [symmetric])
  ultimately have "hexw (Suc (Suc w)) (b + 256 * n) = hexw w n @ hexw 2 b" for w n by (simp add: numeral_2_eq_2)
  then show ?case using Cons by simp
qed simp

lemma section_sum:
  "(\<Sum>(i, g) \<leftarrow> zip [k..<k + length gs] gs. 256 ^ i * (of_nat (f g) :: u64)) = 256 ^ k * of_nat (nle (map f gs))"
proof (induction gs arbitrary: k)
  case (Cons g gs)
  have "[k..<k + length (g # gs)] = k # [Suc k..<Suc k + length gs]" by (simp add: upt_rec)
  then show ?case using Cons [of "Suc k"] by (simp add: algebra_simps del: upt.simps)
qed simp

lemma guid_section_value:
  assumes "length gs \<le> 7"
  shows "unat (guid_section guid gs) = nle (map (\<lambda>g. unat (guid ! g)) gs)"
proof -
  let ?bs = "map (\<lambda>g. unat (guid ! g)) gs"
  have b: "\<forall>b \<in> set ?bs. b < 256" using byte_less by auto
  have e: "pow 256 (of_nat i) * ucast (guid ! g) = 256 ^ i * (of_nat (unat (guid ! g)) :: u64)"
    if "(i, g) \<in> set (zip [0..<length gs] gs)" for i g
  proof -
    have "i < 7" using that assms by (auto dest: set_zip_leftD)
    then have "unat (of_nat i :: u64) = i" by (simp add: unsigned_of_nat take_bit_nat_eq_self)
    then show ?thesis by (simp add: pow_power)
  qed
  have m: "map (\<lambda>(i, g). pow 256 (of_nat i) * ucast (guid ! g)) (zip [0..<length gs] gs) =
      map (\<lambda>(i, g). 256 ^ i * (of_nat (unat (guid ! g)) :: u64)) (zip [0..<0 + length gs] gs)"
    using e by (intro map_cong) auto
  have "guid_section guid gs = of_nat (nle ?bs)" unfolding guid_section_def m section_sum by simp
  moreover have "nle ?bs < 2 ^ 64"
    using nle_bound [OF b] power_increasing [of "length ?bs" 7 "256 :: nat"] assms by simp
  ultimately show ?thesis by (simp add: unsigned_of_nat take_bit_nat_eq_self)
qed

text \<open>The text of a GUID: the bytes in the order of its sections, two digits each.\<close>

definition guid_text :: "buf \<Rightarrow> u8 list" where
  "guid_text g = (let h = (\<lambda>is. concat (map (\<lambda>i. hexw 2 (unat (g ! i))) is)) in
     h [3, 2, 1, 0] @ [45] @ h [5, 4] @ [45] @ h [7, 6] @ [45] @ h [8, 9] @ [45] @ h [10, 11, 12, 13, 14, 15])"

lemma hex_rev_short: "unat v < 16 ^ w \<Longrightarrow> 0 < w \<Longrightarrow> w < 14 \<Longrightarrow> length (hex_rev v) < length (replicate 14 (0 :: u8))"
  using hexw_hex_rev [of v w] by simp

lemma guid_section_prints:
  assumes "0 < length gs" and "length gs < 7"
  shows "prints (concat (map (\<lambda>i. hexw 2 (unat (g ! i))) (rev gs)))
    (print_padded (2 * length gs) (itoh (guid_section g gs) (Some (replicate 14 0))))"
proof -
  let ?bs = "map (\<lambda>i. unat (g ! i)) gs"
  have b: "\<forall>b \<in> set ?bs. b < 256" using byte_less by auto
  have v: "unat (guid_section g gs) = nle ?bs" using assms by (intro guid_section_value) simp
  have "nle ?bs < 16 ^ (2 * length gs)" using nle_bound [OF b] by (simp add: power_mult)
  then have "prints (hexw (2 * length gs) (nle ?bs)) (print_padded (2 * length gs) (itoh (guid_section g gs) (Some (replicate 14 0))))"
    using assms hex_rev_short [of "guid_section g gs" "2 * length gs"] v
    by (metis print_padded_hex mult_pos_pos zero_less_numeral mult_2 add_less_mono numeral_Bit0)
  then show ?thesis using nle_hexw [OF b] by (simp add: rev_map comp_def)
qed

lemma prints_guid: "16 \<le> length g \<Longrightarrow> prints (guid_text g) (print_guid g)"
  using guid_section_prints [of "[0, 1, 2, 3]" g] guid_section_prints [of "[4, 5]" g] guid_section_prints [of "[6, 7]" g]
    guid_section_prints [of "[9, 8]" g] guid_section_prints [of "[15, 14, 13, 12, 11, 10]" g]
  unfolding print_guid_def guid_text_def Let_def
  by (simp only: not_less [symmetric] if_False) (intro prints_seq prints_char; simp)

section \<open>The text of a format\<close>

text \<open>
  What a conversion prints, and the arguments left behind it; \<open>None\<close> if the argument does not fit. A string is what
  stands before its terminator.
\<close>

definition conv_text :: "u8 \<Rightarrow> va list \<Rightarrow> (u8 list \<times> va list) option" where
  "conv_text f args =
     (case args of
        VInt v # rest \<Rightarrow>
          if f = 100 then Some (sdec (scast (ucast v :: u32)), rest)
          else if f = 99 then Some (if (ucast v :: u8) = 0 then [] else [ucast v], rest)
          else if f = 108 then Some (sdec v, rest)
          else if f = 117 then Some (rev (dec_rev (abs_c v)), rest)
          else if f = 120 then Some (rev (hex_rev v), rest)
          else if f = 112 then Some (hexw 16 (unat v), rest)
          else if f = 115 \<or> f = 103 then None else Some ([], args)
      | VPtr s # rest \<Rightarrow>
          if f = 115 then (case s of None \<Rightarrow> Some ([], rest) | Some b \<Rightarrow> if 0 \<in> set b then Some (takeWhile (\<lambda>c. c \<noteq> 0) b, rest) else None)
          else if f = 103 then (case s of Some g \<Rightarrow> if 16 \<le> length g then Some (guid_text g, rest) else None | None \<Rightarrow> None)
          else if f \<in> {100, 99, 108, 117, 120, 112} then None else Some ([], args)
      | [] \<Rightarrow> if f \<in> {100, 99, 108, 117, 120, 112, 115, 103} then None else Some ([], []))"

fun render :: "bool \<Rightarrow> u8 list \<Rightarrow> va list \<Rightarrow> u8 list option" where
  "render formatted [] args = Some []"
| "render formatted (f # fmt) args =
     (if \<not> formatted \<and> f = 37 then render True fmt args
      else if \<not> formatted then map_option ((#) f) (render False fmt args)
      else case conv_text f args of None \<Rightarrow> None | Some (s, rest) \<Rightarrow> map_option ((@) s) (render False fmt rest))"

lemma prints_byte: "prints (if c = 0 then [] else [c]) (print (Some [c, 0]))"
  by (simp add: prints_def print_def says_def plain_def)

lemma prints_string: "0 \<in> set b \<Longrightarrow> prints (takeWhile (\<lambda>c. c \<noteq> 0) b) (print (Some b))"
proof -
  assume "0 \<in> set b"
  then obtain c r where "dropWhile (\<lambda>c. c \<noteq> 0) b = c # r" by (cases "dropWhile (\<lambda>c. c \<noteq> 0) b") auto
  moreover then have "c = 0" using hd_dropWhile [of "\<lambda>c. c \<noteq> 0" b] by auto
  ultimately have b: "b = takeWhile (\<lambda>c. c \<noteq> 0) b @ 0 # r" using takeWhile_dropWhile_id [of "\<lambda>c. c \<noteq> 0" b] by metis
  show ?thesis using prints_cstr [of "takeWhile (\<lambda>c. c \<noteq> 0) b" r] b by (auto dest: set_takeWhileD)
qed

lemma prints_dec: "prints (sdec v) (print_num (itod v (Some (replicate (gd (sint v) + 1) 0))))"
  using itod_run [of v "replicate (gd (sint v) + 1) 0"] sdec_props [of v] prints_cstr [of "sdec v" "[]"]
  by (simp add: print_num_def prints_def)

lemma prints_unsigned: "prints (rev (dec_rev (abs_c v))) (print_num (itou v (Some (replicate (gd (sint v) + 1) 0))))"
  using itou_run [of v "replicate (gd (sint v) + 1) 0"] gd_sint [of v] dec_rev_no_zero [of "abs_c v"]
    prints_cstr [of "rev (dec_rev (abs_c v))"]
  by (simp add: print_num_def prints_def)

lemma prints_hex: "prints (rev (hex_rev v)) (print_num (itoh v (Some (replicate (gdu v + 1) 0))))"
  using itoh_run [of v "replicate (gdu v + 1) 0"] hex_rev_props [of v] prints_cstr [of "rev (hex_rev v)"]
  by (simp add: print_num_def prints_def)

lemma prints_pointer: "prints (hexw 16 (unat v)) (print_padded 16 (itoh v (Some (replicate (gdu v + 1) 0))))"
proof (rule print_padded_hex)
  show "unat v < 16 ^ 16" using unsigned_less [of v, where 'a = nat] by simp
  show "length (hex_rev v) < length (replicate (gdu v + 1) (0 :: u8))" using hex_rev_props [of v] by simp
qed simp

lemma conv_int:
  assumes "conv_text f (VInt v # as) = Some (s, rest)"
  shows "\<exists>r. prints s r \<and> conv f (VInt v # as) = (\<lambda>out. map_option (\<lambda>(n, out1). (n, rest, out1)) (r out))"
proof -
  consider "f = 100" | "f = 99" | "f = 108" | "f = 117" | "f = 120" | "f = 112" | "f \<notin> {100, 99, 108, 117, 120, 112, 115, 103}"
    using assms by (fastforce simp: conv_text_def)
  then show ?thesis
  proof cases
    case 1
    then show ?thesis using assms prints_dec [of "scast (ucast v :: u32)"]
      by (auto simp: conv_text_def conv_def Let_def fun_eq_iff simp del: replicate.simps)
  next
    case 2
    then show ?thesis using assms prints_byte [of "ucast v"]
      by (auto simp: conv_text_def conv_def Let_def fun_eq_iff)
  next
    case 3
    then show ?thesis using assms prints_dec [of v]
      by (auto simp: conv_text_def conv_def Let_def fun_eq_iff simp del: replicate.simps)
  next
    case 4
    then show ?thesis using assms prints_unsigned [of v]
      by (auto simp: conv_text_def conv_def Let_def fun_eq_iff simp del: replicate.simps)
  next
    case 5
    then show ?thesis using assms prints_hex [of v]
      by (auto simp: conv_text_def conv_def Let_def fun_eq_iff simp del: replicate.simps)
  next
    case 6
    then show ?thesis using assms prints_pointer [of v]
      by (auto simp: conv_text_def conv_def Let_def fun_eq_iff simp del: replicate.simps)
  next
    case 7
    then show ?thesis using assms prints_null by (auto simp: conv_text_def conv_def print_def fun_eq_iff)
  qed
qed

lemma conv_ptr:
  assumes "conv_text f (VPtr p # as) = Some (s, rest)"
  shows "\<exists>r. prints s r \<and> conv f (VPtr p # as) = (\<lambda>out. map_option (\<lambda>(n, out1). (n, rest, out1)) (r out))"
proof -
  consider "f = 115" | "f = 103" | "f \<notin> {100, 99, 108, 117, 120, 112, 115, 103}"
    using assms by (fastforce simp: conv_text_def split: if_splits)
  then show ?thesis
  proof cases
    case 1
    then show ?thesis using assms prints_null prints_string [of "the p"]
      by (auto simp: conv_text_def conv_def Let_def fun_eq_iff split: option.splits if_splits)
  next
    case 2
    then show ?thesis using assms prints_guid [of "the p"]
      by (auto simp: conv_text_def conv_def Let_def fun_eq_iff split: option.splits if_splits)
  next
    case 3
    then show ?thesis using assms prints_null by (auto simp: conv_text_def conv_def print_def fun_eq_iff)
  qed
qed

lemma conv_none:
  assumes "conv_text f [] = Some (s, rest)"
  shows "\<exists>r. prints s r \<and> conv f [] = (\<lambda>out. map_option (\<lambda>(n, out1). (n, rest, out1)) (r out))"
  using assms prints_null by (auto simp: conv_text_def conv_def print_def fun_eq_iff split: if_splits)

lemma conv_prints:
  assumes "conv_text f args = Some (s, rest)"
  shows "\<exists>ev. conv f args out = Some (length s, rest, out @ ev) \<and> says ev (s)"
proof -
  consider "args = []" | v as where "args = VInt v # as" | p as where "args = VPtr p # as"
    by (metis list.exhaust va.exhaust)
  then have "\<exists>r. prints s r \<and> conv f args = (\<lambda>out. map_option (\<lambda>(n, out1). (n, rest, out1)) (r out))"
    by cases (use assms in \<open>simp_all only: conv_none conv_int conv_ptr\<close>)
  then show ?thesis unfolding prints_def by fastforce
qed

lemma vprintf_loop_render:
  assumes "0 \<notin> set fmt" and "render b fmt args = Some s"
  shows "\<exists>ev. vprintf_loop b (fmt @ 0 # r) args k out = Some (k + length s, out @ ev) \<and> says ev (s)"
  using assms
proof (induction b fmt args arbitrary: s k out rule: render.induct)
  case (1 b args)
  then show ?case by simp
next
  case (2 b f fmt args)
  consider "\<not> b" "f = 37" | "\<not> b" "f \<noteq> 37" | "b" by blast
  then show ?case
  proof cases
    case 1
    then show ?thesis using "2.IH"(1) "2.prems" by auto
  next
    case c: 2
    then obtain s' where s: "s = f # s'" "render False fmt args = Some s'" using "2.prems" by auto
    have "f \<noteq> 0" using "2.prems" by auto
    then obtain e1 where e1: "print_char f out = Some (1, out @ e1)" "says e1 ([f])"
      using prints_char [of f] unfolding prints_def by force
    obtain e2 where "vprintf_loop False (fmt @ 0 # r) args (k + 1) (out @ e1) = Some (k + 1 + length s', (out @ e1) @ e2)"
      "says e2 (s')"
      using "2.IH"(2) [of s' "k + 1" "out @ e1"] c s "2.prems"(1) by auto
    then show ?thesis using c \<open>f \<noteq> 0\<close> e1 s by (intro exI [of _ "e1 @ e2"]) (use says_append in force)
  next
    case c: 3
    then obtain s1 rest s' where s: "conv_text f args = Some (s1, rest)" "render False fmt rest = Some s'" "s = s1 @ s'"
      using "2.prems" by (auto split: option.splits)
    obtain e1 where e1: "conv f args out = Some (length s1, rest, out @ e1)" "says e1 (s1)"
      using conv_prints [OF s(1)] by blast
    obtain e2 where "vprintf_loop False (fmt @ 0 # r) rest (k + length s1) (out @ e1) = Some (k + length s1 + length s', (out @ e1) @ e2)"
      "says e2 (s')"
      using "2.IH"(3) [OF _ _ s(1) refl, of s' "k + length s1" "out @ e1"] c s "2.prems"(1) by auto
    then show ?thesis using c e1 s "2.prems"(1) by (intro exI [of _ "e1 @ e2"]) (auto simp: says_append)
  qed
qed

lemma vprintf_render:
  assumes "0 \<notin> set fmt" and "render False fmt args = Some s"
  shows "prints s (vprintf (fmt @ 0 # r) args)"
  using vprintf_loop_render [OF assms, of r 0] by (simp add: prints_def vprintf_def)

section \<open>Properties\<close>


lemma sample_digits: "hex_rev 255 = [70, 70]" "dec_rev 42 = [50, 52]" "abs_c 42 = 42" "hexw 16 255 = replicate 14 48 @ [70, 70]"
proof -
  show "hex_rev 255 = [70, 70]" by (simp add: hex_rev.simps hex_chars_def)
  show "dec_rev 42 = [50, 52]" by (simp add: dec_rev.simps)
  show "abs_c 42 = 42" by (simp add: abs_c_def word_sle_eq)
  show "hexw 16 255 = replicate 14 48 @ [70, 70]" by code_simp
qed


text \<open>
  A GUID of 16 bytes is printed in its standard form: 36 characters, the first three groups in reversed byte order,
  the last two in memory order, two hexadecimal digits for every byte.
\<close>

theorem vprintf_guid:
  assumes "length g = 16"
  shows "\<exists>ev. vprintf [37, 103, 0] [VPtr (Some g)] out = Some (36, out @ ev) \<and> screen_text ev = guid_text g"
proof -
  have l: "length (guid_text g) = 36" by (simp add: guid_text_def)
  have "render False [37, 103] [VPtr (Some g)] = Some (guid_text g)" using assms by (simp add: conv_text_def)
  then have "prints (guid_text g) (vprintf ([37, 103] @ 0 # []) [VPtr (Some g)])" by (intro vprintf_render) simp_all
  then show ?thesis unfolding prints_def says_def l by auto
qed

definition sample_guid :: buf where
  "sample_guid = map of_nat [0..<16]"

theorem vprintf_guid_witness:
  "length sample_guid = 16 \<and> (\<exists>ev. vprintf [37, 103, 0] [VPtr (Some sample_guid)] [] = Some (36, ev) \<and>
    take 9 (screen_text ev) = [48, 51, 48, 50, 48, 49, 48, 48, 45])"
proof -
  have "take 9 (guid_text sample_guid) = [48, 51, 48, 50, 48, 49, 48, 48, 45]" by code_simp
  then show ?thesis using vprintf_guid [of sample_guid "[]"] by (auto simp: sample_guid_def [THEN arg_cong [of _ _ length], simplified])
qed

text \<open>The screen takes the characters and the colors of an output.\<close>

fun video_run :: "nat \<Rightarrow> console \<Rightarrow> video \<Rightarrow> video option" where
  "video_run n [] v = Some v"
| "video_run n (e # es) v =
     Option.bind (case e of Screen c \<Rightarrow> video_write n c v | Fg c \<Rightarrow> video_fg_set c v | Bg c \<Rightarrow> video_bg_set c v | Wire _ \<Rightarrow> Some v)
       (video_run n es)"

definition ev_ok :: "out_event \<Rightarrow> bool" where
  "ev_ok e \<longleftrightarrow> (case e of Fg c \<Rightarrow> c < length fb_color_map | Bg c \<Rightarrow> c < length fb_color_map | _ \<Rightarrow> True)"

lemma video_run_inv:
  assumes "\<forall>e \<in> set ev. ev_ok e" and "fb_inv (video_fb v)" and "1 < n"
  shows "\<exists>v'. video_run n ev v = Some v' \<and> fb_inv (video_fb v')"
  using assms(1,2)
proof (induction ev arbitrary: v)
  case (Cons e es)
  have "\<exists>v1. (case e of Screen c \<Rightarrow> video_write n c v | Fg c \<Rightarrow> video_fg_set c v | Bg c \<Rightarrow> video_bg_set c v | Wire _ \<Rightarrow> Some v) = Some v1 \<and>
      fb_inv (video_fb v1)"
  proof (cases e)
    case (Screen c)
    then show ?thesis using Cons.prems fb_write_inv [OF Cons.prems(2) assms(3), of c] by (auto simp: video_write_def)
  qed (use Cons.prems in \<open>auto simp: ev_ok_def video_fg_set_def video_bg_set_def fb_fg_set_def fb_bg_set_def fb_color_at_def
        fb_inv_def fb_fits_def\<close>)
  then show ?case using Cons.IH Cons.prems(1) by auto
qed simp

lemma plain_ok: "plain e \<Longrightarrow> ev_ok e"
  by (cases e) (simp_all add: plain_def ev_ok_def)

lemma printk_runs:
  assumes "0 \<notin> set fmt" and "render False fmt args = Some s" and "level \<noteq> KERN_DEBG \<or> dbg"
  shows "\<exists>ev. printk dbg level (fmt @ [0]) args out = Some (5 + length s, out @ ev) \<and> (\<forall>e \<in> set ev. ev_ok e) \<and>
    screen_text ev = snd (level_head level) @ 32 # s \<and> wire_text ev = snd (level_head level) @ 32 # s"
proof -
  obtain fg h where l: "level_head level = (fg, h)" by (cases "level_head level")
  then have h: "0 \<notin> set h" "length h = 4" "fg < length fb_color_map" by (cases level; auto simp: fb_color_map_def)+
  obtain e1 where e1: "print (Some (h @ [0])) (out @ [Bg 0, Fg fg]) = Some (4, (out @ [Bg 0, Fg fg]) @ e1)" "says e1 h"
    using prints_cstr [OF h(1), of "[]"] h(2) unfolding prints_def by metis
  have "\<exists>ev. print_char 32 o1 = Some (1, o1 @ ev) \<and> says ev [32]" for o1
    using prints_char [of 32] unfolding prints_def by simp
  then obtain e2 where e2: "print_char 32 ((out @ [Bg 0, Fg fg]) @ e1 @ [Bg 0, Fg 1]) = Some (1, ((out @ [Bg 0, Fg fg]) @ e1 @ [Bg 0, Fg 1]) @ e2)" "says e2 [32]"
    by blast
  obtain e3 where e3: "vprintf (fmt @ [0]) args (((out @ [Bg 0, Fg fg]) @ e1 @ [Bg 0, Fg 1]) @ e2) =
      Some (length s, (((out @ [Bg 0, Fg fg]) @ e1 @ [Bg 0, Fg 1]) @ e2) @ e3)" "says e3 s"
    using vprintf_render [OF assms(1,2), of "[]"] unfolding prints_def by metis
  let ?ev = "[Bg 0, Fg fg] @ e1 @ [Bg 0, Fg 1] @ e2 @ e3"
  have "printk dbg level (fmt @ [0]) args out = Some (5 + length s, out @ ?ev)"
    using assms(3) e1(1) e2(1) e3(1) by (auto simp: printk_def l seq_def)
  moreover have "\<forall>e \<in> set ?ev. ev_ok e"
    using e1(2) e2(2) e3(2) h(3) plain_ok by (auto simp: says_def list_all_iff ev_ok_def fb_color_map_def)
  moreover have "screen_text ?ev = snd (level_head level) @ 32 # s \<and> wire_text ?ev = snd (level_head level) @ 32 # s"
    using e1(2) e2(2) e3(2) l by (simp add: says_def)
  ultimately show ?thesis by blast
qed

text \<open>
  C32. A message of the kernel reaches the screen: the level, a space and the text are printed, and running them
  with their colors on the video driver always succeeds and keeps the invariant of the console.
\<close>

theorem printk_on_screen:
  assumes "0 \<notin> set fmt" and "render False fmt args = Some s" and "level \<noteq> KERN_DEBG \<or> dbg" and "fb_inv (video_fb v)" and "1 < n"
  shows "\<exists>ev v'. printk dbg level (fmt @ [0]) args [] = Some (5 + length s, ev) \<and>
    screen_text ev = snd (level_head level) @ 32 # s \<and> video_run n ev v = Some v' \<and> fb_inv (video_fb v')"
  using printk_runs [OF assms(1-3), of "[]"] video_run_inv [OF _ assms(4,5)] by fastforce

theorem printk_on_screen_witness:
  "\<exists>ev v'. printk False KERN_INFO [37, 120, 0] [VInt 255] [] = Some (7, ev) \<and> screen_text ev = [73, 78, 70, 79, 32, 70, 70] \<and>
    video_run 2 ev \<lparr>video_current = True, video_fb = small_screen\<rparr> = Some v' \<and> fb_inv (video_fb v')"
proof -
  have r: "render False [37, 120] [VInt 255] = Some [70, 70]" by (simp add: conv_text_def sample_digits)
  show ?thesis
    using printk_on_screen [OF _ r, of KERN_INFO False "\<lparr>video_current = True, video_fb = small_screen\<rparr>" 2] small_screen_inv by simp
qed

text \<open>
  The dump of a buffer is ambiguous: a byte below 16 is padded behind its digit, so the bytes 5 and 80 look the same.
\<close>

theorem dump_pads_behind:
  "map_option (screen_text \<circ> snd) (dump [5] 1 []) = map_option (screen_text \<circ> snd) (dump [0x50] 1 []) \<and>
   map_option (screen_text \<circ> snd) (dump [5] 1 []) = Some [32, 32, 32, 32, 32, 32, 53, 48, 32, 10]"
  by code_simp

end
