(* ===== verification/Serial.thy ===== *)
theory Serial
  imports Io Fs Printk
begin

text \<open>
  Serial ports, \<^verbatim>\<open>kernel/core/serial.c\<close>, and the spinlocks of \<^verbatim>\<open>kernel/util/lock.c\<close>. The ports are a table, and
  the hardware is the device of \<open>Io\<close>. A loop that waits for the hardware polls at most \<open>fuel\<close> times;
  \<open>None\<close> is a wait that takes longer, a lock that is held by someone who does not release it, or a null pointer. What other
  tasks do while \<^verbatim>\<open>sched_wait\<close> gives up the processor is not part of the model.
\<close>

record serial_port =
  sp_name :: cstr
  sp_addr :: u16
  sp_dev :: int
  available :: bool
  read_lock :: u8
  write_lock :: u8

abbreviation (input) SERIAL_PORT_COM1 :: u16 where "SERIAL_PORT_COM1 \<equiv> 0x3F8"

text \<open>The table, up to its null entry; the third initialiser of an entry is its device.\<close>

definition serial_ports_init :: "serial_port list" where
  "serial_ports_init = map (\<lambda>(n, a). \<lparr>sp_name = [99, 111, 109, n], sp_addr = a, sp_dev = 0, available = False, read_lock = 0, write_lock = 0\<rparr>)
     [(49, 0x3F8), (50, 0x2F8), (51, 0x3E8), (52, 0x2E8), (53, 0x5F8), (54, 0x4F8), (55, 0x5E8), (56, 0x4E8), (57, 0x4E8)]"

section \<open>Spinlocks\<close>

definition spinlock_locked :: "u8 \<Rightarrow> bool" where
  "spinlock_locked lock \<longleftrightarrow> lock AND 1 \<noteq> 0"

definition spinlock_acquire :: "u8 \<Rightarrow> u8 option" where
  "spinlock_acquire lock = (if spinlock_locked lock then None else Some (set_bit 0 lock))"

definition spinlock_release :: "u8 \<Rightarrow> u8" where
  "spinlock_release lock = 0"

section \<open>One port\<close>

definition index_of :: "(serial_port \<Rightarrow> bool) \<Rightarrow> serial_port list \<Rightarrow> nat option" where
  "index_of P ps = find (\<lambda>i. P (ps ! i)) [0..<length ps]"

definition serial_port_by_addr :: "serial_port list \<Rightarrow> u16 \<Rightarrow> nat option" where
  "serial_port_by_addr ps addr = index_of (\<lambda>p. sp_addr p = addr) ps"

definition serial_port_by_dev :: "serial_port list \<Rightarrow> int \<Rightarrow> nat option" where
  "serial_port_by_dev ps dev = index_of (\<lambda>p. sp_dev p = dev) ps"

fun wait_status :: "ports \<Rightarrow> nat \<Rightarrow> u16 \<Rightarrow> nat \<Rightarrow> history \<Rightarrow> history option" where
  "wait_status hw 0 p n t = None"
| "wait_status hw (Suc fuel) p n t =
     (case in8 hw p t of (v, t1) \<Rightarrow> if bit v n then Some t1 else wait_status hw fuel p n t1)"

definition serial_port_write :: "ports \<Rightarrow> nat \<Rightarrow> serial_port \<Rightarrow> u8 \<Rightarrow> history \<Rightarrow> (int \<times> history) option" where
  "serial_port_write hw fuel port c t =
     (if \<not> available port then Some (- EINVAL, t)
      else Option.bind (wait_status hw fuel (sp_addr port + 5) 5 t) (\<lambda>t1.
        case out8 (sp_addr port) c t1 of (ok, t2) \<Rightarrow> Some (if ok then 0 else - EIO, t2)))"

text \<open>\<^verbatim>\<open>__serial_port_read\<close>: the result and, for 0, the byte stored through the pointer.\<close>

definition serial_port_read :: "ports \<Rightarrow> nat \<Rightarrow> serial_port \<Rightarrow> history \<Rightarrow> (int \<times> u8 option \<times> history) option" where
  "serial_port_read hw fuel port t =
     (if \<not> available port then Some (- EINVAL, None, t)
      else Option.bind (wait_status hw fuel (sp_addr port + 5) 0 t) (\<lambda>t1.
        case in8 hw (sp_addr port) t1 of (v, t2) \<Rightarrow> Some (0, Some v, t2)))"

fun write_loop :: "ports \<Rightarrow> nat \<Rightarrow> serial_port \<Rightarrow> u8 list \<Rightarrow> history \<Rightarrow> (int \<times> history) option" where
  "write_loop hw fuel port [] t = Some (0, t)"
| "write_loop hw fuel port (c # cs) t =
     Option.bind (serial_port_write hw fuel port c t) (\<lambda>(err, t1).
       if err \<noteq> 0 then Some (err, t1) else write_loop hw fuel port cs t1)"

fun read_loop :: "ports \<Rightarrow> nat \<Rightarrow> serial_port \<Rightarrow> nat \<Rightarrow> history \<Rightarrow> (int \<times> u8 list \<times> history) option" where
  "read_loop hw fuel port 0 t = Some (0, [], t)"
| "read_loop hw fuel port (Suc n) t =
     Option.bind (serial_port_read hw fuel port t) (\<lambda>(err, c, t1).
       case c of None \<Rightarrow> Some (err, [], t1)
       | Some v \<Rightarrow> map_option (\<lambda>(err1, cs, t2). (err1, v # cs, t2)) (read_loop hw fuel port n t1))"

section \<open>The device operations\<close>

record serial =
  sports :: "serial_port list"
  sio :: history

definition serial_open :: "serial \<Rightarrow> u64 \<Rightarrow> int" where
  "serial_open s addr = (if serial_port_by_dev (sports s) (sint (ucast addr :: u32)) = None then - EFAULT else 0)"

definition serial_close :: "serial \<Rightarrow> u64 \<Rightarrow> int" where
  "serial_close s addr = (if serial_port_by_dev (sports s) (sint (ucast addr :: u32)) = None then - EFAULT else 0)"

definition serial_dev_read :: "ports \<Rightarrow> nat \<Rightarrow> serial \<Rightarrow> u64 \<Rightarrow> nat \<Rightarrow> (int \<times> u8 list \<times> serial) option" where
  "serial_dev_read hw fuel s addr sz =
     Option.bind (serial_port_by_dev (sports s) (sint (ucast addr :: u32))) (\<lambda>i. let port = sports s ! i in
     Option.bind (spinlock_acquire (read_lock port)) (\<lambda>lk. let ps = (sports s)[i := port\<lparr>read_lock := lk\<rparr>] in
     Option.bind (read_loop hw fuel port sz (sio s)) (\<lambda>(err, cs, t1).
       if err \<noteq> 0 then Some (err, cs, \<lparr>sports = ps, sio = t1\<rparr>)
       else Some (int sz, cs, \<lparr>sports = ps[i := port\<lparr>read_lock := spinlock_release lk\<rparr>], sio = t1\<rparr>))))"

definition serial_dev_write :: "ports \<Rightarrow> nat \<Rightarrow> serial \<Rightarrow> u64 \<Rightarrow> u8 list \<Rightarrow> (int \<times> serial) option" where
  "serial_dev_write hw fuel s addr buffer =
     Option.bind (serial_port_by_dev (sports s) (sint (ucast addr :: u32))) (\<lambda>i. let port = sports s ! i in
     Option.bind (spinlock_acquire (write_lock port)) (\<lambda>lk. let ps = (sports s)[i := port\<lparr>write_lock := lk\<rparr>] in
     Option.bind (write_loop hw fuel port buffer (sio s)) (\<lambda>(err, t1).
       if err \<noteq> 0 then Some (err, \<lparr>sports = ps, sio = t1\<rparr>)
       else Some (int (length buffer), \<lparr>sports = ps[i := port\<lparr>write_lock := spinlock_release lk\<rparr>], sio = t1\<rparr>))))"

section \<open>Initialisation\<close>

text \<open>The writes to a port before its test; \<open>False\<close> is the \<^verbatim>\<open>continue\<close> of a write that fails.\<close>

definition serial_setup :: "u16 \<Rightarrow> bool io" where
  "serial_setup a =
     and_then (out8 (a + 1) 0) (and_then (out8 (a + 3) (push_bit 7 1)) (and_then (out8 a 3) (and_then (out8 (a + 1) 0)
       (and_then (out8 (a + 3) (push_bit 2 1)) (and_then (out8 (a + 2) 0xC7) (and_then (out8 (a + 4) 0x13) (out8 a 0x42)))))))"

definition serial_test :: "ports \<Rightarrow> u16 \<Rightarrow> bool io" where
  "serial_test hw a t =
     (case serial_setup a t of (ok, t1) \<Rightarrow>
        if \<not> ok then (False, t1)
        else case in8 hw a t1 of (v, t2) \<Rightarrow> if v \<noteq> 0x42 then (False, t2) else out8 (a + 4) 0xF t2)"

fun serial_enum :: "ports \<Rightarrow> serial_port list \<Rightarrow> history \<Rightarrow> serial_port list \<times> history" where
  "serial_enum hw [] t = ([], t)"
| "serial_enum hw (p # ps) t =
     (let (ok, t1) = serial_test hw (sp_addr p) t; (ps', t2) = serial_enum hw ps t1 in
      ((if ok then p\<lparr>sp_dev := - 1, available := True, read_lock := 0, write_lock := 0\<rparr> else p) # ps', t2))"

definition serial_init :: "ports \<Rightarrow> serial \<Rightarrow> int \<times> serial" where
  "serial_init hw s = (case serial_enum hw (sports s) (sio s) of (ps, t) \<Rightarrow> (0, \<lparr>sports = ps, sio = t\<rparr>))"

text \<open>\<open>sops\<close> are the device operations above; the mode is \<^verbatim>\<open>MODE_USRR | MODE_USRW\<close>.\<close>

fun register_loop :: "devfs_ops \<Rightarrow> u32 \<Rightarrow> serial_port list \<Rightarrow> devfs_device list \<Rightarrow> int \<times> serial_port list \<times> devfs_device list" where
  "register_loop sops mode [] devs = (0, [], devs)"
| "register_loop sops mode (p # ps) devs =
     (if \<not> available p then (case register_loop sops mode ps devs of (e, ps', d) \<Rightarrow> (e, p # ps', d))
      else case devfs_device_register devs (Some (sp_name p)) (Some sops) mode of (a, devs1) \<Rightarrow>
        if a < 0 then (a, p # ps, devs1)
        else (case register_loop sops mode ps devs1 of (e, ps', d) \<Rightarrow> (e, p\<lparr>sp_dev := a\<rparr> # ps', d)))"

definition serial_register :: "devfs_ops \<Rightarrow> u32 \<Rightarrow> serial \<Rightarrow> devfs_device list \<Rightarrow> int \<times> serial \<times> devfs_device list" where
  "serial_register sops mode s devs =
     (case register_loop sops mode (sports s) devs of (e, ps, d) \<Rightarrow> (e, s\<lparr>sports := ps\<rparr>, d))"

section \<open>Use by the kernel\<close>

text \<open>\<^verbatim>\<open>serial_write\<close> of a string, given without its terminator.\<close>

definition serial_write :: "ports \<Rightarrow> nat \<Rightarrow> u16 \<Rightarrow> u8 list \<Rightarrow> serial \<Rightarrow> (int \<times> serial) option" where
  "serial_write hw fuel addr msg s =
     (case serial_port_by_addr (sports s) addr of None \<Rightarrow> Some (- EINVAL, s)
      | Some i \<Rightarrow>
          if spinlock_locked (write_lock (sports s ! i)) then Some (- EFAULT, s)
          else map_option (\<lambda>(err, t). (err, s\<lparr>sio := t\<rparr>)) (write_loop hw fuel (sports s ! i) msg (sio s)))"

definition serial_read :: "ports \<Rightarrow> nat \<Rightarrow> u16 \<Rightarrow> nat \<Rightarrow> serial \<Rightarrow> (int \<times> u8 list \<times> serial) option" where
  "serial_read hw fuel addr sz s =
     (case serial_port_by_addr (sports s) addr of None \<Rightarrow> Some (- EINVAL, [], s)
      | Some i \<Rightarrow>
          if spinlock_locked (read_lock (sports s ! i)) then Some (- EFAULT, [], s)
          else map_option (\<lambda>(err, cs, t). (err, cs, s\<lparr>sio := t\<rparr>)) (read_loop hw fuel (sports s ! i) sz (sio s)))"

section \<open>What goes over the wire\<close>

fun sent :: "u16 \<Rightarrow> history \<Rightarrow> u8 list" where
  "sent a [] = []"
| "sent a (Out8 p v # es) = (if p = a then v # sent a es else sent a es)"
| "sent a (_ # es) = sent a es"

lemma sent_append [simp]: "sent a (s @ t) = sent a s @ sent a t"
  by (induction a s rule: sent.induct) auto

lemma sent_polls [simp]: "sent a (replicate k (In8 p)) = []"
  by (induction k) auto

text \<open>
  What the kernel relies on: whatever was done before, the status of the port shows the bit within
  \<open>n\<close> polls.
\<close>

definition uart_ready :: "ports \<Rightarrow> u16 \<Rightarrow> nat \<Rightarrow> nat \<Rightarrow> bool" where
  "uart_ready hw a b n \<longleftrightarrow> (\<forall>t. \<exists>k < n. bit (reads8 hw (t @ replicate k (In8 (a + 5))) (a + 5)) b)"

lemma wait_status_polls:
  assumes "bit (reads8 hw (t @ replicate k (In8 p)) p) b" and "k < fuel" and "p \<noteq> 0"
  shows "\<exists>j. wait_status hw fuel p b t = Some (t @ replicate j (In8 p))"
  using assms(1,2)
proof (induction fuel arbitrary: t k)
  case (Suc fuel)
  show ?case
  proof (cases "bit (reads8 hw t p) b")
    case True
    then show ?thesis using assms(3) by (auto simp: in8_def intro!: exI [of _ 1])
  next
    case False
    then obtain k' where k: "k = Suc k'" using Suc.prems(1) by (cases k) auto
    have "bit (reads8 hw ((t @ [In8 p]) @ replicate k' (In8 p)) p) b" using Suc.prems(1) k by simp
    then obtain j where "wait_status hw fuel p b (t @ [In8 p]) = Some ((t @ [In8 p]) @ replicate j (In8 p))"
      using Suc.IH [of "t @ [In8 p]" k'] Suc.prems(2) k by auto
    then show ?thesis using False assms(3) by (auto simp: in8_def intro!: exI [of _ "Suc j"])
  qed
qed simp

lemma wait_status_ready:
  assumes "uart_ready hw a b fuel" and "a + 5 \<noteq> 0"
  shows "\<exists>j. wait_status hw fuel (a + 5) b t = Some (t @ replicate j (In8 (a + 5)))"
  using assms wait_status_polls [of hw t _ "a + 5" b fuel] unfolding uart_ready_def by blast

lemma write_loop_sends:
  assumes "uart_ready hw (sp_addr p) 5 fuel" and "available p" and "sp_addr p \<noteq> 0" and "sp_addr p + 5 \<noteq> 0"
  shows "\<exists>ev. write_loop hw fuel p msg t = Some (0, t @ ev) \<and> sent (sp_addr p) ev = msg"
proof (induction msg arbitrary: t)
  case (Cons c cs)
  obtain j where j: "wait_status hw fuel (sp_addr p + 5) 5 t = Some (t @ replicate j (In8 (sp_addr p + 5)))"
    using wait_status_ready [OF assms(1,4)] by blast
  let ?t = "t @ replicate j (In8 (sp_addr p + 5)) @ [Out8 (sp_addr p) c]"
  have "serial_port_write hw fuel p c t = Some (0, ?t)" using j assms(2,3) by (simp add: serial_port_write_def out8_def)
  moreover obtain ev where "write_loop hw fuel p cs ?t = Some (0, ?t @ ev)" "sent (sp_addr p) ev = cs" using Cons by blast
  ultimately show ?case
    by (intro exI [of _ "replicate j (In8 (sp_addr p + 5)) @ Out8 (sp_addr p) c # ev"]) simp
qed simp

text \<open>The first port is usable: it is there and nobody holds its write lock.\<close>

definition com1_up :: "serial \<Rightarrow> bool" where
  "com1_up s \<longleftrightarrow> (\<exists>p ps. sports s = p # ps \<and> sp_addr p = SERIAL_PORT_COM1 \<and> available p \<and> \<not> spinlock_locked (write_lock p))"

lemma serial_write_com1:
  assumes "com1_up s" and "uart_ready hw SERIAL_PORT_COM1 5 fuel"
  shows "\<exists>ev. serial_write hw fuel SERIAL_PORT_COM1 msg s = Some (0, s\<lparr>sio := sio s @ ev\<rparr>) \<and> sent SERIAL_PORT_COM1 ev = msg"
proof -
  obtain p ps where p: "sports s = p # ps" "sp_addr p = SERIAL_PORT_COM1" "available p" "\<not> spinlock_locked (write_lock p)"
    using assms(1) unfolding com1_up_def by blast
  have "serial_port_by_addr (sports s) SERIAL_PORT_COM1 = Some 0"
    using p by (simp add: serial_port_by_addr_def index_of_def upt_conv_Cons del: upt_Suc)
  moreover obtain ev where "write_loop hw fuel p msg (sio s) = Some (0, sio s @ ev)" "sent SERIAL_PORT_COM1 ev = msg"
    using write_loop_sends [of hw p fuel msg "sio s"] p assms(2) by auto
  ultimately show ?thesis using p by (auto simp: serial_write_def)
qed

text \<open>The first port takes the strings of an output, as \<^verbatim>\<open>__print\<close> hands them over; its results are not looked at.\<close>

fun wire_run :: "ports \<Rightarrow> nat \<Rightarrow> console \<Rightarrow> serial \<Rightarrow> serial option" where
  "wire_run hw fuel [] s = Some s"
| "wire_run hw fuel (Wire m # es) s = Option.bind (serial_write hw fuel SERIAL_PORT_COM1 m s) (\<lambda>(_, s1). wire_run hw fuel es s1)"
| "wire_run hw fuel (_ # es) s = wire_run hw fuel es s"

lemma wire_run_sends:
  assumes "com1_up s" and "uart_ready hw SERIAL_PORT_COM1 5 fuel"
  shows "\<exists>h. wire_run hw fuel ev s = Some (s\<lparr>sio := sio s @ h\<rparr>) \<and> sent SERIAL_PORT_COM1 h = wire_text ev"
  using assms(1)
proof (induction ev arbitrary: s rule: wire_text.induct)
  case 1
  then show ?case by (intro exI [of _ "[]"]) simp
next
  case (2 m es)
  obtain e where e: "serial_write hw fuel SERIAL_PORT_COM1 m s = Some (0, s\<lparr>sio := sio s @ e\<rparr>)" "sent SERIAL_PORT_COM1 e = m"
    using serial_write_com1 [OF "2.prems" assms(2)] by blast
  have "com1_up (s\<lparr>sio := sio s @ e\<rparr>)" using "2.prems" by (simp add: com1_up_def)
  from "2.IH" [OF this] obtain h where
    "wire_run hw fuel es (s\<lparr>sio := sio s @ e\<rparr>) = Some (s\<lparr>sio := (sio s @ e) @ h\<rparr>)" "sent SERIAL_PORT_COM1 h = wire_text es"
    by auto
  then show ?case using e by (intro exI [of _ "e @ h"]) simp
qed auto

section \<open>Initialisation and registration\<close>

definition uart_addr :: "u16 \<Rightarrow> bool" where
  "uart_addr a \<longleftrightarrow> a \<noteq> 0 \<and> a + 1 \<noteq> 0 \<and> a + 2 \<noteq> 0 \<and> a + 3 \<noteq> 0 \<and> a + 4 \<noteq> 0"

lemma serial_setup_run: "uart_addr a \<Longrightarrow> \<exists>ev. serial_setup a t = (True, t @ ev @ [Out8 a 0x42])"
  by (auto simp: serial_setup_def and_then_def out8_def uart_addr_def)

lemma serial_test_loopback:
  assumes "uart_addr a" and "\<And>t. reads8 hw (t @ [Out8 a 0x42]) a = 0x42 \<longleftrightarrow> present"
  shows "fst (serial_test hw a t) = present"
proof -
  obtain ev where "serial_setup a t = (True, (t @ ev) @ [Out8 a 0x42])" using serial_setup_run [OF assms(1)] by auto
  then show ?thesis using assms(1) assms(2) [of "t @ ev"]
    by (auto simp: serial_test_def in8_def out8_def uart_addr_def)
qed

lemma serial_enum_available:
  assumes "\<And>p t. p \<in> set ps \<Longrightarrow> reads8 hw (t @ [Out8 (sp_addr p) 0x42]) (sp_addr p) = 0x42 \<longleftrightarrow> sp_addr p \<in> A"
    and "\<And>p. p \<in> set ps \<Longrightarrow> uart_addr (sp_addr p) \<and> \<not> available p"
  shows "map available (fst (serial_enum hw ps t)) = map (\<lambda>p. sp_addr p \<in> A) ps \<and>
    map sp_addr (fst (serial_enum hw ps t)) = map sp_addr ps"
  using assms
proof (induction ps arbitrary: t)
  case (Cons p ps)
  have "fst (serial_test hw (sp_addr p) t) = (sp_addr p \<in> A)" using Cons.prems by (intro serial_test_loopback) auto
  moreover obtain ok t1 where "serial_test hw (sp_addr p) t = (ok, t1)" by fastforce
  moreover have "map available (fst (serial_enum hw ps t1)) = map (\<lambda>p. sp_addr p \<in> A) ps \<and>
      map sp_addr (fst (serial_enum hw ps t1)) = map sp_addr ps"
    using Cons by simp
  moreover have "\<not> available p" using Cons.prems by simp
  ultimately show ?case by (simp add: Let_def case_prod_beta)
qed simp

text \<open>The device numbers of a list of ports after the registration: the available ones count on from \<open>a\<close>.\<close>

fun numbered :: "int \<Rightarrow> serial_port list \<Rightarrow> serial_port list" where
  "numbered a [] = []"
| "numbered a (p # ps) = (if available p then p\<lparr>sp_dev := a\<rparr> # numbered (a + 1) ps else p # numbered a ps)"

definition next_dev :: "devfs_device list \<Rightarrow> int" where
  "next_dev devs = (if devs = [] then 1 else dev_addr (hd devs) + 1)"

lemma register_loop_numbered:
  assumes "distinct (map sp_name ps)" and "\<And>p. p \<in> set ps \<Longrightarrow> devfs_device_from_name devs (Some (sp_name p)) = None \<and> length (sp_name p) \<le> NAME_MAX"
    and "0 < next_dev devs"
  shows "\<exists>devs'. register_loop sops mode ps devs = (0, numbered (next_dev devs) ps, devs') \<and> 0 < next_dev devs' \<and>
    (\<forall>p \<in> set (numbered (next_dev devs) ps). available p \<longrightarrow> (\<exists>d \<in> set devs'. dev_name d = sp_name p \<and> dev_addr d = sp_dev p)) \<and>
    set devs \<subseteq> set devs'"
  using assms
proof (induction ps arbitrary: devs)
  case (Cons p ps)
  show ?case
  proof (cases "available p")
    case False
    then show ?thesis using Cons.IH [of devs] Cons.prems by auto
  next
    case True
    let ?d = "\<lparr>dev_name = sp_name p, dev_ops = sops, dev_mode = mode, dev_addr = next_dev devs\<rparr>"
    have r: "devfs_device_register devs (Some (sp_name p)) (Some sops) mode = (next_dev devs, ?d # devs)"
      using Cons.prems(2) [of p] by (simp add: devfs_device_register_def next_dev_def Let_def)
    have "devfs_device_from_name (?d # devs) (Some (sp_name q)) = None \<and> length (sp_name q) \<le> NAME_MAX" if "q \<in> set ps" for q
      using Cons.prems(1) Cons.prems(2) [of q] that by (auto simp: devfs_device_from_name_def)
    moreover have n: "next_dev (?d # devs) = next_dev devs + 1" by (simp add: next_dev_def)
    ultimately obtain devs' where "register_loop sops mode ps (?d # devs) = (0, numbered (next_dev devs + 1) ps, devs')" "0 < next_dev devs'"
      "\<forall>p \<in> set (numbered (next_dev devs + 1) ps). available p \<longrightarrow> (\<exists>d \<in> set devs'. dev_name d = sp_name p \<and> dev_addr d = sp_dev p)"
      "set (?d # devs) \<subseteq> set devs'"
      using Cons.IH [of "?d # devs"] Cons.prems(1,3) by auto
    then show ?thesis using True r Cons.prems(3) by (auto intro!: bexI [of _ ?d])
  qed
qed simp

lemma numbered_ge: "p \<in> set (numbered a ps) \<Longrightarrow> available p \<Longrightarrow> a \<le> sp_dev p"
  by (induction a ps rule: numbered.induct) (auto split: if_splits)

lemma numbered_other: "p \<in> set (numbered a ps) \<Longrightarrow> \<not> available p \<Longrightarrow> p \<in> set ps"
  by (induction a ps rule: numbered.induct) (auto split: if_splits)

lemma numbered_length [simp]: "length (numbered a ps) = length ps"
  by (induction a ps rule: numbered.induct) auto

lemma numbered_available [simp]: "map available (numbered a ps) = map available ps"
  by (induction a ps rule: numbered.induct) auto

lemma numbered_unique:
  assumes "\<forall>p \<in> set ps. \<not> available p \<longrightarrow> sp_dev p < a" and "i < length ps" and "j < length ps"
    and "available (numbered a ps ! i)" and "sp_dev (numbered a ps ! j) = sp_dev (numbered a ps ! i)"
  shows "j = i"
  using assms
proof (induction a ps arbitrary: i j rule: numbered.induct)
  case (2 a p ps)
  let ?b = "if available p then a + 1 else a"
  have n: "numbered a (p # ps) = (if available p then p\<lparr>sp_dev := a\<rparr> else p) # numbered ?b ps" by simp
  have b: "\<forall>q \<in> set ps. \<not> available q \<longrightarrow> sp_dev q < ?b" using "2.prems"(1) by auto
  have hd: "sp_dev (if available p then p\<lparr>sp_dev := a\<rparr> else p) < ?b" using "2.prems"(1) by auto
  have tl: "available (numbered ?b ps ! k) \<Longrightarrow> ?b \<le> sp_dev (numbered ?b ps ! k)"
    "\<not> available (numbered ?b ps ! k) \<Longrightarrow> sp_dev (numbered ?b ps ! k) < a" if "k < length ps" for k
    using that numbered_ge [of "numbered ?b ps ! k" ?b ps] numbered_other [of "numbered ?b ps ! k" ?b ps] "2.prems"(1) nth_mem [of k "numbered ?b ps"]
    by auto
  have IH: "i' < length ps \<Longrightarrow> j' < length ps \<Longrightarrow> available (numbered ?b ps ! i') \<Longrightarrow>
      sp_dev (numbered ?b ps ! j') = sp_dev (numbered ?b ps ! i') \<Longrightarrow> j' = i'" for i' j'
    using "2.IH" b by (cases "available p") auto
  show ?case
  proof (cases i)
    case i0: 0
    then show ?thesis using "2.prems" tl [of "j - 1"] unfolding n by (cases j) (auto split: if_splits)
  next
    case (Suc i')
    then show ?thesis using "2.prems" hd tl(1) [of i'] IH [of i' "j - 1"] unfolding n by (cases j) auto
  qed
qed simp

lemma find_index:
  assumes "i < length ps" and "P (ps ! i)" and "\<And>j. j < length ps \<Longrightarrow> P (ps ! j) \<Longrightarrow> j = i"
  shows "index_of P ps = Some i"
proof -
  have "find (\<lambda>i. P (ps ! i)) [0..<length ps] \<noteq> None" using assms(1,2) by (auto simp: find_None_iff)
  then obtain k where k: "find (\<lambda>i. P (ps ! i)) [0..<length ps] = Some k" by auto
  then have "k < length ps \<and> P (ps ! k)" by (auto simp: find_Some_iff)
  then show ?thesis using k assms(3) by (simp add: index_of_def)
qed

section \<open>Properties\<close>

text \<open>
  C33. A kernel message is on the wire: when the first serial port is there, its lock is free and the hardware
  takes a byte within the polls allowed, everything \<^verbatim>\<open>printk\<close> prints is sent over it byte by byte and in order, the
  level first.
\<close>

theorem printk_on_wire:
  assumes "0 \<notin> set fmt" and "render False fmt args = Some s" and "level \<noteq> KERN_DEBG \<or> dbg"
    and "com1_up w" and "uart_ready hw 0x3F8 5 fuel"
  shows "\<exists>ev h. printk dbg level (fmt @ [0]) args [] = Some (5 + length s, ev) \<and>
    wire_run hw fuel ev w = Some (w\<lparr>sio := sio w @ h\<rparr>) \<and> sent 0x3F8 h = snd (level_head level) @ 32 # s"
proof -
  obtain ev where ev: "printk dbg level (fmt @ [0]) args [] = Some (5 + length s, ev)" "wire_text ev = snd (level_head level) @ 32 # s"
    using printk_runs [OF assms(1-3), of "[]"] by auto
  show ?thesis using ev wire_run_sends [OF assms(4,5), of ev] by auto
qed

definition ready_uart :: ports where
  "ready_uart = \<lparr>reads8 = (\<lambda>t p. if p = 0x3FD then 0x20 else if t \<noteq> [] \<and> last t = Out8 p 0x42 \<and> p = 0x3F8 then 0x42 else 0xff),
     reads16 = (\<lambda>t p. 0), reads32 = (\<lambda>t p. 0)\<rparr>"

theorem printk_on_wire_witness:
  "\<exists>ev h. printk False KERN_WARN [37, 120, 0] [VInt 255] [] = Some (7, ev) \<and>
    wire_run ready_uart 1 ev \<lparr>sports = map (\<lambda>p. p\<lparr>available := True\<rparr>) serial_ports_init, sio = []\<rparr> =
      Some \<lparr>sports = map (\<lambda>p. p\<lparr>available := True\<rparr>) serial_ports_init, sio = h\<rparr> \<and>
    sent 0x3F8 h = [87, 65, 82, 78, 32, 70, 70]"
proof -
  have r: "render False [37, 120] [VInt 255] = Some [70, 70]" by (simp add: conv_text_def sample_digits)
  have b: "bit (0x20 :: u8) 5" by code_simp
  have u: "uart_ready ready_uart 0x3F8 5 1" by (simp add: uart_ready_def ready_uart_def b)
  have c: "com1_up \<lparr>sports = map (\<lambda>p. p\<lparr>available := True\<rparr>) serial_ports_init, sio = []\<rparr>"
    by (simp add: com1_up_def serial_ports_init_def spinlock_locked_def)
  show ?thesis using printk_on_wire [OF _ r _ c u, of KERN_WARN False] by simp
qed

text \<open>
  The initialisation finds the ports that are there: a port becomes available exactly when its hardware gives back the
  byte of the loopback test.
\<close>

theorem serial_init_finds_ports:
  assumes "\<And>p t. p \<in> set (sports s) \<Longrightarrow> reads8 hw (t @ [Out8 (sp_addr p) 0x42]) (sp_addr p) = 0x42 \<longleftrightarrow> sp_addr p \<in> A"
    and "sports s = serial_ports_init"
  shows "fst (serial_init hw s) = 0 \<and> map available (sports (snd (serial_init hw s))) = map (\<lambda>p. sp_addr p \<in> A) serial_ports_init \<and>
    map sp_addr (sports (snd (serial_init hw s))) = map sp_addr serial_ports_init"
proof -
  have "uart_addr (sp_addr p) \<and> \<not> available p" if "p \<in> set serial_ports_init" for p
    using that by (auto simp: serial_ports_init_def uart_addr_def)
  then show ?thesis using serial_enum_available [of "sports s" hw A "sio s"] assms
    by (auto simp: serial_init_def split: prod.splits)
qed

theorem serial_init_finds_ports_witness:
  "map available (sports (snd (serial_init ready_uart \<lparr>sports = serial_ports_init, sio = []\<rparr>))) = True # replicate 8 False"
proof -
  have "map available (sports (snd (serial_init ready_uart \<lparr>sports = serial_ports_init, sio = []\<rparr>))) =
      map (\<lambda>p. sp_addr p \<in> {0x3F8}) serial_ports_init"
    by (rule serial_init_finds_ports [THEN conjunct2, THEN conjunct1])
      (auto simp: ready_uart_def serial_ports_init_def)
  also have "\<dots> = True # replicate 8 False" by code_simp
  finally show ?thesis .
qed

text \<open>
  After the registration every available port is a device of its own: its name is a device with the address
  stored in the port, and that address leads back to the port.
\<close>

theorem serial_register_roundtrip:
  assumes "distinct (map sp_name (sports s))" and "\<forall>p \<in> set (sports s). length (sp_name p) \<le> 255" and "\<forall>p \<in> set (sports s). \<not> available p \<longrightarrow> sp_dev p = 0"
  shows "\<exists>s' devs. serial_register sops mode s [] = (0, s', devs) \<and> length (sports s') = length (sports s) \<and>
    (\<forall>i < length (sports s). available (sports s ! i) \<longrightarrow>
      serial_port_by_dev (sports s') (sp_dev (sports s' ! i)) = Some i \<and>
      (\<exists>d \<in> set devs. dev_name d = sp_name (sports s' ! i) \<and> dev_addr d = sp_dev (sports s' ! i)))"
proof -
  have n: "next_dev [] = 1" by (simp add: next_dev_def)
  let ?ps = "numbered 1 (sports s)"
  obtain devs where d: "register_loop sops mode (sports s) [] = (0, ?ps, devs)"
    "\<forall>p \<in> set ?ps. available p \<longrightarrow> (\<exists>d \<in> set devs. dev_name d = sp_name p \<and> dev_addr d = sp_dev p)"
    using register_loop_numbered [of "sports s" "[]" sops mode] assms(1,2) by (auto simp: n devfs_device_from_name_def)
  have a: "\<forall>p \<in> set (sports s). \<not> available p \<longrightarrow> sp_dev p < 1" using assms(3) by auto
  have av: "available (?ps ! i) = available (sports s ! i)" if "i < length (sports s)" for i
    using that numbered_available [of 1 "sports s"] by (metis nth_map numbered_length)
  have "serial_port_by_dev ?ps (sp_dev (?ps ! i)) = Some i" if "i < length (sports s)" "available (sports s ! i)" for i
    using that av [of i] numbered_unique [OF a, of i] unfolding serial_port_by_dev_def by (intro find_index) auto
  then show ?thesis using d av by (auto simp: serial_register_def)
qed

theorem serial_register_roundtrip_witness:
  "\<exists>s' devs. serial_register null_ops 0 \<lparr>sports = map (\<lambda>p. p\<lparr>available := True\<rparr>) serial_ports_init, sio = []\<rparr> [] = (0, s', devs) \<and>
    serial_port_by_dev (sports s') (sp_dev (sports s' ! 4)) = Some 4"
  using serial_register_roundtrip [of "\<lparr>sports = map (\<lambda>p. p\<lparr>available := True\<rparr>) serial_ports_init, sio = []\<rparr>" null_ops 0]
  by (fastforce simp: serial_ports_init_def)

end
