(* ===== verification/Tty.thy ===== *)
theory Tty
  imports Serial
begin

text \<open>
  Terminal devices, \<^verbatim>\<open>kernel/core/tty.c\<close>. The list of devices is a list with its head first; the operations of a
  driver are an argument, functions on a state \<open>'s\<close> of its own that get the address of the device.
  \<open>None\<close> is an access outside of a buffer or a lock that is not released.
\<close>

record 's tty_ops =
  t_open :: "u64 \<Rightarrow> 's \<Rightarrow> int \<times> 's"
  t_close :: "u64 \<Rightarrow> 's \<Rightarrow> int \<times> 's"
  t_read :: "u64 \<Rightarrow> u64 \<Rightarrow> u64 \<Rightarrow> 's \<Rightarrow> int \<times> u8 list \<times> 's"
  t_write :: "u64 \<Rightarrow> u64 \<Rightarrow> u64 \<Rightarrow> u8 list \<Rightarrow> 's \<Rightarrow> int \<times> 's"

record 's tty =
  t_addr :: u64
  t_name :: cstr
  t_dev :: int
  t_ops :: "'s tty_ops"
  t_lock :: u8

section \<open>Device operations\<close>

definition tty_find_by_inode :: "'s tty list \<Rightarrow> u64 \<Rightarrow> 's tty option" where
  "tty_find_by_inode ttys addr = find (\<lambda>t. (of_int (t_dev t) :: u64) = addr) ttys"

definition tty_find_by_name :: "'s tty list \<Rightarrow> cstr \<Rightarrow> 's tty option" where
  "tty_find_by_name ttys name = find (\<lambda>t. t_name t = name) ttys"

definition tty_open :: "'s tty list \<Rightarrow> u64 \<Rightarrow> 's \<Rightarrow> int \<times> 's" where
  "tty_open ttys addr w =
     (case tty_find_by_inode ttys addr of None \<Rightarrow> (- EFAULT, w) | Some t \<Rightarrow> t_open (t_ops t) (t_addr t) w)"

definition tty_close :: "'s tty list \<Rightarrow> u64 \<Rightarrow> 's \<Rightarrow> int \<times> 's" where
  "tty_close ttys addr w =
     (case tty_find_by_inode ttys addr of None \<Rightarrow> (- EFAULT, w) | Some t \<Rightarrow> t_close (t_ops t) (t_addr t) w)"

definition set_lock :: "'s tty \<Rightarrow> u8 \<Rightarrow> 's tty list \<Rightarrow> 's tty list" where
  "set_lock t lk = map (\<lambda>c. if t_addr c = t_addr t then c\<lparr>t_lock := lk\<rparr> else c)"

definition tty_read :: "'s tty list \<Rightarrow> u64 \<Rightarrow> u64 \<Rightarrow> u64 \<Rightarrow> 's \<Rightarrow> (int \<times> u8 list \<times> 's tty list \<times> 's) option" where
  "tty_read ttys addr off sz w =
     (case tty_find_by_inode ttys addr of None \<Rightarrow> Some (- EFAULT, [], ttys, w)
      | Some t \<Rightarrow> Option.bind (spinlock_acquire (t_lock t)) (\<lambda>lk.
          case t_read (t_ops t) (t_addr t) off sz w of (ret, bs, w1) \<Rightarrow>
            Some (ret, bs, set_lock t (spinlock_release lk) (set_lock t lk ttys), w1)))"

definition tty_write :: "'s tty list \<Rightarrow> u64 \<Rightarrow> u64 \<Rightarrow> u64 \<Rightarrow> u8 list \<Rightarrow> 's \<Rightarrow> (int \<times> 's tty list \<times> 's) option" where
  "tty_write ttys addr off sz bs w =
     (case tty_find_by_inode ttys addr of None \<Rightarrow> Some (- EFAULT, ttys, w)
      | Some t \<Rightarrow> Option.bind (spinlock_acquire (t_lock t)) (\<lambda>lk.
          case t_write (t_ops t) (t_addr t) off sz bs w of (ret, w1) \<Rightarrow>
            Some (ret, set_lock t (spinlock_release lk) (set_lock t lk ttys), w1)))"

section \<open>Registration\<close>

text \<open>
  \<^verbatim>\<open>__tty_lookup_name\<close> for a buffer of at least \<^verbatim>\<open>NAME_MAX\<close> bytes: \<open>sfx\<close> is the stack garbage in \<^verbatim>\<open>suffix\<close>. \<^verbatim>\<open>memcpy\<close> returns the end of what it
  copied, so \<^verbatim>\<open>name\<close> points behind the prefix from then on, also when the name is looked up.
\<close>

function lookup_loop :: "'s tty list \<Rightarrow> nat \<Rightarrow> buf \<Rightarrow> buf \<Rightarrow> nat \<Rightarrow> (int \<times> buf) option" where
  "lookup_loop ttys p b sfx num =
     (if num \<ge> 254 then Some (- ERANGE, b)
      else Option.bind (itou (of_nat num) (Some sfx)) (\<lambda>(_, s).
        Option.bind (memcpy b (Some p) s 3) (\<lambda>(_, b1).
        Option.bind (strlen_loop (drop p b1)) (\<lambda>n.
        if tty_find_by_name ttys (take n (drop p b1)) = None then Some (0, b1)
        else lookup_loop ttys p b1 (the s) (num + 1)))))"
  by pat_completeness auto
termination by (relation "measure (\<lambda>(ttys, p, b, sfx, num). 254 - num)") auto

declare lookup_loop.simps [simp del]

definition tty_lookup_name :: "'s tty list \<Rightarrow> buf \<Rightarrow> buf option \<Rightarrow> (int \<times> buf option) option" where
  "tty_lookup_name ttys sfx name =
     (case name of None \<Rightarrow> Some (- EINVAL, None)
      | Some b \<Rightarrow> Option.bind (bzero b (Some 0) (int NAME_MAX)) (\<lambda>(_, b1).
          Option.bind (memcpy b1 (Some 0) (Some [116, 116, 121]) 3) (\<lambda>(p, b2).
          map_option (\<lambda>(e, b3). (e, Some b3)) (lookup_loop ttys (the p) b2 sfx 0))))"

text \<open>
  \<^verbatim>\<open>tty_register\<close>: \<open>addr\<close> is what the allocation gives, \<open>dops\<close> are the operations above as devfs knows them, \<open>mode\<close> is
  \<^verbatim>\<open>MODE_USRR | MODE_USRW\<close>. The result is the returned pointer, the list of devices and the devices of devfs.
\<close>

definition tty_register :: "u64 \<Rightarrow> buf \<Rightarrow> devfs_ops \<Rightarrow> u32 \<Rightarrow> 's tty_ops option \<Rightarrow> cstr option \<Rightarrow> 's tty list \<times> devfs_device list \<Rightarrow>
    (u64 \<times> 's tty list \<times> devfs_device list) option" where
  "tty_register addr sfx dops mode tops name s =
     (case tops of None \<Rightarrow> Some (0, s)
      | Some o1 \<Rightarrow>
          if addr = 0 then Some (0, s)
          else Option.bind (case name of None \<Rightarrow> map_option (\<lambda>(e, _). (e, [])) (tty_lookup_name (fst s) sfx None)
                            | Some n \<Rightarrow> Some (0, take NAME_MAX n)) (\<lambda>(err, n).
            if err \<noteq> 0 then Some (0, s)
            else case devfs_device_register (snd s) (Some n) (Some dops) mode of (dev, devs) \<Rightarrow>
              if dev < 0 then Some (0, fst s, devs)
              else Some (0, \<lparr>t_addr = addr, t_name = n, t_dev = dev, t_ops = o1, t_lock = 0\<rparr> # fst s, devs)))"

definition tty_unregister :: "cstr \<Rightarrow> int" where
  "tty_unregister name = - ENOSYS"

section \<open>Lemmas\<close>

text \<open>Every device has its own place and number, and nobody holds a lock between two calls.\<close>

definition ttys_inv :: "'s tty list \<Rightarrow> devfs_device list \<Rightarrow> bool" where
  "ttys_inv ttys devs \<longleftrightarrow> distinct (map t_addr ttys) \<and> distinct (map t_dev ttys) \<and> (\<forall>t \<in> set ttys. t_lock t = 0 \<and> t_addr t \<noteq> 0) \<and>
     (\<forall>t \<in> set ttys. 0 < t_dev t \<and> t_dev t < next_dev devs)"

lemma set_lock_release: "\<forall>t \<in> set ttys. t_lock t = 0 \<Longrightarrow> set_lock t 0 (set_lock t lk ttys) = ttys"
  by (auto simp: set_lock_def intro!: map_idI)

lemma lock_free: "spinlock_acquire 0 = Some 1"
  by (simp add: spinlock_acquire_def spinlock_locked_def set_bit_0)

lemma find_by_inode_mem: "tty_find_by_inode ttys addr = Some t \<Longrightarrow> t \<in> set ttys"
  by (auto simp: tty_find_by_inode_def find_Some_iff)

lemma tty_read_run:
  assumes "ttys_inv ttys devs" and "tty_find_by_inode ttys addr = Some t"
  shows "tty_read ttys addr off sz w =
    (case t_read (t_ops t) (t_addr t) off sz w of (ret, bs, w1) \<Rightarrow> Some (ret, bs, ttys, w1))"
  using assms find_by_inode_mem [OF assms(2)]
  by (auto simp: tty_read_def ttys_inv_def lock_free spinlock_release_def set_lock_release split: prod.splits)

lemma tty_write_run:
  assumes "ttys_inv ttys devs" and "tty_find_by_inode ttys addr = Some t"
  shows "tty_write ttys addr off sz bs w =
    (case t_write (t_ops t) (t_addr t) off sz bs w of (ret, w1) \<Rightarrow> Some (ret, ttys, w1))"
  using assms find_by_inode_mem [OF assms(2)]
  by (auto simp: tty_write_def ttys_inv_def lock_free spinlock_release_def set_lock_release split: prod.splits)

lemma tty_register_run:
  assumes "addr \<noteq> 0" and "devfs_device_from_name devs (Some (take NAME_MAX n)) = None" and "0 < next_dev devs"
  shows "\<exists>devs'. tty_register addr sfx dops mode (Some p) (Some n) (ttys, devs) =
    Some (0, \<lparr>t_addr = addr, t_name = take NAME_MAX n, t_dev = next_dev devs, t_ops = p, t_lock = 0\<rparr> # ttys, devs') \<and>
    next_dev devs' = next_dev devs + 1"
  using assms by (auto simp: tty_register_def devfs_device_register_def next_dev_def Let_def)

lemma dev_of_int: "0 < a \<Longrightarrow> a < 2 ^ 31 \<Longrightarrow> 0 < b \<Longrightarrow> b < 2 ^ 31 \<Longrightarrow> ((of_int a :: u64) = of_int b) = (a = b)"
  by (simp add: word_of_int_eq_iff take_bit_int_eq_self)

section \<open>Properties\<close>

text \<open>
  Registering a terminal under a free name works: the device gets the next number of devfs, its open, close, read
  and write go to the operations of its driver, reading and writing leave every lock free, the older
  terminals keep theirs, and the invariant of the list holds again. The pointer returned is NULL all the same.
\<close>

theorem tty_register_dispatches:
  assumes "ttys_inv ttys devs" and "addr \<noteq> 0" and "addr \<notin> t_addr ` set ttys"
    and "devfs_device_from_name devs (Some (take 255 n)) = None" and "0 < next_dev devs" and "next_dev devs < 2 ^ 31"
  shows "\<exists>ttys' devs'. tty_register addr sfx dops mode (Some p) (Some n) (ttys, devs) = Some (0, ttys', devs') \<and>
    ttys_inv ttys' devs' \<and>
    (let i = of_int (next_dev devs) in
      tty_open ttys' i w = t_open p addr w \<and> tty_close ttys' i w = t_close p addr w \<and>
      tty_read ttys' i off sz w = (case t_read p addr off sz w of (r, bs, w1) \<Rightarrow> Some (r, bs, ttys', w1)) \<and>
      tty_write ttys' i off sz buf w = (case t_write p addr off sz buf w of (r, w1) \<Rightarrow> Some (r, ttys', w1))) \<and>
    (\<forall>t \<in> set ttys. tty_find_by_inode ttys' (of_int (t_dev t)) = tty_find_by_inode ttys (of_int (t_dev t)))"
proof -
  let ?t = "\<lparr>t_addr = addr, t_name = take 255 n, t_dev = next_dev devs, t_ops = p, t_lock = 0\<rparr>"
  obtain devs' where r: "tty_register addr sfx dops mode (Some p) (Some n) (ttys, devs) = Some (0, ?t # ttys, devs')"
    "next_dev devs' = next_dev devs + 1"
    using tty_register_run [OF assms(2,4,5)] by blast
  have inv: "ttys_inv (?t # ttys) devs'" using assms r(2) by (fastforce simp: ttys_inv_def)
  have f: "tty_find_by_inode (?t # ttys) (of_int (next_dev devs)) = Some ?t" by (simp add: tty_find_by_inode_def)
  have old: "tty_find_by_inode (?t # ttys) (of_int (t_dev t)) = tty_find_by_inode ttys (of_int (t_dev t))" if "t \<in> set ttys" for t
  proof -
    have "0 < t_dev t" "t_dev t < next_dev devs" using assms(1) that by (auto simp: ttys_inv_def)
    then have "(of_int (next_dev devs) :: u64) \<noteq> of_int (t_dev t)"
      using assms(5,6) dev_of_int [of "next_dev devs" "t_dev t"] by simp
    then show ?thesis by (simp add: tty_find_by_inode_def)
  qed
  show ?thesis using r(1) inv old tty_read_run [OF inv f] tty_write_run [OF inv f]
    by (intro exI [of _ "?t # ttys"] exI [of _ devs']) (simp add: tty_open_def tty_close_def f)
qed

definition echo_ops :: "u8 list tty_ops" where
  "echo_ops = \<lparr>t_open = (\<lambda>_ w. (0, w)), t_close = (\<lambda>_ w. (0, w)), t_read = (\<lambda>_ _ sz w. (int (length w), w, [])),
     t_write = (\<lambda>_ _ sz bs w. (int (length bs), w @ bs))\<rparr>"

theorem tty_register_dispatches_witness:
  "\<exists>ttys' devs'. tty_register 64 [0, 0, 0] null_ops 0 (Some echo_ops) (Some [116, 48]) ([], []) = Some (0, ttys', devs') \<and>
    tty_write ttys' 1 0 2 [104, 105] [] = Some (2, ttys', [104, 105])"
  using tty_register_dispatches [of "[]" "[]" 64 "[116, 48]" "[0, 0, 0]" null_ops 0 echo_ops "[]" 0 2 "[104, 105]"]
  by (auto simp: ttys_inv_def devfs_device_from_name_def next_dev_def echo_ops_def Let_def)

text \<open>
  A terminal cannot be registered without a name: the search for a free one is given the null pointer it was meant to
  replace, so nothing is registered.
\<close>

theorem tty_register_without_name:
  "tty_register addr sfx dops mode tops None s = Some (0, s)"
  by (auto simp: tty_register_def tty_lookup_name_def split: option.splits)

end
