(* ===== verification/Irq.thy ===== *)
theory Irq
  imports Klist Io "HOL-Library.Monad_Syntax" "HOL-Library.Multiset"
begin

text \<open>
  Interrupts: the interrupt manager, \<^verbatim>\<open>kernel/core/im/im.c\<close>, and the programmable interrupt controller,
  \<^verbatim>\<open>kernel/core/pic.c\<close>. The handler list is the doubly linked list of \<open>Klist\<close>; a handler function is known
  by its address. What \<^verbatim>\<open>heap_alloc\<close> returns for an entry is an argument, and \<open>None\<close> is the use of a null
  pointer or the end of the fuel of a walk. The controller is reached through the ports of \<open>Io\<close>.
\<close>

section \<open>The interrupt manager\<close>

record im_desc =
  address_low :: u16
  selector :: u16
  ist :: u8
  attr :: u8
  address_mid :: u16
  address_high :: u32

record im_handler_entry =
  func :: u64
  hprio :: nat
  vector :: u8
  is_enabled :: bool

record im_handler =
  handler_count :: u64
  handler_list :: dlist
  handler_entries :: "u64 \<Rightarrow> im_handler_entry"

abbreviation (input) IM_HANDLER_PRIO_FIRST :: nat where "IM_HANDLER_PRIO_FIRST \<equiv> 0"
abbreviation (input) IM_HANDLER_PRIO_LAST :: nat where "IM_HANDLER_PRIO_LAST \<equiv> 2"
abbreviation (input) IM_INT_EXCEPTIONS :: nat where "IM_INT_EXCEPTIONS \<equiv> 32"

text \<open>
  \<^verbatim>\<open>im_handle\<close>: the handlers it calls, in order, one walk from the tail for every priority. The list is
  taken as it is when the interrupt comes in.
\<close>

definition im_handle :: "nat \<Rightarrow> im_handler \<Rightarrow> u64 \<Rightarrow> u64 list option" where
  "im_handle fuel im vec =
     map_option (\<lambda>as. concat (map (\<lambda>i. map (\<lambda>a. func (handler_entries im a))
         (filter (\<lambda>a. hprio (handler_entries im a) = i \<and> ucast (vector (handler_entries im a)) = vec) as))
         [IM_HANDLER_PRIO_FIRST ..< IM_HANDLER_PRIO_LAST + 1]))
       (slist_walk fuel (dl_prev (handler_list im)) (dl_tail (handler_list im)))"

definition im_set_entry :: "u16 \<Rightarrow> u8 \<Rightarrow> im_desc \<Rightarrow> im_desc" where
  "im_set_entry code_sel dpl d = d\<lparr>selector := code_sel, attr := push_bit 7 1 OR push_bit 5 (dpl AND 3) OR 0xE, ist := 0\<rparr>"

text \<open>The loop of \<^verbatim>\<open>im_init\<close> over the descriptors: \<open>addr\<close> and \<open>sz\<close> place the entry code of the vectors.\<close>

definition im_desc_init :: "u16 \<Rightarrow> u64 \<Rightarrow> u64 \<Rightarrow> nat \<Rightarrow> im_desc \<Rightarrow> im_desc" where
  "im_desc_init code_sel addr sz i d =
     (let a = addr + sz * of_nat i in
      im_set_entry code_sel 0 (d\<lparr>address_low := ucast (a AND 0xffff), address_mid := ucast (drop_bit 16 a AND 0xffff),
        address_high := ucast (drop_bit 32 a AND 0xffffffff)\<rparr>))"

definition entry_is :: "u8 \<Rightarrow> u64 \<Rightarrow> im_handler_entry \<Rightarrow> bool" where
  "entry_is vec handler e \<longleftrightarrow> vector e = vec \<and> func e = handler"

definition im_add_handler :: "nat \<Rightarrow> u64 \<Rightarrow> u8 \<Rightarrow> nat \<Rightarrow> u64 \<Rightarrow> im_handler \<Rightarrow> im_handler option" where
  "im_add_handler fuel addr vec prio handler im =
     (if handler = 0 then Some im
      else do {
        as \<leftarrow> slist_walk fuel (dl_next (handler_list im)) (dl_head (handler_list im));
        if \<exists>a \<in> set as. entry_is vec handler (handler_entries im a) then Some im
        else if addr = 0 then None
        else
          let l = (handler_list im)\<lparr>dl_next := (dl_next (handler_list im))(addr := 0)\<rparr>;
              e = (handler_entries im addr)\<lparr>vector := vec, func := handler, hprio := prio\<rparr>
          in Some (im\<lparr>handler_entries := (handler_entries im)(addr := e), handler_list := dlist_add l addr,
               handler_count := handler_count im + 1\<rparr>) })"

definition im_del_handler :: "nat \<Rightarrow> u8 \<Rightarrow> u64 \<Rightarrow> im_handler \<Rightarrow> im_handler option" where
  "im_del_handler fuel vec handler im =
     (if handler = 0 then Some im
      else if dl_head (handler_list im) = 0 \<or> handler_count im = 0 then Some im
      else do {
        as \<leftarrow> slist_walk fuel (dl_next (handler_list im)) (dl_head (handler_list im));
        case find (\<lambda>a. entry_is vec handler (handler_entries im a)) as of
          None \<Rightarrow> Some im
        | Some entry \<Rightarrow> do {
            l \<leftarrow> dlist_del fuel (handler_list im) entry;
            Some (im\<lparr>handler_list := l, handler_count := handler_count im - 1\<rparr>) } })"

definition set_enabled :: "bool \<Rightarrow> nat \<Rightarrow> u8 \<Rightarrow> u64 \<Rightarrow> im_handler \<Rightarrow> im_handler option" where
  "set_enabled b fuel vec handler im = do {
     as \<leftarrow> slist_walk fuel (dl_next (handler_list im)) (dl_head (handler_list im));
     Some (im\<lparr>handler_entries := (\<lambda>a. if a \<in> set as \<and> entry_is vec handler (handler_entries im a)
            then (handler_entries im a)\<lparr>is_enabled := b\<rparr> else handler_entries im a)\<rparr>) }"

definition im_disable_handler :: "nat \<Rightarrow> u8 \<Rightarrow> u64 \<Rightarrow> im_handler \<Rightarrow> im_handler option" where
  "im_disable_handler = set_enabled False"

definition im_enable_handler :: "nat \<Rightarrow> u8 \<Rightarrow> u64 \<Rightarrow> im_handler \<Rightarrow> im_handler option" where
  "im_enable_handler = set_enabled True"

text \<open>
  \<^verbatim>\<open>im_init\<close> with the descriptor table \<open>idt\<close> and the page \<open>stk\<close> that \<^verbatim>\<open>vmm_map\<close> gives for the interrupt stack: the
  table, the empty handler list and the stack pointer of the task state segment. \<open>None\<close> is the panic.
\<close>

definition im_init :: "u16 \<Rightarrow> u64 \<Rightarrow> u64 \<Rightarrow> u64 \<Rightarrow> im_desc list \<Rightarrow> im_handler \<Rightarrow> (im_desc list \<times> im_handler \<times> u64) option" where
  "im_init code_sel wrapper_addr wrapper_size stk idt im =
     (if stk = 0 then None
      else Some (map (\<lambda>i. im_desc_init code_sel wrapper_addr wrapper_size i (idt ! i)) [0..<length idt],
        im\<lparr>handler_count := 0, handler_list := (handler_list im)\<lparr>dl_head := 0, dl_tail := 0\<rparr>\<rparr>, stk + 0x1000))"

text \<open>
  \<^verbatim>\<open>im_enable\<close> and \<^verbatim>\<open>im_stack\<close>, on the part of the processor they touch: the descriptor table register, the task register and the
  interrupt flag. \<open>idtr\<close> are the size and the address of the table, \<open>tss_sel\<close> is the selector of the task state segment.
\<close>

record im_cpu =
  cpu_idtr :: "u16 \<times> u64"
  cpu_tr :: u16
  cpu_if :: bool

definition im_enable :: "u16 \<times> u64 \<Rightarrow> u16 \<Rightarrow> im_cpu \<Rightarrow> im_cpu" where
  "im_enable idtr tss_sel c = c\<lparr>cpu_idtr := idtr, cpu_tr := tss_sel, cpu_if := True\<rparr>"

definition im_stack :: "im_desc list \<times> im_handler \<times> u64 \<Rightarrow> u64" where
  "im_stack im = (case im of (_, _, rsp0) \<Rightarrow> rsp0)"

section \<open>The interrupt controller\<close>

abbreviation (input) PIC_MASTER_COMM :: u16 where "PIC_MASTER_COMM \<equiv> 0x20"
abbreviation (input) PIC_MASTER_DATA :: u16 where "PIC_MASTER_DATA \<equiv> 0x21"
abbreviation (input) PIC_SLAVE_COMM :: u16 where "PIC_SLAVE_COMM \<equiv> 0xA0"
abbreviation (input) PIC_SLAVE_DATA :: u16 where "PIC_SLAVE_DATA \<equiv> 0xA1"
abbreviation (input) PIC_IRQ_MAX :: nat where "PIC_IRQ_MAX \<equiv> 7"

definition PIC_IRQ_TOTAL :: nat where
  "PIC_IRQ_TOTAL = (2 - 1) * (PIC_IRQ_MAX + 1) + ((PIC_IRQ_MAX + 1) - (2 - 1))"

definition pic_to_int :: "nat \<Rightarrow> nat" where
  "pic_to_int i = i + IM_INT_EXCEPTIONS"

definition pic_to_irq :: "u64 \<Rightarrow> u64" where
  "pic_to_irq i = i - of_nat IM_INT_EXCEPTIONS"

definition pic_mask :: "ports \<Rightarrow> nat \<Rightarrow> bool io" where
  "pic_mask hw i t =
     (if i > PIC_IRQ_TOTAL then (False, t)
      else let port = (if i > PIC_IRQ_MAX then PIC_SLAVE_DATA else PIC_MASTER_DATA); (val, t1) = in8 hw port t
           in out8_wait port (ucast ((ucast val :: u32) OR push_bit i 1)) t1)"

definition pic_unmask :: "ports \<Rightarrow> nat \<Rightarrow> bool io" where
  "pic_unmask hw i t =
     (if i > PIC_IRQ_TOTAL then (False, t)
      else let port = (if i > PIC_IRQ_MAX then PIC_SLAVE_DATA else PIC_MASTER_DATA); (val, t1) = in8 hw port t
           in out8_wait port (ucast ((ucast val :: u32) AND NOT (push_bit i 1))) t1)"

definition pic_eoi :: "nat \<Rightarrow> bool io" where
  "pic_eoi i = (if i > PIC_IRQ_MAX then out8_wait PIC_SLAVE_COMM 0x20 else out8_wait PIC_MASTER_COMM 0x20)"

definition pic_out8_all :: "bool \<Rightarrow> u8 \<Rightarrow> bool io" where
  "pic_out8_all comm val =
     and_then (out8_wait (if comm then PIC_MASTER_COMM else PIC_MASTER_DATA) val)
       (out8_wait (if comm then PIC_SLAVE_COMM else PIC_SLAVE_DATA) val)"

text \<open>\<^verbatim>\<open>__pic_handler_default\<close>: \<open>None\<close> is the panic when the signal cannot be sent.\<close>

definition pic_handler_default :: "u64 \<Rightarrow> history \<Rightarrow> history option" where
  "pic_handler_default vec t =
     (case pic_eoi (unat (ucast (pic_to_irq vec) :: u32)) t of (ok, t1) \<Rightarrow> if ok then Some t1 else None)"

definition pic_disable :: "bool io" where
  "pic_disable = pic_out8_all False 0xff"

definition pic_enable :: "bool io" where
  "pic_enable = pic_out8_all False 0"

text \<open>The initialisation words of \<^verbatim>\<open>pic_init\<close>, and the default handlers it installs behind them.\<close>

definition pic_init_words :: "bool io" where
  "pic_init_words =
     and_then (pic_out8_all True (1 OR push_bit 4 1))
       (and_then (out8_wait PIC_MASTER_DATA (of_nat (IM_INT_EXCEPTIONS div 8 * 8)))
         (and_then (out8_wait PIC_SLAVE_DATA (of_nat ((IM_INT_EXCEPTIONS div 8 + (PIC_IRQ_MAX + 1) div 8) * 8)))
           (and_then (out8_wait PIC_MASTER_DATA (push_bit 2 1))
             (and_then (out8_wait PIC_SLAVE_DATA 2) (pic_out8_all False 1)))))"

fun upto_option :: "(nat \<Rightarrow> 's \<Rightarrow> 's option) \<Rightarrow> nat \<Rightarrow> 's \<Rightarrow> 's option" where
  "upto_option f 0 s = Some s"
| "upto_option f (Suc i) s = Option.bind (upto_option f i s) (f i)"

definition add_defaults :: "nat \<Rightarrow> (nat \<Rightarrow> u64) \<Rightarrow> u64 \<Rightarrow> nat \<Rightarrow> im_handler \<Rightarrow> im_handler option" where
  "add_defaults fuel addrs handler =
     upto_option (\<lambda>i. im_add_handler fuel (addrs i) (of_nat (pic_to_int i)) IM_HANDLER_PRIO_LAST handler)"

definition pic_init :: "nat \<Rightarrow> (nat \<Rightarrow> u64) \<Rightarrow> u64 \<Rightarrow> history \<times> im_handler \<Rightarrow> (bool \<times> history \<times> im_handler) option" where
  "pic_init fuel addrs handler s =
     (case pic_init_words (fst s) of (ok, t1) \<Rightarrow>
        if ok then map_option (\<lambda>im'. (True, t1, im')) (add_defaults fuel addrs handler PIC_IRQ_TOTAL (snd s))
        else Some (False, t1, snd s))"

section \<open>The handler list\<close>

text \<open>\<open>xs\<close> are the entries in registration order, linked both ways.\<close>

definition im_rep :: "im_handler \<Rightarrow> u64 list \<Rightarrow> bool" where
  "im_rep im xs \<longleftrightarrow> chain (dl_next (handler_list im)) (dl_head (handler_list im)) xs \<and>
     chain (dl_prev (handler_list im)) (dl_tail (handler_list im)) (rev xs)"

lemma im_rep_distinct: "im_rep im xs \<Longrightarrow> distinct xs \<and> 0 \<notin> set xs"
  using chain_distinct chain_nonzero by (auto simp: im_rep_def)

lemma dlist_add_rep:
  assumes "chain (dl_next l) (dl_head l) xs" and "chain (dl_prev l) (dl_tail l) (rev xs)"
    and "a \<noteq> 0" and "a \<notin> set xs" and "dl_next l a = 0"
  shows "chain (dl_next (dlist_add l a)) (dl_head (dlist_add l a)) (xs @ [a]) \<and>
    chain (dl_prev (dlist_add l a)) (dl_tail (dlist_add l a)) (a # rev xs)"
proof (cases xs rule: rev_cases)
  case Nil
  then show ?thesis using assms by (simp add: dlist_add_def)
next
  case (snoc ys y)
  then have t: "dl_tail l = y" "y \<noteq> 0" using assms(2) by auto
  have "chain ((dl_next l)(y := a)) (dl_head l) (ys @ y # [a])"
    using assms(1,3-5) snoc chain_append_upd [of "dl_next l" "dl_head l" ys y a "[a]"] by auto
  moreover have "chain ((dl_prev l)(a := y)) a (a # rev xs)" using assms(2-4) t by simp
  ultimately show ?thesis using t snoc by (simp add: dlist_add_def)
qed

text \<open>One pass per key over a list is a stable sort by the key.\<close>

definition passes :: "('a \<Rightarrow> nat) \<Rightarrow> 'a list \<Rightarrow> nat \<Rightarrow> 'a list" where
  "passes k xs n = concat (map (\<lambda>i. filter (\<lambda>x. k x = i) xs) [0..<n])"

lemma passes_Suc [simp]: "passes k xs 0 = []" "passes k xs (Suc n) = passes k xs n @ filter (\<lambda>x. k x = n) xs"
  by (simp_all add: passes_def)

lemma passes_set: "set (passes k xs n) = {x \<in> set xs. k x < n}"
  by (induction n) (auto simp: less_Suc_eq)

lemma passes_mset: "mset (passes k xs n) = mset (filter (\<lambda>x. k x < n) xs)"
proof (induction n)
  case (Suc n)
  have "mset (filter (\<lambda>x. k x < Suc n) xs) = mset (filter (\<lambda>x. k x < n) xs) + mset (filter (\<lambda>x. k x = n) xs)"
    by (induction xs) (auto simp: less_Suc_eq)
  then show ?case using Suc by simp
qed simp

lemma passes_filter: "filter (\<lambda>x. k x = c) (passes k xs n) = (if c < n then filter (\<lambda>x. k x = c) xs else [])"
proof (induction n)
  case (Suc n)
  have "filter (\<lambda>x. k x = c) (filter (\<lambda>x. k x = n) xs) = (if c = n then filter (\<lambda>x. k x = c) xs else [])"
    by (induction xs) auto
  then show ?case using Suc by (simp add: less_Suc_eq)
qed simp

lemma passes_sorted: "sorted (map k (passes k xs n))"
proof (induction n)
  case (Suc n)
  have "\<forall>x \<in> set (passes k xs n). k x < n" by (simp add: passes_set)
  moreover have "sorted (map k (filter (\<lambda>x. k x = n) xs))" by (induction xs) auto
  ultimately show ?case using Suc by (auto simp: sorted_append less_imp_le)
qed simp

lemma passes_sort:
  assumes "\<forall>x \<in> set xs. k x < n"
  shows "passes k xs n = sort_key k xs"
proof (rule sym, rule properties_for_sort_key)
  show "mset (passes k xs n) = mset xs" using assms passes_mset [of k xs n] by (simp add: filter_True)
  show "filter (\<lambda>x. k c = k x) (passes k xs n) = filter (\<lambda>x. k c = k x) xs" if "c \<in> set (passes k xs n)" for c
    using that passes_filter [of k "k c" xs n] by (simp add: passes_set eq_commute [of "k c"])
  show "sorted (map k (passes k xs n))" by (rule passes_sorted)
qed

lemma im_handle_sorted:
  assumes "im_rep im xs" and "\<forall>a \<in> set xs. hprio (handler_entries im a) \<le> IM_HANDLER_PRIO_LAST" and "length xs < fuel"
  shows "im_handle fuel im vec = Some (map (\<lambda>a. func (handler_entries im a))
    (sort_key (\<lambda>a. hprio (handler_entries im a)) (filter (\<lambda>a. ucast (vector (handler_entries im a)) = vec) (rev xs))))"
proof -
  let ?k = "\<lambda>a. hprio (handler_entries im a)" and ?P = "\<lambda>a. ucast (vector (handler_entries im a)) = vec"
  have w: "slist_walk fuel (dl_prev (handler_list im)) (dl_tail (handler_list im)) = Some (rev xs)"
    using assms(1,3) by (intro slist_walk_chain) (simp_all add: im_rep_def)
  have f: "filter (\<lambda>a. ?k a = i \<and> ?P a) (rev xs) = filter (\<lambda>a. ?k a = i) (filter ?P (rev xs))" for i
    by (simp add: conj_commute)
  have "im_handle fuel im vec = Some (map (\<lambda>a. func (handler_entries im a)) (passes ?k (filter ?P (rev xs)) 3))"
    unfolding im_handle_def w f passes_def by (simp add: map_concat comp_def numeral_3_eq_3 conj_commute)
  also have "passes ?k (filter ?P (rev xs)) 3 = sort_key ?k (filter ?P (rev xs))"
    using assms(2) by (intro passes_sort) (auto simp: less_Suc_eq_le numeral_3_eq_3 numeral_2_eq_2)
  finally show ?thesis .
qed

text \<open>
  A table of handlers, seen as the places \<open>as\<close> and the registrations \<open>rs\<close> it holds: a new pair of vector and
  function goes behind the others, a known one changes nothing.
\<close>

type_synonym registration = "u8 \<times> nat \<times> u64"

locale handler_table =
  fixes reg :: "u64 \<Rightarrow> u8 \<Rightarrow> nat \<Rightarrow> u64 \<Rightarrow> 's \<Rightarrow> 's option"
    and holds :: "'s \<Rightarrow> u64 list \<Rightarrow> registration list \<Rightarrow> bool"
    and cap :: nat
  assumes reg_new: "holds s as rs \<Longrightarrow> h \<noteq> 0 \<Longrightarrow> a \<noteq> 0 \<Longrightarrow> a \<notin> set as \<Longrightarrow> length as < cap \<Longrightarrow>
      (\<And>p'. (v, p', h) \<notin> set rs) \<Longrightarrow> \<exists>s'. reg a v p h s = Some s' \<and> holds s' (as @ [a]) (rs @ [(v, p, h)])"
begin

lemma reg_upto:
  assumes "holds s as rs" and "h \<noteq> 0" and "\<And>i. i < n \<Longrightarrow> addr i \<noteq> 0" and "distinct (as @ map addr [0..<n])"
    and "length as + n \<le> cap" and "inj_on v {..<n}" and "\<And>i p'. i < n \<Longrightarrow> (v i, p', h) \<notin> set rs"
  shows "\<exists>s'. upto_option (\<lambda>i. reg (addr i) (v i) p h) n s = Some s' \<and>
    holds s' (as @ map addr [0..<n]) (rs @ map (\<lambda>i. (v i, p, h)) [0..<n])"
  using assms
proof (induction n)
  case (Suc n)
  have "inj_on v {..<n}" using Suc.prems(6) by (rule inj_on_subset) auto
  then obtain s1 where s1: "upto_option (\<lambda>i. reg (addr i) (v i) p h) n s = Some s1"
    "holds s1 (as @ map addr [0..<n]) (rs @ map (\<lambda>i. (v i, p, h)) [0..<n])"
    using Suc.IH Suc.prems by auto
  have "v i \<noteq> v n" if "i < n" for i using inj_onD [OF Suc.prems(6), of i n] that by auto
  then have "(v n, p', h) \<notin> set (rs @ map (\<lambda>i. (v i, p, h)) [0..<n])" for p'
    using Suc.prems(7) [of n p'] by force
  then have "\<exists>s'. reg (addr n) (v n) p h s1 = Some s' \<and> holds s' ((as @ map addr [0..<n]) @ [addr n])
      ((rs @ map (\<lambda>i. (v i, p, h)) [0..<n]) @ [(v n, p, h)])"
    using Suc.prems by (intro reg_new [OF s1(2)]) auto
  then show ?case using s1(1) by auto
qed simp

end

definition im_holds :: "im_handler \<Rightarrow> u64 list \<Rightarrow> registration list \<Rightarrow> bool" where
  "im_holds im as rs \<longleftrightarrow> im_rep im as \<and>
     rs = map (\<lambda>a. (vector (handler_entries im a), hprio (handler_entries im a), func (handler_entries im a))) as"

lemma im_add_handler_known:
  assumes "im_holds im as rs" and "length as < fuel" and "(vec, p', handler) \<in> set rs"
  shows "im_add_handler fuel addr vec prio handler im = Some im"
proof -
  have "slist_walk fuel (dl_next (handler_list im)) (dl_head (handler_list im)) = Some as"
    using assms(1,2) by (intro slist_walk_chain) (simp_all add: im_holds_def im_rep_def)
  then show ?thesis using assms(1,3) by (auto simp: im_add_handler_def entry_is_def im_holds_def)
qed

lemma im_add_handler_new:
  assumes "im_holds im as rs" and "handler \<noteq> 0" and "addr \<noteq> 0" and "addr \<notin> set as" and "length as < fuel"
    and "\<And>p'. (vec, p', handler) \<notin> set rs"
  shows "\<exists>im'. im_add_handler fuel addr vec prio handler im = Some im' \<and>
    im_holds im' (as @ [addr]) (rs @ [(vec, prio, handler)])"
proof -
  let ?l = "(handler_list im)\<lparr>dl_next := (dl_next (handler_list im))(addr := 0)\<rparr>"
  have c: "chain (dl_next (handler_list im)) (dl_head (handler_list im)) as"
    "chain (dl_prev (handler_list im)) (dl_tail (handler_list im)) (rev as)"
    using assms(1) by (simp_all add: im_holds_def im_rep_def)
  have w: "slist_walk fuel (dl_next (handler_list im)) (dl_head (handler_list im)) = Some as"
    using c(1) assms(5) by (rule slist_walk_chain)
  have n: "\<not> (\<exists>a \<in> set as. entry_is vec handler (handler_entries im a))"
    using assms(1,6) by (force simp: im_holds_def entry_is_def)
  have "chain (dl_next ?l) (dl_head ?l) as" using c(1) assms(4) by (simp add: chain_upd)
  then have "chain (dl_next (dlist_add ?l addr)) (dl_head (dlist_add ?l addr)) (as @ [addr]) \<and>
      chain (dl_prev (dlist_add ?l addr)) (dl_tail (dlist_add ?l addr)) (addr # rev as)"
    using c(2) assms(3,4) by (intro dlist_add_rep) simp_all
  then show ?thesis using assms w n by (auto simp: im_add_handler_def im_holds_def im_rep_def Let_def)
qed

interpretation im: handler_table "im_add_handler fuel" im_holds fuel for fuel
  by unfold_locales (rule im_add_handler_new)

lemma sort_key_map: "sort_key k (map f xs) = map f (sort_key (k \<circ> f) xs)"
proof (induction xs)
  case (Cons x xs)
  have "insort_key k (f x) (map f ys) = map f (insort_key (k \<circ> f) x ys)" for ys by (induction ys) auto
  then show ?case using Cons by (simp add: comp_def)
qed simp

lemma im_handle_registrations:
  assumes "im_holds im as rs" and "\<And>v p h. (v, p, h) \<in> set rs \<Longrightarrow> p \<le> IM_HANDLER_PRIO_LAST" and "length as < fuel"
  shows "im_handle fuel im vec = Some (map (snd \<circ> snd)
    (sort_key (fst \<circ> snd) (filter (\<lambda>r. ucast (fst r) = vec) (rev rs))))"
proof -
  have rs: "rs = map (\<lambda>a. (vector (handler_entries im a), hprio (handler_entries im a), func (handler_entries im a))) as"
    and r: "im_rep im as" using assms(1) by (simp_all add: im_holds_def)
  have "im_handle fuel im vec = Some (map (\<lambda>a. func (handler_entries im a))
      (sort_key (\<lambda>a. hprio (handler_entries im a)) (filter (\<lambda>a. ucast (vector (handler_entries im a)) = vec) (rev as))))"
    using assms(2,3) r by (intro im_handle_sorted) (auto simp: rs)
  then show ?thesis by (simp add: rs rev_map filter_map sort_key_map comp_def)
qed

lemma im_holds_empty: "im_rep im [] \<Longrightarrow> im_holds im [] []"
  by (simp add: im_holds_def)

lemma set_enabled_same_calls:
  assumes "set_enabled b fuel vec handler im = Some im'"
  shows "handler_list im' = handler_list im" "func (handler_entries im' a) = func (handler_entries im a)"
    "hprio (handler_entries im' a) = hprio (handler_entries im a)"
    "vector (handler_entries im' a) = vector (handler_entries im a)"
  using assms by (auto simp: set_enabled_def split: Option.bind_splits)

definition icw :: history where
  "icw = concat (map (\<lambda>e. [e, Out8 0x80 0]) [Out8 0x20 0x11, Out8 0xA0 0x11, Out8 0x21 0x20, Out8 0xA1 0x28,
     Out8 0x21 4, Out8 0xA1 2, Out8 0x21 1, Out8 0xA1 1])"

lemma pic_init_words_ok: "pic_init_words t = (True, t @ icw)"
  by (simp add: pic_init_words_def pic_out8_all_def io_defs icw_def)

lemma PIC_IRQ_TOTAL_15: "PIC_IRQ_TOTAL = 15"
  by (simp add: PIC_IRQ_TOTAL_def)

lemma pic_vectors_inj: "inj_on (\<lambda>i. of_nat (pic_to_int i) :: u8) {..<PIC_IRQ_TOTAL}"
proof (rule inj_onI)
  fix i j assume "i \<in> {..<PIC_IRQ_TOTAL}" "j \<in> {..<PIC_IRQ_TOTAL}" "(of_nat (pic_to_int i) :: u8) = of_nat (pic_to_int j)"
  then have "unat (of_nat (pic_to_int i) :: u8) = unat (of_nat (pic_to_int j) :: u8)" "i < 15" "j < 15"
    by (simp_all add: PIC_IRQ_TOTAL_15)
  then show "i = j" by (simp only: unat_of_nat pic_to_int_def) simp
qed

lemma pic_init_holds:
  assumes "im_holds im as rs" and "h \<noteq> 0" and "\<And>i. i < 15 \<Longrightarrow> addrs i \<noteq> 0" and "distinct (as @ map addrs [0..<15])"
    and "length as + 15 \<le> fuel" and "\<And>v p. (v, p, h) \<notin> set rs"
  shows "\<exists>im'. pic_init fuel addrs h (t, im) = Some (True, t @ icw, im') \<and>
    im_holds im' (as @ map addrs [0..<15]) (rs @ map (\<lambda>i. (of_nat (pic_to_int i), IM_HANDLER_PRIO_LAST, h)) [0..<15])"
proof -
  have "\<exists>im'. add_defaults fuel addrs h 15 im = Some im' \<and>
      im_holds im' (as @ map addrs [0..<15]) (rs @ map (\<lambda>i. (of_nat (pic_to_int i), IM_HANDLER_PRIO_LAST, h)) [0..<15])"
    unfolding add_defaults_def
    using im.reg_upto [OF assms(1-2), of 15 addrs fuel "\<lambda>i. of_nat (pic_to_int i)" IM_HANDLER_PRIO_LAST] assms(3-6)
      pic_vectors_inj by (simp add: PIC_IRQ_TOTAL_15 del: upt.simps upt_rec_numeral)
  then show ?thesis by (auto simp: pic_init_def pic_init_words_ok PIC_IRQ_TOTAL_15 del: upt.simps)
qed

lemma insort_key_last: "(\<And>y. y \<in> set ys \<Longrightarrow> k y < k x) \<Longrightarrow> insort_key k x (sort_key k ys) = sort_key k ys @ [x]"
proof -
  have "\<forall>y \<in> set zs. k y < k x \<Longrightarrow> insort_key k x zs = zs @ [x]" for zs by (induction zs) auto
  then show "(\<And>y. y \<in> set ys \<Longrightarrow> k y < k x) \<Longrightarrow> ?thesis" by simp
qed

lemma default_vectors:
  assumes "i < 16"
  shows "filter (\<lambda>r. ucast (fst r) = (of_nat (pic_to_int i) :: u64)) (rev (map (\<lambda>i. (of_nat (pic_to_int i) :: u8, 2 :: nat, h)) [0..<15])) =
    (if i < 15 then [(of_nat (pic_to_int i), 2, h)] else [])"
proof -
  have "(ucast (of_nat (pic_to_int j) :: u8) = (of_nat (pic_to_int i) :: u64)) = (j = i)" if "j < 15" for j
    using that assms unfolding word_unat_eq_iff unsigned_ucast_eq unsigned_of_nat pic_to_int_def by (auto simp: take_bit_eq_mod)
  then have "filter ((\<lambda>r. ucast (fst r) = (of_nat (pic_to_int i) :: u64)) \<circ> (\<lambda>i. (of_nat (pic_to_int i) :: u8, 2 :: nat, h))) [0..<15] =
      filter (\<lambda>j. j = i) [0..<15]"
    by (intro filter_cong) (auto simp: comp_def)
  also have "filter (\<lambda>j. j = i) [0..<n] = (if i < n then [i] else [])" for n by (induction n) auto
  finally show ?thesis by (simp add: rev_map filter_map rev_filter [symmetric] del: upt.simps upt_rec_numeral)
qed

lemma mask_bit:
  fixes b :: u8
  assumes "i < 32"
  shows "ucast ((ucast b :: u32) OR 2 ^ i) = (if i < 8 then set_bit i b else b)"
    "ucast ((ucast b :: u32) AND NOT (2 ^ i)) = (if i < 8 then unset_bit i b else b)"
proof -
  show "ucast ((ucast b :: u32) OR 2 ^ i) = (if i < 8 then set_bit i b else b)"
    by (rule bit_word_eqI) (use assms in \<open>auto simp: bit_simps\<close>)
  show "ucast ((ucast b :: u32) AND NOT (2 ^ i)) = (if i < 8 then unset_bit i b else b)"
    by (rule bit_word_eqI) (use assms in \<open>auto simp: bit_simps\<close>)
qed

lemma low_masks: "(0xffff :: u64) = mask 16" "(0xffffffff :: u64) = mask 32"
  by (simp_all add: mask_eq_exp_minus_1)

lemma im_desc_init_address:
  "(ucast (address_low (im_desc_init sel a sz i d)) OR push_bit 16 (ucast (address_mid (im_desc_init sel a sz i d))) OR
    push_bit 32 (ucast (address_high (im_desc_init sel a sz i d))) :: u64) = a + sz * of_nat i"
proof (rule bit_word_eqI)
  fix n assume "n < LENGTH(64)"
  then show "bit (ucast (address_low (im_desc_init sel a sz i d)) OR push_bit 16 (ucast (address_mid (im_desc_init sel a sz i d))) OR
      push_bit 32 (ucast (address_high (im_desc_init sel a sz i d))) :: u64) n = bit (a + sz * of_nat i) n"
    by (cases "n < 32") (auto simp: im_desc_init_def im_set_entry_def Let_def bit_simps low_masks)
qed

section \<open>Properties\<close>

text \<open>
  C29. An interrupt calls exactly the handlers registered for its vector, those of a smaller priority value
  first and, within a priority, the ones registered last first: the three passes over the list are a
  stable sort of the reversed registrations.
\<close>

theorem im_handle_priority_order:
  assumes "im_rep im xs" and "\<forall>a \<in> set xs. hprio (handler_entries im a) \<le> 2" and "length xs < fuel"
  shows "im_handle fuel im vec = Some (map (\<lambda>a. func (handler_entries im a))
    (sort_key (\<lambda>a. hprio (handler_entries im a)) (filter (\<lambda>a. ucast (vector (handler_entries im a)) = vec) (rev xs))))"
  using im_handle_sorted assms by blast

definition three_handlers :: im_handler where
  "three_handlers = \<lparr>handler_count = 3,
     handler_list = \<lparr>dl_head = 16, dl_tail = 48, dl_next = (\<lambda>_. 0)(16 := 32, 32 := 48), dl_prev = (\<lambda>_. 0)(48 := 32, 32 := 16)\<rparr>,
     handler_entries = (\<lambda>a. \<lparr>func = a, hprio = (if a = 48 then 2 else 1), vector = 33, is_enabled = True\<rparr>)\<rparr>"

theorem im_handle_priority_order_witness:
  "im_rep three_handlers [16, 32, 48] \<and> im_handle 4 three_handlers 33 = Some [32, 16, 48]"
proof -
  have r: "im_rep three_handlers [16, 32, 48]" by (simp add: im_rep_def three_handlers_def)
  have "im_handle 4 three_handlers 33 = Some [32, 16, 48]"
    using im_handle_priority_order [OF r, of 4 33] by (simp add: three_handlers_def)
  then show ?thesis using r by blast
qed

text \<open>
  Disabling a handler does not keep it from being called: the same functions run for every interrupt
  before and after, since the flag is never read.
\<close>

theorem im_disable_handler_no_effect:
  assumes "im_disable_handler fuel vec handler im = Some im'"
  shows "im_handle fuel' im' v = im_handle fuel' im v"
  using set_enabled_same_calls [OF assms [unfolded im_disable_handler_def]]
  by (simp add: im_handle_def)

theorem im_disable_handler_no_effect_witness:
  "\<exists>im'. im_disable_handler 4 33 16 three_handlers = Some im' \<and> \<not> is_enabled (handler_entries im' 16) \<and>
    im_handle 4 im' 33 = Some [32, 16, 48]"
proof -
  have r: "im_rep three_handlers [16, 32, 48]" by (simp add: im_rep_def three_handlers_def)
  have "slist_walk 4 (dl_next (handler_list three_handlers)) (dl_head (handler_list three_handlers)) = Some [16, 32, 48]"
    using r by (intro slist_walk_chain) (simp_all add: im_rep_def)
  then obtain im' where im': "im_disable_handler 4 33 16 three_handlers = Some im'"
    "\<not> is_enabled (handler_entries im' 16)"
    by (simp add: im_disable_handler_def set_enabled_def entry_is_def three_handlers_def)
  have "im_handle 4 three_handlers 33 = Some [32, 16, 48]"
    using im_handle_sorted [OF r, of 4 33] by (simp add: three_handlers_def)
  then show ?thesis using im' im_disable_handler_no_effect [OF im'(1), of 4 33] by auto
qed

text \<open>
  The interrupt controller ends up with a default handler for the vectors 32 to 46: whatever handlers are registered,
  the default one is called for each of those vectors, and behind every other handler of a smaller priority
  value; vector 47, the last line of the second controller, calls only what was registered before.
\<close>

theorem pic_init_default_handlers:
  assumes "im_holds im as rs" and "h \<noteq> 0" and "\<And>i. i < 15 \<Longrightarrow> addrs i \<noteq> 0" and "distinct (as @ map addrs [0..<15])"
    and "length as + 15 < fuel" and "\<And>v p. (v, p, h) \<notin> set rs" and "\<And>v p f. (v, p, f) \<in> set rs \<Longrightarrow> p < 2"
  shows "\<exists>im'. pic_init fuel addrs h (t, im) = Some (True, t @ icw, im') \<and>
    (\<forall>i < 15. im_handle fuel im' (of_nat (pic_to_int i)) = map_option (\<lambda>fs. fs @ [h]) (im_handle fuel im (of_nat (pic_to_int i)))) \<and>
    im_handle fuel im' 47 = im_handle fuel im 47"
proof -
  obtain im' where im': "pic_init fuel addrs h (t, im) = Some (True, t @ icw, im')"
    "im_holds im' (as @ map addrs [0..<15]) (rs @ map (\<lambda>i. (of_nat (pic_to_int i), 2, h)) [0..<15])"
    using pic_init_holds [OF assms(1-4) _ assms(6), of fuel t] assms(5) by auto
  have old: "im_handle fuel im vec = Some (map (snd \<circ> snd) (sort_key (fst \<circ> snd) (filter (\<lambda>r. ucast (fst r) = vec) (rev rs))))" for vec
    using assms(5,7) by (intro im_handle_registrations [OF assms(1)]) (auto simp: less_imp_le)
  have new: "im_handle fuel im' vec = Some (map (snd \<circ> snd) (sort_key (fst \<circ> snd)
      (filter (\<lambda>r. ucast (fst r) = vec) (rev (map (\<lambda>i. (of_nat (pic_to_int i), 2, h)) [0..<15])) @ filter (\<lambda>r. ucast (fst r) = vec) (rev rs))))" for vec
    using im_handle_registrations [OF im'(2), of fuel vec] assms(5,7) by (force simp del: upt.simps upt_rec_numeral)
  have "im_handle fuel im' (of_nat (pic_to_int i)) = map_option (\<lambda>fs. fs @ [h]) (im_handle fuel im (of_nat (pic_to_int i)))" if "i < 15" for i
  proof -
    have "insort_key (fst \<circ> snd) (of_nat (pic_to_int i), 2, h)
        (sort_key (fst \<circ> snd) (filter (\<lambda>r. ucast (fst r) = (of_nat (pic_to_int i) :: u64)) (rev rs))) =
      sort_key (fst \<circ> snd) (filter (\<lambda>r. ucast (fst r) = (of_nat (pic_to_int i) :: u64)) (rev rs)) @ [(of_nat (pic_to_int i), 2, h)]"
      using assms(7) by (intro insort_key_last) auto
    then show ?thesis using that default_vectors [of i h] unfolding new old by simp
  qed
  moreover have "im_handle fuel im' 47 = im_handle fuel im 47"
    using default_vectors [of 15 h] unfolding new old by (simp add: pic_to_int_def del: upt.simps upt_rec_numeral)
  ultimately show ?thesis using im'(1) by blast
qed

definition no_handlers :: im_handler where
  "no_handlers = \<lparr>handler_count = 0, handler_list = \<lparr>dl_head = 0, dl_tail = 0, dl_next = (\<lambda>_. 0), dl_prev = (\<lambda>_. 0)\<rparr>,
     handler_entries = (\<lambda>a. \<lparr>func = 0, hprio = 0, vector = 0, is_enabled = False\<rparr>)\<rparr>"

theorem pic_init_default_handlers_witness:
  "\<exists>im'. pic_init 20 (\<lambda>i. of_nat (i + 1)) 7 ([], no_handlers) = Some (True, icw, im') \<and>
    im_handle 20 im' 33 = Some [7] \<and> im_handle 20 im' 46 = Some [7] \<and> im_handle 20 im' 47 = Some []"
proof -
  have e: "im_holds no_handlers [] []" by (simp add: im_holds_def im_rep_def no_handlers_def)
  have n: "im_handle 20 no_handlers v = Some []" for v
    using im_handle_registrations [OF e, of 20 v] by simp
  have z: "(of_nat (i + 1) :: u64) \<noteq> 0" if "i < 15" for i :: nat
    using that unfolding word_unat_eq_iff unsigned_of_nat by (simp add: take_bit_eq_mod)
  have "distinct ([] @ map (\<lambda>i. of_nat (i + 1) :: u64) [0..<15])" by code_simp
  then obtain im' where im': "pic_init 20 (\<lambda>i. of_nat (i + 1)) 7 ([], no_handlers) = Some (True, icw, im')"
    "\<forall>i < 15. im_handle 20 im' (of_nat (pic_to_int i)) = Some [7]" "im_handle 20 im' 47 = Some []"
    using pic_init_default_handlers [OF e, of 7 "\<lambda>i. of_nat (i + 1)" 20 "[]"] z by (auto simp: n)
  then show ?thesis using spec [OF im'(2), of 1] spec [OF im'(2), of 14] by (simp add: pic_to_int_def)
qed

text \<open>
  Masking and unmasking a line of the first controller sets and clears its bit and leaves the others; a
  line of the second controller is written with the bit 8 to 15, outside of the byte, so its mask stays as it is.
\<close>

theorem pic_mask_lines:
  "pic_mask hw i t =
     (if i \<le> 7 then (True, t @ [In8 0x21, Out8 0x21 (set_bit i (reads8 hw t 0x21)), Out8 0x80 0])
      else if i \<le> 15 then (True, t @ [In8 0xA1, Out8 0xA1 (reads8 hw t 0xA1), Out8 0x80 0]) else (False, t)) \<and>
   pic_unmask hw i t =
     (if i \<le> 7 then (True, t @ [In8 0x21, Out8 0x21 (unset_bit i (reads8 hw t 0x21)), Out8 0x80 0])
      else if i \<le> 15 then (True, t @ [In8 0xA1, Out8 0xA1 (reads8 hw t 0xA1), Out8 0x80 0]) else (False, t))"
  by (auto simp: pic_mask_def pic_unmask_def PIC_IRQ_TOTAL_15 io_defs mask_bit Let_def)

end
