(* ===== verification/Acpi.thy ===== *)
theory Acpi
  imports Vmm Str_Util
begin

text \<open>
  The boot information, \<^verbatim>\<open>kernel/boot/multiboot.c\<close>, and the ACPI tables, \<^verbatim>\<open>kernel/core/acpi/acpi.c\<close> and \<^verbatim>\<open>acpi/fadt.c\<close>. The tables
  are reached through mappings of \<open>Vmm\<close>, so their bytes are read through the page tables; the boot
  information is a list of bytes. Whether the heap has room for an entry of the table list is an argument. \<open>None\<close> is an access to memory
  that is not there or the end of the fuel.
\<close>

section \<open>Boot information\<close>

definition mb32 :: "u8 list \<Rightarrow> nat \<Rightarrow> u32 option" where
  "mb32 mb i =
     (if i + 4 \<le> length mb
      then Some (ucast (mb ! i) OR push_bit 8 (ucast (mb ! (i + 1))) OR push_bit 16 (ucast (mb ! (i + 2))) OR push_bit 24 (ucast (mb ! (i + 3))))
      else None)"

text \<open>\<^verbatim>\<open>mb_load\<close>: the result and the new \<^verbatim>\<open>mb_data\<close>.\<close>

definition mb_load :: "u8 list option \<Rightarrow> (errcode \<times> u8 list option) option" where
  "mb_load data =
     (case data of None \<Rightarrow> Some (- ENOMEM, None)
      | Some mb \<Rightarrow> do { lo \<leftarrow> mb32 mb 0; hi \<leftarrow> mb32 mb 4; Some (if lo AND 7 \<noteq> 0 then - EINVAL else 0, data) })"

fun mb_scan :: "nat \<Rightarrow> u8 list \<Rightarrow> u32 \<Rightarrow> nat \<Rightarrow> nat option option" where
  "mb_scan 0 mb ty pos = None"
| "mb_scan (Suc fuel) mb ty pos = do {
     t \<leftarrow> mb32 mb pos;
     if t = 0 then Some None
     else if ty = t then Some (Some pos)
     else do { sz \<leftarrow> mb32 mb (pos + 4); mb_scan fuel mb ty (pos + unat ((sz + 7) AND NOT 7)) } }"

text \<open>\<^verbatim>\<open>mb_get\<close>: the inner option is the returned pointer, as an offset.\<close>

definition mb_get :: "nat \<Rightarrow> u8 list option \<Rightarrow> u32 \<Rightarrow> nat option option" where
  "mb_get fuel mb ty = (case mb of None \<Rightarrow> Some None | Some b \<Rightarrow> do { total \<leftarrow> mb32 b 0; mb_scan fuel b ty 8 })"

section \<open>Tables\<close>

record sdt_map =
  map_base :: u64
  map_size :: u64
  map_sdt :: u64

record acpi =
  acpi_vm :: vm
  acpi_root :: "sdt_map list"
  acpi_ver :: nat

abbreviation (input) ACPI_VERSION_1 :: nat where "ACPI_VERSION_1 \<equiv> 1"
abbreviation (input) ACPI_VERSION_2 :: nat where "ACPI_VERSION_2 \<equiv> 2"
abbreviation (input) SDT_HEADER_SIZE :: u64 where "SDT_HEADER_SIZE \<equiv> 36"

definition vbyte :: "vm \<Rightarrow> u64 \<Rightarrow> u8 option" where
  "vbyte s v = map_option (\<lambda>q. ucast (drop_bit (8 * unat (v AND 7)) q)) (vload s (v AND NOT 7))"

fun vbytes :: "vm \<Rightarrow> u64 \<Rightarrow> nat \<Rightarrow> u8 list option" where
  "vbytes s v 0 = Some []"
| "vbytes s v (Suc n) = do { b \<leftarrow> vbyte s v; bs \<leftarrow> vbytes s (v + 1) n; Some (b # bs) }"

definition v32 :: "vm \<Rightarrow> u64 \<Rightarrow> u32 option" where
  "v32 s v = do { bs \<leftarrow> vbytes s v 4; mb32 bs 0 }"

fun acpi_check_loop :: "u8 list \<Rightarrow> u8 \<Rightarrow> u8" where
  "acpi_check_loop [] acc = acc"
| "acpi_check_loop (c # bs) acc = acpi_check_loop bs (acc + c)"

definition acpi_check :: "u8 list \<Rightarrow> bool" where
  "acpi_check bs \<longleftrightarrow> acpi_check_loop bs 0 = 0"

text \<open>
  \<^verbatim>\<open>__acpi_sdt_map\<close>: the returned entry, which is also the last of the list. \<open>alloc\<close> tells whether the
  heap has room for it.
\<close>

definition acpi_sdt_map :: "nat \<Rightarrow> bool \<Rightarrow> u64 \<Rightarrow> u64 \<Rightarrow> acpi \<Rightarrow> (sdt_map option \<times> acpi) option" where
  "acpi_sdt_map fuel alloc paddr sz a =
     (if paddr = 0 \<or> sz = 0 then Some (None, a)
      else if \<not> alloc then Some (None, a)
      else let base = round_down paddr PAGE_SIZE; pages = vmm_calc (paddr - base + sz) in do {
        (vaddr, vm1) \<leftarrow> vmm_map_paddr fuel (acpi_vm a) base pages VMM_ATTR_SAVE;
        if vaddr = 0 then Some (None, a\<lparr>acpi_vm := vm1\<rparr>)
        else let m = \<lparr>map_base = vaddr, map_size = pages, map_sdt = vaddr + (paddr - base)\<rparr>
             in Some (Some m, a\<lparr>acpi_vm := vm1, acpi_root := acpi_root a @ [m]\<rparr>) })"

text \<open>\<^verbatim>\<open>__acpi_sdt_remap\<close> of the entry at position \<open>i\<close> of the list.\<close>

definition acpi_sdt_remap :: "nat \<Rightarrow> nat \<Rightarrow> u64 \<Rightarrow> acpi \<Rightarrow> (errcode \<times> acpi) option" where
  "acpi_sdt_remap fuel i sz a =
     (let m = acpi_root a ! i in
      if sz = 0 then Some (- EINVAL, a)
      else let offset = map_sdt m - map_base m in
        if map_size m \<ge> vmm_calc (sz + offset) then Some (0, a)
        else do {
          paddr \<leftarrow> vmm_resolve (acpi_vm a) (map_base m);
          (err, vm1) \<leftarrow> vmm_unmap fuel (acpi_vm a) (map_base m) (map_size m) 0;
          if err \<noteq> 0 then Some (err, a\<lparr>acpi_vm := vm1\<rparr>)
          else let pages = vmm_calc (sz + offset) in do {
            (vaddr, vm2) \<leftarrow> vmm_map_paddr fuel vm1 paddr pages VMM_ATTR_SAVE;
            let m1 = m\<lparr>map_size := pages, map_base := vaddr\<rparr> in
            if vaddr = 0 then Some (- ENOMEM, a\<lparr>acpi_vm := vm2, acpi_root := (acpi_root a)[i := m1]\<rparr>)
            else Some (0, a\<lparr>acpi_vm := vm2, acpi_root := (acpi_root a)[i := m1\<lparr>map_sdt := vaddr + offset\<rparr>]\<rparr>) } })"

definition acpi_new_load :: "u8 list \<Rightarrow> errcode" where
  "acpi_new_load tag = - ENOSYS"

text \<open>The loop of \<^verbatim>\<open>__acpi_old_load\<close> over the pointers of the root table at \<open>rsdt\<close>; \<open>allocs\<close> tells about the allocation of each.\<close>

fun sdt_loop :: "nat \<Rightarrow> (nat \<Rightarrow> bool) \<Rightarrow> u64 \<Rightarrow> nat \<Rightarrow> nat \<Rightarrow> acpi \<Rightarrow> acpi option" where
  "sdt_loop fuel allocs rsdt i 0 a = Some a"
| "sdt_loop fuel allocs rsdt i (Suc n) a = do {
     cur \<leftarrow> v32 (acpi_vm a) (rsdt + SDT_HEADER_SIZE + 4 * of_nat i);
     (_, a1) \<leftarrow> (if cur = 0 then Some (None, a) else acpi_sdt_map fuel (allocs (i + 1)) (ucast cur) SDT_HEADER_SIZE a);
     sdt_loop fuel allocs rsdt (i + 1) n a1 }"

definition acpi_old_load :: "nat \<Rightarrow> (nat \<Rightarrow> bool) \<Rightarrow> u8 list \<Rightarrow> acpi \<Rightarrow> (errcode \<times> acpi) option" where
  "acpi_old_load fuel allocs rsdp a =
     (if length rsdp < 20 then None
      else if rsdp ! 15 \<noteq> 0 then Some (- EINVAL, a)
      else if \<not> acpi_check (take 20 rsdp) then Some (- EINVAL, a)
      else do {
        rsdt_addr \<leftarrow> mb32 rsdp 16;
        (m, a1) \<leftarrow> acpi_sdt_map fuel (allocs 0) (ucast rsdt_addr) SDT_HEADER_SIZE a;
        if m = None then Some (- EFAULT, a1)
        else do {
          len \<leftarrow> v32 (acpi_vm a1) (map_sdt (hd (acpi_root a1)) + 4);
          (err, a2) \<leftarrow> acpi_sdt_remap fuel 0 (ucast len) a1;
          if err \<noteq> 0 then Some (- EFAULT, a2)
          else let rsdt = map_sdt (hd (acpi_root a2)) in do {
            len2 \<leftarrow> v32 (acpi_vm a2) (rsdt + 4);
            bs \<leftarrow> vbytes (acpi_vm a2) rsdt (unat len2);
            if \<not> acpi_check bs then Some (- EINVAL, a2)
            else map_option (Pair 0) (sdt_loop fuel allocs rsdt 0 (unat (((ucast len2 :: u64) - SDT_HEADER_SIZE) div 4)) a2) } } })"

text \<open>
  \<^verbatim>\<open>acpi_load\<close>, with the structures behind the two boot tags, if they are there. An error of the first attempt is
  followed by the second, and everything else is reported as not supported.
\<close>

definition acpi_load :: "nat \<Rightarrow> (nat \<Rightarrow> bool) \<Rightarrow> u8 list option \<Rightarrow> u8 list option \<Rightarrow> acpi \<Rightarrow> (errcode \<times> acpi) option" where
  "acpi_load fuel allocs mb_acpi_old mb_acpi_new a =
     (let (err, a1) = (case mb_acpi_new of None \<Rightarrow> (- 1, a) | Some tag \<Rightarrow> (acpi_new_load tag, a\<lparr>acpi_ver := ACPI_VERSION_2\<rparr>)) in
      case mb_acpi_old of
        Some tag \<Rightarrow> if err < 0 then acpi_old_load fuel allocs tag (a1\<lparr>acpi_ver := ACPI_VERSION_1\<rparr>) else Some (- EINVAL, a1)
      | None \<Rightarrow> Some (- EINVAL, a1))"

text \<open>The loop of \<^verbatim>\<open>acpi_find\<close>. The pointer is moved by the size of the header in units of the header.\<close>

fun acpi_find_loop :: "nat \<Rightarrow> buf \<Rightarrow> u64 \<Rightarrow> nat \<Rightarrow> nat \<Rightarrow> acpi \<Rightarrow> (u64 \<times> acpi) option" where
  "acpi_find_loop fuel sig sz i 0 a = Some (0, a)"
| "acpi_find_loop fuel sig sz i (Suc n) a = do {
     hsig \<leftarrow> vbytes (acpi_vm a) (map_sdt (acpi_root a ! i)) 4;
     c \<leftarrow> strncmp hsig sig 4;
     if c \<noteq> 0 then acpi_find_loop fuel sig sz (i + 1) n a
     else do {
       (err, a1) \<leftarrow> acpi_sdt_remap fuel i sz a;
       Some (if err \<noteq> 0 then 0 else map_sdt (acpi_root a1 ! i) + SDT_HEADER_SIZE * SDT_HEADER_SIZE, a1) } }"

definition acpi_find :: "nat \<Rightarrow> buf option \<Rightarrow> u64 \<Rightarrow> acpi \<Rightarrow> (u64 \<times> acpi) option" where
  "acpi_find fuel sig sz a =
     (case sig of None \<Rightarrow> Some (0, a)
      | Some s \<Rightarrow> if acpi_root a = [] \<or> acpi_ver a = 0 then Some (0, a)
                  else acpi_find_loop fuel s sz 0 (length (acpi_root a)) a)"

definition acpi_version :: "acpi \<Rightarrow> int" where
  "acpi_version a = (if acpi_root a = [] \<or> acpi_ver a = 0 then - EFAULT else int (acpi_ver a))"

text \<open>\<^verbatim>\<open>acpi_supports_8042_ps2\<close>: \<^verbatim>\<open>struct fadt\<close> has 256 bytes, and its boot flags are at offset 74.\<close>

definition acpi_supports_8042_ps2 :: "nat \<Rightarrow> acpi \<Rightarrow> (bool \<times> acpi) option" where
  "acpi_supports_8042_ps2 fuel a = do {
     (fadt, a1) \<leftarrow> acpi_find fuel (Some [70, 65, 67, 80, 0]) 256 a;
     if acpi_version a1 < int ACPI_VERSION_2 \<or> fadt = 0 then Some (True, a1)
     else do { lo \<leftarrow> vbyte (acpi_vm a1) (fadt + 74); Some (bit lo 1, a1) } }"

section \<open>Lemmas\<close>

definition enc32 :: "u32 \<Rightarrow> u8 list" where
  "enc32 w = [ucast w, ucast (drop_bit 8 w), ucast (drop_bit 16 w), ucast (drop_bit 24 w)]"

lemma enc32_length [simp]: "length (enc32 w) = 4"
  by (simp add: enc32_def)

lemma mb32_enc32: "mb32 (xs @ enc32 w @ ys) (length xs) = Some w"
proof -
  have "(ucast (ucast w :: u8) OR push_bit 8 (ucast (ucast (drop_bit 8 w) :: u8)) OR push_bit 16 (ucast (ucast (drop_bit 16 w) :: u8)) OR
      push_bit 24 (ucast (ucast (drop_bit 24 w) :: u8)) :: u32) = w"
  proof (rule bit_word_eqI)
    fix n assume "n < LENGTH(32)"
    then have "n < 32" by simp
    then consider "n < 8" | "8 \<le> n" "n < 16" | "16 \<le> n" "n < 24" | "24 \<le> n" "n < 32" by atomize_elim linarith
    then show "bit (ucast (ucast w :: u8) OR push_bit 8 (ucast (ucast (drop_bit 8 w) :: u8)) OR push_bit 16 (ucast (ucast (drop_bit 16 w) :: u8)) OR
        push_bit 24 (ucast (ucast (drop_bit 24 w) :: u8)) :: u32) n = bit w n"
      by cases (auto simp: bit_simps)
  qed
  then show ?thesis by (simp add: mb32_def enc32_def nth_append)
qed

definition pad8 :: "nat \<Rightarrow> nat" where
  "pad8 n = (n + 7) div 8 * 8"

lemma pad8_word:
  assumes "n + 7 < 2 ^ 32"
  shows "unat ((of_nat n + 7) AND NOT 7 :: u32) = pad8 n"
proof -
  let ?x = "of_nat n + 7 :: u32"
  have m: "(7 :: u32) = mask 3" by (simp add: mask_eq_exp_minus_1)
  have "?x AND NOT 7 = push_bit 3 (drop_bit 3 ?x)" unfolding m by (rule bit_word_eqI) (auto simp: bit_simps not_less)
  also have "\<dots> = ?x div 8 * 8" by (simp add: push_bit_eq_mult drop_bit_eq_div)
  finally have "unat (?x AND NOT 7) = unat (?x div 8 * 8)" by simp
  also have "\<dots> = unat ?x div 8 * 8"
    using unsigned_less [of ?x, where 'a = nat] by (simp add: unat_word_ariths unat_div_distrib)
  also have "unat ?x = n + 7" using assms by (simp add: unat_word_ariths unsigned_of_nat take_bit_nat_eq_self)
  finally show ?thesis by (simp add: pad8_def)
qed

text \<open>A tag in memory, and the position of the first tag of a type in a list of tags that starts at \<open>k\<close>.\<close>

definition enc_tag :: "u32 \<times> u8 list \<Rightarrow> u8 list" where
  "enc_tag t = enc32 (fst t) @ enc32 (of_nat (8 + length (snd t))) @ snd t @ replicate (pad8 (8 + length (snd t)) - 8 - length (snd t)) 0"

fun tag_pos :: "(u32 \<times> u8 list) list \<Rightarrow> u32 \<Rightarrow> nat \<Rightarrow> nat option" where
  "tag_pos [] ty k = None"
| "tag_pos (t # ts) ty k = (if fst t = ty then Some k else tag_pos ts ty (k + length (enc_tag t)))"

lemma enc_tag_length: "length (enc_tag t) = pad8 (8 + length (snd t))"
proof -
  have "8 + length (snd t) \<le> pad8 (8 + length (snd t))" unfolding pad8_def by presburger
  then show ?thesis by (simp add: enc_tag_def)
qed

lemma mb_scan_tags:
  assumes "\<forall>t \<in> set ts. fst t \<noteq> 0 \<and> length (snd t) < 2 ^ 31" and "length ts < fuel" and "ty \<noteq> 0"
  shows "mb_scan fuel (pre @ concat (map enc_tag ts) @ enc_tag (0, [])) ty (length pre) = Some (tag_pos ts ty (length pre))"
  using assms(1,2)
proof (induction ts arbitrary: fuel pre)
  case Nil
  then obtain f where "fuel = Suc f" by (cases fuel) auto
  then show ?case using mb32_enc32 [of pre 0 "enc32 8"] by (simp add: enc_tag_def pad8_def)
next
  case (Cons t ts)
  obtain f where f: "fuel = Suc f" using Cons.prems(2) by (cases fuel) auto
  let ?mb = "pre @ concat (map enc_tag (t # ts)) @ enc_tag (0, [])"
  let ?rest = "snd t @ replicate (pad8 (8 + length (snd t)) - 8 - length (snd t)) 0 @ concat (map enc_tag ts) @ enc_tag (0, [])"
  have mb: "?mb = pre @ enc32 (fst t) @ enc32 (of_nat (8 + length (snd t))) @ ?rest" by (simp add: enc_tag_def)
  have ty: "mb32 ?mb (length pre) = Some (fst t)" unfolding mb by (rule mb32_enc32)
  have sz: "mb32 ?mb (length pre + 4) = Some (of_nat (8 + length (snd t)))"
    using mb32_enc32 [of "pre @ enc32 (fst t)" "of_nat (8 + length (snd t))" ?rest] unfolding mb by simp
  have len: "unat ((of_nat (8 + length (snd t)) + 7 :: u32) AND NOT 7) = length (enc_tag t)"
    using Cons.prems(1) pad8_word [of "8 + length (snd t)"] by (simp add: enc_tag_length del: of_nat_add)
  have IH: "mb_scan f ((pre @ enc_tag t) @ concat (map enc_tag ts) @ enc_tag (0, [])) ty (length (pre @ enc_tag t)) =
      Some (tag_pos ts ty (length (pre @ enc_tag t)))"
    using Cons.prems f by (intro Cons.IH) auto
  show ?case
  proof (cases "fst t = ty")
    case True
    then show ?thesis using ty f assms(3) by simp
  next
    case False
    then show ?thesis using ty sz len IH f Cons.prems(1) by (simp del: of_nat_add)
  qed
qed

lemma acpi_check_sum: "acpi_check bs \<longleftrightarrow> 256 dvd (\<Sum>b \<leftarrow> bs. unat b)"
proof -
  have l: "acpi_check_loop bs s = of_nat (unat s + (\<Sum>b \<leftarrow> bs. unat b))" for s
    by (induction bs arbitrary: s) simp_all
  have "(of_nat n = (0 :: u8)) = (256 dvd n)" for n
    using word_of_nat_eq_0_iff [of n, where 'a = 8] by simp
  then show ?thesis unfolding acpi_check_def l by simp
qed

lemma sdt_map_ver: "acpi_sdt_map fuel al p sz a = Some (m, a') \<Longrightarrow> acpi_ver a' = acpi_ver a"
  by (auto simp: acpi_sdt_map_def Let_def split: if_splits Option.bind_splits)

lemma sdt_remap_ver: "acpi_sdt_remap fuel i sz a = Some (e, a') \<Longrightarrow> acpi_ver a' = acpi_ver a"
  by (auto simp: acpi_sdt_remap_def Let_def split: if_splits Option.bind_splits)

lemma sdt_loop_ver: "sdt_loop fuel al r i n a = Some a' \<Longrightarrow> acpi_ver a' = acpi_ver a"
  by (induction n arbitrary: i a) (auto split: if_splits Option.bind_splits dest: sdt_map_ver)

lemma old_load_ver: "acpi_old_load fuel al rsdp a = Some (e, a') \<Longrightarrow> acpi_ver a' = acpi_ver a"
  by (auto simp: acpi_old_load_def Let_def split: if_splits Option.bind_splits dest!: sdt_map_ver sdt_remap_ver sdt_loop_ver)

lemma find_ver: "acpi_find_loop fuel sig sz i n a = Some (p, a') \<Longrightarrow> acpi_ver a' = acpi_ver a"
  by (induction n arbitrary: i) (auto split: if_splits Option.bind_splits dest: sdt_remap_ver)

lemma vbytes_length: "vbytes s v n = Some bs \<Longrightarrow> length bs = n"
  by (induction n arbitrary: v bs) (auto split: Option.bind_splits)

lemma strncmp_same: "n \<le> length s \<Longrightarrow> strncmp s s n = Some 0"
proof (induction s arbitrary: n)
  case (Cons c s)
  then show ?case by (cases n) auto
qed simp

section \<open>Properties\<close>

text \<open>
  The search of the boot information ends at the first tag of a type, and reports that there is none when there is
  none: for every list of tags in memory, each rounded up to eight bytes and followed by the end tag, and more
  steps than tags.
\<close>

theorem mb_get_first_tag:
  assumes "\<forall>t \<in> set ts. fst t \<noteq> 0 \<and> length (snd t) < 2 ^ 31" and "length ts < fuel" and "ty \<noteq> 0"
  shows "mb_get fuel (Some (enc32 hsz @ enc32 0 @ concat (map enc_tag ts) @ enc_tag (0, []))) ty = Some (tag_pos ts ty 8)"
  using mb_scan_tags [OF assms, of "enc32 hsz @ enc32 0"] mb32_enc32 [of "[]" hsz "enc32 0 @ concat (map enc_tag ts) @ enc_tag (0, [])"]
  by (simp add: mb_get_def)

theorem mb_get_first_tag_witness:
  "mb_get 3 (Some (enc32 48 @ enc32 0 @ concat (map enc_tag [(4, [1, 2]), (14, [9])]) @ enc_tag (0, []))) 14 = Some (Some 24)"
  using mb_get_first_tag [of "[(4, [1, 2]), (14, [9])]" 3 14 48] by (simp add: enc_tag_length pad8_def)

text \<open>
  The checksum of a table holds exactly when its bytes sum up to a multiple of 256, whatever carries the
  addition of bytes loses.
\<close>

theorem acpi_check_multiple:
  "acpi_check bs \<longleftrightarrow> 256 dvd (\<Sum>b \<leftarrow> bs. unat b)"
  by (rule acpi_check_sum)

text \<open>
  A controller for the keyboard is always assumed: whatever tags the boot information has and however the
  load ends, the version is below 2, and for such a version the flags of the table are not looked at.
\<close>

theorem acpi_supports_8042_always:
  assumes "acpi_root a = []" and "acpi_load fuel allocs tag_old tag_new a = Some (e, a')"
  shows "acpi_supports_8042_ps2 fuel' a' = map_option (\<lambda>(_, a1). (True, a1)) (acpi_find fuel' (Some [70, 65, 67, 80, 0]) 256 a')"
proof -
  have "acpi_ver a' < 2 \<or> acpi_root a' = []" using assms
    by (auto simp: acpi_load_def acpi_new_load_def Let_def split: option.splits if_splits dest!: old_load_ver)
  then have "acpi_version a1 < 2" if "acpi_find fuel' (Some [70, 65, 67, 80, 0]) 256 a' = Some (p, a1)" for p a1
    using that by (auto simp: acpi_find_def acpi_version_def split: if_splits dest: find_ver)
  then show ?thesis
    by (cases "acpi_find fuel' (Some [70, 65, 67, 80, 0]) 256 a'") (auto simp: acpi_supports_8042_ps2_def)
qed

theorem acpi_supports_8042_always_witness:
  "map_option fst (acpi_supports_8042_ps2 9 \<lparr>acpi_vm = vm_example, acpi_root = [], acpi_ver = 1\<rparr>) = Some True"
proof -
  let ?a = "\<lparr>acpi_vm = vm_example, acpi_root = [], acpi_ver = 0\<rparr>"
  have "acpi_load 9 (\<lambda>_. True) (Some (replicate 20 2)) None ?a = Some (- 22, \<lparr>acpi_vm = vm_example, acpi_root = [], acpi_ver = 1\<rparr>)"
    by (simp add: acpi_load_def acpi_old_load_def)
  from acpi_supports_8042_always [OF _ this, of 9] show ?thesis by (simp add: acpi_find_def)
qed

text \<open>
  A table is found at the wrong place: the pointer is meant to skip the header of 36 bytes and skips 36 headers.
\<close>

theorem acpi_find_skips_too_far:
  assumes "acpi_root a = m # ms" and "acpi_ver a \<noteq> 0" and "vbytes (acpi_vm a) (map_sdt m) 4 = Some s"
    and "0 < sz" and "vmm_calc (sz + (map_sdt m - map_base m)) \<le> map_size m"
  shows "acpi_find fuel (Some s) sz a = Some (map_sdt m + 1296, a)"
  using assms vbytes_length [OF assms(3)] strncmp_same [of 4 s]
  by (auto simp: acpi_find_def acpi_sdt_remap_def Let_def)

theorem acpi_find_skips_too_far_witness:
  "acpi_find 1 (Some [0, 0, 0, 0]) 8 \<lparr>acpi_vm = vm_example, acpi_root = [\<lparr>map_base = 0x5000, map_size = 1, map_sdt = 0x5010\<rparr>], acpi_ver = 1\<rparr> =
    Some (0x5520, \<lparr>acpi_vm = vm_example, acpi_root = [\<lparr>map_base = 0x5000, map_size = 1, map_sdt = 0x5010\<rparr>], acpi_ver = 1\<rparr>)"
proof -
  have "vbytes vm_example 0x5010 4 = Some [0, 0, 0, 0]" by code_simp
  moreover have "vmm_calc (8 + 0x10) \<le> 1" by code_simp
  ultimately show ?thesis
    using acpi_find_skips_too_far [of "\<lparr>acpi_vm = vm_example, acpi_root = [\<lparr>map_base = 0x5000, map_size = 1, map_sdt = 0x5010\<rparr>], acpi_ver = 1\<rparr>"] by simp
qed

end
