(* ===== verification/Ps2.thy ===== *)
theory Ps2
  imports Acpi Serial
begin

text \<open>
  The keyboard controller, \<^verbatim>\<open>kernel/core/ps2/ps2.c\<close>, over the ports of \<open>Io\<close>. The two waiting loops poll at most \<open>fuel\<close>
  times, \<open>None\<close> is a wait that takes longer.
\<close>

abbreviation (input) PS2_PORT_DATA :: u16 where "PS2_PORT_DATA \<equiv> 0x60"
abbreviation (input) PS2_PORT_STATUS :: u16 where "PS2_PORT_STATUS \<equiv> 0x64"

definition ps2_read :: "ports \<Rightarrow> nat \<Rightarrow> history \<Rightarrow> (u8 \<times> history) option" where
  "ps2_read hw fuel t = map_option (in8 hw PS2_PORT_DATA) (wait_status hw fuel PS2_PORT_STATUS 0 t)"

fun wait_clear :: "ports \<Rightarrow> nat \<Rightarrow> u16 \<Rightarrow> nat \<Rightarrow> history \<Rightarrow> history option" where
  "wait_clear hw 0 p n t = None"
| "wait_clear hw (Suc fuel) p n t =
     (case in8 hw p t of (v, t1) \<Rightarrow> if \<not> bit v n then Some t1 else wait_clear hw fuel p n t1)"

definition ps2_write :: "ports \<Rightarrow> nat \<Rightarrow> u8 \<Rightarrow> history \<Rightarrow> history option" where
  "ps2_write hw fuel val t = map_option (\<lambda>t1. snd (out8 PS2_PORT_DATA val t1)) (wait_clear hw fuel PS2_PORT_STATUS 1 t)"

definition ps2_cmd :: "ports \<Rightarrow> nat \<Rightarrow> u8 \<Rightarrow> history \<Rightarrow> (u8 \<times> history) option" where
  "ps2_cmd hw fuel cmd t =
     (let t1 = snd (out8 PS2_PORT_STATUS cmd t) in
      if cmd \<in> {0xA7, 0xA8, 0xAD, 0xAE, 0x60} then Some (0, t1) else ps2_read hw fuel t1)"

definition ps2_cmd_with :: "ports \<Rightarrow> nat \<Rightarrow> u8 \<Rightarrow> u8 \<Rightarrow> history \<Rightarrow> history option" where
  "ps2_cmd_with hw fuel cmd val t = ps2_write hw fuel val (snd (out8 PS2_PORT_STATUS cmd t))"

text \<open>The first port: its configuration and its test, with the number of ports that are left.\<close>

definition ps2_first :: "ports \<Rightarrow> nat \<Rightarrow> history \<Rightarrow> (nat \<times> history) option" where
  "ps2_first hw fuel t0 = do {
     (_, t1) \<leftarrow> ps2_cmd hw fuel 0xAD t0;
     (_, t2) \<leftarrow> ps2_cmd hw fuel 0xA7 t1;
     let t3 = snd (in8 hw PS2_PORT_DATA t2);
     (config, t4) \<leftarrow> ps2_cmd hw fuel 0x20 t3;
     t5 \<leftarrow> ps2_cmd_with hw fuel 0x60 (unset_bit 6 (unset_bit 4 (unset_bit 0 config))) t4;
     (err, t6) \<leftarrow> ps2_cmd hw fuel 0xAB t5;
     Some (if err \<noteq> 0 then 1 else 2, t6) }"

definition ps2_second :: "ports \<Rightarrow> nat \<Rightarrow> nat \<Rightarrow> history \<Rightarrow> (nat \<times> history) option" where
  "ps2_second hw fuel port_count t0 = do {
     (_, t1) \<leftarrow> ps2_cmd hw fuel 0xA8 t0;
     (config, t2) \<leftarrow> ps2_cmd hw fuel 0x20 t1;
     if bit config 5 then Some (port_count, t2)
     else do {
       (_, t3) \<leftarrow> ps2_cmd hw fuel 0xA7 t2;
       t4 \<leftarrow> ps2_cmd_with hw fuel 0x60 (unset_bit 5 (unset_bit 1 config)) t3;
       (err, t5) \<leftarrow> ps2_cmd hw fuel 0xA9 t4;
       Some (if err \<noteq> 0 then port_count - 1 else port_count, t5) } }"

definition ps2_init :: "ports \<Rightarrow> nat \<Rightarrow> acpi \<Rightarrow> history \<Rightarrow> (errcode \<times> acpi \<times> history) option" where
  "ps2_init hw fuel a t = do {
     (supported, a1) \<leftarrow> acpi_supports_8042_ps2 fuel a;
     if \<not> supported then Some (- EFAULT, a1, t)
     else do {
       (n1, t1) \<leftarrow> ps2_first hw fuel t;
       (n2, t2) \<leftarrow> ps2_second hw fuel n1 t1;
       Some (if n2 = 0 then 0 else - ENOSYS, a1, t2) } }"

section \<open>Lemmas\<close>

text \<open>
  What the driver relies on: after any accesses the controller has data ready, and takes data, within \<open>n\<close> polls.
\<close>

definition ps2_ready :: "ports \<Rightarrow> nat \<Rightarrow> bool" where
  "ps2_ready hw n \<longleftrightarrow> (\<forall>t. \<exists>k < n. bit (reads8 hw (t @ replicate k (In8 0x64)) 0x64) 0) \<and>
     (\<forall>t. \<exists>k < n. \<not> bit (reads8 hw (t @ replicate k (In8 0x64)) 0x64) 1)"

lemma wait_clear_polls:
  assumes "\<not> bit (reads8 hw (t @ replicate k (In8 p)) p) b" and "k < fuel" and "p \<noteq> 0"
  shows "\<exists>j. wait_clear hw fuel p b t = Some (t @ replicate j (In8 p))"
  using assms(1,2)
proof (induction fuel arbitrary: t k)
  case (Suc fuel)
  show ?case
  proof (cases "bit (reads8 hw t p) b")
    case False
    then show ?thesis using assms(3) by (auto simp: in8_def intro!: exI [of _ 1])
  next
    case True
    then obtain k' where k: "k = Suc k'" using Suc.prems(1) by (cases k) auto
    have "\<not> bit (reads8 hw ((t @ [In8 p]) @ replicate k' (In8 p)) p) b" using Suc.prems(1) k by simp
    then obtain j where "wait_clear hw fuel p b (t @ [In8 p]) = Some ((t @ [In8 p]) @ replicate j (In8 p))"
      using Suc.IH [of "t @ [In8 p]" k'] Suc.prems(2) k by auto
    then show ?thesis using True assms(3) by (auto simp: in8_def intro!: exI [of _ "Suc j"])
  qed
qed simp

lemma ps2_read_run:
  assumes "ps2_ready hw fuel"
  shows "\<exists>v ev. ps2_read hw fuel t = Some (v, t @ ev) \<and> sent 0x60 ev = []"
proof -
  obtain k where "k < fuel" "bit (reads8 hw (t @ replicate k (In8 0x64)) 0x64) 0" using assms unfolding ps2_ready_def by blast
  then obtain j where "wait_status hw fuel 0x64 0 t = Some (t @ replicate j (In8 0x64))"
    using wait_status_polls [of hw t k "0x64" 0 fuel] by auto
  then show ?thesis by (auto simp: ps2_read_def in8_def intro!: exI [of _ "replicate j (In8 0x64) @ [In8 0x60]"])
qed

lemma ps2_cmd_run:
  assumes "ps2_ready hw fuel"
  shows "\<exists>v ev. ps2_cmd hw fuel c t = Some (v, t @ ev) \<and> sent 0x60 ev = []"
proof (cases "c \<in> {0xA7, 0xA8, 0xAD, 0xAE, 0x60}")
  case True
  then show ?thesis by (auto simp: ps2_cmd_def out8_def Let_def)
next
  case False
  then show ?thesis using ps2_read_run [OF assms, of "t @ [Out8 0x64 c]"] by (auto simp: ps2_cmd_def out8_def Let_def)
qed

lemma ps2_cmd_with_run:
  assumes "ps2_ready hw fuel"
  shows "\<exists>ev. ps2_cmd_with hw fuel c v t = Some (t @ ev) \<and> sent 0x60 ev = [v]"
proof -
  let ?t = "t @ [Out8 0x64 c]"
  obtain k where "k < fuel" "\<not> bit (reads8 hw (?t @ replicate k (In8 0x64)) 0x64) 1" using assms unfolding ps2_ready_def by blast
  then obtain j where "wait_clear hw fuel 0x64 1 ?t = Some (?t @ replicate j (In8 0x64))"
    using wait_clear_polls [of hw ?t k "0x64" 1 fuel] by auto
  then show ?thesis by (auto simp: ps2_cmd_with_def ps2_write_def out8_def
        intro!: exI [of _ "Out8 0x64 c # replicate j (In8 0x64) @ [Out8 0x60 v]"])
qed

lemma ps2_first_run:
  assumes "ps2_ready hw fuel"
  shows "\<exists>n ev c. ps2_first hw fuel t = Some (n, t @ ev) \<and> n \<in> {1, 2} \<and>
    sent 0x60 ev = [unset_bit 6 (unset_bit 4 (unset_bit 0 c))]"
proof -
  note cmd = ps2_cmd_run [OF assms] and cmd_with = ps2_cmd_with_run [OF assms]
  obtain v1 e1 where 1: "ps2_cmd hw fuel 0xAD t = Some (v1, t @ e1)" "sent 0x60 e1 = []" using cmd by blast
  obtain v2 e2 where 2: "ps2_cmd hw fuel 0xA7 (t @ e1) = Some (v2, (t @ e1) @ e2)" "sent 0x60 e2 = []" using cmd by blast
  let ?t3 = "((t @ e1) @ e2) @ [In8 0x60]"
  obtain c e4 where 4: "ps2_cmd hw fuel 0x20 ?t3 = Some (c, ?t3 @ e4)" "sent 0x60 e4 = []" using cmd by blast
  let ?c = "unset_bit 6 (unset_bit 4 (unset_bit 0 c))"
  obtain e5 where 5: "ps2_cmd_with hw fuel 0x60 ?c (?t3 @ e4) = Some ((?t3 @ e4) @ e5)" "sent 0x60 e5 = [?c]" using cmd_with by blast
  obtain v6 e6 where 6: "ps2_cmd hw fuel 0xAB ((?t3 @ e4) @ e5) = Some (v6, ((?t3 @ e4) @ e5) @ e6)" "sent 0x60 e6 = []" using cmd by blast
  show ?thesis using 1 2 4 5 6
    by (intro exI [of _ "if v6 \<noteq> 0 then 1 else 2"] exI [of _ "e1 @ e2 @ [In8 0x60] @ e4 @ e5 @ e6"] exI [of _ c])
      (simp add: ps2_first_def in8_def Let_def)
qed

lemma ps2_second_run:
  assumes "ps2_ready hw fuel"
  shows "\<exists>m ev c. ps2_second hw fuel n t = Some (m, t @ ev) \<and> m \<in> {n, n - 1} \<and>
    (sent 0x60 ev = [] \<or> sent 0x60 ev = [unset_bit 5 (unset_bit 1 c)])"
proof -
  note cmd = ps2_cmd_run [OF assms] and cmd_with = ps2_cmd_with_run [OF assms]
  obtain v1 e1 where 1: "ps2_cmd hw fuel 0xA8 t = Some (v1, t @ e1)" "sent 0x60 e1 = []" using cmd by blast
  obtain c e2 where 2: "ps2_cmd hw fuel 0x20 (t @ e1) = Some (c, (t @ e1) @ e2)" "sent 0x60 e2 = []" using cmd by blast
  let ?t2 = "(t @ e1) @ e2" and ?c = "unset_bit 5 (unset_bit 1 c)"
  obtain v3 e3 where 3: "ps2_cmd hw fuel 0xA7 ?t2 = Some (v3, ?t2 @ e3)" "sent 0x60 e3 = []" using cmd by blast
  obtain e4 where 4: "ps2_cmd_with hw fuel 0x60 ?c (?t2 @ e3) = Some ((?t2 @ e3) @ e4)" "sent 0x60 e4 = [?c]" using cmd_with by blast
  obtain v5 e5 where 5: "ps2_cmd hw fuel 0xA9 ((?t2 @ e3) @ e4) = Some (v5, ((?t2 @ e3) @ e4) @ e5)" "sent 0x60 e5 = []" using cmd by blast
  show ?thesis
  proof (cases "bit c 5")
    case True
    then show ?thesis using 1 2 by (intro exI [of _ n] exI [of _ "e1 @ e2"]) (simp add: ps2_second_def)
  next
    case False
    then show ?thesis using 1 2 3 4 5
      by (intro exI [of _ "if v5 \<noteq> 0 then n - 1 else n"] exI [of _ "e1 @ e2 @ e3 @ e4 @ e5"] exI [of _ c]) (simp add: ps2_second_def)
  qed
qed

section \<open>Properties\<close>

text \<open>
  C34. With a controller that answers within the polls allowed, the initialisation ends, and ends with 0 or \<^verbatim>\<open>-ENOSYS\<close>. It
  sends the controller one or two configuration bytes: the first has the interrupt, the clock lock and the
  translation of the first port off, the second, when there is one, the interrupt and the clock lock of the other port.
\<close>

theorem ps2_init_configures:
  assumes "ps2_ready hw fuel" and "acpi_supports_8042_ps2 fuel a = Some (True, a1)"
  shows "\<exists>e ev c d. ps2_init hw fuel a t = Some (e, a1, t @ ev) \<and> e \<in> {0, - 38} \<and>
    (sent 0x60 ev = [c] \<or> sent 0x60 ev = [c, d]) \<and>
    \<not> bit c 0 \<and> \<not> bit c 4 \<and> \<not> bit c 6 \<and> \<not> bit d 1 \<and> \<not> bit d 5"
proof -
  obtain n e1 c where 1: "ps2_first hw fuel t = Some (n, t @ e1)" "n \<in> {1, 2}" "sent 0x60 e1 = [unset_bit 6 (unset_bit 4 (unset_bit 0 c))]"
    using ps2_first_run [OF assms(1)] by blast
  obtain m e2 d where 2: "ps2_second hw fuel n (t @ e1) = Some (m, (t @ e1) @ e2)"
    "sent 0x60 e2 = [] \<or> sent 0x60 e2 = [unset_bit 5 (unset_bit 1 d)]"
    using ps2_second_run [OF assms(1)] by blast
  show ?thesis using assms(2) 1 2
    by (intro exI [of _ "if m = 0 then 0 else - 38"] exI [of _ "e1 @ e2"] exI [of _ "unset_bit 6 (unset_bit 4 (unset_bit 0 c))"]
        exI [of _ "unset_bit 5 (unset_bit 1 d)"]) (auto simp: ps2_init_def bit_simps)
qed

definition quick_ps2 :: ports where
  "quick_ps2 = \<lparr>reads8 = (\<lambda>t p. if p = 0x64 then 1 else 0x77), reads16 = (\<lambda>t p. 0), reads32 = (\<lambda>t p. 0)\<rparr>"

theorem ps2_init_configures_witness:
  "\<exists>e ev c d. ps2_init quick_ps2 1 \<lparr>acpi_vm = vm_example, acpi_root = [], acpi_ver = 1\<rparr> [] =
      Some (e, \<lparr>acpi_vm = vm_example, acpi_root = [], acpi_ver = 1\<rparr>, ev) \<and>
    (sent 0x60 ev = [c] \<or> sent 0x60 ev = [c, d]) \<and> \<not> bit c 0"
proof -
  have "ps2_ready quick_ps2 1" by (simp add: ps2_ready_def quick_ps2_def bit_1_iff)
  moreover have "acpi_supports_8042_ps2 1 \<lparr>acpi_vm = vm_example, acpi_root = [], acpi_ver = 1\<rparr> =
      Some (True, \<lparr>acpi_vm = vm_example, acpi_root = [], acpi_ver = 1\<rparr>)"
    by (simp add: acpi_supports_8042_ps2_def acpi_find_def acpi_version_def)
  ultimately show ?thesis using ps2_init_configures [of quick_ps2 1 _ _ "[]"] by fastforce
qed

end
