(* ===== verification/Exec.thy ===== *)
theory Exec
  imports Elf Syscall
begin

text \<open>
  The \<^verbatim>\<open>exec\<close> call, \<^verbatim>\<open>kernel/syscall/exec.c\<close>, with the string lists of \<^verbatim>\<open>kernel/util/mem.c\<close>, and the
  set-up of the fast system calls, \<^verbatim>\<open>kernel/syscall/calls.c\<close>. The call joins the virtual filesystem, the
  loader, the regions and the scheduler: its state holds the nodes and the memory of \<open>Elf\<close>, whose page tables
  come with the tasks. The offsets of the segment descriptors are set by the assembly code
  and are arguments. A string is given without its terminating zero. \<open>None\<close> is a panic, a page fault or the end of the fuel.
\<close>

section \<open>String lists\<close>

text \<open>The counting loop and the copying loop of \<^verbatim>\<open>charlist_copy\<close>; its allocations are not checked by the code.\<close>

fun charlist_count :: "u64 \<Rightarrow> u64 \<Rightarrow> cstr list \<Rightarrow> u64 option" where
  "charlist_count limit count [] = (if count + 1 > limit then None else Some (count + 1))"
| "charlist_count limit count (x # xs) = (if count + 1 > limit then None else charlist_count limit (count + 1) xs)"

fun charlist_fill :: "u64 \<Rightarrow> u64 \<Rightarrow> cstr list \<Rightarrow> cstr list option" where
  "charlist_fill limit sz [] = Some []"
| "charlist_fill limit sz (x # xs) =
     (let sz = sz + (of_nat (length x) + 1) in
      if sz > limit then None else map_option (Cons x) (charlist_fill limit sz xs))"

definition charlist_copy :: "cstr list option \<Rightarrow> u64 \<Rightarrow> cstr list option" where
  "charlist_copy list limit = do { xs \<leftarrow> list; _ \<leftarrow> charlist_count limit 0 xs; charlist_fill limit 0 xs }"

section \<open>Replacing the program\<close>

abbreviation (input) ARG_LIMIT :: u64 where "ARG_LIMIT \<equiv> 4096"
abbreviation (input) ENV_LIMIT :: u64 where "ENV_LIMIT \<equiv> 0x7fffffff"

abbreviation (input) cur_of :: "rst \<Rightarrow> task" where
  "cur_of r \<equiv> tasks (vm_sched (rvm r)) (task_current (vm_sched (rvm r)))"

definition cur_upd :: "(task \<Rightarrow> task) \<Rightarrow> rst \<Rightarrow> rst" where
  "cur_upd f r = r\<lparr>rvm := (rvm r)\<lparr>vm_sched := task_put (task_current (vm_sched (rvm r))) f (vm_sched (rvm r))\<rparr>\<rparr>"

text \<open>The loop that deletes all regions of a type.\<close>

fun mem_del_loop :: "nat \<Rightarrow> nat \<Rightarrow> u8 \<Rightarrow> rst \<Rightarrow> rst option" where
  "mem_del_loop 0 fuel ty r = None"
| "mem_del_loop (Suc n) fuel ty r = do {
     cur \<leftarrow> region_find fuel r (task_mem (cur_of r)) ty VMM_VMA_USER;
     if cur = 0 then Some r
     else do {
       (_, r1, t) \<leftarrow> task_mem_del fuel r (Some (cur_of r)) cur;
       mem_del_loop n fuel ty (cur_upd (\<lambda>t'. t'\<lparr>task_mem := task_mem (the t)\<rparr>) r1) } }"

text \<open>The initial stack: environment, arguments, and the two pointers to them.\<close>

definition exec_args :: "task \<Rightarrow> cstr list option \<Rightarrow> cstr list" where
  "exec_args t argv = (case argv of Some xs \<Rightarrow> xs | None \<Rightarrow> [takeWhile (\<lambda>b. b \<noteq> 0) (task_name t)])"

definition exec_stack :: "cstr list option \<Rightarrow> cstr list option \<Rightarrow> vmem \<Rightarrow> task \<Rightarrow> (vmem \<times> task) option" where
  "exec_stack argv envp m t =
     (case task_stack_add_list m t (case envp of None \<Rightarrow> [] | Some xs \<Rightarrow> xs) ENV_LIMIT of (err, stack_envp, m1, t1) \<Rightarrow>
      if err \<noteq> 0 then None
      else case task_stack_add_list m1 t1 (exec_args t1 argv) ARG_LIMIT of (err, stack_argv, m2, t2) \<Rightarrow>
      if err \<noteq> 0 then None
      else case task_stack_add m2 t2 (ptr_bytes (the stack_envp)) of (_, m3, t3) \<Rightarrow>
           case task_stack_add m3 t3 (ptr_bytes (the stack_argv)) of (_, m4, t4) \<Rightarrow> Some (m4, t4))"

definition exec_start_regs :: "u64 \<Rightarrow> u64 \<Rightarrow> u64 \<Rightarrow> u64 \<Rightarrow> task_regs" where
  "exec_start_regs user_code user_data entry sp =
     regs_zero\<lparr>rflags := push_bit 1 1 OR push_bit 9 1, rip := entry, cs := user_code OR 3, ss := user_data OR 3, rsp := sp\<rparr>"

definition exec_image :: "nat \<Rightarrow> u64 \<Rightarrow> u64 \<Rightarrow> cstr \<Rightarrow> cstr list option \<Rightarrow> cstr list option \<Rightarrow> fmt \<Rightarrow> elf \<Rightarrow> elf option" where
  "exec_image fuel user_code user_data path argv envp fmt e = do {
     let r = cur_upd (\<lambda>t. t\<lparr>state := TASK_STATE_HOLD\<rparr>) (elf_regs e);
     (_, t) \<leftarrow> task_rename (Some (cur_of r)) (Some (path @ [0]));
     let r = cur_upd (\<lambda>_. the t) r;
     r \<leftarrow> mem_del_loop fuel fuel REGION_TYPE_CODE r;
     r \<leftarrow> mem_del_loop fuel fuel REGION_TYPE_RDONLY r;
     r \<leftarrow> mem_del_loop fuel fuel REGION_TYPE_DATA r;
     (_, head, r) \<leftarrow> region_add fuel r (task_mem (cur_of r)) (fmt_mem fmt);
     let r = cur_upd (\<lambda>t. t\<lparr>task_mem := head\<rparr>) r;
     sp \<leftarrow> task_stack_get fuel r (cur_of r) VMM_VMA_USER;
     (m, t) \<leftarrow> exec_stack argv envp (elf_vmem e) ((cur_of r)\<lparr>regs := exec_start_regs user_code user_data (fmt_entry fmt) sp\<rparr>);
     Some (e\<lparr>elf_regs := cur_upd (\<lambda>_. t) r, elf_vmem := m\<rparr>) }"

section \<open>The call\<close>

record exec =
  ex_vfs :: vfs
  ex_fs :: fs_store
  ex_elf :: elf

text \<open>The common end: priority, state, and then \<^verbatim>\<open>sched()\<close>.\<close>

definition exec_end :: "elf \<Rightarrow> elf" where
  "exec_end e = e\<lparr>elf_regs := cur_upd (\<lambda>t. t\<lparr>prio := TASK_PRIO_LOW, state := TASK_STATE_SAVE\<rparr>) (elf_regs e)\<rparr>"

text \<open>
  \<^verbatim>\<open>sys_exec\<close>: \<open>Inl\<close> is the return without a path; \<open>Inr\<close> is the state in which the call reaches \<^verbatim>\<open>sched()\<close>, with the code it
  would return behind it.
\<close>

definition sys_exec :: "nat \<Rightarrow> nat \<Rightarrow> (nat \<Rightarrow> u64) \<Rightarrow> u64 \<Rightarrow> u64 \<Rightarrow> exec \<Rightarrow> cstr option \<Rightarrow> cstr list option \<Rightarrow> cstr list option \<Rightarrow>
    (errcode + errcode \<times> exec) option" where
  "sys_exec n fuel alloc user_code user_data s path argv envp =
     (case path of None \<Rightarrow> Some (Inl (- EINVAL))
      | Some name \<Rightarrow> do {
          (err, node, v) \<leftarrow> vfs_open n (ex_fs s) (ex_vfs s) path;
          let s = s\<lparr>ex_vfs := v\<rparr>;
          if err \<noteq> 0 then Some (Inr (err, s\<lparr>ex_elf := exec_end (ex_elf s)\<rparr>))
          else do {
            vn \<leftarrow> nodes v node;
            if vfs_node_is_directory vn then Some (Inr (- EACCES, s\<lparr>ex_elf := exec_end (ex_elf s)\<rparr>))
            else do {
              let argv_copy = charlist_copy argv ARG_LIMIT;
              let envp_copy = charlist_copy envp ENV_LIMIT;
              (err, fmt, e) \<leftarrow> fmt_load fuel alloc (fs_read (ex_fs s (v_fs vn)) (v_inode vn)) (ex_elf s);
              if err < 0 then Some (Inr (err, s\<lparr>ex_elf := exec_end e\<rparr>))
              else do {
                (err, v) \<leftarrow> vfs_close n (ex_fs s) v node;
                let s = s\<lparr>ex_vfs := v\<rparr>;
                if err \<noteq> 0 then Some (Inr (err, s\<lparr>ex_elf := exec_end e\<rparr>))
                else do {
                  e \<leftarrow> exec_image fuel user_code user_data name argv_copy envp_copy fmt e;
                  Some (Inr (0, s\<lparr>ex_elf := exec_end e\<rparr>)) } } } } })"

section \<open>Fast system calls\<close>

datatype msr = MSR_EFER | MSR_STAR | MSR_LSTAR | MSR_FMASK

text \<open>\<^verbatim>\<open>sys_setup\<close>: the registers it writes, or a panic over the order of the descriptors.\<close>

definition sys_setup :: "u64 \<Rightarrow> u64 \<Rightarrow> u64 \<Rightarrow> u64 \<Rightarrow> u64 \<Rightarrow> (msr \<Rightarrow> u64) \<Rightarrow> (errcode \<times> (msr \<Rightarrow> u64)) option" where
  "sys_setup kernel_code kernel_data user_code user_data sys_handler msrs =
     (if kernel_code + 8 \<noteq> kernel_data then None
      else if user_data + 8 \<noteq> user_code then None
      else Some (0, msrs
        (MSR_EFER := msrs MSR_EFER OR 1,
         MSR_STAR := push_bit 32 kernel_code OR push_bit 48 (user_data - 5),
         MSR_LSTAR := sys_handler,
         MSR_FMASK := 0xffffffffffffffff - push_bit 1 1)))"

text \<open>The processor, SDM Vol. 3, 6.8.8: the selectors and the flags that \<^verbatim>\<open>SYSCALL\<close> and 64-bit \<^verbatim>\<open>SYSRET\<close> load.\<close>

definition syscall_cs :: "(msr \<Rightarrow> u64) \<Rightarrow> u64" where "syscall_cs msrs = drop_bit 32 (msrs MSR_STAR) AND 0xfffc"
definition syscall_ss :: "(msr \<Rightarrow> u64) \<Rightarrow> u64" where "syscall_ss msrs = (drop_bit 32 (msrs MSR_STAR) AND 0xffff) + 8"
definition syscall_flags :: "(msr \<Rightarrow> u64) \<Rightarrow> u64 \<Rightarrow> u64" where "syscall_flags msrs fl = fl AND NOT (msrs MSR_FMASK)"
definition sysret_cs :: "(msr \<Rightarrow> u64) \<Rightarrow> u64" where "sysret_cs msrs = (drop_bit 48 (msrs MSR_STAR) + 16) OR 3"
definition sysret_ss :: "(msr \<Rightarrow> u64) \<Rightarrow> u64" where "sysret_ss msrs = (drop_bit 48 (msrs MSR_STAR) + 8) OR 3"

section \<open>Copies of string lists\<close>

lemma charlist_count_fits:
  "unat count + length xs + 1 < 2 ^ 64 \<Longrightarrow> (charlist_count limit count xs \<noteq> None) = (unat count + length xs + 1 \<le> unat limit)"
proof (induction xs arbitrary: count)
  case Nil
  then show ?case by (simp add: word_less_nat_alt unat_plus64)
next
  case (Cons x xs)
  have "unat (count + 1) = unat count + 1" using Cons.prems by (simp add: unat_plus64)
  then show ?case using Cons by (simp add: word_less_nat_alt)
qed

lemma charlist_fill_fits:
  "unat sz + str_total xs < 2 ^ 64 \<Longrightarrow> unat sz \<le> unat limit \<Longrightarrow>
   charlist_fill limit sz xs = (if unat sz + str_total xs \<le> unat limit then Some xs else None)"
proof (induction xs arbitrary: sz)
  case (Cons x xs)
  let ?l = "of_nat (length x) + 1 :: u64"
  have "unat ?l = length x + 1"
    using Cons.prems(1) unat_of_nat64 [of "Suc (length x)"] by (simp add: add.commute)
  then have u: "unat (sz + ?l) = unat sz + length x + 1" using Cons.prems(1) by (simp add: unat_plus64)
  show ?case
  proof (cases "unat sz + length x + 1 \<le> unat limit")
    case True
    then have "\<not> sz + ?l > limit" using u by (simp add: word_less_nat_alt)
    moreover have "charlist_fill limit (sz + ?l) xs = (if unat (sz + ?l) + str_total xs \<le> unat limit then Some xs else None)"
      using Cons.prems u True by (intro Cons.IH) simp_all
    ultimately show ?thesis using u by (simp add: Let_def)
  next
    case False
    then have "sz + ?l > limit" using u by (simp add: word_less_nat_alt)
    then show ?thesis using False by (simp add: Let_def)
  qed
qed simp

text \<open>The copy is the list itself, or nothing when the pointers or the bytes are more than the limit.\<close>

theorem charlist_copy_fits:
  assumes "Suc (length xs) < 2 ^ 64" and "str_total xs < 2 ^ 64"
  shows "charlist_copy (Some xs) limit = (if Suc (length xs) \<le> unat limit \<and> str_total xs \<le> unat limit then Some xs else None)"
  using charlist_count_fits [of 0 xs limit] charlist_fill_fits [of 0 xs limit] assms
  by (cases "charlist_count limit 0 xs") (auto simp: charlist_copy_def)

theorem charlist_copy_fits_witness: "charlist_copy (Some [[47, 105], [45]]) 4 = None"
  using charlist_copy_fits [of "[[47, 105], [45]]" 4] by simp

section \<open>The initial stack\<close>

text \<open>
  A list of strings as the code lays it out between the addresses \<open>lo\<close> and \<open>hi\<close>: a zero-terminated array of pointers at \<open>a\<close>, each of which
  lies \<open>7 - length mod 8\<close> bytes below its string.
\<close>

definition list_at :: "vmem \<Rightarrow> u64 \<Rightarrow> u64 \<Rightarrow> u64 \<Rightarrow> cstr list \<Rightarrow> bool" where
  "list_at m lo hi a xs \<longleftrightarrow> unat lo \<le> unat a \<and> unat a + 8 * Suc (length xs) \<le> unat hi \<and>
     mem_read m (a + 8 * of_nat (length xs)) 8 = ptr_bytes 0 \<and>
     (\<exists>ps. \<forall>i < length xs. mem_read m (a + 8 * of_nat i) 8 = ptr_bytes (ps ! i) \<and>
        mem_read m (ps ! i + of_nat (7 - length (xs ! i) mod 8)) (length (xs ! i) + 1) = xs ! i @ [0] \<and>
        unat lo \<le> unat (ps ! i) \<and> unat (ps ! i) + (7 - length (xs ! i) mod 8) + (length (xs ! i) + 1) \<le> unat hi)"

lemma mem_read_above:
  assumes "\<forall>y. unat lo \<le> unat y \<longrightarrow> m' y = m y" and "unat lo \<le> unat a" and "unat a + n < 2 ^ 64"
  shows "mem_read m' a n = mem_read m a n"
  using assms by (intro mem_read_cong) auto

lemma unat_plus_of_nat: "unat a + n < 2 ^ 64 \<Longrightarrow> unat (a + of_nat n :: u64) = unat a + n"
  by (simp add: unat_plus64)

lemma list_at_frame:
  assumes l: "list_at m lo hi a xs" and eq: "\<forall>y. unat lo \<le> unat y \<longrightarrow> m' y = m y"
    and lo: "unat lo' \<le> unat lo" and hi: "unat hi \<le> unat hi'"
  shows "list_at m' lo' hi' a xs"
proof -
  obtain ps where b: "unat lo \<le> unat a" "unat a + 8 * Suc (length xs) \<le> unat hi" "mem_read m (a + 8 * of_nat (length xs)) 8 = ptr_bytes 0"
    and ps: "\<And>i. i < length xs \<Longrightarrow> mem_read m (a + 8 * of_nat i) 8 = ptr_bytes (ps ! i) \<and>
        mem_read m (ps ! i + of_nat (7 - length (xs ! i) mod 8)) (length (xs ! i) + 1) = xs ! i @ [0] \<and>
        unat lo \<le> unat (ps ! i) \<and> unat (ps ! i) + (7 - length (xs ! i) mod 8) + (length (xs ! i) + 1) \<le> unat hi"
    using l by (auto simp: list_at_def)
  have arr: "mem_read m' (a + 8 * of_nat i) 8 = mem_read m (a + 8 * of_nat i) 8" if "i \<le> length xs" for i
  proof (rule mem_read_above [OF eq])
    have "unat a + 8 * length xs + 8 \<le> unat hi" using b(2) by simp
    then have e: "unat a + 8 * i + 8 < 2 ^ 64" using that unat_lt64 [of hi] by linarith
    have u: "unat (a + of_nat (8 * i)) = unat a + 8 * i" using e by (intro unat_plus_of_nat) linarith
    then show "unat lo \<le> unat (a + 8 * of_nat i)" using b by simp
    show "unat (a + 8 * of_nat i) + 8 < 2 ^ 64" using u e by simp
  qed
  have str: "mem_read m' (ps ! i + of_nat (7 - length (xs ! i) mod 8)) (length (xs ! i) + 1) =
      mem_read m (ps ! i + of_nat (7 - length (xs ! i) mod 8)) (length (xs ! i) + 1)" if "i < length xs" for i
  proof (rule mem_read_above [OF eq])
    have u: "unat (ps ! i + of_nat (7 - length (xs ! i) mod 8)) = unat (ps ! i) + (7 - length (xs ! i) mod 8)"
      using ps [OF that] unat_lt64 [of hi] by (intro unat_plus_of_nat) linarith
    then show "unat lo \<le> unat (ps ! i + of_nat (7 - length (xs ! i) mod 8))" using ps [OF that] by linarith
    show "unat (ps ! i + of_nat (7 - length (xs ! i) mod 8)) + (length (xs ! i) + 1) < 2 ^ 64"
      unfolding u using ps [OF that] unat_lt64 [of hi] by linarith
  qed
  have "\<forall>i < length xs. mem_read m' (a + 8 * of_nat i) 8 = ptr_bytes (ps ! i) \<and>
      mem_read m' (ps ! i + of_nat (7 - length (xs ! i) mod 8)) (length (xs ! i) + 1) = xs ! i @ [0] \<and>
      unat lo' \<le> unat (ps ! i) \<and> unat (ps ! i) + (7 - length (xs ! i) mod 8) + (length (xs ! i) + 1) \<le> unat hi'"
  proof (intro allI impI)
    fix i assume i: "i < length xs"
    from ps [OF i] lo hi show "mem_read m' (a + 8 * of_nat i) 8 = ptr_bytes (ps ! i) \<and>
      mem_read m' (ps ! i + of_nat (7 - length (xs ! i) mod 8)) (length (xs ! i) + 1) = xs ! i @ [0] \<and>
      unat lo' \<le> unat (ps ! i) \<and> unat (ps ! i) + (7 - length (xs ! i) mod 8) + (length (xs ! i) + 1) \<le> unat hi'"
      unfolding str [OF i] arr [OF less_imp_le [OF i]] by (blast intro: le_trans)
  qed
  then show ?thesis unfolding list_at_def using b lo hi arr [of "length xs"] by auto
qed

lemma stack_room_loop_same:
  "stack_room_loop limit i t xs = Inr t1 \<Longrightarrow> \<exists>sp. t1 = t\<lparr>regs := (regs t)\<lparr>rsp := sp\<rparr>\<rparr>"
proof (induction xs arbitrary: i t)
  case Nil
  then show ?case by (intro exI [of _ "rsp (regs t)"]) simp
next
  case (Cons x xs)
  then obtain sp where "t1 = (rsp_sub8 t)\<lparr>regs := (regs (rsp_sub8 t))\<lparr>rsp := sp\<rparr>\<rparr>" by (fastforce split: if_splits)
  then show ?case by (intro exI [of _ sp]) (simp add: rsp_sub8_def)
qed

text \<open>A whole list, with the room it takes and what it leaves alone.\<close>

abbreviation (input) list_room :: "cstr list \<Rightarrow> nat" where "list_room xs \<equiv> 8 * Suc (length xs) + str_room xs"

lemma task_stack_add_list_at:
  assumes al: "unat (rsp (regs t)) mod 8 = 0" and room: "list_room xs \<le> unat (rsp (regs t))" and tot: "str_total xs \<le> unat limit"
  shows "\<exists>a m' t'. task_stack_add_list m t xs limit = (0, Some a, m', t') \<and> stack_grown (list_room xs) t t' \<and>
    list_at m' (rsp (regs t')) (rsp (regs t)) a xs \<and> (\<forall>y. unat (rsp (regs t)) \<le> unat y \<longrightarrow> m' y = m y)"
proof -
  let ?n = "Suc (length xs)" and ?sp = "rsp (regs t)"
  obtain t1 where t1: "stack_room_loop limit 0 t xs = Inr t1" "rsp (regs t1) = ?sp - 8 * of_nat (length xs)"
    using stack_room_loop_ok [of 0 xs limit t] str_total_length [of xs] tot by auto
  let ?t2 = "rsp_sub8 t1" and ?st = "rsp (regs (rsp_sub8 t1))"
  have st: "?st = ?sp - of_nat (8 * ?n)" using t1(2) by (simp add: rsp_sub8_def algebra_simps)
  have n8: "unat (of_nat (8 * ?n) :: u64) = 8 * ?n"
    using room unat_lt64 [of ?sp] by (intro unat_of_nat64) linarith
  have u: "unat ?st = unat ?sp - 8 * ?n"
    unfolding st using n8 room by (subst unat_sub) (simp_all add: word_le_nat_alt)
  have al2: "unat ?st mod 8 = 0" unfolding u using al by (metis dvd_diff_nat dvd_triv_left mod_eq_0_iff_dvd)
  have b1: "unat ?st + 8 * ?n < 2 ^ 64" using u room unat_lt64 [of ?sp] by linarith
  have b2: "str_room xs \<le> unat ?st" using u room by linarith
  have b3: "unat (0 :: u64) + str_total xs \<le> unat limit" using tot by simp
  obtain m' t' ps where r: "stack_copy_loop limit 0 ?st m ?t2 xs = (0, m', t')" "stack_grown (str_room xs) ?t2 t'"
     "str_between ?t2 t' xs ps"
     "\<forall>i < length xs. mem_read m' (?st + 8 * of_nat i) 8 = ptr_bytes (ps ! i) \<and>
        mem_read m' (ps ! i + of_nat (7 - length (xs ! i) mod 8)) (length (xs ! i) + 1) = xs ! i @ [0]"
     "mem_read m' (?st + 8 * of_nat (length xs)) 8 = ptr_bytes 0"
     "\<forall>y. unat ?st \<le> unat y \<and> (unat y < unat ?st \<or> unat ?st + 8 * ?n \<le> unat y) \<longrightarrow> m' y = m y"
    using stack_copy_loop_layout [OF al2 b2 le_refl b1 b3, of m] by (elim exE conjE) (rule that)
  obtain sp1 where "t1 = t\<lparr>regs := (regs t)\<lparr>rsp := sp1\<rparr>\<rparr>" using stack_room_loop_same [OF t1(1)] by blast
  then have "?t2 = t\<lparr>regs := (regs t)\<lparr>rsp := ?st\<rparr>\<rparr>" by (simp add: rsp_sub8_def)
  then have g0: "stack_grown (8 * ?n) t ?t2" unfolding stack_grown_def using al2 u room by (intro exI [of _ ?st]) simp
  have up: "unat ?st + 8 * ?n = unat ?sp" using u room by linarith
  have "list_at m' (rsp (regs t')) ?sp ?st xs"
    unfolding list_at_def using r(3-5) up stack_grown_le [OF r(2)] unfolding str_between_def
    by (intro conjI exI [of _ ps]) (auto intro: le_trans)
  moreover have "\<forall>y. unat ?sp \<le> unat y \<longrightarrow> m' y = m y" using r(6) up by auto
  ultimately show ?thesis using t1(1) r(1) stack_grown_trans [OF g0 r(2)]
    by (intro exI [of _ ?st] exI [of _ m'] exI [of _ t']) (simp add: task_stack_add_list_def)
qed

lemma task_stack_add_ptr:
  assumes "unat (rsp (regs t)) mod 8 = 0" and "8 \<le> unat (rsp (regs t))"
  shows "\<exists>sz m' t'. task_stack_add m t (ptr_bytes p) = (sz, m', t') \<and> stack_grown 8 t t' \<and>
    rsp (regs t') = rsp (regs t) - 8 \<and> mem_read m' (rsp (regs t')) 8 = ptr_bytes p \<and>
    (\<forall>y. unat (rsp (regs t)) \<le> unat y \<longrightarrow> m' y = m y)"
proof -
  let ?sp = "rsp (regs t)"
  have u: "unat (?sp - 8) = unat ?sp - 8" using assms(2) by (subst unat_sub) (simp_all add: word_le_nat_alt)
  have "(unat ?sp - 8) mod 8 = 0" using assms(1) by (metis dvd_diff_nat dvd_refl mod_eq_0_iff_dvd)
  then have z: "(?sp - 8) mod 8 = 0" using u by (simp add: word_unat_eq_iff unat_mod_distrib)
  have b: "unat (?sp - 8) + length (ptr_bytes p) < 2 ^ 64" using u assms(2) unat_lt64 [of ?sp] by simp
  have "task_stack_add m t (ptr_bytes p) = (8, mem_write m (?sp - 8) (ptr_bytes p), t\<lparr>regs := (regs t)\<lparr>rsp := ?sp - 8\<rparr>\<rparr>)"
    by (simp add: task_stack_add_def Let_def stack_align_eq z)
  moreover have "stack_grown 8 t (t\<lparr>regs := (regs t)\<lparr>rsp := ?sp - 8\<rparr>\<rparr>)"
    unfolding stack_grown_def using u \<open>(unat ?sp - 8) mod 8 = 0\<close> by (intro exI [of _ "?sp - 8"]) simp
  moreover have "mem_read (mem_write m (?sp - 8) (ptr_bytes p)) (?sp - 8) 8 = ptr_bytes p"
    using mem_read_write [OF b, of m] by simp
  ultimately show ?thesis using mem_write_at [OF b, of m] u assms(2) by auto
qed

text \<open>The three functions change nothing of the task but its stack pointer.\<close>

lemma task_stack_add_same: "task_stack_add m t v = (sz, m', t') \<Longrightarrow> \<exists>sp. t' = t\<lparr>regs := (regs t)\<lparr>rsp := sp\<rparr>\<rparr>"
  by (auto simp: task_stack_add_def Let_def split: prod.splits)

lemma stack_copy_loop_same:
  "stack_copy_loop limit tot cur m t xs = (err, m', t') \<Longrightarrow> \<exists>sp. t' = t\<lparr>regs := (regs t)\<lparr>rsp := sp\<rparr>\<rparr>"
proof (induction xs arbitrary: tot cur m t)
  case Nil
  then show ?case by (intro exI [of _ "rsp (regs t)"]) simp
next
  case (Cons x xs)
  obtain sz m1 t1 where a: "task_stack_add m t (x @ [0]) = (sz, m1, t1)" by (rule prod_cases3)
  obtain sp1 where t1: "t1 = t\<lparr>regs := (regs t)\<lparr>rsp := sp1\<rparr>\<rparr>" using task_stack_add_same [OF a] by blast
  show ?case
  proof (cases "tot + (of_nat (length x) + 1) > limit")
    case True
    then have "t' = t" using Cons.prems by (simp add: Let_def)
    then show ?thesis by (intro exI [of _ "rsp (regs t)"]) simp
  next
    case False
    then obtain sp where "t' = t1\<lparr>regs := (regs t1)\<lparr>rsp := sp\<rparr>\<rparr>" using Cons.prems Cons.IH a by (fastforce simp: Let_def)
    then show ?thesis using t1 by (intro exI [of _ sp]) simp
  qed
qed

lemma task_stack_add_list_same:
  assumes "task_stack_add_list m t xs limit = (0, p, m', t')" shows "\<exists>sp. t' = t\<lparr>regs := (regs t)\<lparr>rsp := sp\<rparr>\<rparr>"
proof (cases "stack_room_loop limit 0 t xs")
  case (Inr t1)
  obtain sp1 where t1: "t1 = t\<lparr>regs := (regs t)\<lparr>rsp := sp1\<rparr>\<rparr>" using stack_room_loop_same [OF Inr] by blast
  obtain err m2 t2 where c: "stack_copy_loop limit 0 (rsp (regs (rsp_sub8 t1))) m (rsp_sub8 t1) xs = (err, m2, t2)" by (rule prod_cases3)
  then have "t' = t2" using assms Inr by (simp add: task_stack_add_list_def Let_def)
  then obtain sp where "t' = (rsp_sub8 t1)\<lparr>regs := (regs (rsp_sub8 t1))\<lparr>rsp := sp\<rparr>\<rparr>" using stack_copy_loop_same [OF c] by blast
  then show ?thesis using t1 by (intro exI [of _ sp]) (simp add: rsp_sub8_def)
qed (use assms in \<open>simp add: task_stack_add_list_def\<close>)

lemma exec_stack_same:
  assumes "exec_stack argv envp m t = Some (m', t')" shows "\<exists>sp. t' = t\<lparr>regs := (regs t)\<lparr>rsp := sp\<rparr>\<rparr>"
proof -
  obtain p1 m1 t1 where 1: "task_stack_add_list m t (case envp of None \<Rightarrow> [] | Some xs \<Rightarrow> xs) ENV_LIMIT = (0, p1, m1, t1)"
    using assms by (cases "task_stack_add_list m t (case envp of None \<Rightarrow> [] | Some xs \<Rightarrow> xs) ENV_LIMIT")
      (auto simp: exec_stack_def split: if_splits)
  obtain p2 m2 t2 where 2: "task_stack_add_list m1 t1 (exec_args t1 argv) ARG_LIMIT = (0, p2, m2, t2)"
    using assms 1 by (cases "task_stack_add_list m1 t1 (exec_args t1 argv) ARG_LIMIT") (auto simp: exec_stack_def split: if_splits)
  obtain s3 m3 t3 where 3: "task_stack_add m2 t2 (ptr_bytes (the p1)) = (s3, m3, t3)" by (rule prod_cases3)
  obtain s4 m4 t4 where 4: "task_stack_add m3 t3 (ptr_bytes (the p2)) = (s4, m4, t4)" by (rule prod_cases3)
  have "t' = t4" using assms 1 2 3 4 by (simp add: exec_stack_def)
  then show ?thesis
    using task_stack_add_list_same [OF 1] task_stack_add_list_same [OF 2] task_stack_add_same [OF 3] task_stack_add_same [OF 4] by auto
qed

lemma exec_args_regs [simp]: "exec_args (t\<lparr>regs := g\<rparr>) argv = exec_args t argv"
  by (cases argv) (simp_all add: exec_args_def)

lemma exec_stack_layout:
  assumes al: "unat (rsp (regs t)) mod 8 = 0" and env: "envs = (case envp of None \<Rightarrow> [] | Some xs \<Rightarrow> xs)" and arg: "args = exec_args t argv"
    and room: "list_room envs + list_room args + 16 \<le> unat (rsp (regs t))"
    and tot: "str_total envs \<le> unat ENV_LIMIT" "str_total args \<le> unat ARG_LIMIT"
  shows "\<exists>m' t' a b. exec_stack argv envp m t = Some (m', t') \<and> unat (rsp (regs t')) mod 8 = 0 \<and>
    mem_read m' (rsp (regs t')) 8 = ptr_bytes a \<and> mem_read m' (rsp (regs t') + 8) 8 = ptr_bytes b \<and>
    list_at m' (rsp (regs t')) (rsp (regs t)) a args \<and> list_at m' (rsp (regs t')) (rsp (regs t)) b envs"
proof -
  have "list_room envs \<le> unat (rsp (regs t))" using room by linarith
  then obtain b m1 t1 where 1: "task_stack_add_list m t envs ENV_LIMIT = (0, Some b, m1, t1)" "stack_grown (list_room envs) t t1"
      "list_at m1 (rsp (regs t1)) (rsp (regs t)) b envs"
    using task_stack_add_list_at [OF al _ tot(1), of m] by blast
  have g1: "unat (rsp (regs t1)) mod 8 = 0" "unat (rsp (regs t)) \<le> unat (rsp (regs t1)) + list_room envs" "exec_args t1 argv = args"
    using 1(2) arg by (auto simp: stack_grown_def)
  have "list_room args \<le> unat (rsp (regs t1))" using g1(2) room by linarith
  then obtain a m2 t2 where 2: "task_stack_add_list m1 t1 args ARG_LIMIT = (0, Some a, m2, t2)" "stack_grown (list_room args) t1 t2"
      "list_at m2 (rsp (regs t2)) (rsp (regs t1)) a args" "\<forall>y. unat (rsp (regs t1)) \<le> unat y \<longrightarrow> m2 y = m1 y"
    using task_stack_add_list_at [OF g1(1) _ tot(2), of m1] by blast
  have g2: "unat (rsp (regs t2)) mod 8 = 0" "unat (rsp (regs t1)) \<le> unat (rsp (regs t2)) + list_room args"
    using 2(2) by (auto simp: stack_grown_def)
  have "8 \<le> unat (rsp (regs t2))" using g1(2) g2(2) room by linarith
  then obtain s3 m3 t3 where 3: "task_stack_add m2 t2 (ptr_bytes b) = (s3, m3, t3)" "stack_grown 8 t2 t3"
      "rsp (regs t3) = rsp (regs t2) - 8" "mem_read m3 (rsp (regs t3)) 8 = ptr_bytes b" "\<forall>y. unat (rsp (regs t2)) \<le> unat y \<longrightarrow> m3 y = m2 y"
    using task_stack_add_ptr [OF g2(1), of m2 b] by blast
  have g3: "unat (rsp (regs t3)) mod 8 = 0" "unat (rsp (regs t2)) \<le> unat (rsp (regs t3)) + 8" using 3(2) by (auto simp: stack_grown_def)
  have "8 \<le> unat (rsp (regs t3))" using g1(2) g2(2) g3(2) room by linarith
  then obtain s4 m4 t4 where 4: "task_stack_add m3 t3 (ptr_bytes a) = (s4, m4, t4)" "stack_grown 8 t3 t4"
      "rsp (regs t4) = rsp (regs t3) - 8" "mem_read m4 (rsp (regs t4)) 8 = ptr_bytes a" "\<forall>y. unat (rsp (regs t3)) \<le> unat y \<longrightarrow> m4 y = m3 y"
    using task_stack_add_ptr [OF g3(1), of m3 a] by blast
  have le: "unat (rsp (regs t1)) \<le> unat (rsp (regs t))" "unat (rsp (regs t2)) \<le> unat (rsp (regs t1))"
      "unat (rsp (regs t3)) \<le> unat (rsp (regs t2))" "unat (rsp (regs t4)) \<le> unat (rsp (regs t3))"
    using stack_grown_le 1(2) 2(2) 3(2) 4(2) by blast+
  have f24: "\<forall>y. unat (rsp (regs t2)) \<le> unat y \<longrightarrow> m4 y = m2 y" using 3(5) 4(5) le by auto
  then have f14: "\<forall>y. unat (rsp (regs t1)) \<le> unat y \<longrightarrow> m4 y = m1 y" using 2(4) le by auto
  have "mem_read m4 (rsp (regs t3)) 8 = ptr_bytes b"
  proof -
    have "mem_read m4 (rsp (regs t3)) 8 = mem_read m3 (rsp (regs t3)) 8"
    proof (rule mem_read_above [OF 4(5)])
      have "unat (rsp (regs t3)) + 8 = unat (rsp (regs t2))"
        unfolding 3(3) using \<open>8 \<le> unat (rsp (regs t2))\<close> by (subst unat_sub) (simp_all add: word_le_nat_alt)
      then show "unat (rsp (regs t3)) + 8 < 2 ^ 64" using unat_lt64 [of "rsp (regs t2)"] by linarith
    qed simp
    then show ?thesis using 3(4) by simp
  qed
  then have "mem_read m4 (rsp (regs t4) + 8) 8 = ptr_bytes b" using 4(3) by simp
  moreover have "list_at m4 (rsp (regs t4)) (rsp (regs t)) a args" "list_at m4 (rsp (regs t4)) (rsp (regs t)) b envs"
    using list_at_frame [OF 2(3) f24] list_at_frame [OF 1(3) f14] le by simp_all
  moreover have "unat (rsp (regs t4)) mod 8 = 0" using 4(2) by (auto simp: stack_grown_def)
  moreover have "exec_stack argv envp m t = Some (m4, t4)"
    using 1(1) 2(1) 3(1) 4(1) g1(3) env by (simp add: exec_stack_def)
  ultimately show ?thesis using 4(4) by (intro exI [of _ m4] exI [of _ t4] exI [of _ a] exI [of _ b] conjI) simp_all
qed

section \<open>The next interrupt\<close>

text \<open>A tick of a task in the saving state puts its saved registers on the interrupt stack.\<close>

lemma tick_save:
  assumes "task_current s = c" and "c \<noteq> 0" and "sigq (tasks s c) = 0" and "state (tasks s c) = TASK_STATE_SAVE" and "ticks (tasks s c) \<noteq> 0"
  shows "sched_timer_handler (Suc d) fuel env s stack =
    Some (task_put c (\<lambda>t. t\<lparr>state := TASK_STATE_READY, ticks := ticks t - 1\<rparr>) s, copy_regs stack (regs (tasks s c)))"
  using assms by (simp add: sched_dispatch_def sched_finish_def Let_def task_update_stack_def)

lemma cur_upd_simps [simp]:
  "regions (cur_upd f r) = regions r" "task_current (vm_sched (rvm (cur_upd f r))) = task_current (vm_sched (rvm r))"
  "tasks (vm_sched (rvm (cur_upd f r))) (task_current (vm_sched (rvm r))) = f (cur_of r)"
  by (simp_all add: cur_upd_def)

lemma region_find_regions: "regions r = regions r' \<Longrightarrow> region_find n r h ty vma = region_find n r' h ty vma"
  by (induction n arbitrary: h ty) simp_all

lemma task_stack_get_cong:
  "regions r = regions r' \<Longrightarrow> task_mem t = task_mem t' \<Longrightarrow> task_stack_get n r t vma = task_stack_get n r' t' vma"
  using region_find_regions [of r r'] by (cases "region_find n r' (task_mem t') 5 vma") (simp_all add: task_stack_get_def)

lemma exec_end_tick:
  assumes "c = task_current (vm_sched (rvm (elf_regs e)))" and "c \<noteq> 0" and "sigq (cur_of (elf_regs e)) = 0" and "ticks (cur_of (elf_regs e)) \<noteq> 0"
  shows "\<exists>sc. sched_timer_handler (Suc d) fuel env (vm_sched (rvm (elf_regs (exec_end e)))) stack =
    Some (sc, copy_regs stack (regs (tasks (vm_sched (rvm (elf_regs e))) c)))"
proof -
  let ?s = "vm_sched (rvm (elf_regs (exec_end e)))"
  have t: "tasks ?s c = (cur_of (elf_regs e))\<lparr>prio := TASK_PRIO_LOW, state := TASK_STATE_SAVE\<rparr>" "task_current ?s = c"
    using assms(1) by (simp_all add: exec_end_def cur_upd_def)
  have "sched_timer_handler (Suc d) fuel env ?s stack =
    Some (task_put c (\<lambda>t. t\<lparr>state := TASK_STATE_READY, ticks := ticks t - 1\<rparr>) ?s, copy_regs stack (regs (tasks ?s c)))"
    by (rule tick_save) (use assms t in simp_all)
  then show ?thesis using t assms(1) by simp
qed

lemma exec_image_parts:
  assumes "exec_image fuel user_code user_data path argv envp fmt e = Some e'"
  shows "\<exists>r sp m t. task_stack_get fuel r (cur_of r) VMM_VMA_USER = Some sp \<and>
    exec_stack argv envp (elf_vmem e) ((cur_of r)\<lparr>regs := exec_start_regs user_code user_data (fmt_entry fmt) sp\<rparr>) = Some (m, t) \<and>
    e' = e\<lparr>elf_regs := cur_upd (\<lambda>_. t) r, elf_vmem := m\<rparr>"
  using assms unfolding exec_image_def by (auto simp: Let_def simp del: cur_upd_simps split: bind_splits) blast

lemma exec_start_regs_simps [simp]:
  "rsp (exec_start_regs uc ud entry sp) = sp" "(exec_start_regs uc ud entry sp)\<lparr>rsp := sp'\<rparr> = exec_start_regs uc ud entry sp'"
  by (simp_all add: exec_start_regs_def)

section \<open>Properties\<close>


text \<open>
  C21. A failing \<^verbatim>\<open>exec\<close> does not come back: when the file cannot be opened or is a directory, the call leaves the task in the state in which
  the next interrupt loads its saved registers. The program goes on where it was when the timer last
  interrupted it, and the error code is lost.
\<close>

theorem sys_exec_error_is_lost:
  assumes "vfs_open n (ex_fs s) (ex_vfs s) (Some path) = Some (err, node, v)"
    and "err \<noteq> 0 \<or> (\<exists>vn. nodes v node = Some vn \<and> i_type (v_inode vn) = FS_ENTRY_TYPE_DIR)"
    and "c = task_current (vm_sched (rvm (elf_regs (ex_elf s))))" and "t = tasks (vm_sched (rvm (elf_regs (ex_elf s)))) c" and "c \<noteq> 0"
    and "sigq t = 0" and "ticks t \<noteq> 0"
  shows "\<exists>code s' sc. sys_exec n fuel alloc user_code user_data s (Some path) argv envp = Some (Inr (code, s')) \<and>
    code = (if err \<noteq> 0 then err else - EACCES) \<and>
    sched_timer_handler (Suc d) fuel' schedenv (vm_sched (rvm (elf_regs (ex_elf s')))) stack = Some (sc, copy_regs stack (regs t))"
proof -
  have "sys_exec n fuel alloc user_code user_data s (Some path) argv envp =
      Some (Inr (if err \<noteq> 0 then err else - EACCES, s\<lparr>ex_vfs := v, ex_elf := exec_end (ex_elf s)\<rparr>))"
    using assms(1,2) by (auto simp: sys_exec_def vfs_node_is_directory_def)
  moreover obtain sc where "sched_timer_handler (Suc d) fuel' schedenv (vm_sched (rvm (elf_regs (exec_end (ex_elf s))))) stack =
      Some (sc, copy_regs stack (regs t))"
    using exec_end_tick [OF assms(3,5), of d fuel' schedenv stack] assms by auto
  ultimately show ?thesis by auto
qed

lemma sel_facts:
  assumes "x AND 7 = (0 :: u64)"
  shows "(x + 3) OR 3 = x OR 3" "x + 3 = x OR 3" "x AND 3 = 0"
proof -
  have z: "x AND 3 = 0"
  proof -
    have "(x AND 7) AND 3 = 0" unfolding assms by simp
    then show ?thesis by (simp add: and.assoc)
  qed
  then show "x AND 3 = 0" .
  from z show "x + 3 = x OR 3" using word_plus_and_or [of x 3] by simp
  then show "(x + 3) OR 3 = x OR 3" by (simp add: or.assoc)
qed

lemma low16_bit:
  assumes "(x :: u64) < 0x10000" and "bit x n" shows "n < 16"
proof -
  have "take_bit 16 x = x" using assms(1) by (intro word_take_bit_self) (simp add: word_less_nat_alt)
  then show ?thesis using assms(2) by (metis bit_take_bit_iff)
qed

lemma star_fields:
  assumes "x < (0x10000 :: u64)" and "y < (0x10000 :: u64)"
  shows "drop_bit 48 (push_bit 32 x OR push_bit 48 y) = y" "drop_bit 32 (push_bit 32 x OR push_bit 48 y) AND 0xffff = x"
proof -
  show "drop_bit 48 (push_bit 32 x OR push_bit 48 y) = y"
    using low16_bit [OF assms(1)] low16_bit [OF assms(2)] by (intro bit_word_eqI) (fastforce simp: bit_simps)
  have "(0xffff :: u64) = mask 16" by (simp add: mask_eq_exp_minus_1)
  show "drop_bit 32 (push_bit 32 x OR push_bit 48 y) AND 0xffff = x"
    unfolding \<open>(0xffff :: u64) = mask 16\<close>
    using low16_bit [OF assms(1)] low16_bit [OF assms(2)] by (intro bit_word_eqI) (fastforce simp: bit_simps)
qed

text \<open>
  The set-up of the fast system calls agrees with the descriptor table: a call enters with the kernel selectors and
  with all flags cleared but the reserved one, and returns with the user selectors, at ring 3.
\<close>

theorem sys_setup_selectors:
  assumes "sys_setup kernel_code kernel_data user_code user_data handler msrs = Some (err, msrs')"
    and "kernel_code AND 7 = 0" and "kernel_code < 0x10000" and "user_data AND 7 = 0" and "8 \<le> user_data" and "user_data < 0x10000"
  shows "syscall_cs msrs' = kernel_code \<and> syscall_ss msrs' = kernel_data \<and> sysret_cs msrs' = user_code OR 3 \<and> sysret_ss msrs' = user_data OR 3 \<and>
    syscall_flags msrs' fl = fl AND 2 \<and> err = 0"
proof -
  have m: "msrs' MSR_STAR = push_bit 32 kernel_code OR push_bit 48 (user_data - 5)" "msrs' MSR_FMASK = 0xfffffffffffffffd" "err = 0"
    and d: "kernel_data = kernel_code + 8" "user_code = user_data + 8"
    using assms(1) by (auto simp: sys_setup_def split: if_splits)
  have y: "user_data - 5 < 0x10000" using assms(5,6) by (simp add: word_less_nat_alt word_le_nat_alt unat_sub)
  note f = star_fields [OF assms(3) y, folded m(1)]
  have seven: "(7 :: u64) = mask 3" by (simp add: mask_eq_exp_minus_1)
  have low3: "unat (take_bit 3 x) = unat x mod 8" for x :: u64 by (simp add: take_bit_eq_mod unat_mod_distrib)
  have "take_bit 3 user_data = 0" using assms(4) by (simp add: take_bit_eq_mask seven)
  then have "unat user_data mod 8 = 0" using low3 [of user_data] by simp
  moreover have "unat (user_data + 8) = unat user_data + 8" using assms(6) by (simp add: unat_plus64 word_less_nat_alt)
  ultimately have "take_bit 3 (user_data + 8) = 0" using low3 [of "user_data + 8"] by (simp add: word_unat_eq_iff)
  then have u8: "(user_data + 8) AND 7 = 0" by (simp add: take_bit_eq_mask seven)
  have kc: "kernel_code AND 0xfffc = kernel_code"
  proof -
    have "kernel_code AND 0xffff = kernel_code"
      using f(2) by (metis and.assoc and.idem)
    moreover have "kernel_code = kernel_code AND 3 OR kernel_code AND NOT 3" by (simp flip: bit.conj_disj_distrib)
    ultimately have "kernel_code = (kernel_code AND 0xffff) AND NOT 3" using sel_facts(3) [OF assms(2)] by simp
    then show ?thesis by (simp add: and.assoc)
  qed
  have "syscall_cs msrs' = (drop_bit 32 (msrs' MSR_STAR) AND 0xffff) AND 0xfffc" by (simp add: syscall_cs_def and.assoc)
  then have "syscall_cs msrs' = kernel_code" using f(2) kc by simp
  moreover have "syscall_ss msrs' = kernel_data" using f(2) d(1) by (simp add: syscall_ss_def)
  moreover have "sysret_cs msrs' = user_code OR 3" unfolding sysret_cs_def f(1) d(2) sel_facts(1) [OF u8, symmetric] by (simp add: add.commute)
  moreover have "sysret_ss msrs' = user_data OR 3" unfolding sysret_ss_def f(1) sel_facts(1) [OF assms(4), symmetric] by (simp add: add.commute)
  moreover have "syscall_flags msrs' fl = fl AND 2"
  proof -
    have "NOT (0xfffffffffffffffd :: u64) = 2" by code_simp
    then show ?thesis unfolding syscall_flags_def m(2) by (rule arg_cong)
  qed
  ultimately show ?thesis using m(3) by simp
qed

theorem sys_setup_selectors_witness:
  "\<exists>m. sys_setup 8 16 32 24 0xffffffff80100000 (\<lambda>_. 0) = Some (0, m) \<and> sysret_cs m = 0x23 \<and> sysret_ss m = 0x1b \<and> syscall_cs m = 8"
proof -
  obtain m where m: "sys_setup 8 16 32 24 0xffffffff80100000 (\<lambda>_. 0) = Some (0, m)" by (simp add: sys_setup_def)
  show ?thesis using m sys_setup_selectors [OF m, of 0] by simp
qed

definition exec_task :: task where
  "exec_task = task_zero\<lparr>ticks := 5, task_mem := 100\<rparr>"

definition exec_rst :: rst where
  "exec_rst = \<lparr>rvm = vm_example\<lparr>vm_sched := sched_boot\<lparr>task_current := 8, tasks := (\<lambda>_. exec_task)\<rparr>\<rparr>,
     regions = (\<lambda>_. \<lparr>reg_type = REGION_TYPE_CODE, reg_vma = VMM_VMA_USER, reg_vaddr = 0x40000, reg_paddr = 0, reg_num = 1, reg_next = 0\<rparr>)
       (100 := \<lparr>reg_type = REGION_TYPE_STACK, reg_vma = VMM_VMA_USER, reg_vaddr = 0x10000, reg_paddr = 0, reg_num = 4, reg_next = 0\<rparr>)\<rparr>"

definition exec_elf :: elf where
  "exec_elf = \<lparr>elf_regs = exec_rst, elf_vmem = (\<lambda>_. 0), elf_start = 0x40010, elf_mem = 200, elf_pos = 0, elf_ph = [], elf_nreg = 1\<rparr>"

definition exec_state :: exec where
  "exec_state = \<lparr>ex_vfs = \<lparr>nodes = Map.empty, vfs_root = 0, fresh = []\<rparr>, ex_fs = (\<lambda>_. any_fs), ex_elf = exec_elf\<rparr>"

lemma exec_elf_current:
  "8 = task_current (vm_sched (rvm (elf_regs exec_elf)))" "exec_task = tasks (vm_sched (rvm (elf_regs exec_elf))) 8"
  "sigq exec_task = 0" "ticks exec_task \<noteq> 0" "regs exec_task = regs_zero"
  by (simp_all add: exec_elf_def exec_rst_def exec_task_def task_zero_def)

theorem sys_exec_error_is_lost_witness:
  "\<exists>s' sc. sys_exec 5 5 (\<lambda>_. 0) 32 24 exec_state (Some []) None None = Some (Inr (- EINVAL, s')) \<and>
   sched_timer_handler 1 5 (env_fork 16) (vm_sched (rvm (elf_regs (ex_elf s')))) (regs_zero\<lparr>rip := 0x7000\<rparr>) = Some (sc, regs_zero)"
proof -
  have op: "vfs_open 5 (ex_fs exec_state) (ex_vfs exec_state) (Some []) = Some (- EINVAL, 0, ex_vfs exec_state)" by (simp add: vfs_open_def)
  have el: "ex_elf exec_state = exec_elf" by (simp add: exec_state_def)
  have z: "copy_regs (regs_zero\<lparr>rip := 0x7000\<rparr>) regs_zero = regs_zero"
    by (simp add: copy_regs_def regs_zero_def)
  have "- EINVAL \<noteq> (0 :: int)" by simp
  from sys_exec_error_is_lost [OF op disjI1 [OF this], unfolded el, OF exec_elf_current(1,2), of 5 "\<lambda>_. 0" 32 24 None None 0 5 "env_fork 16" "regs_zero\<lparr>rip := 0x7000\<rparr>"]
  show ?thesis using exec_elf_current(3-5) z by auto
qed

definition exec_named :: task where
  "exec_named = exec_task\<lparr>task_name := [47, 105] @ replicate 254 0\<rparr>"

lemma exec_rename: "task_rename (Some (exec_task\<lparr>state := st\<rparr>)) (Some ([47, 105] @ [0])) = Some (0, Some (exec_named\<lparr>state := st\<rparr>))"
proof -
  have "strncpy (replicate 256 0) ([47, 105] @ 0 # []) NAME_MAX = Some (Some 2, [47, 105] @ replicate 253 0 @ [0])"
    using strncpy_cstr [of "[47, 105]" NAME_MAX "replicate 256 0" "[]"] by simp
  moreover have "replicate 253 0 @ [0] = replicate 254 (0 :: u8)"
    using replicate_append_same [of 253 "0 :: u8"] by (simp flip: replicate_Suc)
  ultimately show ?thesis by (simp add: task_rename_def exec_named_def exec_task_def task_zero_def)
qed

lemma exec_named_args: "exec_args (exec_named\<lparr>state := st, task_mem := h\<rparr>) None = [[47, 105]]"
  by (simp add: exec_args_def exec_named_def takeWhile_append1)

lemma exec_rst_find:
  "regions r = regions exec_rst \<Longrightarrow> ty \<noteq> 0 \<Longrightarrow> ty \<noteq> REGION_TYPE_STACK \<Longrightarrow> region_find 5 r 100 ty VMM_VMA_USER = Some 0"
  "regions r = regions exec_rst \<Longrightarrow> region_add 5 r 100 200 = Some (0, 100, region_put 100 (\<lambda>r. r\<lparr>reg_next := 200\<rparr>) r)"
  unfolding numeral_nat by (simp_all add: exec_rst_def region_add_def)

lemma exec_image_runs:
  "\<exists>e' t. exec_image 5 32 24 [47, 105] None None \<lparr>fmt_entry = 0x40010, fmt_mem = 200\<rparr> exec_elf = Some e' \<and>
     task_current (vm_sched (rvm (elf_regs e'))) = 8 \<and> tasks (vm_sched (rvm (elf_regs e'))) 8 = t \<and> sigq t = 0 \<and> ticks t = 5 \<and>
     task_stack_get 5 (elf_regs e') t VMM_VMA_USER = Some 0x14000 \<and> exec_args t None = [[47, 105]]"
proof -
  let ?t = "exec_named\<lparr>state := TASK_STATE_HOLD\<rparr>"
  define r1 where "r1 = cur_upd (\<lambda>_. ?t) (cur_upd (\<lambda>t. t\<lparr>state := TASK_STATE_HOLD\<rparr>) exec_rst)"
  have c: "task_current (vm_sched (rvm exec_rst)) = 8" "tasks (vm_sched (rvm exec_rst)) 8 = exec_task" by (simp_all add: exec_rst_def)
  have r1: "task_current (vm_sched (rvm r1)) = 8" "tasks (vm_sched (rvm r1)) 8 = ?t" "regions r1 = regions exec_rst"
    using c by (simp_all add: r1_def cur_upd_def)
  have mem: "task_mem ?t = 100" by (simp add: exec_named_def exec_task_def)
  have del: "mem_del_loop 5 5 ty r1 = Some r1" if "ty \<noteq> 0" "ty \<noteq> REGION_TYPE_STACK" for ty
  proof -
    have "mem_del_loop (Suc 4) 5 ty r1 = Some r1"
      using exec_rst_find(1) [OF r1(3) that] r1 mem by (subst mem_del_loop.simps) simp
    then show ?thesis by simp
  qed
  define r2 where "r2 = cur_upd (\<lambda>t. t\<lparr>task_mem := 100\<rparr>) (region_put 100 (\<lambda>r. r\<lparr>reg_next := 200\<rparr>) r1)"
  have r2: "task_current (vm_sched (rvm r2)) = 8" "tasks (vm_sched (rvm r2)) 8 = ?t\<lparr>task_mem := 100\<rparr>"
      "regions r2 = (regions exec_rst)(100 := (regions exec_rst 100)\<lparr>reg_next := 200\<rparr>)"
    using r1 by (simp_all add: r2_def cur_upd_def region_put_def)
  have get: "task_stack_get 5 r t VMM_VMA_USER = Some 0x14000" if "regions r = regions r2" "task_mem t = 100" for r t
    using that r2(3) unfolding numeral_nat by (simp add: task_stack_get_def exec_rst_def)
  let ?u = "(?t\<lparr>task_mem := 100\<rparr>)\<lparr>regs := exec_start_regs 32 24 0x40010 0x14000\<rparr>"
  have args: "exec_args ?u None = [[47, 105]]" using exec_named_args by simp
  obtain m' t' where s: "exec_stack None None (elf_vmem exec_elf) ?u = Some (m', t')"
    using exec_stack_layout [of ?u "[]" None "[[47, 105]]" None "elf_vmem exec_elf"] args by auto
  obtain sp where t': "t' = ?u\<lparr>regs := (regs ?u)\<lparr>rsp := sp\<rparr>\<rparr>" using exec_stack_same [OF s] by blast
  have "exec_image 5 32 24 [47, 105] None None \<lparr>fmt_entry = 0x40010, fmt_mem = 200\<rparr> exec_elf =
      Some (exec_elf\<lparr>elf_regs := cur_upd (\<lambda>_. t') r2, elf_vmem := m'\<rparr>)"
  proof -
    have e: "elf_regs exec_elf = exec_rst" by (simp add: exec_elf_def)
    have ren: "task_rename (Some (exec_task\<lparr>state := TASK_STATE_HOLD\<rparr>)) (Some ([47, 105] @ [0])) = Some (0, Some ?t)" by (rule exec_rename)
    have c2: "tasks (vm_sched (rvm (cur_upd f exec_rst))) 8 = f exec_task" for f using c by (simp add: cur_upd_def)
    have rp: "rvm (region_put x g r) = rvm r" for x g r by (simp add: region_put_def)
    show ?thesis
      using del [of REGION_TYPE_CODE] del [of REGION_TYPE_RDONLY] del [of REGION_TYPE_DATA] ren c r1(1,2) mem exec_rst_find(2) [OF r1(3)]
        get [OF refl, of "?t\<lparr>task_mem := 100\<rparr>"] s r2(1,2)
      by (simp add: exec_image_def e c2 rp Let_def flip: r1_def r2_def)
  qed
  moreover have "task_stack_get 5 (cur_upd (\<lambda>_. t') r2) t' VMM_VMA_USER = Some 0x14000" using t' by (intro get) simp_all
  moreover have "exec_args t' None = [[47, 105]]" using t' args by simp
  moreover have "sigq t' = 0 \<and> ticks t' = 5" using t' by (simp add: exec_named_def exec_task_def task_zero_def)
  ultimately show ?thesis using r2(1) by (intro exI [of _ "exec_elf\<lparr>elf_regs := cur_upd (\<lambda>_. t') r2, elf_vmem := m'\<rparr>"] exI [of _ t']) (simp add: cur_upd_def)
qed


end
