(* ===== verification/Boot.thy ===== *)
theory Boot
  imports Exec Fb Io
begin

text \<open>
  The boot, \<^verbatim>\<open>kernel/main.c\<close>: the order in which the components are brought up, the search for a root filesystem on the partitions that the drivers found, its mount, and
  the first program; and the cursor switches of \<^verbatim>\<open>kernel/video/fb.c\<close>, which only talk to the ports.
\<close>

section \<open>The cursor\<close>

text \<open>\<^verbatim>\<open>__fail_return\<close> on a port write.\<close>

definition or_fail :: "bool io \<Rightarrow> errcode io \<Rightarrow> errcode io" where
  "or_fail a b t = (case a t of (ok, t1) \<Rightarrow> if ok then b t1 else (- EFAULT, t1))"

definition fb_cursor_hide :: "errcode io" where
  "fb_cursor_hide = or_fail (out8 0x3d4 0x0a) (or_fail (out8 0x3d5 0x20) (Pair 0))"

definition fb_cursor_show :: "ports \<Rightarrow> errcode io" where
  "fb_cursor_show hw =
     or_fail (out8 0x3D4 0x0A) (or_fail (\<lambda>t. case in8 hw 0x3D5 t of (x, t1) \<Rightarrow> out8 0x3D5 ((x AND 0xC0) OR 0) t1)
       (or_fail (out8 0x3D4 0x0B) (or_fail (\<lambda>t. case in8 hw 0x3D5 t of (x, t1) \<Rightarrow> out8 0x3D5 ((x AND 0xE0) OR 15) t1) (Pair 0))))"

definition video_cursor_show :: "ports \<Rightarrow> video \<Rightarrow> errcode io" where
  "video_cursor_show hw v = (if video_current v then fb_cursor_show hw else Pair (- EFAULT))"

definition video_cursor_hide :: "video \<Rightarrow> errcode io" where
  "video_cursor_hide v = (if video_current v then fb_cursor_hide else Pair (- EFAULT))"

section \<open>The root filesystem\<close>

text \<open>\<^verbatim>\<open>disk_next\<close> with the rest of the walk: the partitions behind the result on its disk and the disks behind that disk.\<close>

function disk_walk :: "disk_part list \<Rightarrow> disk list \<Rightarrow> (disk_part \<times> disk_part list \<times> disk list) option" where
  "disk_walk (p # ps) ds = (if available p then Some (p, ps, ds) else disk_walk ps ds)"
| "disk_walk [] (d # ds) = disk_walk (parts d) ds"
| "disk_walk [] [] = None"
  by pat_completeness auto
termination
  by (relation "measures [\<lambda>(ps, ds). length ds, \<lambda>(ps, ds). length ps]") auto

lemma disk_walk_next: "map_option fst (disk_walk ps ds) = disk_next ps ds"
  by (induction ps ds rule: disk_walk.induct) auto

abbreviation (input) all_parts :: "disk_part list \<Rightarrow> disk list \<Rightarrow> disk_part list" where
  "all_parts ps ds \<equiv> ps @ concat (map parts ds)"

lemma disk_walk_split:
  "disk_walk ps ds = Some (p, ps', ds') \<Longrightarrow> \<exists>qs. all_parts ps ds = qs @ p # all_parts ps' ds' \<and> available p \<and> (\<forall>q \<in> set qs. \<not> available q)"
proof (induction ps ds rule: disk_walk.induct)
  case (1 q ps ds)
  show ?case
  proof (cases "available q")
    case False
    then obtain qs where "all_parts ps ds = qs @ p # all_parts ps' ds'" "available p" "\<forall>q \<in> set qs. \<not> available q" using 1 by auto
    then show ?thesis using False by (intro exI [of _ "q # qs"]) simp
  qed (use 1 in auto)
qed auto

lemma disk_walk_less: "disk_walk ps ds = Some (p, ps', ds') \<Longrightarrow> length (all_parts ps' ds') < length (all_parts ps ds)"
  using disk_walk_split [of ps ds p ps' ds'] by (metis length_append less_add_Suc2 list.size(4) add_Suc_right add_0_right)

lemma disk_walk_none: "disk_walk ps ds = None \<Longrightarrow> \<forall>q \<in> set (all_parts ps ds). \<not> available q"
  by (induction ps ds rule: disk_walk.induct) (auto split: if_splits)

text \<open>One round of the loop. \<open>addr\<close> is the address of a partition structure.\<close>

definition part_rootfs :: "bool \<Rightarrow> (nat \<Rightarrow> fs \<Rightarrow> errcode \<times> fs) \<Rightarrow> (disk_part \<Rightarrow> u64) \<Rightarrow> disk_part \<Rightarrow> fs option" where
  "part_rootfs fat32 news addr p =
     (case fs_new fat32 news FS_TYPE_DETECT (addr p) of (err, f) \<Rightarrow>
        if err \<noteq> 0 then None else if fs_is_rootfs f = 0 then f else None)"

function rootfs_loop :: "(disk_part \<Rightarrow> fs option) \<Rightarrow> disk_part list \<Rightarrow> disk list \<Rightarrow> (disk_part \<times> fs) option" where
  "rootfs_loop pick ps ds =
     (case disk_walk ps ds of None \<Rightarrow> None
      | Some (p, ps', ds') \<Rightarrow> (case pick p of Some f \<Rightarrow> Some (p, f) | None \<Rightarrow> rootfs_loop pick ps' ds'))"
  by pat_completeness auto
termination
  by (relation "measure (\<lambda>(pick, ps, ds). length (all_parts ps ds))") (use disk_walk_less in auto)

declare rootfs_loop.simps [simp del]

text \<open>The search and the mount; \<open>a\<close> is the address of the filesystem structure.\<close>

definition boot_root :: "nat \<Rightarrow> (disk_part \<Rightarrow> fs option) \<Rightarrow> u64 \<Rightarrow> disk list \<Rightarrow> exec \<Rightarrow> exec option" where
  "boot_root n pick a ds s = do {
     (p, f) \<leftarrow> rootfs_loop pick [] ds;
     let st = (ex_fs s)(a := f);
     (err, v) \<leftarrow> vfs_mount n st (ex_vfs s) (Some [47]) a;
     if err \<noteq> 0 then None else Some (s\<lparr>ex_fs := st, ex_vfs := v\<rparr>) }"

text \<open>The steps up to the first program: \<open>gdt\<close> are the offsets of the kernel and of the user code and data segments.\<close>

definition boot_init :: "nat \<Rightarrow> nat \<Rightarrow> (nat \<Rightarrow> u64) \<Rightarrow> u64 \<times> u64 \<times> u64 \<times> u64 \<Rightarrow> u64 \<Rightarrow> (msr \<Rightarrow> u64) \<Rightarrow> (disk_part \<Rightarrow> fs option) \<Rightarrow> u64 \<Rightarrow> disk list \<Rightarrow> exec \<Rightarrow>
    (errcode \<times> exec \<times> (msr \<Rightarrow> u64)) option" where
  "boot_init n fuel alloc gdt handler msrs pick a ds s =
     (case gdt of (kernel_code, kernel_data, user_code, user_data) \<Rightarrow> do {
        s1 \<leftarrow> boot_root n pick a ds s;
        (err, msrs1) \<leftarrow> sys_setup kernel_code kernel_data user_code user_data handler msrs;
        if err \<noteq> 0 then None
        else do {
          r \<leftarrow> sys_exec n fuel alloc user_code user_data s1 (Some [47, 105, 110, 105, 116]) None None;
          case r of Inl err \<Rightarrow> None | Inr (err, s2) \<Rightarrow> Some (err, s2, msrs1) } })"

section \<open>The order of the boot\<close>

text \<open>
  The calls of \<^verbatim>\<open>entry\<close> that bring up the components, in their order, with what a failure means: a message, a panic, or
  nothing. \<open>fails\<close> says which calls fail; the result are the calls that are made, and whether the boot gets behind them.
\<close>

datatype boot_call = Serial_init | Mb_load | Vmm_init | Pmm_init | Video_init | Cursor_show | Im_init | Pic_init | Pic_enable |
  Im_enable | Sched_init | Sched_prio | Acpi_load | Pci_init | Ps2_init | Serial_register

datatype on_failure = Message | Panics | Nothing

definition entry_calls :: "(boot_call \<times> on_failure) list" where
  "entry_calls =
     [(Serial_init, Message), (Mb_load, Panics), (Vmm_init, Panics), (Pmm_init, Panics), (Video_init, Message), (Cursor_show, Nothing),
      (Im_init, Nothing), (Pic_init, Panics), (Pic_enable, Panics), (Im_enable, Nothing), (Sched_init, Panics), (Sched_prio, Nothing),
      (Acpi_load, Message), (Pci_init, Message), (Ps2_init, Message), (Serial_register, Message)]"

fun run_calls :: "(boot_call \<Rightarrow> bool) \<Rightarrow> (boot_call \<times> on_failure) list \<Rightarrow> boot_call list \<times> bool" where
  "run_calls fails [] = ([], True)"
| "run_calls fails ((c, f) # rest) =
     (if fails c \<and> f = Panics then ([c], False) else (case run_calls fails rest of (made, on) \<Rightarrow> (c # made, on)))"

text \<open>\<^verbatim>\<open>vmm_init\<close>: the execute-disable flag of the page tables.\<close>

definition vmm_init :: "(msr \<Rightarrow> u64) \<Rightarrow> errcode \<times> (msr \<Rightarrow> u64)" where
  "vmm_init msrs = (0, msrs(MSR_EFER := msrs MSR_EFER OR push_bit 11 1))"

definition entry :: "(boot_call \<Rightarrow> bool) \<Rightarrow> nat \<Rightarrow> nat \<Rightarrow> (nat \<Rightarrow> u64) \<Rightarrow> u64 \<times> u64 \<times> u64 \<times> u64 \<Rightarrow> u64 \<Rightarrow> (msr \<Rightarrow> u64) \<Rightarrow> (disk_part \<Rightarrow> fs option) \<Rightarrow> u64 \<Rightarrow>
    disk list \<Rightarrow> exec \<Rightarrow> (errcode \<times> exec \<times> (msr \<Rightarrow> u64)) option" where
  "entry fails n fuel alloc gdt handler msrs pick a ds s =
     (if snd (run_calls fails entry_calls) then boot_init n fuel alloc gdt handler (snd (vmm_init msrs)) pick a ds s else None)"

text \<open>
  The boot is stopped by the failure of a component only if it is the memory, the boot data, the interrupt controller or the
  scheduler; and the interrupts are not enabled before the table and the controller are set up.
\<close>

theorem entry_order:
  "snd (run_calls fails entry_calls) = (\<not> (fails Mb_load \<or> fails Vmm_init \<or> fails Pmm_init \<or> fails Pic_init \<or> fails Pic_enable \<or> fails Sched_init)) \<and>
   (Im_enable \<in> set (fst (run_calls fails entry_calls)) \<longrightarrow>
      \<not> fails Pic_init \<and> \<not> fails Pic_enable \<and> take 9 (fst (run_calls fails entry_calls)) =
        [Serial_init, Mb_load, Vmm_init, Pmm_init, Video_init, Cursor_show, Im_init, Pic_init, Pic_enable])"
  by (simp add: entry_calls_def)

theorem entry_order_witness: "snd (run_calls (\<lambda>c. c = Ps2_init) entry_calls)"
  using entry_order [of "\<lambda>c. c = Ps2_init"] by simp

section \<open>Properties\<close>

lemma rootfs_loop_find:
  "rootfs_loop pick ps ds = map_option (\<lambda>p. (p, the (pick p))) (find (\<lambda>p. available p \<and> pick p \<noteq> None) (all_parts ps ds))"
proof (induction pick ps ds rule: rootfs_loop.induct)
  case (1 pick ps ds)
  show ?case
  proof (cases "disk_walk ps ds")
    case None
    then have "find (\<lambda>p. available p \<and> pick p \<noteq> None) (all_parts ps ds) = None" using disk_walk_none [OF None] by (auto simp: find_None_iff)
    then show ?thesis using None by (simp add: rootfs_loop.simps [of pick ps ds])
  next
    case (Some r)
    then obtain p ps' ds' where w: "disk_walk ps ds = Some (p, ps', ds')" by (cases r) auto
    obtain qs where q: "all_parts ps ds = qs @ p # all_parts ps' ds'" "available p" "\<forall>q \<in> set qs. \<not> available q"
      using disk_walk_split [OF w] by blast
    have skip: "find P (qs @ xs) = find P xs" if "\<forall>q \<in> set qs. \<not> P q" for P xs
      using that by (induction qs) auto
    have "find (\<lambda>p. available p \<and> pick p \<noteq> None) (all_parts ps ds) = find (\<lambda>p. available p \<and> pick p \<noteq> None) (p # all_parts ps' ds')"
      unfolding q(1) using q(3) by (intro skip) auto
    then show ?thesis using 1 w q(2) by (cases "pick p") (simp_all add: rootfs_loop.simps [of pick ps ds])
  qed
qed

lemma mount_root:
  assumes "fs_is_rootfs (Some f) = 0" and "fresh v = b # bs" and "b \<noteq> 0" and "a \<noteq> 0" and "st a = f"
  shows "\<exists>v' w. vfs_mount n st v (Some [47]) a = Some (0, v') \<and> vfs_root v' = b \<and> nodes v' b = Some w \<and> v_fs w = a \<and>
    v_inode w = snd (fs_namei f None None) \<and> v_refs w = 1 \<and> v_parent w = 0"
proof -
  obtain root where r: "fs_namei f None None = (0, root)"
    using assms(1) by (cases "fs_namei f None None") (auto simp: fs_is_rootfs_def split: if_splits)
  have "op_namei (ops f) \<noteq> None" using r by (cases "op_namei (ops f)") (auto simp: fs_namei_def)
  then show ?thesis using assms r
    by (auto simp: vfs_mount_def vfs_node_new_def vfs_mount_node_def node_ref_def node_upd_def Let_def)
qed

text \<open>
  C22. The kernel boots from the first available partition, in the order of the disks and of their partitions, that holds a
  filesystem whose root directory has a file \<^verbatim>\<open>init\<close> that is not empty; the root of that filesystem becomes the root of the tree.
\<close>

theorem boot_root_first:
  assumes "find (\<lambda>p. available p \<and> part_rootfs fat32 news addr p \<noteq> None) (concat (map parts ds)) = Some p"
    and "part_rootfs fat32 news addr p = Some f" and "fresh (ex_vfs s) = b # bs" and "b \<noteq> 0" and "a \<noteq> 0"
  shows "\<exists>s' w root i. boot_root n (part_rootfs fat32 news addr) a ds s = Some s' \<and> vfs_root (ex_vfs s') = b \<and>
    nodes (ex_vfs s') b = Some w \<and> v_fs w = a \<and> ex_fs s' a = f \<and> v_inode w = root \<and> fs_namei f None None = (0, root) \<and>
    fs_namei f (Some root) (Some [105, 110, 105, 116]) = (0, i) \<and> i_type i = FS_ENTRY_TYPE_FILE \<and> i_size i \<noteq> 0"
proof -
  have rf: "fs_is_rootfs (Some f) = 0"
    using assms(2) by (auto simp: part_rootfs_def split: prod.splits if_splits)
  obtain root i where ri: "fs_namei f None None = (0, root)" "fs_namei f (Some root) (Some [105, 110, 105, 116]) = (0, i)"
      "i_type i = FS_ENTRY_TYPE_FILE" "i_size i \<noteq> 0"
    using rf by (auto simp: fs_is_rootfs_def split: prod.splits if_splits)
  obtain v' w where m: "vfs_mount n ((ex_fs s)(a := f)) (ex_vfs s) (Some [47]) a = Some (0, v')" "vfs_root v' = b" "nodes v' b = Some w"
      "v_fs w = a" "v_inode w = root"
    using mount_root [OF rf assms(3-5), of "(ex_fs s)(a := f)" n] ri(1) by auto
  have "rootfs_loop (part_rootfs fat32 news addr) [] ds = Some (p, f)"
    using rootfs_loop_find [of "part_rootfs fat32 news addr" "[]" ds] assms(1,2) by simp
  then show ?thesis using m ri by (simp add: boot_root_def)
qed

definition init_namei :: "fs_inode option \<Rightarrow> cstr option \<Rightarrow> errcode \<times> fs_inode" where
  "init_namei dir name = (0, case dir of None \<Rightarrow> inode_zero | Some _ \<Rightarrow> inode_zero\<lparr>i_type := FS_ENTRY_TYPE_FILE, i_size := 3\<rparr>)"

definition init_new :: "nat \<Rightarrow> fs \<Rightarrow> errcode \<times> fs" where
  "init_new k f = (if fs_part f = 7 then (0, f\<lparr>ops := (ops f)\<lparr>op_namei := Some init_namei\<rparr>\<rparr>) else (- EINVAL, f))"

definition boot_disks :: "disk list" where
  "boot_disks = [(disk_new DISK_CONTROLLER_AHCI)\<lparr>parts := [\<lparr>start = 5, part_size = 1, bootable = False, available = True\<rparr>,
     \<lparr>start = 7, part_size = 1, bootable = False, available = True\<rparr>]\<rparr>]"

theorem boot_root_first_witness:
  "\<exists>s' w. boot_root 3 (part_rootfs True init_new start) 64 boot_disks (exec_state\<lparr>ex_vfs := \<lparr>nodes = Map.empty, vfs_root = 0, fresh = [16]\<rparr>\<rparr>) = Some s' \<and>
     vfs_root (ex_vfs s') = 16 \<and> nodes (ex_vfs s') 16 = Some w \<and> v_fs w = 64 \<and> fs_part (ex_fs s' 64) = 7"
proof -
  let ?p = "\<lparr>start = 7, part_size = 1, bootable = False, available = True\<rparr>" and ?s = "exec_state\<lparr>ex_vfs := \<lparr>nodes = Map.empty, vfs_root = 0, fresh = [16]\<rparr>\<rparr>"
  let ?q = "\<lparr>start = 5, part_size = 1, bootable = False, available = True\<rparr>"
  obtain f where f: "part_rootfs True init_new start ?p = Some f" "fs_part f = 7"
    by (simp add: part_rootfs_def fs_new_def fs_new1_def fs_is_valid_type_def init_new_def fs_is_rootfs_def fs_namei_def init_namei_def)
  have none: "part_rootfs True init_new start ?q = None"
    by (simp add: part_rootfs_def fs_new_def fs_new1_def fs_is_valid_type_def init_new_def)
  have "find (\<lambda>p. available p \<and> part_rootfs True init_new start p \<noteq> None) (concat (map parts boot_disks)) = Some ?p"
    using f(1) none by (simp add: boot_disks_def)
  from boot_root_first [OF this f(1), of ?s 16 "[]" 64 3] show ?thesis using f(2) by auto
qed

end
