(* ===== verification/Panic.thy ===== *)
theory Panic
  imports Printk Task "HOL-Library.Monad_Syntax"
begin

text \<open>
  The last words of the kernel, \<^verbatim>\<open>kernel/util/panic.c\<close>: the dump of the registers and of the stack, and the panic message. A
  step prints on the console of \<^verbatim>\<open>util/printk.c\<close>; \<open>None\<close> is a fault, of the printing or of a read of the stack. The processor
  state is an argument: the control registers \<open>cr\<close> and what the memory holds, \<open>None\<close> where it is not mapped.
\<close>

section \<open>Steps\<close>

type_synonym step = "console \<Rightarrow> console option"

fun steps :: "step list \<Rightarrow> step" where
  "steps [] out = Some out"
| "steps (r # rs) out = Option.bind (r out) (steps rs)"

abbreviation (input) VIDEO_COLOR_BLACK :: nat where "VIDEO_COLOR_BLACK \<equiv> 0"
abbreviation (input) VIDEO_COLOR_WHITE :: nat where "VIDEO_COLOR_WHITE \<equiv> 1"
abbreviation (input) VIDEO_COLOR_RED :: nat where "VIDEO_COLOR_RED \<equiv> 4"
abbreviation (input) VIDEO_COLOR_LIGHT_RED :: nat where "VIDEO_COLOR_LIGHT_RED \<equiv> 9"

definition fg :: "nat \<Rightarrow> step" where
  "fg c out = Some (out @ [Fg c])"

definition bg :: "nat \<Rightarrow> step" where
  "bg c out = Some (out @ [Bg c])"

definition ascii :: "string \<Rightarrow> u8 list" where
  "ascii s = map of_char s"

text \<open>\<^verbatim>\<open>printf\<close> for its effect; the result is not looked at.\<close>

definition say :: "u8 list \<Rightarrow> va list \<Rightarrow> step" where
  "say fmt args out = map_option snd (printf (fmt @ [0]) args out)"

section \<open>The dump\<close>

definition stack_word :: "(u64 \<Rightarrow> u64 option) \<Rightarrow> u64 \<Rightarrow> step" where
  "stack_word mem a out = Option.bind (mem a) (\<lambda>w. say (ascii ''%p '') [VInt w] out)"

definition stack_step :: "(u64 \<Rightarrow> u64 option) \<Rightarrow> u64 \<Rightarrow> nat \<Rightarrow> step list" where
  "stack_step mem sp i =
     (if i mod 2 = 0 then [say (10 # ascii ''%p: '') [VInt (sp + of_nat i * 8)]] else []) @ [stack_word mem (sp + of_nat i * 8)]"

text \<open>\<open>is_local\<close>: the registers are those the panic saved itself, without an instruction pointer and segments.\<close>

definition core_dump :: "bool \<Rightarrow> (nat \<Rightarrow> u64) \<Rightarrow> (u64 \<Rightarrow> u64 option) \<Rightarrow> task_regs \<Rightarrow> step" where
  "core_dump is_local cr mem r = steps (
     [bg VIDEO_COLOR_BLACK, fg VIDEO_COLOR_LIGHT_RED, say (ascii ''==== Dumping registers ===='' @ [10]) [], fg VIDEO_COLOR_WHITE,
      say (ascii ''| rax = %p | rbx = %p | rcx = %p |'' @ [10]) [VInt (rax r), VInt (rbx r), VInt (rcx r)],
      say (ascii ''| rdx = %p | r8  = %p | r9  = %p |'' @ [10]) [VInt (rdx r), VInt (r8 r), VInt (r9 r)],
      say (ascii ''| r10 = %p | r11 = %p | r12 = %p |'' @ [10]) [VInt (r10 r), VInt (r11 r), VInt (r12 r)],
      say (ascii ''| r13 = %p | r14 = %p | r15 = %p |'' @ [10]) [VInt (r13 r), VInt (r14 r), VInt (r15 r)],
      say (ascii ''| rsi = %p | rdi = %p | rbp = %p |'' @ [10]) [VInt (rsi r), VInt (rdi r), VInt (rbp r)]] @
     (if is_local then [] else [say (ascii ''| rip = %p | ss  = %p | cs  = %p |'' @ [10]) [VInt (rip r), VInt (ss r), VInt (cs r)]]) @
     [say (ascii ''| cr0 = %p | cr2 = %p | cr3 = %p |'' @ [10]) [VInt (cr 0), VInt (cr 2), VInt (cr 3)],
      say (ascii ''| cr4 = %p | rflags = %p                       |'' @ [10]) [VInt (cr 4), VInt (rflags r)],
      bg VIDEO_COLOR_BLACK, fg VIDEO_COLOR_LIGHT_RED, say (ascii ''====== Dumping stack ======'') [], fg VIDEO_COLOR_WHITE] @
     concat (map (stack_step mem (rsp r)) [0..<12]) @
     [bg VIDEO_COLOR_BLACK, fg VIDEO_COLOR_LIGHT_RED, say (10 # ascii ''==========================='' @ [10]) []])"

section \<open>The panic\<close>

text \<open>
  \<^verbatim>\<open>__panic_with\<close> from the disabling of the interrupts to the loop it hangs in, so that nothing is printed behind it. The
  registers it is given are not used.
\<close>

definition panic_with :: "task_regs \<Rightarrow> buf \<Rightarrow> buf \<Rightarrow> va list \<Rightarrow> step" where
  "panic_with r func fmt args = steps
     [fg VIDEO_COLOR_WHITE, bg VIDEO_COLOR_RED, say (ascii ''PANIC'') [], bg VIDEO_COLOR_BLACK, fg VIDEO_COLOR_WHITE,
      say (ascii '' at %s: '') [VPtr (Some func)], \<lambda>out. map_option snd (vprintf fmt args out), say [10] [],
      bg VIDEO_COLOR_BLACK, fg VIDEO_COLOR_LIGHT_RED,
      say (ascii ''Kernel crashed, there is no way to recover, you should reboot'' @ [10]) []]"

section \<open>What a step shows\<close>

text \<open>A step that prints \<open>s\<close> on the screen and on the wire, with colors that exist.\<close>

definition displays :: "u8 list \<Rightarrow> step \<Rightarrow> bool" where
  "displays s r \<longleftrightarrow> (\<forall>out. \<exists>ev. r out = Some (out @ ev) \<and> screen_text ev = s \<and> wire_text ev = s \<and> (\<forall>e \<in> set ev. ev_ok e))"

lemma steps_append: "steps (rs @ qs) out = Option.bind (steps rs out) (steps qs)"
  by (induction rs arbitrary: out) (auto split: Option.bind_split)

lemma displays_color [intro]: "c < length fb_color_map \<Longrightarrow> displays [] (fg c)" "c < length fb_color_map \<Longrightarrow> displays [] (bg c)"
  by (auto simp: displays_def fg_def bg_def ev_ok_def)

lemma prints_displays: "prints s r \<Longrightarrow> displays s (\<lambda>out. map_option snd (r out))"
  unfolding prints_def displays_def says_def list_all_iff using plain_ok by fastforce

lemma displays_say: "0 \<notin> set fmt \<Longrightarrow> render False fmt args = Some s \<Longrightarrow> displays s (say fmt args)"
  using prints_displays [OF vprintf_render [of fmt args s "[]"]] by (simp add: say_def [abs_def] printf_def)

lemma displays_bind:
  assumes "displays s f" and "displays u g"
  shows "displays (s @ u) (\<lambda>out. Option.bind (f out) g)"
  unfolding displays_def
proof
  fix out
  obtain e1 where e1: "f out = Some (out @ e1)" "screen_text e1 = s" "wire_text e1 = s" "\<forall>e \<in> set e1. ev_ok e"
    using assms(1) unfolding displays_def by blast
  obtain e2 where "g (out @ e1) = Some ((out @ e1) @ e2)" "screen_text e2 = u" "wire_text e2 = u" "\<forall>e \<in> set e2. ev_ok e"
    using assms(2) unfolding displays_def by blast
  then show "\<exists>ev. Option.bind (f out) g = Some (out @ ev) \<and> screen_text ev = s @ u \<and> wire_text ev = s @ u \<and> (\<forall>e \<in> set ev. ev_ok e)"
    using e1 by (intro exI [of _ "e1 @ e2"]) auto
qed

lemma ascii_simps [simp]: "ascii [] = []" "ascii (c # s) = of_char c # ascii s" "ascii (s @ t) = ascii s @ ascii t"
  by (simp_all add: ascii_def)

section \<open>The texts\<close>

definition row :: "(string \<times> u64) list \<Rightarrow> u8 list" where
  "row cells = concat (map (\<lambda>(name, v). ascii ''| '' @ ascii name @ ascii '' = '' @ hexw 16 (unat v) @ ascii '' '') cells) @ ascii ''|'' @ [10]"

text \<open>Two words of the stack to a line, behind their address.\<close>

definition stack_text :: "(u64 \<Rightarrow> u64 option) \<Rightarrow> u64 \<Rightarrow> nat \<Rightarrow> u8 list" where
  "stack_text mem sp i =
     (let a = sp + of_nat i * 8 in
      (if i mod 2 = 0 then 10 # hexw 16 (unat a) @ ascii '': '' else []) @ hexw 16 (unat (the (mem a))) @ ascii '' '')"

definition dump_text :: "bool \<Rightarrow> (nat \<Rightarrow> u64) \<Rightarrow> (u64 \<Rightarrow> u64 option) \<Rightarrow> task_regs \<Rightarrow> u8 list" where
  "dump_text is_local cr mem r =
     (ascii ''==== Dumping registers ===='' @ [10]) @
     row [(''rax'', rax r), (''rbx'', rbx r), (''rcx'', rcx r)] @ row [(''rdx'', rdx r), (''r8 '', r8 r), (''r9 '', r9 r)] @
     row [(''r10'', r10 r), (''r11'', r11 r), (''r12'', r12 r)] @ row [(''r13'', r13 r), (''r14'', r14 r), (''r15'', r15 r)] @
     row [(''rsi'', rsi r), (''rdi'', rdi r), (''rbp'', rbp r)] @
     (if is_local then [] else row [(''rip'', rip r), (''ss '', ss r), (''cs '', cs r)]) @
     row [(''cr0'', cr 0), (''cr2'', cr 2), (''cr3'', cr 3)] @
     (ascii ''| cr4 = '' @ hexw 16 (unat (cr 4)) @ ascii '' | rflags = '' @ hexw 16 (unat (rflags r)) @ ascii ''                       |'' @ [10]) @
     ascii ''====== Dumping stack ======'' @ concat (map (stack_text mem (rsp r)) [0..<12]) @
     10 # ascii ''==========================='' @ [10]"

lemma render_plain: "37 \<notin> set s \<Longrightarrow> render False s args = Some s"
  by (induction s) auto

lemma render_row:
  "render False (ascii ''| rax = %p | rbx = %p | rcx = %p |'' @ [10]) [VInt a, VInt b, VInt c] = Some (row [(''rax'', a), (''rbx'', b), (''rcx'', c)])"
  "render False (ascii ''| rdx = %p | r8  = %p | r9  = %p |'' @ [10]) [VInt a, VInt b, VInt c] = Some (row [(''rdx'', a), (''r8 '', b), (''r9 '', c)])"
  "render False (ascii ''| r10 = %p | r11 = %p | r12 = %p |'' @ [10]) [VInt a, VInt b, VInt c] = Some (row [(''r10'', a), (''r11'', b), (''r12'', c)])"
  "render False (ascii ''| r13 = %p | r14 = %p | r15 = %p |'' @ [10]) [VInt a, VInt b, VInt c] = Some (row [(''r13'', a), (''r14'', b), (''r15'', c)])"
  "render False (ascii ''| rsi = %p | rdi = %p | rbp = %p |'' @ [10]) [VInt a, VInt b, VInt c] = Some (row [(''rsi'', a), (''rdi'', b), (''rbp'', c)])"
  "render False (ascii ''| rip = %p | ss  = %p | cs  = %p |'' @ [10]) [VInt a, VInt b, VInt c] = Some (row [(''rip'', a), (''ss '', b), (''cs '', c)])"
  "render False (ascii ''| cr0 = %p | cr2 = %p | cr3 = %p |'' @ [10]) [VInt a, VInt b, VInt c] = Some (row [(''cr0'', a), (''cr2'', b), (''cr3'', c)])"
  "render False (ascii ''| cr4 = %p | rflags = %p                       |'' @ [10]) [VInt a, VInt b] =
     Some (ascii ''| cr4 = '' @ hexw 16 (unat a) @ ascii '' | rflags = '' @ hexw 16 (unat b) @ ascii ''                       |'' @ [10])"
  by (simp_all add: row_def conv_text_def)

lemma displays_Cons: "displays s r \<Longrightarrow> displays u (steps rs) \<Longrightarrow> displays (s @ u) (steps (r # rs))"
  using displays_bind [of s r u "steps rs"] by (simp add: displays_def)

lemma displays_color_Cons:
  "c < length fb_color_map \<Longrightarrow> displays u (steps rs) \<Longrightarrow> displays u (steps (fg c # rs))"
  "c < length fb_color_map \<Longrightarrow> displays u (steps rs) \<Longrightarrow> displays u (steps (bg c # rs))"
  using displays_Cons [OF displays_color(1), of c u rs] displays_Cons [OF displays_color(2), of c u rs] by simp_all

lemma displays_Nil: "displays [] (steps [])"
  by (simp add: displays_def)

lemma displays_one: "displays s r \<Longrightarrow> displays s (steps [r])"
  using displays_Cons [OF _ displays_Nil, of s r] by simp

lemma displays_append: "displays s (steps rs) \<Longrightarrow> displays u (steps qs) \<Longrightarrow> displays (s @ u) (steps (rs @ qs))"
  using displays_bind [of s "steps rs" u "steps qs"] by (simp add: displays_def steps_append)

lemma displays_stack:
  assumes "mem (sp + of_nat i * 8) \<noteq> None"
  shows "displays (stack_text mem sp i) (steps (stack_step mem sp i))"
proof -
  let ?a = "sp + of_nat i * 8"
  obtain w where w: "mem ?a = Some w" using assms by auto
  have "render False (ascii ''%p '') [VInt w] = Some (hexw 16 (unat w) @ ascii '' '')"
    and h: "render False (10 # ascii ''%p: '') [VInt ?a] = Some (10 # hexw 16 (unat ?a) @ ascii '': '')"
    by (simp_all add: conv_text_def)
  then have "displays (hexw 16 (unat w) @ ascii '' '') (say (ascii ''%p '') [VInt w])" by (intro displays_say) simp_all
  moreover have "stack_word mem ?a = say (ascii ''%p '') [VInt w]" using w by (simp add: stack_word_def fun_eq_iff)
  moreover have "displays (10 # hexw 16 (unat ?a) @ ascii '': '') (say (10 # ascii ''%p: '') [VInt ?a])"
    using h by (intro displays_say) simp_all
  ultimately have "displays (hexw 16 (unat w) @ ascii '' '') (steps [stack_word mem ?a])"
    "displays ((10 # hexw 16 (unat ?a) @ ascii '': '') @ (hexw 16 (unat w) @ ascii '' ''))
       (steps [say (10 # ascii ''%p: '') [VInt ?a], stack_word mem ?a])"
    by (simp_all only: displays_one displays_Cons)
  then show ?thesis using w by (simp add: stack_text_def stack_step_def)
qed

lemma displays_stacks:
  "(\<And>i. i \<in> set is \<Longrightarrow> mem (sp + of_nat i * 8) \<noteq> None) \<Longrightarrow>
   displays (concat (map (stack_text mem sp) is)) (steps (concat (map (stack_step mem sp) is)))"
proof (induction "is")
  case (Cons i js)
  then show ?case using displays_append [OF displays_stack [of mem sp i] Cons.IH] by simp
qed (simp add: displays_Nil)

lemma core_dump_displays:
  assumes "\<And>i. i < 12 \<Longrightarrow> mem (rsp r + of_nat i * 8) \<noteq> None"
  shows "displays (dump_text is_local cr mem r) (core_dump is_local cr mem r)"
proof -
  have c: "VIDEO_COLOR_BLACK < length fb_color_map" "VIDEO_COLOR_WHITE < length fb_color_map" "VIDEO_COLOR_LIGHT_RED < length fb_color_map"
    by (simp_all add: fb_color_map_def)
  have plain: "displays s (say s [])" if "37 \<notin> set s" "0 \<notin> set s" for s
    using that by (intro displays_say render_plain)
  have rip: "displays (if is_local then [] else row [(''rip'', rip r), (''ss '', ss r), (''cs '', cs r)])
      (steps (if is_local then [] else [say (ascii ''| rip = %p | ss  = %p | cs  = %p |'' @ [10]) [VInt (rip r), VInt (ss r), VInt (cs r)]]))"
    using displays_one [OF displays_say [OF _ render_row(6), of "rip r" "ss r" "cs r"]] by (simp add: displays_Nil)
  show ?thesis unfolding core_dump_def dump_text_def append_Cons append_Nil
    by (intro displays_color_Cons c displays_append rip displays_stacks displays_Cons displays_one plain displays_say render_row)
      (use assms in auto)
qed

lemma steps_fault: "(\<And>out. r out = None) \<Longrightarrow> r \<in> set rs \<Longrightarrow> steps rs out = None"
  by (induction rs arbitrary: out) (auto split: Option.bind_split)

lemma panic_displays:
  assumes "0 \<notin> set func" and "0 \<notin> set fmt" and "render False fmt args = Some s"
  shows "displays (ascii ''PANIC at '' @ func @ ascii '': '' @ s @ [10] @
      ascii ''Kernel crashed, there is no way to recover, you should reboot'' @ [10]) (panic_with r (func @ [0]) (fmt @ [0]) args)"
proof -
  have c: "VIDEO_COLOR_BLACK < length fb_color_map" "VIDEO_COLOR_WHITE < length fb_color_map" "VIDEO_COLOR_LIGHT_RED < length fb_color_map"
      "VIDEO_COLOR_RED < length fb_color_map"
    by (simp_all add: fb_color_map_def)
  have plain: "displays t (say t [])" if "37 \<notin> set t" "0 \<notin> set t" for t
    using that by (intro displays_say render_plain)
  have "takeWhile (\<lambda>c. c \<noteq> 0) (func @ [0]) = func" using assms(1) by (subst takeWhile_append2) auto
  then have at: "displays (ascii '' at '' @ func @ ascii '': '') (say (ascii '' at %s: '') [VPtr (Some (func @ [0]))])"
    by (intro displays_say) (simp_all add: conv_text_def)
  have "displays (ascii ''PANIC'' @ (ascii '' at '' @ func @ ascii '': '') @ s @ [10] @
      (ascii ''Kernel crashed, there is no way to recover, you should reboot'' @ [10])) (panic_with r (func @ [0]) (fmt @ [0]) args)"
    unfolding panic_with_def
    by (intro displays_color_Cons c displays_Cons displays_one plain at prints_displays vprintf_render assms) simp_all
  then show ?thesis by simp
qed

section \<open>Properties\<close>

text \<open>
  C37. A panic is always seen: whatever the console shows, the name of the function, the message and the
  notice are printed on the screen and sent on the wire, and the video driver takes them without leaving the screen, if the
  arguments of the message fit its format.
\<close>

theorem panic_reaches_screen:
  assumes "0 \<notin> set func" and "0 \<notin> set fmt" and "render False fmt args = Some s" and "fb_inv (video_fb v)" and "1 < n"
  shows "\<exists>ev v'. panic_with r (func @ [0]) (fmt @ [0]) args [] = Some ev \<and>
    screen_text ev = ascii ''PANIC at '' @ func @ ascii '': '' @ s @ [10] @
      ascii ''Kernel crashed, there is no way to recover, you should reboot'' @ [10] \<and>
    wire_text ev = screen_text ev \<and> video_run n ev v = Some v' \<and> fb_inv (video_fb v')"
proof -
  obtain ev where ev: "panic_with r (func @ [0]) (fmt @ [0]) args [] = Some ev"
      "screen_text ev = ascii ''PANIC at '' @ func @ ascii '': '' @ s @ [10] @
        ascii ''Kernel crashed, there is no way to recover, you should reboot'' @ [10]"
      "wire_text ev = screen_text ev" "\<forall>e \<in> set ev. ev_ok e"
    using panic_displays [OF assms(1-3), of r, unfolded displays_def, THEN spec, of "[]"] by auto
  then show ?thesis using video_run_inv [OF ev(4) assms(4,5)] by blast
qed

theorem panic_reaches_screen_witness:
  "\<exists>ev v'. panic_with regs_zero (ascii ''entry'' @ [0]) (ascii ''no root'' @ [0]) [] [] = Some ev \<and>
    take 22 (screen_text ev) = ascii ''PANIC at entry: no roo'' \<and> video_run 2 ev \<lparr>video_current = True, video_fb = small_screen\<rparr> = Some v'"
proof -
  have "render False (ascii ''no root'') [] = Some (ascii ''no root'')" by (rule render_plain) simp
  from panic_reaches_screen [OF _ _ this, where func = "ascii ''entry''" and v = "\<lparr>video_current = True, video_fb = small_screen\<rparr>" and n = 2 and r = regs_zero]
  show ?thesis using small_screen_inv by auto
qed

text \<open>
  The dump is complete or it faults: if the twelve words above the stack pointer are mapped, it shows every register and
  these words; if one of them is not, the dump itself raises a page fault.
\<close>

theorem core_dump_complete:
  "if \<exists>i < 12. mem (rsp r + of_nat i * 8) = None then core_dump is_local cr mem r out = None
   else \<exists>ev. core_dump is_local cr mem r out = Some (out @ ev) \<and> screen_text ev = dump_text is_local cr mem r \<and>
     wire_text ev = dump_text is_local cr mem r"
proof (cases "\<exists>i < 12. mem (rsp r + of_nat i * 8) = None")
  case True
  then obtain i where i: "i < 12" "mem (rsp r + of_nat i * 8) = None" by blast
  have "stack_word mem (rsp r + of_nat i * 8) \<in> set (concat (map (stack_step mem (rsp r)) [0..<12]))"
    using i(1) by (auto simp: stack_step_def simp del: upt_rec_numeral)
  moreover have "stack_word mem (rsp r + of_nat i * 8) o2 = None" for o2 using i(2) by (simp add: stack_word_def)
  ultimately have "core_dump is_local cr mem r out = None"
    unfolding core_dump_def by (intro steps_fault [of "stack_word mem (rsp r + of_nat i * 8)"]) (simp_all only: set_append Un_iff simp_thms)
  then show ?thesis using True by simp
next
  case False
  then show ?thesis using core_dump_displays [of mem r is_local cr] unfolding displays_def by auto
qed

end
