(* ===== verification/Slibc.thy ===== *)
theory Slibc
  imports Task
begin

text \<open>
  The system call interface from the user's side: the functions of \<^verbatim>\<open>user/slibc/sys.c\<close>, the stub \<^verbatim>\<open>syscall\<close> of
  \<^verbatim>\<open>user/slibc/sys.S\<close> they call, the search of the table of \<^verbatim>\<open>kernel/syscall/calls.c\<close> by \<^verbatim>\<open>sys_handler\<close> in
  \<^verbatim>\<open>kernel/syscall/syscall.S\<close>, and the registers its handler starts with. What the processor does for the instruction is
  written out: the return address goes to \<open>rcx\<close> and the flags to \<open>r11\<close>.
\<close>

section \<open>The kernel's table\<close>

datatype sys_func = SYS_EXIT | SYS_FORK | SYS_EXEC | SYS_WAIT | SYS_OPEN | SYS_CLOSE | SYS_READ | SYS_WRITE | SYS_MOUNT | SYS_UMOUNT

record syscall_entry =
  code :: u64
  sfunc :: "sys_func option"

definition syscalls :: "syscall_entry list" where
  "syscalls =
     [\<lparr>code = 0, sfunc = Some SYS_EXIT\<rparr>, \<lparr>code = 1, sfunc = Some SYS_FORK\<rparr>, \<lparr>code = 2, sfunc = Some SYS_EXEC\<rparr>,
      \<lparr>code = 3, sfunc = Some SYS_WAIT\<rparr>, \<lparr>code = 4, sfunc = Some SYS_OPEN\<rparr>, \<lparr>code = 5, sfunc = Some SYS_CLOSE\<rparr>,
      \<lparr>code = 6, sfunc = Some SYS_READ\<rparr>, \<lparr>code = 7, sfunc = Some SYS_WRITE\<rparr>, \<lparr>code = 8, sfunc = Some SYS_MOUNT\<rparr>,
      \<lparr>code = 9, sfunc = Some SYS_UMOUNT\<rparr>, \<lparr>code = 0, sfunc = None\<rparr>]"

text \<open>The loop of the handler: it ends at the entry without a function. \<open>None\<close> is the result \<^verbatim>\<open>-ENOSYS\<close>.\<close>

fun check_call :: "u64 \<Rightarrow> syscall_entry list \<Rightarrow> sys_func option" where
  "check_call n [] = None"
| "check_call n (e # es) = (case sfunc e of None \<Rightarrow> None | Some g \<Rightarrow> if code e = n then Some g else check_call n es)"

text \<open>
  The number and the arguments are kept in \<open>r8\<close> and in \<open>r12\<close>, \<open>r11\<close>, \<open>r10\<close> and \<open>r9\<close> over the call of \<^verbatim>\<open>task_stack_get\<close>, which
  is taken to leave them alone, and the arguments are given to the function in \<open>rdi\<close>, \<open>rsi\<close>, \<open>rdx\<close> and \<open>rcx\<close>.
\<close>

definition sys_handler :: "task_regs \<Rightarrow> (sys_func \<times> u64 list) option" where
  "sys_handler r = map_option (\<lambda>g. (g, [rdi r, rsi r, rdx r, rcx r])) (check_call (rax r) syscalls)"

definition syscall_insn :: "u64 \<Rightarrow> task_regs \<Rightarrow> task_regs" where
  "syscall_insn ret r = r\<lparr>rcx := ret, r11 := rflags r\<rparr>"

section \<open>The library\<close>

text \<open>The arguments of a call of \<^verbatim>\<open>syscall\<close>, in the registers of the calling convention, and the stub.\<close>

fun c_args :: "u64 list \<Rightarrow> task_regs \<Rightarrow> task_regs" where
  "c_args [] r = r"
| "c_args [a] r = r\<lparr>rdi := a\<rparr>"
| "c_args [a, b] r = r\<lparr>rdi := a, rsi := b\<rparr>"
| "c_args [a, b, c] r = r\<lparr>rdi := a, rsi := b, rdx := c\<rparr>"
| "c_args [a, b, c, d] r = r\<lparr>rdi := a, rsi := b, rdx := c, rcx := d\<rparr>"
| "c_args (a # b # c # d # e # _) r = r\<lparr>rdi := a, rsi := b, rdx := c, rcx := d, r8 := e\<rparr>"

definition syscall_moves :: "task_regs \<Rightarrow> task_regs" where
  "syscall_moves r0 =
     (let r1 = r0\<lparr>rax := rdi r0\<rparr>; r2 = r1\<lparr>rdi := rsi r1\<rparr>; r3 = r2\<lparr>rsi := rdx r2\<rparr>; r4 = r3\<lparr>rdx := rcx r3\<rparr> in r4\<lparr>rcx := r8 r4\<rparr>)"

text \<open>A call of \<^verbatim>\<open>syscall\<close> from registers \<open>r\<close>; \<open>ret\<close> is the address of the instruction behind it.\<close>

definition syscall :: "u64 list \<Rightarrow> u64 \<Rightarrow> task_regs \<Rightarrow> (sys_func \<times> u64 list) option" where
  "syscall args ret r = sys_handler (syscall_insn ret (syscall_moves (c_args args r)))"

text \<open>The functions give the number and their arguments on; an \<^verbatim>\<open>int\<close> is the low half of its register, the upper half is open.\<close>

definition lib_exit :: "u64 \<Rightarrow> u64 list" where
  "lib_exit c = [0, c]"

definition lib_fork :: "u64 list" where
  "lib_fork = [1]"

definition lib_exec :: "u64 \<Rightarrow> u64 \<Rightarrow> u64 \<Rightarrow> u64 list" where
  "lib_exec path argv envp = [2, path, argv, envp]"

definition lib_wait :: "u64 \<Rightarrow> u64 list" where
  "lib_wait status = [3, status]"

definition lib_open :: "u64 \<Rightarrow> u64 \<Rightarrow> u64 \<Rightarrow> u64 list" where
  "lib_open path flags mode = [4, path, flags, mode]"

definition lib_close :: "u64 \<Rightarrow> u64 list" where
  "lib_close fd = [5, fd]"

definition lib_read :: "u64 \<Rightarrow> u64 \<Rightarrow> u64 \<Rightarrow> u64 list" where
  "lib_read fd buf sz = [6, fd, buf, sz]"

definition lib_write :: "u64 \<Rightarrow> u64 \<Rightarrow> u64 \<Rightarrow> u64 list" where
  "lib_write fd buf sz = [7, fd, buf, sz]"

definition lib_mount :: "u64 \<Rightarrow> u64 \<Rightarrow> u64 \<Rightarrow> u64 \<Rightarrow> u64 list" where
  "lib_mount source target filesystem flags = [8, source, target, filesystem, flags]"

definition lib_umount :: "u64 \<Rightarrow> u64 list" where
  "lib_umount target = [9, target]"

section \<open>Properties\<close>

text \<open>\<open>reaches\<close>: from any registers, the call starts the function \<open>g\<close>, and its first arguments are \<open>args\<close>.\<close>

definition reaches :: "u64 list \<Rightarrow> sys_func \<Rightarrow> u64 list \<Rightarrow> bool" where
  "reaches call g args \<longleftrightarrow> (\<forall>ret r. \<exists>rest. syscall call ret r = Some (g, args @ rest))"

lemma syscall_numbers [simp]:
  "check_call 0 syscalls = Some SYS_EXIT" "check_call 1 syscalls = Some SYS_FORK" "check_call 2 syscalls = Some SYS_EXEC"
  "check_call 3 syscalls = Some SYS_WAIT" "check_call 4 syscalls = Some SYS_OPEN" "check_call 5 syscalls = Some SYS_CLOSE"
  "check_call 6 syscalls = Some SYS_READ" "check_call 7 syscalls = Some SYS_WRITE" "check_call 8 syscalls = Some SYS_MOUNT"
  "check_call 9 syscalls = Some SYS_UMOUNT"
  by (simp_all add: syscalls_def)

lemmas slibc_defs = reaches_def syscall_def sys_handler_def syscall_insn_def syscall_moves_def Let_def



text \<open>
  A fourth argument is lost: the stub puts it into \<open>rcx\<close>, which the instruction overwrites with the return address, so
  that \<^verbatim>\<open>sys_mount\<close> gets an address of the program as its flags.
\<close>

theorem slibc_mount_flags_lost:
  "syscall (lib_mount source target filesystem flags) ret r = Some (SYS_MOUNT, [source, target, filesystem, ret])"
  by (simp add: slibc_defs lib_mount_def)

text \<open>A number that is not in the table, such as 10, is answered with \<^verbatim>\<open>-ENOSYS\<close>.\<close>

theorem sys_handler_unknown: "9 < rax r \<Longrightarrow> sys_handler r = None"
  by (auto simp: sys_handler_def syscalls_def)

theorem sys_handler_unknown_witness: "sys_handler (regs_zero\<lparr>rax := 10\<rparr>) = None"
  by (rule sys_handler_unknown) simp

end
