(* ===== verification/Spec2Isabelle.thy ===== *)
theory Spec2Isabelle
  imports Heap Elf Storage Tty Irq Ps2 Boot Panic Slibc
begin

text \<open>
  \<^bold>\<open>A verification library for the sdx kernel.\<close>

  sdx is a small UNIX-like kernel for x86-64, written in C. This library models the C code of the kernel under
  \<^verbatim>\<open>src/kernel\<close> and of the user library under \<^verbatim>\<open>src/user\<close>, one theory per component, and proves what makes each component correct, or shows where it is not.

  \<^bold>\<open>How the program hangs together.\<close> \<^verbatim>\<open>main.c\<close> initialises the serial ports, the boot information, the virtual and physical memory, the
  console, the interrupts, the scheduler, ACPI, PCI with the AHCI disks, and the keyboard controller; it then mounts the first usable root filesystem and
  executes \<^verbatim>\<open>/init\<close>. The physical memory manager hands out pages, the virtual memory manager maps them through the page tables, and
  the heap cuts its pages into chunks. A task owns a list of memory regions, a descriptor table, signal and wait queues; the scheduler is
  the handler of the timer interrupt. A system call works on the descriptor table of the current task and goes through the virtual filesystem to FAT32
  or to the device filesystem, and from there to a disk partition and the AHCI driver, or to a terminal.

  \<^bold>\<open>Theories and sources.\<close>
  \<^item> \<open>Prelude\<close>: the integer types (\<open>u8\<close> \dots \<open>u64\<close>), error codes, and the lemmas on words and lists that the components share.
  \<^item> \<open>Math_Util\<close>, \<open>Str_Util\<close>, \<open>Klist\<close>: \<^verbatim>\<open>util/math.c\<close>, \<^verbatim>\<open>util/mem.c\<close> and \<^verbatim>\<open>util/string.c\<close>, the list macros of \<^verbatim>\<open>inc/util/list.h\<close>.
    A buffer is a list of bytes, a pointer into it an offset; a linked list is a chain through a function from addresses to addresses.
  \<^item> \<open>Pmm\<close>, \<open>Heap\<close>, \<open>Vmm\<close>, \<open>Region\<close>: \<^verbatim>\<open>mm/\<close>. The bitmap of the page frames, the free list of the heap in word-addressed memory, the
    page tables in physical memory with the recursive mapping the code uses, and the regions of a task with its initial stack.
  \<^item> \<open>Task\<close>, \<open>Sched\<close>: \<^verbatim>\<open>sched/\<close>. Task structures by address, the queue, the timer and exception handlers, fork and exit.
  \<^item> \<open>Disk\<close>, \<open>Ahci\<close>: \<^verbatim>\<open>core/disk/\<close>, \<^verbatim>\<open>core/gpt.c\<close>, \<^verbatim>\<open>core/mbr.c\<close>, \<^verbatim>\<open>core/ahci/\<close>.
  \<^item> \<open>Fs\<close>, \<open>Vfs\<close>, \<open>Timestamp\<close>, \<open>Fat32\<close>, \<open>Elf\<close>: \<^verbatim>\<open>fs/\<close> and \<^verbatim>\<open>util/timestamp.c\<close>. Filesystem operations are records of functions as in the
    code, the tree of nodes is a store of records, and the loader works on the function that reading the file computes.
  \<^item> \<open>Syscall\<close>, \<open>Exec\<close>: \<^verbatim>\<open>syscall/*.c\<close>, over a state that joins the scheduler, the tree, the file objects and, for \<^verbatim>\<open>exec\<close>, the page tables.
  \<^item> \<open>Io\<close>, \<open>Irq\<close>, \<open>Pci\<close>, \<open>Serial\<close>, \<open>Ps2\<close>, \<open>Acpi\<close>: \<^verbatim>\<open>util/io.c\<close>, \<^verbatim>\<open>core/im/im.c\<close>, \<^verbatim>\<open>core/pic.c\<close>, \<^verbatim>\<open>core/pci/\<close>, \<^verbatim>\<open>core/serial.c\<close>, \<^verbatim>\<open>core/ps2/ps2.c\<close>,
    \<^verbatim>\<open>core/acpi/\<close>, \<^verbatim>\<open>boot/multiboot.c\<close>. A port access is an event of a history.
  \<^item> \<open>Fb\<close>, \<open>Printk\<close>, \<open>Tty\<close>: \<^verbatim>\<open>video/\<close>, \<^verbatim>\<open>util/printk.c\<close>, \<^verbatim>\<open>core/tty.c\<close> and \<^verbatim>\<open>util/lock.c\<close>.
  \<^item> \<open>Storage\<close>: the operation table of FAT32, the driver table of the PCI bus, and the path of a file's bytes from the drive to \<^verbatim>\<open>sys_read\<close>.
  \<^item> \<open>Boot\<close>: \<^verbatim>\<open>main.c\<close>, and the cursor. \<open>Panic\<close>: \<^verbatim>\<open>util/panic.c\<close>. \<open>Slibc\<close>: \<^verbatim>\<open>user/slibc/\<close> and the table of \<^verbatim>\<open>syscall/calls.c\<close>.

  \<^bold>\<open>Conventions.\<close> A definition has the name of the function it models, without leading underscores; the loops of a function are definitions
  of their own. Structures are records, machine integers are words of their width and wrap, result codes are
  integers with the error numbers negated. Memory that C shares through pointers is a function from addresses, with \<open>0\<close> for \<^verbatim>\<open>NULL\<close>. What lies
  outside of the C code is an argument: the devices behind ports and registers (what they read after the accesses so far), the
  addresses \<^verbatim>\<open>heap_alloc\<close> returns to the components above the heap, the pages \<^verbatim>\<open>vmm_map\<close> gives to the heap, offsets set by the assembly code. \<open>None\<close> stands for a run that
  does not come back to its caller: a panic, a null or dangling pointer, an access out of bounds, or a loop that takes more than its fuel.
  Logging has no effect.

  \<^bold>\<open>Fuel.\<close> Loops over linked structures and waiting loops take a bound. The theorems that speak of them say which bound is enough: the length
  of the list (scheduler, regions, heap), the depth of the tree (virtual filesystem), one round for a file of one cluster (FAT32), the number of polls after which the device answers
  (serial, PS/2, AHCI); loops that always end carry a termination proof and no fuel.

  \<^bold>\<open>What the lemmas show.\<close>
  \<^item> Memory: the physical and heap allocators are first-fit, never hand out what is in use and get back what they gave; a mapped page translates the way the
    processor walks the tables; the search for free virtual pages ends with the first run that fits.
  \<^item> Tasks: every state the scheduler reaches has a well-formed queue with a living head; picking is round-robin; a fork gives two tasks
    one number; registers and stacks of a new program are as laid out.
  \<^item> Disks and files: reads return the bytes of the disk across sectors; partition counts are exact; long names, timestamps, paths and node references round-trip; the
    descriptor table stays well-formed under any sequence of calls; sequential reads return the file; a read of the AHCI driver delivers the sectors asked for and leaves the port ready for the next one, so that
    reading a disk at any offset, and a file through \<^verbatim>\<open>sys_read\<close>, gives the bytes of the drive.
  \<^item> Devices: text never leaves the screen and reaches the wire unchanged; formatted output is the text it denotes; interrupt handlers run in the order of
    priority; the PCI list is the configuration space; set-up sequences end within their bounds.
  \<^item> Boot and end: the AHCI driver is started for the SATA controllers of the bus; a panic is always seen; the library and the kernel agree on the
    numbers and the arguments of the calls; the root filesystem is the first usable one; \<^verbatim>\<open>exec\<close> enters the program, and a failing \<^verbatim>\<open>exec\<close> never reports.

  \<^bold>\<open>Interfaces.\<close> A contract between components is a locale: \<open>node_list\<close> (\<open>Klist\<close>) for linked lists as their clients see them, \<open>page_allocator\<close> (\<open>Pmm\<close>) and
  \<open>block_allocator\<close> (\<open>Heap\<close>) for memory, \<open>handler_table\<close> (\<open>Irq\<close>) for interrupt handlers, \<open>file_system\<close> (\<open>Fs\<close>) for name lookup and \<open>sector_reader\<close> (\<open>Disk\<close>) for what the disks need of a
  controller, provided by the AHCI driver over a drive that is ready (\<open>Ahci\<close>). Each is
  interpreted on the definitions of the component that provides it. The collection \<open>kernel_inv\<close> carries preservation lemmas
  into the automation, \<open>kernel_simps\<close> the unfoldings.

  \<^bold>\<open>Not modelled.\<close> Assembly code (boot, descriptor tables, the saving of registers at interrupts and system calls) and the translation cache;
  \<^verbatim>\<open>charlist_free\<close>, which only frees heap blocks; the tags of \<^verbatim>\<open>boot/multiboot.h\<close> that nothing reads; the first user program, which is empty. Interrupts are handled
  between operations, not inside them, and a drive completes its commands. Two results are restricted by what the code does: reads of a file that
  crosses a cluster are addressed wrongly, so the path from the drive to the program is proved for files of one cluster, and a transfer has at most 65535 sectors and 32 MiB,
  since the driver cuts a longer count and runs over its descriptors.
\<close>

end
